(* ===== verification/Rust_Prelude.thy ===== *)
theory Rust_Prelude
  imports Main "HOL-Library.Char_ord" "HOL-Library.List_Lexorder"
begin

text \<open>
  The vocabulary shared by all component theories: what the sources use of the Rust
  language and its standard library.

  A Rust \<^verbatim>\<open>String\<close> or \<^verbatim>\<open>&str\<close> is modelled by its UTF-8 bytes, as a HOL
  \<^typ>\<open>string\<close> (a HOL \<^typ>\<open>char\<close> is one byte): \<^verbatim>\<open>len()\<close> is \<open>length\<close>, the byte order
  of \<^verbatim>\<open>Ord for str\<close> is the lexicographic list order, and operations that work on Unicode
  scalar values (\<^verbatim>\<open>chars()\<close>, \<^verbatim>\<open>trim()\<close>) go through \<open>utf8_chars\<close>, which groups the bytes
  of one scalar value.  A \<^verbatim>\<open>BTreeMap\<close> is the list of its entries in key order.  A
  \<^verbatim>\<open>Result<T, E>\<close> is \<open>'e + 't\<close> with \<open>Inl\<close> for \<^verbatim>\<open>Err\<close>.
\<close>

named_theorems rust_simps \<open>evaluation rules of the string and map vocabulary\<close>
named_theorems store_defs \<open>definitions of the store's statements\<close>

section \<open>Results\<close>

text \<open>Whether a \<^verbatim>\<open>Result\<close> is \<^verbatim>\<open>Ok\<close>; \<open>rbind\<close> is the question-mark operator.\<close>

definition is_ok :: "'e + 'a \<Rightarrow> bool" where
  "is_ok r = (case r of Inl _ \<Rightarrow> False | Inr _ \<Rightarrow> True)"

definition rbind :: "'e + 'a \<Rightarrow> ('a \<Rightarrow> 'e + 'b) \<Rightarrow> 'e + 'b" where
  "rbind r f = (case r of Inl e \<Rightarrow> Inl e | Inr x \<Rightarrow> f x)"

lemma is_ok_simps [simp]: "\<not> is_ok (Inl e)" "is_ok (Inr x)"
  by (simp_all add: is_ok_def)

lemma rbind_simps [simp]: "rbind (Inl e) f = Inl e" "rbind (Inr x) f = f x"
  by (simp_all add: rbind_def)

lemma rbind_eq_Inr: "rbind r f = Inr y \<longleftrightarrow> (\<exists>x. r = Inr x \<and> f x = Inr y)"
  by (cases r) simp_all

lemma rbind_eq_Inl: "rbind r f = Inl e \<longleftrightarrow> r = Inl e \<or> (\<exists>x. r = Inr x \<and> f x = Inl e)"
  by (cases r) simp_all

lemma rbind_unit_Inr: "rbind (r :: 'e + unit) f = Inr y \<longleftrightarrow> r = Inr () \<and> f () = Inr y"
  by (cases r) simp_all

lemma rbind_unit_Inl: "rbind (r :: 'e + unit) f = Inl e \<longleftrightarrow> r = Inl e \<or> r = Inr () \<and> f () = Inl e"
  by (cases r) simp_all

lemmas rbind_iffs = rbind_unit_Inr rbind_unit_Inl rbind_eq_Inr rbind_eq_Inl

lemma ex_nat_0_Suc: "(\<exists>n. P n) \<longleftrightarrow> P 0 \<or> (\<exists>n. P (Suc n))"
  by (metis not0_implies_Suc)

lemma strict_sorted_Cons2:
  "sorted_wrt (<) (a # b # xs) \<longleftrightarrow> a < b \<and> sorted_wrt (<) (b # (xs :: 'a::linorder list))"
  by (auto intro: less_trans)

section \<open>Machine integers\<close>

text \<open>Bounds of the 64-bit and 32-bit types and the saturating operations on \<^verbatim>\<open>usize\<close>.\<close>

definition usize_max :: nat where "usize_max = 2 ^ 64 - 1"
definition u64_max :: nat where "u64_max = 2 ^ 64 - 1"
definition u32_max :: nat where "u32_max = 2 ^ 32 - 1"
definition i64_max :: int where "i64_max = 2 ^ 63 - 1"
definition i64_min :: int where "i64_min = - (2 ^ 63)"

lemmas int_bounds = usize_max_def u64_max_def u32_max_def i64_max_def i64_min_def

definition sat_add :: "nat \<Rightarrow> nat \<Rightarrow> nat" where
  "sat_add a b = min (a + b) usize_max"

definition clamp_nat :: "nat \<Rightarrow> nat \<Rightarrow> nat \<Rightarrow> nat" where
  "clamp_nat x lo hi = (if x < lo then lo else if hi < x then hi else x)"

lemma clamp_nat_bounds: "lo \<le> hi \<Longrightarrow> lo \<le> clamp_nat x lo hi \<and> clamp_nat x lo hi \<le> hi"
  by (simp add: clamp_nat_def)

lemma sat_add_le: "sat_add a b \<le> a + b"
  by (simp add: sat_add_def)

section \<open>Substrings\<close>

definition starts_with :: "'a list \<Rightarrow> 'a list \<Rightarrow> bool" where
  "starts_with s p = (take (length p) s = p)"

definition ends_with :: "'a list \<Rightarrow> 'a list \<Rightarrow> bool" where
  "ends_with s p = (length p \<le> length s \<and> drop (length s - length p) s = p)"

definition strip_prefix :: "'a list \<Rightarrow> 'a list \<Rightarrow> 'a list option" where
  "strip_prefix s p = (if starts_with s p then Some (drop (length p) s) else None)"

definition strip_suffix :: "'a list \<Rightarrow> 'a list \<Rightarrow> 'a list option" where
  "strip_suffix s p = (if ends_with s p then Some (take (length s - length p) s) else None)"

text \<open>\<open>find_sub s p\<close> is \<^verbatim>\<open>s.find(p)\<close>: the first byte offset at which \<open>p\<close> occurs.\<close>

fun find_sub :: "'a list \<Rightarrow> 'a list \<Rightarrow> nat option" where
  "find_sub [] p = (if p = [] then Some 0 else None)"
| "find_sub (x # xs) p =
     (if starts_with (x # xs) p then Some 0 else map_option Suc (find_sub xs p))"

definition contains_sub :: "'a list \<Rightarrow> 'a list \<Rightarrow> bool" where
  "contains_sub s p = (find_sub s p \<noteq> None)"

definition split_once :: "'a list \<Rightarrow> 'a list \<Rightarrow> ('a list \<times> 'a list) option" where
  "split_once s p = map_option (\<lambda>i. (take i s, drop (i + length p) s)) (find_sub s p)"

text \<open>\<^verbatim>\<open>s.rsplit_once(c)\<close> for a one-byte pattern.\<close>

definition rsplit_once :: "'a list \<Rightarrow> 'a \<Rightarrow> ('a list \<times> 'a list) option" where
  "rsplit_once s c =
     map_option (\<lambda>(a, b). (rev b, rev a)) (split_once (rev s) [c])"

text \<open>\<^verbatim>\<open>s.split(c)\<close> for a one-byte pattern; the empty string has one (empty) part.\<close>

fun split_char :: "'a \<Rightarrow> 'a list \<Rightarrow> 'a list list" where
  "split_char c [] = [[]]"
| "split_char c (x # xs) =
     (if x = c then [] # split_char c xs
      else (case split_char c xs of [] \<Rightarrow> [[x]] | p # ps \<Rightarrow> (x # p) # ps))"

fun join :: "'a list \<Rightarrow> 'a list list \<Rightarrow> 'a list" where
  "join sep [] = []"
| "join sep [x] = x"
| "join sep (x # y # ys) = x @ sep @ join sep (y # ys)"

text \<open>\<^verbatim>\<open>s.replace(a, b)\<close> where both patterns are one byte long.\<close>

definition replace_char :: "'a \<Rightarrow> 'a \<Rightarrow> 'a list \<Rightarrow> 'a list" where
  "replace_char a b s = map (\<lambda>x. if x = a then b else x) s"

lemma starts_with_append [simp]: "starts_with (p @ s) p"
  by (simp add: starts_with_def)

lemma starts_with_iff: "starts_with s p \<longleftrightarrow> (\<exists>t. s = p @ t)"
  by (metis append_eq_conv_conj append_take_drop_id starts_with_def)

lemma starts_with_Nil [simp]: "starts_with s []"
  by (simp add: starts_with_def)

lemma strip_prefix_Some: "strip_prefix s p = Some t \<longleftrightarrow> s = p @ t"
  by (auto simp: strip_prefix_def starts_with_iff)

lemma ends_with_iff: "ends_with s p \<longleftrightarrow> (\<exists>t. s = t @ p)"
  by (auto simp: ends_with_def) (metis append_take_drop_id)

lemma strip_suffix_Some: "strip_suffix s p = Some t \<longleftrightarrow> s = t @ p"
  by (auto simp: strip_suffix_def ends_with_iff)

lemma split_char_not_Nil [simp]: "split_char c s \<noteq> []"
  by (induction s) (auto split: list.splits)

lemma split_char_no_sep: "p \<in> set (split_char c s) \<Longrightarrow> c \<notin> set p"
  by (induction s arbitrary: p) (auto split: list.splits if_splits)

lemma join_Cons: "join sep (x # xs) = (if xs = [] then x else x @ sep @ join sep xs)"
  by (cases xs) simp_all

lemma join_split_char: "join [c] (split_char c s) = s"
proof (induction s)
  case (Cons x xs)
  show ?case
  proof (cases "split_char c xs")
    case (Cons p ps)
    with \<open>join [c] (split_char c xs) = xs\<close> show ?thesis
      by (auto simp: join_Cons)
  qed simp
qed simp

lemma split_char_append_sep:
  "c \<notin> set p \<Longrightarrow> split_char c (p @ c # s) = p # split_char c s"
  by (induction p) auto

lemma split_char_single: "c \<notin> set p \<Longrightarrow> split_char c p = [p]"
  by (induction p) auto

lemma split_char_join:
  "\<lbrakk>ps \<noteq> []; \<And>p. p \<in> set ps \<Longrightarrow> c \<notin> set p\<rbrakk> \<Longrightarrow> split_char c (join [c] ps) = ps"
  by (induction ps rule: induct_list012) (simp_all add: split_char_append_sep split_char_single)

lemma length_replace_char [simp]: "length (replace_char a b s) = length s"
  by (simp add: replace_char_def)

lemma replace_char_idem: "a \<noteq> b \<Longrightarrow> replace_char a b (replace_char a b s) = replace_char a b s"
  by (simp add: replace_char_def)

lemma replace_char_notin: "a \<noteq> b \<Longrightarrow> a \<notin> set (replace_char a b s)"
  by (auto simp: replace_char_def)

lemma replace_char_id: "a \<notin> set s \<Longrightarrow> replace_char a b s = s"
  by (auto simp: replace_char_def intro: map_idI)

lemma find_sub_Some_bound: "find_sub s p = Some i \<Longrightarrow> i + length p \<le> length s"
proof (induction s arbitrary: i)
  case (Cons x xs)
  then show ?case
  proof (cases "starts_with (x # xs) p")
    case True
    then have "length p \<le> length (x # xs)"
      by (auto simp: starts_with_iff dest: arg_cong [where f = length])
    with True Cons.prems show ?thesis by simp
  qed auto
qed (simp split: if_splits)

lemma find_sub_Some_take: "find_sub s p = Some i \<Longrightarrow> s = take i s @ p @ drop (i + length p) s"
proof (induction s arbitrary: i)
  case (Cons x xs)
  then show ?case
    by (cases "starts_with (x # xs) p") (auto simp: starts_with_iff)
qed (simp split: if_splits)

lemma split_once_Some: "split_once s p = Some (a, b) \<Longrightarrow> s = a @ p @ b"
  using find_sub_Some_take by (fastforce simp: split_once_def)

lemma contains_sub_iff: "contains_sub v p \<longleftrightarrow> (\<exists>s t. v = s @ p @ t)"
proof
  assume "contains_sub v p"
  then obtain i where "find_sub v p = Some i" by (auto simp: contains_sub_def)
  then show "\<exists>s t. v = s @ p @ t" using find_sub_Some_take by blast
next
  assume "\<exists>s t. v = s @ p @ t"
  then obtain s t where v: "v = s @ p @ t" by blast
  have "find_sub (s @ p @ t) p \<noteq> None"
  proof (induction s)
    case Nil
    show ?case using starts_with_append [of p t] by (cases "p @ t") auto
  qed (simp split: option.split)
  then show "contains_sub v p" by (simp add: contains_sub_def v)
qed

section \<open>Unicode scalar values\<close>

definition byte_of :: "char \<Rightarrow> nat" where
  "byte_of c = of_char c"

definition utf8_continuation :: "char \<Rightarrow> bool" where
  "utf8_continuation c = (128 \<le> byte_of c \<and> byte_of c < 192)"

text \<open>The bytes of each scalar value: a continuation byte belongs to the value before it.\<close>

fun utf8_chars :: "string \<Rightarrow> string list" where
  "utf8_chars [] = []"
| "utf8_chars (b # bs) =
     (case utf8_chars bs of
        [] \<Rightarrow> [[b]]
      | g # gs \<Rightarrow> if utf8_continuation (hd g) then (b # g) # gs else [b] # g # gs)"

lemma concat_utf8_chars [simp]: "concat (utf8_chars s) = s"
proof (induction s)
  case (Cons b bs)
  then show ?case by (cases "utf8_chars bs") auto
qed simp

lemma utf8_chars_nonempty: "g \<in> set (utf8_chars s) \<Longrightarrow> g \<noteq> []"
  by (induction s arbitrary: g) (auto split: list.splits if_splits)

text \<open>\<^verbatim>\<open>char::is_control\<close>: U+0000..U+001F, U+007F and U+0080..U+009F.\<close>

definition is_control :: "string \<Rightarrow> bool" where
  "is_control g = (case map byte_of g of
      [a] \<Rightarrow> a < 32 \<or> a = 127
    | [a, b] \<Rightarrow> a = 194 \<and> 128 \<le> b \<and> b < 160
    | _ \<Rightarrow> False)"

text \<open>\<^verbatim>\<open>char::is_whitespace\<close>: the Unicode property \<open>White_Space\<close>, by UTF-8 encoding.\<close>

definition is_whitespace :: "string \<Rightarrow> bool" where
  "is_whitespace g = (case map byte_of g of
      [a] \<Rightarrow> (9 \<le> a \<and> a \<le> 13) \<or> a = 32
    | [a, b] \<Rightarrow> a = 194 \<and> (b = 133 \<or> b = 160)
    | [a, b, c] \<Rightarrow>
        (a = 225 \<and> b = 154 \<and> c = 128)
        \<or> (a = 226 \<and> b = 128 \<and> ((128 \<le> c \<and> c \<le> 138) \<or> c = 168 \<or> c = 169 \<or> c = 175))
        \<or> (a = 226 \<and> b = 129 \<and> c = 159)
        \<or> (a = 227 \<and> b = 128 \<and> c = 128)
    | _ \<Rightarrow> False)"

definition trim_start_by :: "(string \<Rightarrow> bool) \<Rightarrow> string \<Rightarrow> string" where
  "trim_start_by P s = concat (dropWhile P (utf8_chars s))"

definition trim_end_by :: "(string \<Rightarrow> bool) \<Rightarrow> string \<Rightarrow> string" where
  "trim_end_by P s = concat (rev (dropWhile P (rev (utf8_chars s))))"

definition trim_by :: "(string \<Rightarrow> bool) \<Rightarrow> string \<Rightarrow> string" where
  "trim_by P s = trim_end_by P (trim_start_by P s)"

abbreviation trim :: "string \<Rightarrow> string" where "trim \<equiv> trim_by is_whitespace"
abbreviation trim_start :: "string \<Rightarrow> string" where "trim_start \<equiv> trim_start_by is_whitespace"
abbreviation trim_end :: "string \<Rightarrow> string" where "trim_end \<equiv> trim_end_by is_whitespace"

text \<open>\<^verbatim>\<open>s.chars().take(n).collect()\<close> and \<^verbatim>\<open>s.chars().count()\<close>.\<close>

definition chars_take :: "nat \<Rightarrow> string \<Rightarrow> string" where
  "chars_take n s = concat (take n (utf8_chars s))"

definition chars_count :: "string \<Rightarrow> nat" where
  "chars_count s = length (utf8_chars s)"

definition is_ascii_alphanumeric :: "char \<Rightarrow> bool" where
  "is_ascii_alphanumeric c =
     (let b = byte_of c in (48 \<le> b \<and> b \<le> 57) \<or> (65 \<le> b \<and> b \<le> 90) \<or> (97 \<le> b \<and> b \<le> 122))"

definition to_ascii_lower :: "char \<Rightarrow> char" where
  "to_ascii_lower c = (if 65 \<le> byte_of c \<and> byte_of c \<le> 90 then char_of (byte_of c + 32) else c)"

abbreviation LF :: char where "LF \<equiv> CHR 0x0A"
abbreviation CR :: char where "CR \<equiv> CHR 0x0D"
abbreviation TAB :: char where "TAB \<equiv> CHR 0x09"
abbreviation NUL :: char where "NUL \<equiv> CHR 0x00"
abbreviation BACKSLASH :: char where "BACKSLASH \<equiv> CHR 0x5C"
abbreviation SLASH :: char where "SLASH \<equiv> CHR 0x2F"

text \<open>\<^verbatim>\<open>str::lines\<close>: a final line without a newline is kept as it is, a terminated line loses
  its newline and one carriage return before it.\<close>

definition strip_cr :: "string \<Rightarrow> string" where
  "strip_cr l = (case strip_suffix l [CR] of Some l' \<Rightarrow> l' | None \<Rightarrow> l)"

definition lines :: "string \<Rightarrow> string list" where
  "lines s = (let ps = split_char LF s in
     map strip_cr (butlast ps) @ (if last ps = [] then [] else [last ps]))"

text \<open>\<^verbatim>\<open>str::split_whitespace\<close>.\<close>

fun split_ws :: "string list \<Rightarrow> string list" where
  "split_ws [] = [[]]"
| "split_ws (g # gs) =
     (if is_whitespace g then [] # split_ws gs
      else (case split_ws gs of [] \<Rightarrow> [g] | p # ps \<Rightarrow> (g @ p) # ps))"

definition split_whitespace :: "string \<Rightarrow> string list" where
  "split_whitespace s = filter (\<lambda>p. p \<noteq> []) (split_ws (utf8_chars s))"

text \<open>Well-formed UTF-8 (\<^verbatim>\<open>std::str::from_utf8(bytes).is_ok()\<close>).\<close>

definition between_bytes :: "nat \<Rightarrow> nat \<Rightarrow> char \<Rightarrow> bool" where
  "between_bytes lo hi c = (lo \<le> byte_of c \<and> byte_of c \<le> hi)"

fun utf8_valid :: "string \<Rightarrow> bool" where
  "utf8_valid [] = True"
| "utf8_valid [a] = (byte_of a < 128)"
| "utf8_valid [a, b] =
     (if byte_of a < 128 then utf8_valid [b]
      else between_bytes 194 223 a \<and> between_bytes 128 191 b)"
| "utf8_valid [a, b, c] =
     (if byte_of a < 128 then utf8_valid [b, c]
      else if between_bytes 194 223 a then between_bytes 128 191 b \<and> utf8_valid [c]
      else between_bytes 128 191 c
        \<and> (if byte_of a = 224 then between_bytes 160 191 b
           else if byte_of a = 237 then between_bytes 128 159 b
           else between_bytes 225 239 a \<and> between_bytes 128 191 b))"
| "utf8_valid (a # b # c # d # s) =
     (if byte_of a < 128 then utf8_valid (b # c # d # s)
      else if between_bytes 194 223 a then between_bytes 128 191 b \<and> utf8_valid (c # d # s)
      else if between_bytes 224 239 a then
        between_bytes 128 191 c
        \<and> (if byte_of a = 224 then between_bytes 160 191 b
           else if byte_of a = 237 then between_bytes 128 159 b
           else between_bytes 128 191 b)
        \<and> utf8_valid (d # s)
      else between_bytes 240 244 a \<and> between_bytes 128 191 c \<and> between_bytes 128 191 d
        \<and> (if byte_of a = 240 then between_bytes 144 191 b
           else if byte_of a = 244 then between_bytes 128 143 b
           else between_bytes 128 191 b)
        \<and> utf8_valid s)"

section \<open>Texts as lists of scalar values\<close>

lemma utf8_chars_Cons_hd: "\<exists>g gs. utf8_chars (b # bs) = (b # g) # gs"
  by (cases "utf8_chars bs") auto

lemma utf8_chars_group:
  assumes "list_all utf8_continuation cs" "rest = [] \<or> \<not> utf8_continuation (hd rest)"
  shows "utf8_chars (b # cs @ rest) = (b # cs) # utf8_chars rest"
  using assms(1)
proof (induction cs arbitrary: b)
  case Nil
  show ?case
  proof (cases rest)
    case (Cons x xs)
    with assms(2) show ?thesis using utf8_chars_Cons_hd [of x xs] by auto
  qed simp
qed simp

definition well_grouped :: "string list \<Rightarrow> bool" where
  "well_grouped gs = ((\<forall>g \<in> set gs. g \<noteq> [] \<and> list_all utf8_continuation (tl g))
     \<and> (\<forall>g \<in> set (tl gs). \<not> utf8_continuation (hd g)))"

lemma well_grouped_utf8_chars: "well_grouped (utf8_chars s)"
proof (induction s)
  case (Cons b bs)
  then show ?case
    by (cases "utf8_chars bs") (auto simp: well_grouped_def list_all_iff neq_Nil_conv split: if_splits)
qed (simp add: well_grouped_def)

lemma utf8_chars_concat: "well_grouped gs \<Longrightarrow> utf8_chars (concat gs) = gs"
proof (induction gs)
  case (Cons g gs)
  then obtain b cs where g: "g = b # cs" "list_all utf8_continuation cs"
    by (cases g) (auto simp: well_grouped_def)
  have "concat gs = [] \<or> \<not> utf8_continuation (hd (concat gs))"
    using Cons.prems by (cases gs) (auto simp: well_grouped_def neq_Nil_conv)
  moreover have "well_grouped gs"
    using Cons.prems by (cases gs) (auto simp: well_grouped_def)
  ultimately have "utf8_chars (b # cs @ concat gs) = (b # cs) # gs"
    using utf8_chars_group [OF g(2)] Cons.IH by (simp only:)
  then show ?case by (simp only: g concat.simps append_Cons)
qed simp

lemma well_grouped_take: "well_grouped gs \<Longrightarrow> well_grouped (take n gs)"
  by (cases gs; cases n) (auto simp: well_grouped_def dest: in_set_takeD)

lemma well_grouped_snoc:
  "\<lbrakk>well_grouped gs; g \<noteq> []; list_all utf8_continuation (tl g); \<not> utf8_continuation (hd g)\<rbrakk>
     \<Longrightarrow> well_grouped (gs @ [g])"
  by (cases gs) (auto simp: well_grouped_def)

lemma chars_count_take: "chars_count (chars_take n s) \<le> n"
  using utf8_chars_concat [OF well_grouped_take [OF well_grouped_utf8_chars, of n s]]
  by (simp add: chars_count_def chars_take_def)

lemma utf8_chars_append:
  assumes "b = [] \<or> \<not> utf8_continuation (hd b)"
  shows "utf8_chars (a @ b) = utf8_chars a @ utf8_chars b"
proof (induction a)
  case Nil
  show ?case by simp
next
  case (Cons x a)
  show ?case
  proof (cases a)
    case Nil
    then show ?thesis
    proof (cases b)
      case (Cons y ys)
      then show ?thesis using Nil assms utf8_chars_Cons_hd [of y ys] by auto
    qed simp
  next
    case (Cons y ys)
    obtain g gs where g: "utf8_chars a = g # gs" using utf8_chars_Cons_hd [of y ys] Cons by auto
    then show ?thesis using Cons.IH by simp
  qed
qed

end
