(* ===== verification/Rust_Decimal.thy ===== *)
theory Rust_Decimal
  imports Rust_Prelude
begin

text \<open>
  Decimal integers as text: \<^verbatim>\<open>to_string()\<close> on unsigned and signed integers and
  \<^verbatim>\<open>str::parse\<close> at the widths the sources use, with the round trip between them (a page
  cursor and an \<^verbatim>\<open>rr\<close> event number are printed by one side and parsed by the other).
\<close>

definition digit_char :: "nat \<Rightarrow> char" where
  "digit_char d = char_of (48 + d)"

definition is_ascii_digit :: "char \<Rightarrow> bool" where
  "is_ascii_digit c = (48 \<le> byte_of c \<and> byte_of c \<le> 57)"

fun show_nat :: "nat \<Rightarrow> string" where
  "show_nat n = (if n < 10 then [digit_char n] else show_nat (n div 10) @ [digit_char (n mod 10)])"

declare show_nat.simps [simp del]

definition show_int :: "int \<Rightarrow> string" where
  "show_int i = (if i < 0 then CHR ''-'' # show_nat (nat (- i)) else show_nat (nat i))"

definition parse_digit_step :: "nat option \<Rightarrow> char \<Rightarrow> nat option" where
  "parse_digit_step acc c = (case acc of
      None \<Rightarrow> None
    | Some n \<Rightarrow> if is_ascii_digit c then Some (10 * n + (byte_of c - 48)) else None)"

definition parse_digits :: "string \<Rightarrow> nat option" where
  "parse_digits s = (if s = [] then None else foldl parse_digit_step (Some 0) s)"

text \<open>\<^verbatim>\<open>parse::<u32>()\<close>, \<^verbatim>\<open>parse::<usize>()\<close>: an optional plus sign, digits, no overflow.\<close>

definition parse_unsigned :: "nat \<Rightarrow> string \<Rightarrow> nat option" where
  "parse_unsigned m s =
     (case parse_digits (case s of [] \<Rightarrow> [] | c # cs \<Rightarrow> if c = CHR ''+'' then cs else s) of
        None \<Rightarrow> None
      | Some n \<Rightarrow> if n \<le> m then Some n else None)"

definition parse_u32 :: "string \<Rightarrow> nat option" where "parse_u32 = parse_unsigned u32_max"
definition parse_usize :: "string \<Rightarrow> nat option" where "parse_usize = parse_unsigned usize_max"

text \<open>\<^verbatim>\<open>parse::<i64>()\<close>.\<close>

definition parse_i64 :: "string \<Rightarrow> int option" where
  "parse_i64 s =
     (case (case s of
              [] \<Rightarrow> None
            | c # cs \<Rightarrow>
                if c = CHR ''-'' then map_option (\<lambda>n. - int n) (parse_digits cs)
                else if c = CHR ''+'' then map_option int (parse_digits cs)
                else map_option int (parse_digits s)) of
        None \<Rightarrow> None
      | Some i \<Rightarrow> if i64_min \<le> i \<and> i \<le> i64_max then Some i else None)"

lemma byte_of_digit_char: "d < 10 \<Longrightarrow> byte_of (digit_char d) = 48 + d"
  by (simp add: byte_of_def digit_char_def)

lemma is_ascii_digit_digit_char: "d < 10 \<Longrightarrow> is_ascii_digit (digit_char d)"
  by (simp add: is_ascii_digit_def byte_of_digit_char)

lemma show_nat_digits: "c \<in> set (show_nat n) \<Longrightarrow> is_ascii_digit c"
proof (induction n rule: show_nat.induct)
  case (1 n)
  show ?case
  proof (cases "n < 10")
    case True
    with "1.prems" show ?thesis
      by (simp add: show_nat.simps [of n] is_ascii_digit_digit_char)
  next
    case False
    with 1 show ?thesis
      by (auto simp: show_nat.simps [of n] is_ascii_digit_digit_char)
  qed
qed

lemma show_nat_not_Nil [simp]: "show_nat n \<noteq> []"
  by (subst show_nat.simps) simp

lemma parse_digit_step_show:
  "foldl parse_digit_step (Some 0) (show_nat n) = Some n"
proof (induction n rule: show_nat.induct)
  case (1 n)
  show ?case
  proof (cases "n < 10")
    case True
    then show ?thesis
      by (simp add: show_nat.simps [of n] parse_digit_step_def is_ascii_digit_digit_char
          byte_of_digit_char)
  next
    case False
    with "1.IH" show ?thesis
      by (simp add: show_nat.simps [of n] parse_digit_step_def is_ascii_digit_digit_char
          byte_of_digit_char)
  qed
qed

lemma parse_digits_show [simp]: "parse_digits (show_nat n) = Some n"
  by (simp add: parse_digits_def parse_digit_step_show)

lemma show_nat_inj: "show_nat m = show_nat n \<Longrightarrow> m = n"
  by (metis option.inject parse_digits_show)

lemma show_nat_hd_not_sign:
  "hd (show_nat n) \<noteq> CHR ''+''" "hd (show_nat n) \<noteq> CHR ''-''"
proof -
  have "is_ascii_digit (hd (show_nat n))"
    by (rule show_nat_digits [of _ n]) simp
  then show "hd (show_nat n) \<noteq> CHR ''+''" "hd (show_nat n) \<noteq> CHR ''-''"
    by (auto simp: is_ascii_digit_def byte_of_def)
qed

lemma parse_i64_show_nat:
  "int n \<le> i64_max \<Longrightarrow> parse_i64 (show_nat n) = Some (int n)"
proof -
  assume n: "int n \<le> i64_max"
  obtain c cs where s: "show_nat n = c # cs"
    by (cases "show_nat n") auto
  have "c \<noteq> CHR ''+''" "c \<noteq> CHR ''-''"
    using show_nat_hd_not_sign [of n] s by simp_all
  moreover have "parse_digits (c # cs) = Some n"
    using s by (metis parse_digits_show)
  ultimately show ?thesis
    using n by (simp add: parse_i64_def s i64_min_def)
qed

lemma parse_unsigned_show_nat:
  "n \<le> m \<Longrightarrow> parse_unsigned m (show_nat n) = Some n"
proof -
  assume n: "n \<le> m"
  obtain c cs where s: "show_nat n = c # cs"
    by (cases "show_nat n") auto
  have "c \<noteq> CHR ''+''"
    using show_nat_hd_not_sign [of n] s by simp
  moreover have "parse_digits (c # cs) = Some n"
    using s by (metis parse_digits_show)
  ultimately show ?thesis
    using n by (simp add: parse_unsigned_def s)
qed

lemma parse_i64_range: "parse_i64 s = Some i \<Longrightarrow> i64_min \<le> i \<and> i \<le> i64_max"
  by (auto simp: parse_i64_def split: option.splits if_splits list.splits)

lemma parse_unsigned_le: "parse_unsigned m s = Some n \<Longrightarrow> n \<le> m"
  by (auto simp: parse_unsigned_def split: option.splits if_splits)

lemma parse_i64_show_int:
  assumes "i64_min \<le> i" "i \<le> i64_max"
  shows "parse_i64 (show_int i) = Some i"
proof (cases "i < 0")
  case True
  with assms show ?thesis
    by (simp add: show_int_def parse_i64_def)
next
  case False
  with assms parse_i64_show_nat [of "nat i"] show ?thesis
    by (simp add: show_int_def)
qed

section \<open>Big-endian bytes\<close>

text \<open>\<^verbatim>\<open>to_be_bytes\<close> and \<^verbatim>\<open>from_be_bytes\<close> at a width given in bytes.\<close>

definition be_bytes :: "nat \<Rightarrow> nat \<Rightarrow> string" where
  "be_bytes width n = map (\<lambda>i. char_of (n div 256 ^ (width - 1 - i) mod 256)) [0..<width]"

definition from_be_bytes :: "string \<Rightarrow> nat" where
  "from_be_bytes bs = foldl (\<lambda>a c. 256 * a + byte_of c) 0 bs"

lemma length_be_bytes [simp]: "length (be_bytes w n) = w"
  by (simp add: be_bytes_def)

lemma be_bytes_Suc: "be_bytes (Suc w) n = char_of (n div 256 ^ w mod 256) # be_bytes w n"
proof -
  have "[0..<Suc w] = 0 # map Suc [0..<w]"
    by (metis map_Suc_upt upt_conv_Cons zero_less_Suc)
  then show ?thesis by (simp add: be_bytes_def comp_def)
qed

lemma foldl_be_bytes:
  "foldl (\<lambda>a c. 256 * a + byte_of c) a (be_bytes w n) = a * 256 ^ w + n mod 256 ^ w"
proof (induction w arbitrary: a)
  case 0
  then show ?case by (simp add: be_bytes_def)
next
  case (Suc w)
  have "n mod 256 ^ Suc w = 256 ^ w * (n div 256 ^ w mod 256) + n mod 256 ^ w"
    using mod_mult2_eq [of n "256 ^ w" 256] by (simp add: mult.commute)
  with Suc show ?case
    by (simp add: be_bytes_Suc byte_of_def algebra_simps)
qed

lemma from_be_be_bytes: "from_be_bytes (be_bytes w n) = n mod 256 ^ w"
  by (simp add: from_be_bytes_def foldl_be_bytes)

lemma be_bytes_inj: "\<lbrakk>be_bytes w m = be_bytes w n; m < 256 ^ w; n < 256 ^ w\<rbrakk> \<Longrightarrow> m = n"
  by (metis from_be_be_bytes mod_less)

lemma show_nat_small: "show_nat 0 = ''0''" "show_nat 1 = ''1''" "show_nat 2 = ''2''"
  by code_simp+

end
