(* ===== verification/Identity.thy ===== *)
theory Identity
  imports Rust_Prelude Rust_Decimal
begin

text \<open>
  \<^verbatim>\<open>crates/walaru-core/src/event.rs\<close>: the content-bound identifiers shared by the CLI,
  the daemon and the JVM worker.  SHA-256 and hexadecimal encoding are third-party crates
  and enter as the parameter \<open>hashes\<close>; what is proved here is about the bytes that are hashed.
\<close>

record hashes =
  sha256 :: "string \<Rightarrow> string"
  hex :: "string \<Rightarrow> string"

text \<open>The documented shape of the two functions: a 32-byte digest, two digits per byte.\<close>

definition hashes_ok :: "hashes \<Rightarrow> bool" where
  "hashes_ok h = ((\<forall>x. length (sha256 h x) = 32) \<and> (\<forall>x. length (hex h x) = 2 * length x))"

section \<open>Paths and workspaces\<close>

definition path_push :: "string list \<Rightarrow> string \<Rightarrow> string list" where
  "path_push cs c =
     (if c = [] \<or> c = ''.'' then cs
      else if c = ''..'' then butlast cs
      else cs @ [c])"

definition canonical_path :: "string \<Rightarrow> string" where
  "canonical_path path =
     SLASH # join [SLASH]
       (foldl path_push [] (split_char SLASH (replace_char BACKSLASH SLASH path)))"

definition short_sha256 :: "hashes \<Rightarrow> string \<Rightarrow> nat \<Rightarrow> string" where
  "short_sha256 h v n = hex h (take n (sha256 h v))"

definition workspace_id_from_path :: "hashes \<Rightarrow> string \<Rightarrow> string" where
  "workspace_id_from_path h path = ''ws-'' @ short_sha256 h (canonical_path path) 8"

section \<open>Revisions and events\<close>

definition revision_from_digest :: "hashes \<Rightarrow> string \<Rightarrow> string" where
  "revision_from_digest h digest = ''rev-'' @ hex h digest"

definition revision_from_bytes :: "hashes \<Rightarrow> string \<Rightarrow> string" where
  "revision_from_bytes h bs = revision_from_digest h (sha256 h bs)"

record event_identity =
  id_revision :: string
  id_run_id :: string
  id_test_id :: string
  id_sequence :: nat
  id_thread_id :: nat

text \<open>The versioned canonical stream: every part is followed by a NUL byte.\<close>

definition event_canonical :: "event_identity \<Rightarrow> string" where
  "event_canonical i =
     concat (map (\<lambda>part. part @ [NUL])
       [''event-v1'', id_revision i, id_run_id i, id_test_id i,
        show_nat (id_sequence i), show_nat (id_thread_id i)])"

definition event_id_new :: "hashes \<Rightarrow> event_identity \<Rightarrow> string" where
  "event_id_new h i = ''evt-'' @ short_sha256 h (event_canonical i) 12"

section \<open>Canonical paths\<close>

definition normal_part :: "string \<Rightarrow> bool" where
  "normal_part c = (c \<noteq> [] \<and> c \<noteq> ''.'' \<and> c \<noteq> ''..'' \<and> SLASH \<notin> set c \<and> BACKSLASH \<notin> set c)"

lemma path_push_normal:
  "\<lbrakk>list_all normal_part cs; SLASH \<notin> set c; BACKSLASH \<notin> set c\<rbrakk>
     \<Longrightarrow> list_all normal_part (path_push cs c)"
  by (auto simp: path_push_def normal_part_def list_all_iff dest: in_set_butlastD)

lemma foldl_path_push_normal:
  "\<lbrakk>list_all normal_part cs; list_all (\<lambda>c. SLASH \<notin> set c \<and> BACKSLASH \<notin> set c) ps\<rbrakk>
     \<Longrightarrow> list_all normal_part (foldl path_push cs ps)"
  by (induction ps arbitrary: cs) (simp_all add: path_push_normal)

lemma foldl_path_push_id: "list_all normal_part ps \<Longrightarrow> foldl path_push cs ps = cs @ ps"
  by (induction ps arbitrary: cs) (simp_all add: path_push_def normal_part_def)

lemma split_char_subset: "p \<in> set (split_char c s) \<Longrightarrow> set p \<subseteq> set s"
  by (induction s arbitrary: p) (fastforce split: list.splits if_splits)+

definition path_parts :: "string \<Rightarrow> string list" where
  "path_parts p = foldl path_push [] (split_char SLASH (replace_char BACKSLASH SLASH p))"

lemma canonical_path_parts: "canonical_path p = SLASH # join [SLASH] (path_parts p)"
  by (simp add: canonical_path_def path_parts_def)

lemma path_parts_normal: "list_all normal_part (path_parts p)"
proof -
  have "list_all (\<lambda>c. SLASH \<notin> set c \<and> BACKSLASH \<notin> set c)
      (split_char SLASH (replace_char BACKSLASH SLASH p))"
    using split_char_no_sep split_char_subset replace_char_notin [of BACKSLASH SLASH p]
    by (fastforce simp: list_all_iff)
  then show ?thesis
    unfolding path_parts_def by (intro foldl_path_push_normal) simp_all
qed

lemma set_join: "set (join sep xs) \<subseteq> set sep \<union> \<Union> (set ` set xs)"
  by (induction xs rule: induct_list012) auto

lemma path_parts_join:
  assumes "list_all normal_part ps"
  shows "path_parts (SLASH # join [SLASH] ps) = ps"
proof -
  have "BACKSLASH \<notin> set (SLASH # join [SLASH] ps)"
    using assms set_join [of "[SLASH]" ps] by (auto simp: list_all_iff normal_part_def)
  then have r: "replace_char BACKSLASH SLASH (SLASH # join [SLASH] ps) = SLASH # join [SLASH] ps"
    by (rule replace_char_id)
  show ?thesis
  proof (cases "ps = []")
    case True
    then show ?thesis by (simp add: path_parts_def replace_char_def path_push_def)
  next
    case False
    with assms have "split_char SLASH (join [SLASH] ps) = ps"
      by (intro split_char_join) (auto simp: list_all_iff normal_part_def)
    with assms show ?thesis
      by (simp add: path_parts_def r path_push_def foldl_path_push_id)
  qed
qed

lemma path_parts_canonical: "path_parts (canonical_path p) = path_parts p"
  by (simp add: canonical_path_parts path_parts_join path_parts_normal)

lemma split_char_snoc_sep: "split_char c (s @ [c]) = split_char c s @ [[]]"
  by (induction s) (auto split: list.splits)

lemma path_parts_trailing: "path_parts (p @ [SLASH]) = path_parts p"
proof -
  have "replace_char BACKSLASH SLASH (p @ [SLASH]) = replace_char BACKSLASH SLASH p @ [SLASH]"
    by (simp add: replace_char_def)
  then show ?thesis
    by (simp only: path_parts_def split_char_snoc_sep) (simp add: path_push_def)
qed

lemma path_parts_backslash: "path_parts (replace_char BACKSLASH SLASH p) = path_parts p"
  by (simp add: path_parts_def replace_char_idem)

section \<open>Event streams\<close>

lemma append_sep_inj:
  "\<lbrakk>a @ c # x = b @ c # y; c \<notin> set a; c \<notin> set b\<rbrakk> \<Longrightarrow> a = b \<and> x = y"
proof (induction a arbitrary: b)
  case Nil
  then show ?case by (cases b) auto
next
  case (Cons h t)
  then show ?case by (cases b) auto
qed

lemma append_sep_inj_end:
  "\<lbrakk>x @ c # a = y @ c # b; c \<notin> set a; c \<notin> set b\<rbrakk> \<Longrightarrow> x = y \<and> a = b"
  using append_sep_inj [of "rev a" c "rev x" "rev b" "rev y"]
  by (metis append.assoc append_Cons append_Nil rev.simps(2) rev_append rev_is_rev_conv set_rev)

lemma show_nat_no_NUL: "NUL \<notin> set (show_nat n)"
  using show_nat_digits [of NUL n] by (auto simp: is_ascii_digit_def byte_of_def)

lemma event_canonical_unfold:
  "event_canonical i = ''event-v1'' @ NUL # id_revision i @ NUL # id_run_id i @ NUL #
     ((id_test_id i @ NUL # show_nat (id_sequence i)) @ NUL # show_nat (id_thread_id i)) @ [NUL]"
  by (simp add: event_canonical_def)

section \<open>Properties\<close>

text \<open>The canonical form of a worktree path is absolute, consists of parts that are
  neither empty nor a dot nor a dot-dot, is a fixed point of canonicalization, and does not
  depend on trailing slashes or on the separator style; so the workspace ID derived from it
  is the same for all spellings.\<close>

theorem canonical_path_canonical:
  "(\<exists>ps. canonical_path p = SLASH # join [SLASH] ps \<and> list_all normal_part ps)
   \<and> canonical_path (canonical_path p) = canonical_path p
   \<and> workspace_id_from_path h (p @ [SLASH]) = workspace_id_from_path h p
   \<and> workspace_id_from_path h (replace_char BACKSLASH SLASH p) = workspace_id_from_path h p
   \<and> workspace_id_from_path h (canonical_path p) = workspace_id_from_path h p"
  unfolding workspace_id_from_path_def canonical_path_parts [of "canonical_path p"]
    canonical_path_parts [of "p @ [SLASH]"] canonical_path_parts [of "replace_char BACKSLASH SLASH p"]
    path_parts_canonical path_parts_trailing path_parts_backslash
  using path_parts_normal [of p] by (auto simp: canonical_path_parts)

text \<open>Distinct event identities are hashed from distinct byte streams: the
  NUL-terminated framing of the event ID is injective as soon as revision and run IDs carry no
  NUL byte, whatever bytes the test ID contains.\<close>

theorem event_canonical_injective:
  assumes "NUL \<notin> set (id_revision a)" "NUL \<notin> set (id_revision b)"
    and "NUL \<notin> set (id_run_id a)" "NUL \<notin> set (id_run_id b)"
  shows "event_canonical a = event_canonical b \<longleftrightarrow> a = b"
proof
  assume eq: "event_canonical a = event_canonical b"
  let ?test = "\<lambda>i. id_test_id i @ NUL # show_nat (id_sequence i)"
  let ?body = "\<lambda>i. ?test i @ NUL # show_nat (id_thread_id i)"
  from eq have "id_revision a @ NUL # id_run_id a @ NUL # ?body a @ [NUL]
    = id_revision b @ NUL # id_run_id b @ NUL # ?body b @ [NUL]"
    by (simp add: event_canonical_unfold)
  from append_sep_inj [OF this assms(1,2)]
  have rev: "id_revision a = id_revision b"
    and "id_run_id a @ NUL # ?body a @ [NUL] = id_run_id b @ NUL # ?body b @ [NUL]"
    by blast+
  from append_sep_inj [OF this(2) assms(3,4)]
  have run: "id_run_id a = id_run_id b" and "?body a = ?body b" by auto
  from append_sep_inj_end [OF this(2) show_nat_no_NUL show_nat_no_NUL]
  have "?test a = ?test b" and thread: "id_thread_id a = id_thread_id b"
    by (auto dest: show_nat_inj)
  from append_sep_inj_end [OF this(1) show_nat_no_NUL show_nat_no_NUL]
  have "id_test_id a = id_test_id b" "id_sequence a = id_sequence b"
    by (auto dest: show_nat_inj)
  with rev run thread show "a = b" by simp
qed simp

theorem event_canonical_injective_witness:
  "event_canonical \<lparr>id_revision = ''rev-1'', id_run_id = ''run-1'', id_test_id = ''t'' @ [NUL] @ ''1'',
      id_sequence = 2, id_thread_id = 3\<rparr>
   \<noteq> event_canonical \<lparr>id_revision = ''rev-1'', id_run_id = ''run-1'', id_test_id = ''t'',
      id_sequence = 1, id_thread_id = 23\<rparr>"
  using event_canonical_injective
    [of "\<lparr>id_revision = ''rev-1'', id_run_id = ''run-1'', id_test_id = ''t'' @ [NUL] @ ''1'',
        id_sequence = 2, id_thread_id = 3\<rparr>"
      "\<lparr>id_revision = ''rev-1'', id_run_id = ''run-1'', id_test_id = ''t'',
        id_sequence = 1, id_thread_id = 23\<rparr>"]
  by simp

end
