(* ===== verification/Rust_Collections.thy ===== *)
theory Rust_Collections
  imports Rust_Prelude
begin

text \<open>
  \<^verbatim>\<open>BTreeMap\<close> and \<^verbatim>\<open>BTreeSet\<close>: the list of entries (of elements) in strictly ascending
  key order, which is what iteration over them yields.  The locale \<open>ordered_map\<close> is the
  contract the sources rely on, proved of the entry lists by the interpretation \<open>bt\<close>.
  Also the iterator idioms \<^verbatim>\<open>position\<close> and \<^verbatim>\<open>rev().find\<close>.
\<close>

type_synonym ('k, 'v) btree = "('k \<times> 'v) list"

definition bt_wf :: "('k::linorder, 'v) btree \<Rightarrow> bool" where
  "bt_wf m = sorted_wrt (<) (map fst m)"

definition bt_get :: "('k, 'v) btree \<Rightarrow> 'k \<Rightarrow> 'v option" where
  "bt_get m k = map_of m k"

definition bt_insert :: "'k::linorder \<Rightarrow> 'v \<Rightarrow> ('k, 'v) btree \<Rightarrow> ('k, 'v) btree" where
  "bt_insert k v m = takeWhile (\<lambda>e. fst e < k) m @ (k, v) # dropWhile (\<lambda>e. fst e \<le> k) m"

definition bt_remove :: "'k \<Rightarrow> ('k, 'v) btree \<Rightarrow> ('k, 'v) btree" where
  "bt_remove k m = filter (\<lambda>e. fst e \<noteq> k) m"

definition bt_contains :: "('k, 'v) btree \<Rightarrow> 'k \<Rightarrow> bool" where
  "bt_contains m k = (bt_get m k \<noteq> None)"

text \<open>\<^verbatim>\<open>collect::<BTreeMap<_, _>>()\<close>: later entries overwrite earlier ones.\<close>

definition bt_collect :: "('k::linorder \<times> 'v) list \<Rightarrow> ('k, 'v) btree" where
  "bt_collect es = foldl (\<lambda>m e. bt_insert (fst e) (snd e) m) [] es"

lemma bt_get_Nil [simp]: "bt_get [] k = None"
  by (simp add: bt_get_def)

lemma bt_wf_Nil [simp]: "bt_wf []"
  by (simp add: bt_wf_def)

lemma bt_wf_Cons: "bt_wf (e # m) \<longleftrightarrow> (\<forall>x \<in> set m. fst e < fst x) \<and> bt_wf m"
  by (auto simp: bt_wf_def)

lemma bt_insert_Nil [simp]: "bt_insert k v [] = [(k, v)]"
  by (simp add: bt_insert_def)

lemma dropWhile_all_gt:
  fixes k :: "'k::linorder"
  assumes "\<And>x. x \<in> set m \<Longrightarrow> k < fst x"
  shows "dropWhile (\<lambda>e. fst e \<le> k) m = m"
proof (cases m)
  case (Cons e m')
  with assms [of e] show ?thesis by simp
qed simp

lemma bt_insert_Cons:
  assumes "bt_wf (e # m)"
  shows "bt_insert k v (e # m) =
    (if k < fst e then (k, v) # e # m else if k = fst e then (k, v) # m
     else e # bt_insert k v m)"
proof -
  from assms have gt: "\<And>x. x \<in> set m \<Longrightarrow> fst e < fst x"
    by (auto simp: bt_wf_Cons)
  show ?thesis
    using gt dropWhile_all_gt [of m "fst e"]
    by (auto simp: bt_insert_def not_less)
qed

lemma map_of_bt_insert: "bt_wf m \<Longrightarrow> map_of (bt_insert k v m) = (map_of m)(k \<mapsto> v)"
proof (induction m)
  case (Cons e m)
  then show ?case
    by (cases e) (auto simp: bt_insert_Cons bt_wf_Cons fun_eq_iff)
qed simp

lemma bt_get_insert: "bt_wf m \<Longrightarrow> bt_get (bt_insert k v m) = (bt_get m)(k \<mapsto> v)"
  by (simp add: bt_get_def map_of_bt_insert fun_eq_iff)

lemma fst_set_bt_insert: "bt_wf m \<Longrightarrow> fst ` set (bt_insert k v m) = insert k (fst ` set m)"
  using map_of_bt_insert [of m k v] by (metis dom_fun_upd dom_map_of_conv_image_fst option.distinct(1))

lemma bt_wf_insert: "bt_wf m \<Longrightarrow> bt_wf (bt_insert k v m)"
proof (induction m)
  case Nil
  then show ?case by (simp add: bt_wf_def)
next
  case (Cons e m)
  then have wf: "bt_wf m" and gt: "\<And>x. x \<in> set m \<Longrightarrow> fst e < fst x"
    by (auto simp: bt_wf_Cons)
  have "\<And>x. x \<in> set (bt_insert k v m) \<Longrightarrow> fst x = k \<or> fst x \<in> fst ` set m"
    using fst_set_bt_insert [OF wf, of k v] by auto
  then have "fst e < k \<Longrightarrow> \<forall>x \<in> set (bt_insert k v m). fst e < fst x"
    using gt by fastforce
  moreover have "k < fst e \<Longrightarrow> \<forall>x \<in> set m. k < fst x"
    using gt less_trans by blast
  ultimately show ?case
    using Cons wf gt by (auto simp: bt_insert_Cons bt_wf_Cons)
qed

lemma bt_get_remove: "bt_get (bt_remove k m) = (bt_get m)(k := None)"
  by (induction m) (auto simp: bt_get_def bt_remove_def fun_eq_iff)

lemma bt_wf_remove: "bt_wf m \<Longrightarrow> bt_wf (bt_remove k m)"
  by (induction m) (auto simp: bt_wf_Cons bt_remove_def)

lemma bt_eqI:
  assumes "bt_wf m" "bt_wf n" "bt_get m = bt_get n"
  shows "m = n"
  using assms
proof (induction m arbitrary: n)
  case Nil
  then show ?case by (cases n) (auto simp: bt_get_def fun_eq_iff split: if_splits)
next
  case (Cons e m)
  obtain k v where e: "e = (k, v)" by force
  from Cons.prems(3) obtain f n' where n: "n = f # n'"
    by (cases n) (auto simp: bt_get_def fun_eq_iff e split: if_splits)
  obtain k' v' where f: "f = (k', v')" by force
  have mem: "k' \<in> fst ` set (e # m)" "k \<in> fst ` set (f # n')"
    using Cons.prems(3) by (metis bt_get_def dom_map_of_conv_image_fst e f fst_conv image_eqI
        list.set_intros(1) n domIff)+
  have kk: "k = k'"
    using mem Cons.prems(1,2) by (auto simp: bt_wf_Cons e f n) (metis fst_conv not_less_iff_gr_or_eq)+
  have vv: "v = v'"
    using Cons.prems(3) kk by (auto simp: bt_get_def e f n fun_eq_iff split: if_splits)
  have "bt_get m x = bt_get n' x" for x
  proof (cases "x = k")
    case True
    have "k \<notin> fst ` set m" "k \<notin> fst ` set n'"
      using Cons.prems(1,2) kk by (auto simp: bt_wf_Cons e f n)
    with True show ?thesis by (metis bt_get_def map_of_eq_None_iff)
  next
    case False
    with fun_cong [OF Cons.prems(3), of x] kk show ?thesis
      by (simp add: bt_get_def e f n)
  qed
  then have "m = n'"
    using Cons by (auto simp: bt_wf_Cons n)
  with kk vv e f n show ?case by simp
qed

lemma bt_get_Some_set: "bt_get m k = Some v \<Longrightarrow> (k, v) \<in> set m"
  by (simp add: bt_get_def map_of_SomeD)

lemma bt_wf_distinct: "bt_wf m \<Longrightarrow> distinct (map fst m)"
  unfolding bt_wf_def by (metis strict_sorted_iff)

lemma bt_get_mem: "bt_wf m \<Longrightarrow> (k, v) \<in> set m \<Longrightarrow> bt_get m k = Some v"
  by (simp add: bt_get_def bt_wf_distinct)

lemma bt_collect_snoc:
  "bt_collect (es @ [e]) = bt_insert (fst e) (snd e) (bt_collect es)"
  by (simp add: bt_collect_def)

lemma bt_wf_collect: "bt_wf (bt_collect es)"
  by (induction es rule: rev_induct) (simp_all add: bt_collect_snoc bt_wf_insert, simp add: bt_collect_def)

lemma bt_get_collect: "bt_get (bt_collect es) = map_of (rev es)"
proof (induction es rule: rev_induct)
  case (snoc e es)
  then show ?case
    by (cases e) (simp add: bt_collect_snoc bt_get_insert bt_wf_collect fun_eq_iff)
qed (simp add: bt_collect_def bt_get_def fun_eq_iff)

lemma bt_get_collect_distinct:
  "distinct (map fst es) \<Longrightarrow> bt_get (bt_collect es) k = Some v \<longleftrightarrow> (k, v) \<in> set es"
  by (simp add: bt_get_collect rev_map [symmetric])

section \<open>The map contract\<close>

locale ordered_map =
  fixes empty :: "'m"
    and get :: "'m \<Rightarrow> 'k::linorder \<Rightarrow> 'v option"
    and ins :: "'k \<Rightarrow> 'v \<Rightarrow> 'm \<Rightarrow> 'm"
    and del :: "'k \<Rightarrow> 'm \<Rightarrow> 'm"
    and entries :: "'m \<Rightarrow> ('k \<times> 'v) list"
    and wf :: "'m \<Rightarrow> bool"
  assumes wf_empty: "wf empty"
    and wf_ins: "wf m \<Longrightarrow> wf (ins k v m)"
    and wf_del: "wf m \<Longrightarrow> wf (del k m)"
    and get_empty: "get empty = Map.empty"
    and get_ins: "wf m \<Longrightarrow> get (ins k v m) = (get m)(k \<mapsto> v)"
    and get_del: "wf m \<Longrightarrow> get (del k m) = (get m)(k := None)"
    and entries_sorted: "wf m \<Longrightarrow> sorted_wrt (<) (map fst (entries m))"
    and entries_get: "wf m \<Longrightarrow> (k, v) \<in> set (entries m) \<longleftrightarrow> get m k = Some v"
begin

lemma get_ins_same: "wf m \<Longrightarrow> get (ins k v m) k = Some v"
  by (simp add: get_ins)

lemma get_ins_other: "wf m \<Longrightarrow> k \<noteq> k' \<Longrightarrow> get (ins k v m) k' = get m k'"
  by (simp add: get_ins)

lemma entries_ins_keys:
  "wf m \<Longrightarrow> fst ` set (entries (ins k v m)) = insert k (fst ` set (entries m))"
proof -
  assume m: "wf m"
  have dom: "fst ` set (entries n) = dom (get n)" if "wf n" for n
    using entries_get [OF that] by (force simp: dom_def image_iff)
  show ?thesis
    using dom [OF m] dom [OF wf_ins [OF m]] get_ins [OF m] by simp
qed

end

interpretation bt: ordered_map "[]" bt_get bt_insert bt_remove "\<lambda>m. m" bt_wf
proof unfold_locales
  fix m :: "('k::linorder \<times> 'v) list" and k v
  assume "bt_wf m"
  then show "(k, v) \<in> set m \<longleftrightarrow> bt_get m k = Some v"
    using bt_get_Some_set bt_get_mem by fastforce
qed (simp_all add: bt_wf_insert bt_wf_remove bt_get_insert bt_get_remove bt_get_def fun_eq_iff
      bt_wf_def [symmetric])

section \<open>Sets\<close>

text \<open>\<^verbatim>\<open>BTreeSet::insert\<close>, and \<^verbatim>\<open>into_iter().collect()\<close> after \<^verbatim>\<open>extend\<close>.\<close>

definition bs_insert :: "'a::linorder \<Rightarrow> 'a list \<Rightarrow> 'a list" where
  "bs_insert x s = takeWhile (\<lambda>y. y < x) s @ x # dropWhile (\<lambda>y. y \<le> x) s"

definition bs_extend :: "'a::linorder list \<Rightarrow> 'a list \<Rightarrow> 'a list" where
  "bs_extend s xs = foldl (\<lambda>t x. bs_insert x t) s xs"

lemma bs_insert_map: "bs_insert x s = map fst (bt_insert x () (map (\<lambda>y. (y, ())) s))"
  by (simp add: bt_insert_def bs_insert_def dropWhile_map takeWhile_map comp_def)

lemma bs_sorted_insert: "sorted_wrt (<) s \<Longrightarrow> sorted_wrt (<) (bs_insert x s)"
proof -
  assume "sorted_wrt (<) s"
  then have "bt_wf (map (\<lambda>y. (y, ())) s)"
    by (simp add: bt_wf_def comp_def)
  from bt_wf_insert [OF this] have "sorted_wrt (<) (map fst (bt_insert x () (map (\<lambda>y. (y, ())) s)))"
    by (simp add: bt_wf_def)
  then show ?thesis by (simp add: bs_insert_map)
qed

lemma set_bs_insert: "sorted_wrt (<) s \<Longrightarrow> set (bs_insert x s) = insert x (set s)"
proof -
  assume "sorted_wrt (<) s"
  then have "bt_wf (map (\<lambda>y. (y, ())) s)"
    by (simp add: bt_wf_def comp_def)
  from fst_set_bt_insert [OF this, of x "()"] show ?thesis
    by (simp add: bs_insert_map image_image)
qed

lemma bs_extend_Nil [simp]: "bs_extend s [] = s"
  by (simp add: bs_extend_def)

lemma bs_extend_snoc: "bs_extend s (xs @ [x]) = bs_insert x (bs_extend s xs)"
  by (simp add: bs_extend_def)

lemma bs_sorted_extend: "sorted_wrt (<) s \<Longrightarrow> sorted_wrt (<) (bs_extend s xs)"
  by (induction xs rule: rev_induct) (simp_all add: bs_extend_snoc bs_sorted_insert)

lemma set_bs_extend: "sorted_wrt (<) s \<Longrightarrow> set (bs_extend s xs) = set s \<union> set xs"
  by (induction xs rule: rev_induct)
    (simp_all add: bs_extend_snoc set_bs_insert bs_sorted_extend)

section \<open>Iterator searches\<close>

text \<open>\<^verbatim>\<open>iter().position(p)\<close>; \<^verbatim>\<open>find\<close> is \<^const>\<open>List.find\<close> and \<^verbatim>\<open>rev().find\<close> searches backwards.\<close>

fun position :: "('a \<Rightarrow> bool) \<Rightarrow> 'a list \<Rightarrow> nat option" where
  "position P [] = None"
| "position P (x # xs) = (if P x then Some 0 else map_option Suc (position P xs))"

definition rfind :: "('a \<Rightarrow> bool) \<Rightarrow> 'a list \<Rightarrow> 'a option" where
  "rfind P xs = List.find P (rev xs)"

lemma position_Some:
  "position P xs = Some i \<longleftrightarrow> i < length xs \<and> P (xs ! i) \<and> (\<forall>j < i. \<not> P (xs ! j))"
proof (induction xs arbitrary: i)
  case (Cons x xs)
  show ?case
  proof (cases i)
    case 0
    then show ?thesis by auto
  next
    case (Suc k)
    with Cons [of k] show ?thesis by (auto simp: less_Suc_eq_0_disj)
  qed
qed simp

lemma position_None: "position P xs = None \<longleftrightarrow> (\<forall>x \<in> set xs. \<not> P x)"
  by (induction xs) auto

lemma find_Some_in: "List.find P xs = Some x \<Longrightarrow> x \<in> set xs \<and> P x"
  by (induction xs) (auto split: if_splits)

lemma find_None: "List.find P xs = None \<longleftrightarrow> (\<forall>x \<in> set xs. \<not> P x)"
  by (induction xs) auto

lemma rfind_Some:
  "rfind P xs = Some x \<longleftrightarrow> (\<exists>ys zs. xs = ys @ x # zs \<and> P x \<and> (\<forall>z \<in> set zs. \<not> P z))"
proof (induction xs rule: rev_induct)
  case (snoc y ys)
  show ?case
  proof (cases "P y")
    case True
    then have "rfind P (ys @ [y]) = Some y" by (simp add: rfind_def)
    moreover have "zs = []" if "ys @ [y] = us @ x # zs" "\<forall>z \<in> set zs. \<not> P z" for us zs
      using that True by (cases zs rule: rev_cases) auto
    ultimately show ?thesis using True by fastforce
  next
    case False
    then have "rfind P (ys @ [y]) = rfind P ys" by (simp add: rfind_def)
    moreover have "(\<exists>us zs. ys @ [y] = us @ x # zs \<and> P x \<and> (\<forall>z \<in> set zs. \<not> P z))
      \<longleftrightarrow> (\<exists>us zs. ys = us @ x # zs \<and> P x \<and> (\<forall>z \<in> set zs. \<not> P z))" (is "?L = ?R")
    proof
      assume ?L
      then obtain us zs where l: "ys @ [y] = us @ x # zs" "P x" "\<forall>z \<in> set zs. \<not> P z" by blast
      with False show ?R by (cases zs rule: rev_cases) auto
    next
      assume ?R
      then obtain us zs where "ys = us @ x # zs" "P x" "\<forall>z \<in> set zs. \<not> P z" by blast
      with False have "ys @ [y] = us @ x # (zs @ [y]) \<and> P x \<and> (\<forall>z \<in> set (zs @ [y]). \<not> P z)"
        by simp
      then show ?L by blast
    qed
    ultimately show ?thesis using snoc by simp
  qed
qed (simp add: rfind_def)

lemma rfind_Cons:
  "rfind P (x # xs) = (case rfind P xs of Some y \<Rightarrow> Some y | None \<Rightarrow> if P x then Some x else None)"
proof -
  have "List.find P (ys @ [x]) = (case List.find P ys of Some y \<Rightarrow> Some y | None \<Rightarrow> if P x then Some x else None)" for ys
    by (induction ys) auto
  then show ?thesis by (simp add: rfind_def)
qed

lemma rfind_None: "rfind P xs = None \<longleftrightarrow> (\<forall>x \<in> set xs. \<not> P x)"
  by (simp add: rfind_def find_None)

end
