(* ===== verification/Rust_Path.thy ===== *)
theory Rust_Path
  imports Rust_Prelude Rust_Collections
begin

text \<open>
  \<^verbatim>\<open>std::path::Path\<close> on Unix, as far as the sources use it: \<^verbatim>\<open>components\<close>,
  \<^verbatim>\<open>is_absolute\<close>, \<^verbatim>\<open>file_name\<close>, \<^verbatim>\<open>extension\<close>, \<^verbatim>\<open>join\<close>.
\<close>

datatype component = RootDir | CurDir | ParentDir | Normal string

definition is_absolute :: "string \<Rightarrow> bool" where
  "is_absolute p = starts_with p [SLASH]"

definition component_of :: "string \<Rightarrow> component" where
  "component_of s = (if s = ''..'' then ParentDir else Normal s)"

text \<open>Empty parts and dots vanish, except a dot at the start of a relative path.\<close>

definition components :: "string \<Rightarrow> component list" where
  "components p =
     (let parts = split_char SLASH p;
          body = map component_of (filter (\<lambda>s. s \<noteq> [] \<and> s \<noteq> ''.'') parts)
      in if is_absolute p then RootDir # body
         else if hd parts = ''.'' then CurDir # body
         else body)"

definition is_normal :: "component \<Rightarrow> bool" where
  "is_normal c = (case c of Normal _ \<Rightarrow> True | _ \<Rightarrow> False)"

definition file_name :: "string \<Rightarrow> string option" where
  "file_name p = (case rev (components p) of Normal s # _ \<Rightarrow> Some s | _ \<Rightarrow> None)"

text \<open>The part of the file name after its last dot, if the dot is not its first byte.\<close>

definition extension :: "string \<Rightarrow> string option" where
  "extension p = (case file_name p of
      None \<Rightarrow> None
    | Some f \<Rightarrow> (case rsplit_once f (CHR ''.'') of
          None \<Rightarrow> None
        | Some (stem, e) \<Rightarrow> if stem = [] then None else Some e))"

definition path_join :: "string \<Rightarrow> string \<Rightarrow> string" where
  "path_join p q =
     (if is_absolute q then q
      else if p = [] \<or> ends_with p [SLASH] then p @ q
      else p @ SLASH # q)"

lemma length_path_join_le: "length (path_join p q) \<le> length p + length q + 1"
  by (simp add: path_join_def)

end
