(* ===== verification/Workspace.thy ===== *)
theory Workspace
  imports Identity Rust_Path Rust_Collections "HOL-Library.Multiset"
begin

text \<open>
  \<^verbatim>\<open>crates/walaru-core/src/workspace.rs\<close>: the content revision of a worktree
  (\<^verbatim>\<open>RevisionSnapshot::capture\<close>), the conservative source surfaces used by impact
  selection, and the layout of a worktree's private state.  The directory tree is a value of
  type \<open>node\<close>; reading a file or a directory may fail, which is \<^verbatim>\<open>WorkspaceError::Io\<close>.
  File names are UTF-8.
\<close>

section \<open>The directory walk\<close>

datatype node =
    RegularFile "string option"
  | Directory "(string \<times> node) list option"
  | Symlink
  | SpecialFile

datatype workspace_error = Io | OutsideWorkspace string string

definition ignored_directory :: "string \<Rightarrow> bool" where
  "ignored_directory name =
     (name \<in> {''.git'', ''.gradle'', ''.idea'', ''.kotlin'', ''build'', ''out'', ''target'', ''node_modules''})"

definition build_file_name :: "string \<Rightarrow> bool" where
  "build_file_name name =
     (name \<in> {''build.gradle'', ''build.gradle.kts'', ''settings.gradle'', ''settings.gradle.kts'',
        ''gradle.properties'', ''libs.versions.toml'', ''gradle-wrapper.properties'', ''pom.xml'',
        ''maven.config'', ''jvm.config'', ''extensions.xml'', ''maven-wrapper.properties'',
        ''walaru.toml''})"

text \<open>A path below the root is the list of its parts; \<open>relative_string\<close> spells it with slashes.\<close>

definition relative_string :: "string list \<Rightarrow> string" where
  "relative_string parts = replace_char BACKSLASH SLASH (join [SLASH] parts)"

definition included_file :: "string list \<Rightarrow> bool" where
  "included_file parts =
     (if parts \<noteq> [] \<and> hd parts = ''src'' then True
      else if parts \<noteq> [] \<and> build_file_name (last parts) then True
      else (case extension (join [SLASH] parts) of
          Some e \<Rightarrow> e \<in> {''java'', ''kt'', ''kts'', ''gradle''}
        | None \<Rightarrow> False))"

text \<open>\<open>collect_files\<close> appends to the output list: entries in file-name order, symbolic links
  skipped, ignored directories not entered.  Each collected path comes with its content.\<close>

function collect_files ::
  "string list \<Rightarrow> node \<Rightarrow> workspace_error + (string list \<times> string option) list"
and collect_entries ::
  "string list \<Rightarrow> (string \<times> node) list \<Rightarrow> workspace_error + (string list \<times> string option) list" where
  "collect_files dir (Directory None) = Inl Io"
| "collect_files dir (Directory (Some es)) = collect_entries dir (sort_key fst es)"
| "collect_files dir (RegularFile c) = Inl Io"
| "collect_files dir Symlink = Inl Io"
| "collect_files dir SpecialFile = Inl Io"
| "collect_entries dir [] = Inr []"
| "collect_entries dir ((name, n) # es) =
     (let path = dir @ [name];
          here = (case n of
              Symlink \<Rightarrow> Inr []
            | Directory _ \<Rightarrow> if ignored_directory name then Inr [] else collect_files path n
            | RegularFile c \<Rightarrow> if included_file path then Inr [(path, c)] else Inr []
            | SpecialFile \<Rightarrow> Inr [])
      in rbind here (\<lambda>xs. rbind (collect_entries dir es) (\<lambda>ys. Inr (xs @ ys))))"
  by pat_completeness auto
termination
proof (relation "measure (\<lambda>x. case x of Inl (_, n) \<Rightarrow> Suc (2 * size n)
    | Inr (_, es) \<Rightarrow> Suc (2 * sum_list (map (\<lambda>e. Suc (size (snd e))) es)))"; (simp; fail)?)
  fix dir :: "string list" and es :: "(string \<times> node) list"
  have "sum_list (map (\<lambda>e. Suc (size (snd e))) (sort_key fst es))
      = sum_list (map (\<lambda>e. Suc (size (snd e))) es)"
    by (simp only: sum_mset_sum_list [symmetric] mset_map mset_sort)
  also have "\<dots> < size (Directory (Some es))"
    by (induction es) (auto)
  finally show "(Inr (dir, sort_key fst es), Inl (dir, Directory (Some es))) \<in>
     measure (\<lambda>x. case x of Inl (_, n) \<Rightarrow> Suc (2 * size n)
    | Inr (_, es) \<Rightarrow> Suc (2 * sum_list (map (\<lambda>e. Suc (size (snd e))) es)))"
    by simp
qed

section \<open>Source surfaces\<close>

definition contains_declaration :: "string \<Rightarrow> string list \<Rightarrow> bool" where
  "contains_declaration v decls =
     list_ex (\<lambda>d. starts_with v d \<or> contains_sub v ('' '' @ d)) decls"

text \<open>The scan of \<open>cut_body\<close>: \<open>seen\<close> is the prefix read so far, the counters stop at zero.\<close>

fun cut_body_scan :: "string \<Rightarrow> nat \<Rightarrow> nat \<Rightarrow> string \<Rightarrow> string" where
  "cut_body_scan seen parentheses brackets [] = seen"
| "cut_body_scan seen parentheses brackets (c # s) =
     (if c = CHR ''('' then cut_body_scan (seen @ [c]) (parentheses + 1) brackets s
      else if c = CHR '')'' then cut_body_scan (seen @ [c]) (parentheses - 1) brackets s
      else if c = CHR ''['' then cut_body_scan (seen @ [c]) parentheses (brackets + 1) s
      else if c = CHR '']'' then cut_body_scan (seen @ [c]) parentheses (brackets - 1) s
      else if (c = CHR ''{'' \<or> c = CHR ''='') \<and> parentheses = 0 \<and> brackets = 0
      then trim_end seen
      else cut_body_scan (seen @ [c]) parentheses brackets s)"

definition cut_body :: "string \<Rightarrow> string" where
  "cut_body v = cut_body_scan [] 0 0 v"

definition normalize_space :: "string \<Rightarrow> string" where
  "normalize_space v = join '' '' (split_whitespace v)"

definition kotlin_declaration :: "string \<Rightarrow> bool" where
  "kotlin_declaration trimmed =
     (starts_with trimmed ''package '' \<or> starts_with trimmed ''import ''
      \<or> starts_with trimmed ''@''
      \<or> contains_declaration trimmed
          [''class '', ''interface '', ''object '', ''fun '', ''val '', ''var '', ''typealias ''])"

text \<open>What one line contributes, given the brace depth before it.\<close>

definition kotlin_line :: "nat \<Rightarrow> string \<Rightarrow> string" where
  "kotlin_line depth raw =
     (let trimmed = trim raw in
      if kotlin_declaration trimmed
      then (let global_property =
              depth = 0 \<and> contains_declaration trimmed [''val '', ''var '']
              \<and> \<not> starts_with trimmed ''fun '';
              selected = (if global_property then normalize_space trimmed
                          else normalize_space (cut_body trimmed))
            in selected @ [LF])
      else [])"

definition brace_step :: "nat \<Rightarrow> string \<Rightarrow> nat" where
  "brace_step depth raw =
     sat_add depth (count_list raw (CHR ''{'')) - count_list raw (CHR ''}'')"

fun kotlin_lines :: "nat \<Rightarrow> string list \<Rightarrow> string" where
  "kotlin_lines depth [] = []"
| "kotlin_lines depth (raw # ls) = kotlin_line depth raw @ kotlin_lines (brace_step depth raw) ls"

definition kotlin_surface :: "string \<Rightarrow> string" where
  "kotlin_surface source = kotlin_lines 0 (lines source)"

definition java_declaration :: "string \<Rightarrow> bool" where
  "java_declaration trimmed =
     (starts_with trimmed ''package '' \<or> starts_with trimmed ''import ''
      \<or> starts_with trimmed ''@''
      \<or> contains_declaration trimmed
          [''class '', ''interface '', ''enum '', ''record '', ''public '', ''protected '', ''static ''])"

definition java_line :: "string \<Rightarrow> string" where
  "java_line raw =
     (let trimmed = trim raw in
      if java_declaration trimmed
      then (let static_field =
              contains_sub trimmed '' static '' \<and> ends_with trimmed '';''
              \<and> \<not> contains_sub trimmed ''('';
              selected = (if static_field then trimmed else cut_body trimmed)
            in normalize_space selected @ [LF])
      else [])"

definition java_surface :: "string \<Rightarrow> string" where
  "java_surface source =
     (if list_ex (\<lambda>l. starts_with (trim_start l) ''static {'') (lines source) then source
      else concat (map java_line (lines source)))"

definition digest :: "hashes \<Rightarrow> string \<Rightarrow> string" where
  "digest h v = hex h (sha256 h v)"

definition source_surface_digest :: "hashes \<Rightarrow> string \<Rightarrow> string \<Rightarrow> string" where
  "source_surface_digest h path contents =
     (case extension path of
        Some e \<Rightarrow>
          if e \<in> {''kt'', ''kts'', ''java''}
          then if \<not> utf8_valid contents then digest h contents
               else if e = ''kt'' \<or> e = ''kts'' then digest h (kotlin_surface contents)
               else digest h (java_surface contents)
          else digest h contents
      | None \<Rightarrow> digest h contents)"

section \<open>The revision snapshot\<close>

text \<open>The length prefix is \<^verbatim>\<open>(value.len() as u64).to_be_bytes()\<close>.\<close>

definition update_frame :: "string \<Rightarrow> string" where
  "update_frame v = be_bytes 8 (length v mod 2 ^ 64) @ v"

definition revision_stream :: "(string \<times> string) list \<Rightarrow> string" where
  "revision_stream fs =
     ''walaru-revision-v1'' @ [NUL] @ concat (map (\<lambda>(rel, c). update_frame rel @ update_frame c) fs)"

record revision_snapshot =
  revision :: string
  files :: "string list"
  file_digests :: "(string, string) btree"
  surface_digests :: "(string, string) btree"

text \<open>Reading the collected files in order; the first unreadable one fails the capture.\<close>

fun read_contents ::
  "(string list \<times> string option) list \<Rightarrow> workspace_error + (string list \<times> string) list" where
  "read_contents [] = Inr []"
| "read_contents ((path, c) # ps) =
     (case c of
        None \<Rightarrow> Inl Io
      | Some contents \<Rightarrow> rbind (read_contents ps) (\<lambda>fs. Inr ((path, contents) # fs)))"

definition snapshot_of :: "hashes \<Rightarrow> (string list \<times> string) list \<Rightarrow> revision_snapshot" where
  "snapshot_of h fs =
     \<lparr>revision = revision_from_digest h
        (sha256 h (revision_stream (map (\<lambda>(p, c). (relative_string p, c)) fs))),
      files = map (\<lambda>(p, c). relative_string p) fs,
      file_digests = bt_collect (map (\<lambda>(p, c). (relative_string p, digest h c)) fs),
      surface_digests = bt_collect
        (map (\<lambda>(p, c). (relative_string p, source_surface_digest h (join [SLASH] p) c)) fs)\<rparr>"

definition capture :: "hashes \<Rightarrow> node \<Rightarrow> workspace_error + revision_snapshot" where
  "capture h tree =
     rbind (collect_files [] tree) (\<lambda>paths.
     rbind (read_contents (sort_key (\<lambda>p. relative_string (fst p)) paths)) (\<lambda>fs.
       Inr (snapshot_of h fs)))"

section \<open>Worktree-local state\<close>

record workspace_layout =
  root :: string
  layout_workspace_id :: string
  state_dir :: string
  socket :: string
  database :: string
  daemon_metadata :: string

definition SAFE_UNIX_SOCKET_PATH_BYTES :: nat where
  "SAFE_UNIX_SOCKET_PATH_BYTES = 96"

definition local_endpoint_path :: "string \<Rightarrow> string \<Rightarrow> string" where
  "local_endpoint_path sd wid =
     (let here = path_join sd ''daemon.sock'' in
      if length here < SAFE_UNIX_SOCKET_PATH_BYTES then here
      else path_join ''/tmp'' (''walaru-'' @ wid @ ''.sock''))"

text \<open>\<^verbatim>\<open>WorkspaceLayout::new\<close>, given the canonicalized root.\<close>

definition layout_new :: "hashes \<Rightarrow> string \<Rightarrow> workspace_layout" where
  "layout_new h root_path =
     (let wid = workspace_id_from_path h root_path;
          sd = path_join (path_join (path_join root_path ''.gradle'') ''walaru'') wid
      in \<lparr>root = root_path, layout_workspace_id = wid, state_dir = sd,
          socket = local_endpoint_path sd wid,
          database = path_join sd ''store.sqlite3'',
          daemon_metadata = path_join sd ''daemon.json''\<rparr>)"

section \<open>The hashed stream\<close>

lemma update_frame_inj:
  assumes "update_frame v @ x = update_frame w @ y" "length v < 2 ^ 64" "length w < 2 ^ 64"
  shows "v = w \<and> x = y"
proof -
  from assms have eq: "be_bytes 8 (length v) @ v @ x = be_bytes 8 (length w) @ w @ y"
    by (simp add: update_frame_def)
  then have "be_bytes 8 (length v) = be_bytes 8 (length w)" "v @ x = w @ y"
    by simp_all
  moreover from this(1) have "length v = length w"
    by (rule be_bytes_inj) (use assms(2,3) in simp_all)
  ultimately show ?thesis by simp
qed

lemma update_frame_not_Nil: "update_frame v \<noteq> []"
  by (metis Nil_is_append_conv length_be_bytes list.size(3) update_frame_def zero_neq_numeral)

abbreviation frames_of :: "(string \<times> string) list \<Rightarrow> string" where
  "frames_of fs \<equiv> concat (map (\<lambda>(rel, c). update_frame rel @ update_frame c) fs)"

definition u64_sized :: "(string \<times> string) list \<Rightarrow> bool" where
  "u64_sized fs = list_all (\<lambda>(rel, c). length rel < 2 ^ 64 \<and> length c < 2 ^ 64) fs"

lemma frames_of_inj:
  "\<lbrakk>frames_of fs = frames_of gs; u64_sized fs; u64_sized gs\<rbrakk> \<Longrightarrow> fs = gs"
proof (induction fs arbitrary: gs)
  case Nil
  then show ?case by (cases gs) (auto simp: update_frame_not_Nil)
next
  case (Cons f fs)
  obtain a c where f: "f = (a, c)" by force
  from Cons.prems(1) f obtain g gs' where gs: "gs = g # gs'"
    by (cases gs) (auto simp: update_frame_not_Nil)
  obtain b d where g: "g = (b, d)" by force
  have sizes: "length a < 2 ^ 64" "length c < 2 ^ 64" "length b < 2 ^ 64" "length d < 2 ^ 64"
    using Cons.prems(2,3) by (auto simp: u64_sized_def f g gs)
  have "update_frame a @ update_frame c @ frames_of fs
      = update_frame b @ update_frame d @ frames_of gs'"
    using Cons.prems(1) by (simp add: f g gs)
  from update_frame_inj [OF this sizes(1,3)]
  have ab: "a = b" and "update_frame c @ frames_of fs = update_frame d @ frames_of gs'" by blast+
  from update_frame_inj [OF this(2) sizes(2,4)]
  have "c = d" "frames_of fs = frames_of gs'" by blast+
  moreover from this(2) have "fs = gs'"
    using Cons.IH Cons.prems(2,3) by (simp add: u64_sized_def gs)
  ultimately show ?case using ab f g gs by simp
qed

section \<open>The walk\<close>

text \<open>The tree reached by a path that never enters an ignored directory.\<close>

fun walk :: "node \<Rightarrow> string list \<Rightarrow> node option" where
  "walk n [] = Some n"
| "walk (Directory (Some es)) (p # ps) =
     (case map_of es p of
        None \<Rightarrow> None
      | Some m \<Rightarrow> if ps \<noteq> [] \<and> ignored_directory p then None else walk m ps)"
| "walk n (p # ps) = None"

text \<open>Names within one directory are distinct and are single path parts.\<close>

fun tree_wf :: "node \<Rightarrow> bool" where
  "tree_wf (Directory (Some es)) =
     (distinct (map fst es)
      \<and> (\<forall>e \<in> set es. fst e \<noteq> [] \<and> SLASH \<notin> set (fst e) \<and> BACKSLASH \<notin> set (fst e) \<and> tree_wf (snd e)))"
| "tree_wf n = True"

definition walk_entries :: "(string \<times> node) list \<Rightarrow> string list \<Rightarrow> node option" where
  "walk_entries es ps = (if ps = [] then None else walk (Directory (Some es)) ps)"

lemma walk_entries_Cons:
  assumes "name \<notin> fst ` set es"
  shows "walk_entries ((name, n) # es) ps = Some x \<longleftrightarrow>
    (\<exists>ps'. ps = name # ps' \<and> (ps' = [] \<or> \<not> ignored_directory name) \<and> walk n ps' = Some x)
    \<or> walk_entries es ps = Some x"
proof (cases ps)
  case (Cons p ps')
  have "map_of es name = None" using assms by (simp add: map_of_eq_None_iff)
  with Cons show ?thesis by (auto simp: walk_entries_def)
qed (simp add: walk_entries_def)

lemma walk_entries_Nil [simp]: "walk_entries [] ps = None"
  by (cases ps) (simp_all add: walk_entries_def)

lemma distinct_sort_key: "distinct (map fst (sort_key k es)) = distinct (map fst es)"
  by (rule mset_eq_imp_distinct_iff) simp

lemma map_of_sort_key:
  assumes "distinct (map fst es)"
  shows "map_of (sort_key fst es) = map_of es"
proof
  fix k
  have "map_of (sort_key fst es) k = Some v \<longleftrightarrow> map_of es k = Some v" for v
    using assms by (simp add: distinct_sort_key)
  then show "map_of (sort_key fst es) k = map_of es k"
    by (metis option.exhaust)
qed

lemma walk_sort_key:
  "distinct (map fst es) \<Longrightarrow> walk_entries (sort_key fst es) = walk_entries es"
proof
  fix ps
  assume d: "distinct (map fst es)"
  show "walk_entries (sort_key fst es) ps = walk_entries es ps"
    by (cases ps) (simp_all add: walk_entries_def map_of_sort_key [OF d])
qed

text \<open>What one directory entry contributes.\<close>

definition collect_entry ::
  "string list \<Rightarrow> string \<Rightarrow> node \<Rightarrow> workspace_error + (string list \<times> string option) list" where
  "collect_entry dir name n = (case n of
      Symlink \<Rightarrow> Inr []
    | Directory _ \<Rightarrow> if ignored_directory name then Inr [] else collect_files (dir @ [name]) n
    | RegularFile c \<Rightarrow> if included_file (dir @ [name]) then Inr [(dir @ [name], c)] else Inr []
    | SpecialFile \<Rightarrow> Inr [])"

lemma collect_entries_Cons:
  "collect_entries dir ((name, n) # es) = Inr xs \<longleftrightarrow>
     (\<exists>ys zs. collect_entry dir name n = Inr ys \<and> collect_entries dir es = Inr zs \<and> xs = ys @ zs)"
  by (auto simp: collect_entry_def Let_def rbind_eq_Inr split: node.splits)

lemma collect_entry_exact:
  assumes "collect_entry dir name n = Inr ys"
    and "\<And>zs. \<lbrakk>\<not> ignored_directory name; collect_files (dir @ [name]) n = Inr zs\<rbrakk> \<Longrightarrow>
      (q, c) \<in> set zs \<longleftrightarrow> (\<exists>ps. ps \<noteq> [] \<and> q = (dir @ [name]) @ ps
         \<and> walk n ps = Some (RegularFile c) \<and> included_file q)"
  shows "(q, c) \<in> set ys \<longleftrightarrow> (\<exists>ps. q = dir @ name # ps \<and> (ps = [] \<or> \<not> ignored_directory name)
     \<and> walk n ps = Some (RegularFile c) \<and> included_file q)"
proof (cases n)
  case (RegularFile f)
  then have "walk n ps = Some (RegularFile c) \<longleftrightarrow> ps = [] \<and> c = f" for ps
    by (cases ps) auto
  moreover have "ys = (if included_file (dir @ [name]) then [(dir @ [name], f)] else [])"
    using assms(1) RegularFile by (simp add: collect_entry_def split: if_splits)
  ultimately show ?thesis by auto
next
  case (Directory es)
  have "walk n ps = Some (RegularFile c) \<Longrightarrow> ps \<noteq> []" for ps
    using Directory by (cases ps) auto
  with assms Directory show ?thesis
    by (cases "ignored_directory name") (auto simp: collect_entry_def)
next
  case Symlink
  then have "walk n ps \<noteq> Some (RegularFile c)" for ps by (cases ps) auto
  with assms(1) Symlink show ?thesis by (simp add: collect_entry_def)
next
  case SpecialFile
  then have "walk n ps \<noteq> Some (RegularFile c)" for ps by (cases ps) auto
  with assms(1) SpecialFile show ?thesis by (simp add: collect_entry_def)
qed

lemma collect_exact:
  "\<lbrakk>collect_files dir n = Inr xs; tree_wf n\<rbrakk> \<Longrightarrow>
     (q, c) \<in> set xs \<longleftrightarrow>
       (\<exists>ps. ps \<noteq> [] \<and> q = dir @ ps \<and> walk n ps = Some (RegularFile c) \<and> included_file q)"
  "\<lbrakk>collect_entries dir es = Inr xs; distinct (map fst es); \<forall>e \<in> set es. tree_wf (snd e)\<rbrakk> \<Longrightarrow>
     (q, c) \<in> set xs \<longleftrightarrow>
       (\<exists>ps. q = dir @ ps \<and> walk_entries es ps = Some (RegularFile c) \<and> included_file q)"
proof (induction dir n and dir es arbitrary: xs and xs rule: collect_files_collect_entries.induct)
  case (2 dir es)
  then have "distinct (map fst es)" by simp
  with 2 show ?case
    using walk_sort_key [of es]
    by (auto simp: distinct_sort_key walk_entries_def fun_eq_iff split: if_splits)
next
  case (7 dir name n es)
  from "7.prems"(1) obtain ys zs where ys: "collect_entry dir name n = Inr ys"
    and zs: "collect_entries dir es = Inr zs" and xs: "xs = ys @ zs"
    unfolding collect_entries_Cons by blast
  have new: "name \<notin> fst ` set es" using "7.prems"(2) by simp
  have "(q, c) \<in> set ys \<longleftrightarrow> (\<exists>ps. q = dir @ name # ps \<and> (ps = [] \<or> \<not> ignored_directory name)
     \<and> walk n ps = Some (RegularFile c) \<and> included_file q)"
  proof (rule collect_entry_exact [OF ys])
    fix ws
    assume "\<not> ignored_directory name" and ws: "collect_files (dir @ [name]) n = Inr ws"
    moreover from ws obtain ds where "n = Directory ds" by (cases n) simp_all
    ultimately show "(q, c) \<in> set ws \<longleftrightarrow> (\<exists>ps. ps \<noteq> [] \<and> q = (dir @ [name]) @ ps
        \<and> walk n ps = Some (RegularFile c) \<and> included_file q)"
      using "7.IH"(1) "7.prems"(3) by simp
  qed
  moreover have "(q, c) \<in> set zs \<longleftrightarrow>
     (\<exists>ps. q = dir @ ps \<and> walk_entries es ps = Some (RegularFile c) \<and> included_file q)"
    using 7 zs by simp
  ultimately show ?case
    unfolding xs walk_entries_Cons [OF new] set_append Un_iff by blast
qed simp_all

lemma collect_entry_walk:
  "\<lbrakk>collect_entry dir name n = Inr ys; tree_wf n; (q, c) \<in> set ys\<rbrakk> \<Longrightarrow> \<exists>ps. q = dir @ name # ps"
  using collect_entry_exact [of dir name n ys q c] collect_exact(1) [of "dir @ [name]" n _ q c]
  by auto

lemma relative_string_parts:
  assumes "list_all (\<lambda>p. p \<noteq> [] \<and> SLASH \<notin> set p \<and> BACKSLASH \<notin> set p) ps" "ps \<noteq> []"
  shows "split_char SLASH (relative_string ps) = ps"
proof -
  have "BACKSLASH \<notin> set (join [SLASH] ps)"
    using assms(1) set_join [of "[SLASH]" ps] by (auto simp: list_all_iff)
  then have "relative_string ps = join [SLASH] ps"
    by (simp add: relative_string_def replace_char_id)
  with assms show ?thesis
    by (simp add: split_char_join list_all_iff)
qed

lemma walk_parts:
  "\<lbrakk>walk n ps = Some m; tree_wf n\<rbrakk>
     \<Longrightarrow> list_all (\<lambda>p. p \<noteq> [] \<and> SLASH \<notin> set p \<and> BACKSLASH \<notin> set p) ps"
proof (induction n ps rule: walk.induct)
  case (2 es p ps)
  then obtain x where x: "map_of es p = Some x" "walk x ps = Some m"
    by (auto split: option.splits if_splits)
  then have "(p, x) \<in> set es" by (simp add: map_of_SomeD)
  with 2 x show ?case by (auto split: if_splits)
qed auto

lemma read_contents_ok:
  "read_contents ps = Inr fs \<longleftrightarrow> ps = map (\<lambda>(p, c). (p, Some c)) fs"
proof (induction ps arbitrary: fs)
  case (Cons a ps)
  show ?case
    by (cases a; cases fs) (auto simp: Cons rbind_eq_Inr split: option.splits)
qed auto

lemma collect_distinct:
  "\<lbrakk>collect_files dir n = Inr xs; tree_wf n\<rbrakk> \<Longrightarrow> distinct (map fst xs)"
  "\<lbrakk>collect_entries dir es = Inr xs; distinct (map fst es); \<forall>e \<in> set es. tree_wf (snd e)\<rbrakk> \<Longrightarrow>
     distinct (map fst xs)"
proof (induction dir n and dir es arbitrary: xs and xs rule: collect_files_collect_entries.induct)
  case (2 dir es)
  then show ?case by (simp add: distinct_sort_key)
next
  case (7 dir name n es)
  from "7.prems"(1) obtain ys zs where ys: "collect_entry dir name n = Inr ys"
    and zs: "collect_entries dir es = Inr zs" and xs: "xs = ys @ zs"
    unfolding collect_entries_Cons by blast
  have new: "name \<notin> fst ` set es" using "7.prems"(2) by simp
  have "distinct (map fst ys)"
    using ys "7.IH"(1) "7.prems"(3) by (auto simp: collect_entry_def split: node.splits if_splits)
  moreover have "\<exists>ps. fst y = dir @ name # ps" if "y \<in> set ys" for y
  proof (cases y)
    case (Pair q c)
    have "\<exists>ps. q = dir @ name # ps"
      by (rule collect_entry_walk [OF ys]) (use that Pair "7.prems"(3) in auto)
    with Pair show ?thesis by simp
  qed
  moreover have "\<nexists>ps. fst z = dir @ name # ps" if "z \<in> set zs" for z
  proof (cases z)
    case (Pair q c)
    have "walk_entries es (name # ps) = None" for ps
      using new map_of_eq_None_iff [of es name] by (simp add: walk_entries_def)
    with collect_exact(2) [OF zs, of q c] that Pair "7.prems"(2,3) show ?thesis by auto
  qed
  moreover have "distinct (map fst zs)"
    using "7.IH"(2) zs "7.prems"(2,3) by simp
  ultimately show ?case by (auto simp: xs) (metis image_eqI)
qed simp_all

lemma capture_ok:
  assumes "capture h t = Inr s" "tree_wf t"
  obtains fs where "s = snapshot_of h fs"
    and "\<And>p c. (p, c) \<in> set fs \<longleftrightarrow>
      p \<noteq> [] \<and> walk t p = Some (RegularFile (Some c)) \<and> included_file p"
    and "sorted (map (\<lambda>(p, c). relative_string p) fs)"
    and "distinct (map fst fs)"
proof -
  from assms(1) obtain xs fs where xs: "collect_files [] t = Inr xs"
    and fs: "sort_key (\<lambda>p. relative_string (fst p)) xs = map (\<lambda>(p, c). (p, Some c)) fs"
    and s: "s = snapshot_of h fs"
    by (auto simp: capture_def rbind_eq_Inr read_contents_ok)
  have set_xs: "set xs = (\<lambda>(p, c). (p, Some c)) ` set fs"
    using arg_cong [OF fs, of set] by simp
  have "(p, c) \<in> set fs \<longleftrightarrow> (p, Some c) \<in> set xs" for p c
    by (auto simp: set_xs)
  then have mem: "(p, c) \<in> set fs \<longleftrightarrow>
      p \<noteq> [] \<and> walk t p = Some (RegularFile (Some c)) \<and> included_file p" for p c
    using collect_exact(1) [OF xs assms(2), of p "Some c"] by simp
  have "map (\<lambda>(p, c). relative_string p) fs = map (\<lambda>p. relative_string (fst p)) (map (\<lambda>(p, c). (p, Some c)) fs)"
    by auto
  then have srt: "sorted (map (\<lambda>(p, c). relative_string p) fs)"
    by (simp only: fs [symmetric] sorted_sort_key)
  have "map fst fs = map fst (map (\<lambda>(p, c). (p, Some c)) fs)" by auto
  then have "distinct (map fst fs) = distinct (map fst (sort_key (\<lambda>p. relative_string (fst p)) xs))"
    by (simp only: fs)
  then have "distinct (map fst fs)"
    using collect_distinct(1) [OF xs assms(2)] by (simp add: distinct_sort_key)
  with s mem srt show thesis by (rule that)
qed

lemma relative_string_inj_on_walk:
  assumes "tree_wf t" "walk t p = Some n" "walk t q = Some m" "p \<noteq> []" "q \<noteq> []"
    and eq: "relative_string p = relative_string q"
  shows "p = q"
proof -
  have "p = split_char SLASH (relative_string p)"
    using relative_string_parts [OF walk_parts [OF assms(2,1)] assms(4)] by (rule sym)
  also have "\<dots> = split_char SLASH (relative_string q)"
    by (simp only: eq)
  also have "\<dots> = q"
    by (rule relative_string_parts [OF walk_parts [OF assms(3,1)] assms(5)])
  finally show ?thesis .
qed

section \<open>Surfaces\<close>

lemma concat_map_filter:
  "(\<And>x. \<not> P x \<Longrightarrow> f x = []) \<Longrightarrow> concat (map f xs) = concat (map f (filter P xs))"
  by (induction xs) auto

text \<open>The bracket depths after a prefix, or \<open>None\<close> if the scan stops inside it.\<close>

fun depths :: "nat \<Rightarrow> nat \<Rightarrow> string \<Rightarrow> (nat \<times> nat) option" where
  "depths p b [] = Some (p, b)"
| "depths p b (c # s) =
     (if c = CHR ''('' then depths (p + 1) b s
      else if c = CHR '')'' then depths (p - 1) b s
      else if c = CHR ''['' then depths p (b + 1) s
      else if c = CHR '']'' then depths p (b - 1) s
      else if (c = CHR ''{'' \<or> c = CHR ''='') \<and> p = 0 \<and> b = 0 then None
      else depths p b s)"

lemma cut_body_scan_append:
  "depths p b s = Some (p', b') \<Longrightarrow>
     cut_body_scan seen p b (s @ t) = cut_body_scan (seen @ s) p' b' t"
  by (induction p b s arbitrary: seen rule: depths.induct) (auto split: if_splits)

lemma cut_body_at_brace:
  "depths 0 0 s = Some (0, 0) \<Longrightarrow> c = CHR ''{'' \<or> c = CHR ''='' \<Longrightarrow>
     cut_body (s @ c # t) = trim_end s"
  by (auto simp: cut_body_def cut_body_scan_append)

section \<open>Properties\<close>

text \<open>\<^bold>\<open>C26\<close> The revision is bound to content: the byte stream that is hashed determines
  the ordered list of relative paths and complete file contents, because each is framed by its
  64-bit length.  Two different worktree states can only share a revision through a SHA-256
  collision; in particular an edit that keeps a file's length changes the stream.\<close>

theorem revision_stream_injective:
  assumes "u64_sized fs" and "u64_sized gs"
  shows "revision_stream fs = revision_stream gs \<longleftrightarrow> fs = gs"
  using frames_of_inj [OF _ assms] by (auto simp: revision_stream_def)

theorem revision_stream_injective_witness:
  "revision_stream [(''src/A.java'', ''class A {}''), (''src/B.java'', ''B'')]
   \<noteq> revision_stream [(''src/A.java'', ''class A {}src/B.javaB'')]"
  using revision_stream_injective
    [of "[(''src/A.java'', ''class A {}''), (''src/B.java'', ''B'')]"
      "[(''src/A.java'', ''class A {}src/B.javaB'')]"]
  by (simp add: u64_sized_def)

text \<open>\<^bold>\<open>C25\<close> A successful capture records exactly the execution-relevant inputs: a relative
  path carries a content digest iff it is the path of a regular file that is reachable without
  entering an ignored directory and is included by the input policy, and the digest is the one
  of that file's bytes; the file list is in canonical path order and lists the same paths.\<close>

theorem capture_records_exactly_included_files:
  assumes "tree_wf t" and "capture h t = Inr s"
  shows "sorted (files s)
    \<and> ((\<exists>d. bt_get (file_digests s) rel = Some d) \<longleftrightarrow> rel \<in> set (files s))
    \<and> (bt_get (file_digests s) rel = Some d \<longleftrightarrow>
      (\<exists>p c. p \<noteq> [] \<and> walk t p = Some (RegularFile (Some c)) \<and> included_file p
         \<and> relative_string p = rel \<and> d = digest h c))"
proof -
  obtain fs where s: "s = snapshot_of h fs"
    and mem: "\<And>p c. (p, c) \<in> set fs \<longleftrightarrow>
      p \<noteq> [] \<and> walk t p = Some (RegularFile (Some c)) \<and> included_file p"
    and srt: "sorted (map (\<lambda>(p, c). relative_string p) fs)"
    and dist: "distinct (map fst fs)"
    using assms(2,1) by (rule capture_ok) blast
  let ?es = "map (\<lambda>(p, c). (relative_string p, digest h c)) fs"
  have "inj_on relative_string (fst ` set fs)"
    using mem relative_string_inj_on_walk [OF assms(1)] by (fastforce intro!: inj_onI)
  with dist have "distinct (map relative_string (map fst fs))"
    by (simp only: distinct_map set_map)
  moreover have keys: "map fst ?es = map relative_string (map fst fs)"
    by auto
  ultimately have "distinct (map fst ?es)" by (simp only: keys)
  then have get: "bt_get (file_digests s) rel = Some d \<longleftrightarrow> (rel, d) \<in> set ?es" for rel d
    by (simp only: s snapshot_of_def bt_get_collect_distinct revision_snapshot.simps)
  have "sorted (files s)" using srt by (simp add: s snapshot_of_def)
  moreover have "(\<exists>d. bt_get (file_digests s) rel = Some d) \<longleftrightarrow> rel \<in> set (files s)"
    unfolding get by (force simp: s snapshot_of_def)
  moreover have "bt_get (file_digests s) rel = Some d \<longleftrightarrow>
      (\<exists>p c. p \<noteq> [] \<and> walk t p = Some (RegularFile (Some c)) \<and> included_file p
         \<and> relative_string p = rel \<and> d = digest h c)"
    unfolding get using mem by force
  ultimately show ?thesis by blast
qed

definition sample_tree :: node where
  "sample_tree = Directory (Some
     [(''src'', Directory (Some [(''A.java'', RegularFile (Some ''class A {}''))])),
      (''build'', Directory (Some [(''B.java'', RegularFile (Some ''generated''))])),
      (''pom.xml'', RegularFile (Some ''<project/>''))])"


definition sample_hashes :: hashes where
  "sample_hashes = \<lparr>sha256 = (\<lambda>x. take 32 (x @ replicate 32 NUL)), hex = (\<lambda>x. x @ x)\<rparr>"

lemma sample_hashes_ok: "hashes_ok sample_hashes"
  by (auto simp: hashes_ok_def sample_hashes_def min_def)

theorem capture_records_exactly_included_files_witness:
  "\<exists>s. capture sample_hashes sample_tree = Inr s \<and> sorted (files s)
     \<and> bt_get (file_digests s) ''src/A.java'' = Some (digest sample_hashes ''class A {}'')
     \<and> ''build/B.java'' \<notin> set (files s)"
proof -
  have rel: "relative_string [''pom.xml''] = ''pom.xml''"
    "relative_string [''src'', ''A.java''] = ''src/A.java''"
    by (simp_all add: relative_string_def replace_char_def)
  have "collect_files [] sample_tree =
      Inr [([''pom.xml''], Some ''<project/>''), ([''src'', ''A.java''], Some ''class A {}'')]"
    by (simp add: sample_tree_def included_file_def ignored_directory_def build_file_name_def)
  then have s: "capture sample_hashes sample_tree =
      Inr (snapshot_of sample_hashes [([''pom.xml''], ''<project/>''), ([''src'', ''A.java''], ''class A {}'')])"
    (is "_ = Inr ?s")
    by (simp add: capture_def rel)
  have fs: "files ?s = [''pom.xml'', ''src/A.java'']"
    by (simp add: snapshot_of_def rel)
  have wf: "tree_wf sample_tree" by (simp add: sample_tree_def)
  note exact = capture_records_exactly_included_files [OF wf s]
  have "bt_get (file_digests ?s) ''src/A.java'' = Some (digest sample_hashes ''class A {}'')"
    using exact [of "''src/A.java''" "digest sample_hashes ''class A {}''"]
    by (auto intro!: exI [of _ "[''src'', ''A.java'']"]
        simp: sample_tree_def included_file_def relative_string_def replace_char_def ignored_directory_def)
  moreover have "''build/B.java'' \<notin> set (files ?s)"
    by (simp add: fs)
  ultimately show ?thesis using s exact by blast
qed

text \<open>The Unix endpoint always fits in a socket address: whatever the depth of the
  worktree, the path of \<^verbatim>\<open>WorkspaceLayout::new\<close> is shorter than 96 bytes, either the private
  state directory's own \<^verbatim>\<open>daemon.sock\<close> or the short name keyed by the worktree identity.\<close>

theorem layout_socket_fits:
  assumes "hashes_ok h"
  shows "length (socket (layout_new h p)) < SAFE_UNIX_SOCKET_PATH_BYTES"
proof -
  have wid: "length (workspace_id_from_path h p) = 19"
    using assms by (simp add: hashes_ok_def workspace_id_from_path_def short_sha256_def)
  have "length (local_endpoint_path sd w) < SAFE_UNIX_SOCKET_PATH_BYTES" if "length w = 19" for sd w
    using that length_path_join_le [of "''/tmp''" "''walaru-'' @ w @ ''.sock''"]
    by (simp add: local_endpoint_path_def Let_def SAFE_UNIX_SOCKET_PATH_BYTES_def)
  from this [OF wid] show ?thesis by (simp add: layout_new_def Let_def)
qed

theorem layout_socket_fits_witness:
  "length (socket (layout_new sample_hashes (SLASH # replicate 200 (CHR ''w'')))) < 96"
  using layout_socket_fits [OF sample_hashes_ok]
  unfolding SAFE_UNIX_SOCKET_PATH_BYTES_def .


text \<open>The surface promises to keep global initializers, and the source recognises a
  static field by the text \<open> static \<close> with a space on both sides.  A field whose declaration
  starts with \<open>static\<close> has no space before it, so its initializer is cut off and a change of the
  constant's value leaves the Java surface, and with it the surface digest, unchanged.\<close>

theorem java_surface_loses_leading_static_initializer:
  "java_surface (''class A {'' @ [LF] @ ''    static int LIMIT = 1;'' @ [LF] @ ''}'')
   = java_surface (''class A {'' @ [LF] @ ''    static int LIMIT = 2;'' @ [LF] @ ''}'')
   \<and> java_surface (''class A {'' @ [LF] @ ''    public static int LIMIT = 1;'' @ [LF] @ ''}'')
   \<noteq> java_surface (''class A {'' @ [LF] @ ''    public static int LIMIT = 2;'' @ [LF] @ ''}'')"
  by code_simp

end
