(* ===== verification/Java_Surface.thy ===== *)
theory Java_Surface
  imports Workspace
begin

text \<open>
  \<^verbatim>\<open>java_surface\<close> of \<^verbatim>\<open>crates/walaru-core/src/workspace.rs\<close>: exactly which part of a Java source
  belongs to its surface.
\<close>

section \<open>What belongs to the surface\<close>

text \<open>The lines that declare something.\<close>

definition java_declares :: "string \<Rightarrow> bool" where
  "java_declares l =
     ((\<exists>w \<in> {''package '', ''import '', ''@''}. \<exists>t. l = w @ t)
      \<or> (\<exists>w \<in> {''class '', ''interface '', ''enum '', ''record '', ''public '', ''protected '', ''static ''}.
           \<exists>s t. l = s @ w @ t \<and> (s = [] \<or> last s = CHR '' '')))"

text \<open>A line that counts as a whole: it has \<open> static \<close> inside, ends in a semicolon and has no parenthesis.\<close>

definition static_field_line :: "string \<Rightarrow> bool" where
  "static_field_line l = ((\<exists>s t. l = s @ '' static '' @ t) \<and> (\<exists>s. l = s @ '';'') \<and> CHR ''('' \<notin> set l)"

text \<open>The header of a line: everything before its body, the first brace or equals sign outside brackets.\<close>

definition header_of :: "string \<Rightarrow> string \<Rightarrow> bool" where
  "header_of l h =
     (if static_field_line l then h = l
      else (h = l \<and> depths 0 0 l \<noteq> None)
        \<or> (\<exists>c t. l = h @ c # t \<and> (c = CHR ''{'' \<or> c = CHR ''='') \<and> depths 0 0 h = Some (0, 0)))"

lemma java_declares_iff: "java_declaration l \<longleftrightarrow> java_declares l"
proof -
  have word: "starts_with l w \<or> contains_sub l ('' '' @ w) \<longleftrightarrow> (\<exists>s t. l = s @ w @ t \<and> (s = [] \<or> last s = CHR '' ''))" for w
  proof
    assume "starts_with l w \<or> contains_sub l ('' '' @ w)"
    then show "\<exists>s t. l = s @ w @ t \<and> (s = [] \<or> last s = CHR '' '')"
    proof
      assume "contains_sub l ('' '' @ w)"
      then obtain s t where "l = s @ ('' '' @ w) @ t" unfolding contains_sub_iff by blast
      then show ?thesis by (intro exI [of _ "s @ '' ''"] exI [of _ t]) simp
    qed (auto simp: starts_with_iff)
  next
    assume "\<exists>s t. l = s @ w @ t \<and> (s = [] \<or> last s = CHR '' '')"
    then obtain s t where l: "l = s @ w @ t" and s: "s = [] \<or> last s = CHR '' ''" by blast
    show "starts_with l w \<or> contains_sub l ('' '' @ w)"
    proof (cases s rule: rev_exhaust)
      case (snoc r x)
      then have "l = r @ ('' '' @ w) @ t" using l s by simp
      then show ?thesis unfolding contains_sub_iff by blast
    qed (use l in simp)
  qed
  show ?thesis
    unfolding java_declaration_def java_declares_def contains_declaration_def list_ex_iff word
    by (auto simp: starts_with_iff)
qed

lemma static_field_iff:
  "static_field_line l \<longleftrightarrow> contains_sub l '' static '' \<and> ends_with l '';'' \<and> \<not> contains_sub l ''(''"
  unfolding static_field_line_def contains_sub_iff ends_with_iff by (auto simp: in_set_conv_decomp)

lemma depths_step:
  assumes "\<not> ((c = CHR ''{'' \<or> c = CHR ''='') \<and> p = 0 \<and> b = 0)"
  obtains p' b' where "\<And>u. depths p b (c # u) = depths p' b' u"
proof -
  consider "c = CHR ''(''" | "c = CHR '')''" | "c = CHR ''[''" | "c = CHR '']''" | "c \<notin> set ''()[]''" by auto
  then show thesis
  proof cases
    case 1 then show thesis using that [of "p + 1" b] by simp
  next
    case 2 then show thesis using that [of "p - 1" b] by simp
  next
    case 3 then show thesis using that [of p "b + 1"] by simp
  next
    case 4 then show thesis using that [of p "b - 1"] by simp
  next
    case 5 then show thesis using that [of p b] assms by simp
  qed
qed

lemma depths_None:
  "depths p b s = None \<Longrightarrow> \<exists>h c t. s = h @ c # t \<and> (c = CHR ''{'' \<or> c = CHR ''='') \<and> depths p b h = Some (0, 0)"
proof (induction s arbitrary: p b)
  case (Cons c s)
  show ?case
  proof (cases "(c = CHR ''{'' \<or> c = CHR ''='') \<and> p = 0 \<and> b = 0")
    case True
    then show ?thesis by (intro exI [of _ "[]"] exI [of _ c] exI [of _ s]) simp
  next
    case False
    then obtain p' b' where step: "\<And>u. depths p b (c # u) = depths p' b' u" by (rule depths_step) blast
    from Cons.IH [of p' b'] Cons.prems obtain h d t where
      "s = h @ d # t" "d = CHR ''{'' \<or> d = CHR ''=''" "depths p' b' h = Some (0, 0)" unfolding step by blast
    then show ?thesis by (intro exI [of _ "c # h"] exI [of _ d] exI [of _ t]) (simp only: append_Cons step simp_thms)
  qed
qed simp

lemma cut_body_whole: "depths 0 0 l \<noteq> None \<Longrightarrow> cut_body l = l"
  using cut_body_scan_append [of 0 0 l _ _ "[]" "[]"] by (auto simp: cut_body_def)


lemma header_of_cut:
  assumes "\<not> static_field_line l"
  shows "header_of l h \<Longrightarrow> cut_body l = h \<or> cut_body l = trim_end h"
  using assms cut_body_whole cut_body_at_brace by (auto simp: header_of_def)

lemma header_of_total: "\<exists>h. header_of l h"
  using depths_None [of 0 0 l] unfolding header_of_def by (cases "depths 0 0 l = None") (auto split: if_splits)

section \<open>Words\<close>

text \<open>Blanks at the end add no word.\<close>

lemma split_ws_blanks: "list_all is_whitespace ws \<Longrightarrow> split_ws (us @ ws) = split_ws us @ replicate (length ws) []"
proof (induction us)
  case Nil
  then show ?case by (induction ws) simp_all
next
  case (Cons u us)
  have "split_ws us \<noteq> []" by (induction us) (simp_all split: list.split)
  with Cons show ?case by (cases "split_ws us") simp_all
qed

lemma split_whitespace_trim_end: "split_whitespace (trim_end s) = split_whitespace s"
proof -
  define n where "n = length (takeWhile is_whitespace (rev (utf8_chars s)))"
  let ?gs = "utf8_chars s" and ?k = "length (utf8_chars s) - n"
  have t: "rev (dropWhile is_whitespace (rev ?gs)) = take ?k ?gs"
    by (simp add: n_def dropWhile_eq_drop rev_drop)
  have "list_all is_whitespace (drop ?k ?gs)"
  proof -
    have "drop ?k ?gs = rev (takeWhile is_whitespace (rev ?gs))"
      by (metis n_def rev_rev_ident rev_take takeWhile_eq_take length_rev)
    then show ?thesis by (auto simp: list_all_iff dest: set_takeWhileD)
  qed
  then have "split_ws (take ?k ?gs @ drop ?k ?gs) = split_ws (take ?k ?gs) @ replicate (length (drop ?k ?gs)) []"
    by (rule split_ws_blanks)
  moreover have "utf8_chars (trim_end s) = take ?k ?gs"
    unfolding trim_end_by_def t by (rule utf8_chars_concat [OF well_grouped_take [OF well_grouped_utf8_chars]])
  ultimately show ?thesis by (simp add: split_whitespace_def)
qed

text \<open>In text of scalar values an ASCII byte is a scalar value by itself.\<close>

abbreviation ascii_alone :: "string \<Rightarrow> bool" where
  "ascii_alone \<equiv> successively (\<lambda>c d. \<not> (byte_of c < 128 \<and> utf8_continuation d))"

lemma utf8_valid_hd: "utf8_valid (b # t) \<Longrightarrow> \<not> utf8_continuation b"
  by (cases "b # t" rule: utf8_valid.cases) (auto simp: between_bytes_def utf8_continuation_def split: if_splits)

lemma utf8_valid_alone: "utf8_valid s \<Longrightarrow> ascii_alone s"
proof (induction s rule: utf8_valid.induct)
  case (3 a b)
  then show ?case using utf8_valid_hd [of b "[]"] by (auto simp: between_bytes_def split: if_splits)
next
  case (4 a b c)
  then show ?case using utf8_valid_hd [of b "[c]"] by (auto simp: between_bytes_def split: if_splits)
next
  case (5 a b c d s)
  have "byte_of a < 128 \<or> 128 \<le> byte_of a" by auto
  then show ?case
  proof
    assume "byte_of a < 128"
    then show ?thesis using 5 utf8_valid_hd [of b "c # d # s"] by auto
  next
    assume a: "128 \<le> byte_of a"
    show ?thesis
    proof (cases "between_bytes 194 223 a")
      case True
      then have "between_bytes 128 191 b" "ascii_alone (c # d # s)" using 5 a by auto
      with a show ?thesis by (auto simp: between_bytes_def)
    next
      case False
      show ?thesis
      proof (cases "between_bytes 224 239 a")
        case True
        then have "128 \<le> byte_of b" "128 \<le> byte_of c" "ascii_alone (d # s)"
          using 5 a False by (auto simp: between_bytes_def split: if_splits)
        with a show ?thesis by auto
      next
        case False': False
        then have "128 \<le> byte_of b" "128 \<le> byte_of c" "128 \<le> byte_of d" "ascii_alone s"
          using 5 a False by (auto simp: between_bytes_def split: if_splits)
        with a show ?thesis by (cases s) auto
      qed
    qed
  qed
qed simp_all


lemma alone_part: "ascii_alone (u @ t @ v) \<Longrightarrow> ascii_alone t"
  by (simp add: successively_append_iff)

lemma join_part: "t \<in> set ps \<Longrightarrow> \<exists>u v. join sep ps = u @ t @ v"
proof (induction ps)
  case (Cons p ps)
  show ?case
  proof (cases "t = p")
    case True
    then show ?thesis
      by (intro exI [of _ "[]"] exI [of _ "if ps = [] then [] else sep @ join sep ps"]) (simp add: join_Cons)
  next
    case False
    then obtain u v where "join sep ps = u @ t @ v" using Cons by auto
    moreover have "ps \<noteq> []" using False Cons.prems by auto
    ultimately show ?thesis by (intro exI [of _ "p @ sep @ u"] exI [of _ v]) (simp add: join_Cons)
  qed
qed simp

lemma split_char_part: "t \<in> set (split_char c s) \<Longrightarrow> \<exists>u v. s = u @ t @ v"
  using join_part [of t "split_char c s" "[c]"] by (simp add: join_split_char)

lemma trim_part: "\<exists>u v. s = u @ trim s @ v"
proof -
  have start: "\<exists>u. x = u @ trim_start x" for x
    unfolding trim_start_by_def by (metis concat_append concat_utf8_chars takeWhile_dropWhile_id)
  have "\<exists>v. x = trim_end x @ v" for x
  proof -
    have "rev (dropWhile is_whitespace (rev (utf8_chars x))) @ rev (takeWhile is_whitespace (rev (utf8_chars x))) = utf8_chars x"
      by (metis rev_append rev_rev_ident takeWhile_dropWhile_id)
    then show ?thesis unfolding trim_end_by_def by (metis concat_append concat_utf8_chars)
  qed
  with start show ?thesis unfolding trim_by_def by metis
qed

lemma lines_part: "l \<in> set (lines s) \<Longrightarrow> \<exists>u v. s = u @ l @ v"
proof -
  assume "l \<in> set (lines s)"
  have "\<exists>t. t \<in> set (split_char LF s) \<and> (l = t \<or> l = strip_cr t)"
  proof (cases "l = last (split_char LF s)")
    case True
    then show ?thesis using last_in_set [OF split_char_not_Nil, of LF s] by blast
  next
    case False
    then show ?thesis using \<open>l \<in> set (lines s)\<close>
      by (auto simp: lines_def Let_def split: if_splits dest: in_set_butlastD)
  qed
  then obtain t where t: "t \<in> set (split_char LF s)" and l: "l = t \<or> l = strip_cr t" by blast
  have "\<exists>w. t = l @ w" using l strip_suffix_Some by (auto simp: strip_cr_def split: option.splits)
  with split_char_part [OF t] show ?thesis by (metis append_assoc)
qed

lemma alone_line: "utf8_valid s \<Longrightarrow> l \<in> set (map trim (lines s)) \<Longrightarrow> ascii_alone l"
proof -
  assume "utf8_valid s" "l \<in> set (map trim (lines s))"
  then obtain m where "ascii_alone s" "m \<in> set (lines s)" "l = trim m" using utf8_valid_alone by auto
  then show ?thesis using lines_part [of m s] trim_part [of m] alone_part by metis
qed

text \<open>A word has no blank and no line feed.\<close>

lemma split_ws_word: "w \<in> set (split_ws gs) \<Longrightarrow> \<exists>hs. w = concat hs \<and> set hs \<subseteq> {g \<in> set gs. \<not> is_whitespace g}"
proof (induction gs arbitrary: w)
  case Nil
  then show ?case by (auto intro: exI [of _ "[]"])
next
  case (Cons g gs)
  have none: "\<exists>hs. [] = concat hs \<and> set hs \<subseteq> A" for A :: "string set" by (rule exI [of _ "[]"]) simp
  obtain p ps where ps: "split_ws gs = p # ps" by (cases "split_ws gs"; cases gs) (auto split: if_splits list.splits)
  consider "is_whitespace g" "w = []" | "w \<in> set (split_ws gs)" | "\<not> is_whitespace g" "w = g @ p"
    using Cons.prems ps by (auto split: if_splits)
  then show ?case
  proof cases
    case 1
    then show ?thesis using none by simp
  next
    case 2
    then show ?thesis using Cons.IH by fastforce
  next
    case 3
    obtain hs where "p = concat hs" "set hs \<subseteq> {g \<in> set gs. \<not> is_whitespace g}" using Cons.IH [of p] ps by auto
    with 3 show ?thesis by (intro exI [of _ "g # hs"]) auto
  qed
qed

lemma word_plain:
  assumes "ascii_alone s" "w \<in> set (split_whitespace s)"
  shows "w \<noteq> []" "CHR '' '' \<notin> set w" "LF \<notin> set w"
proof -
  obtain hs where w: "w \<noteq> []" "w = concat hs" and hs: "set hs \<subseteq> {g \<in> set (utf8_chars s). \<not> is_whitespace g}"
    using assms(2) split_ws_word by (fastforce simp: split_whitespace_def)
  show "w \<noteq> []" by (rule w(1))
  have "x \<notin> set w" if x: "x = CHR '' '' \<or> x = LF" for x
  proof
    assume "x \<in> set w"
    then obtain g where g: "g \<in> set (utf8_chars s)" "\<not> is_whitespace g" "x \<in> set g" using w(2) hs by auto
    obtain gs1 gs2 where "utf8_chars s = gs1 @ g # gs2" using split_list [OF g(1)] by blast
    then have "s = concat gs1 @ g @ concat gs2" by (metis concat.simps(2) concat_append concat_utf8_chars)
    then have alone: "ascii_alone g" using alone_part assms(1) by metis
    obtain b cs where b: "g = b # cs" and cs: "list_all utf8_continuation cs"
      using well_grouped_utf8_chars [of s] g(1) by (cases g) (auto simp: well_grouped_def)
    have byte: "byte_of x \<in> {32, 10}" using x by (auto simp: byte_of_def)
    have "x \<notin> set cs" using cs byte by (auto simp: list_all_iff utf8_continuation_def)
    then have "b = x" using g(3) b by auto
    then have "cs = []" using alone byte cs b by (cases cs) auto
    then show False using g(2) byte b \<open>b = x\<close> by (auto simp: is_whitespace_def)
  qed
  then show "CHR '' '' \<notin> set w" "LF \<notin> set w" by blast+
qed

text \<open>Words joined by blanks, and lines ended by line feeds, can be told apart again.\<close>

lemma before_separator:
  assumes "s @ c # x = t @ c # y" "c \<notin> set s" "c \<notin> set t"
  shows "s = t \<and> x = y"
  using assms
proof (induction s arbitrary: t)
  case Nil
  then show ?case by (cases t) auto
next
  case (Cons d s)
  then show ?case by (cases t) auto
qed

lemma join_words_inj:
  assumes "join '' '' xs = join '' '' ys" "\<forall>w \<in> set xs \<union> set ys. w \<noteq> [] \<and> CHR '' '' \<notin> set w"
  shows "xs = ys"
  using assms
proof (induction xs arbitrary: ys)
  case Nil
  then show ?case by (cases ys) (auto simp: join_Cons split: if_splits)
next
  case (Cons x xs)
  then obtain y ys' where ys: "ys = y # ys'" by (cases ys) (auto simp: join_Cons split: if_splits)
  have plain: "x \<noteq> []" "CHR '' '' \<notin> set x" "y \<noteq> []" "CHR '' '' \<notin> set y" using Cons.prems(2) ys by auto
  show ?case
  proof (cases "xs = [] \<or> ys' = []")
    case True
    then have "xs = [] \<and> ys' = [] \<and> x = y"
      using Cons.prems(1) plain ys by (auto simp: join_Cons split: if_splits)
    then show ?thesis by (simp add: ys)
  next
    case False
    then have "x @ CHR '' '' # join '' '' xs = y @ CHR '' '' # join '' '' ys'"
      using Cons.prems(1) ys by (simp add: join_Cons)
    then have "x = y \<and> join '' '' xs = join '' '' ys'" by (rule before_separator) (rule plain)+
    then show ?thesis using Cons.IH [of ys'] Cons.prems(2) ys by simp
  qed
qed

text \<open>One line of the surface, and all of them.\<close>

definition surface_line :: "string \<Rightarrow> string" where
  "surface_line l = join '' '' (split_whitespace (if static_field_line l then l else cut_body l)) @ [LF]"

lemma java_surface_lines:
  assumes "\<not> list_ex (\<lambda>l. starts_with (trim_start l) ''static {'') (lines a)"
  shows "java_surface a = concat (map surface_line (filter java_declares (map trim (lines a))))"
proof -
  have "java_line l = (if java_declares (trim l) then surface_line (trim l) else [])" for l
    unfolding java_line_def java_declares_iff surface_line_def static_field_iff Let_def normalize_space_def by simp
  then have "concat (map java_line ls) = concat (map surface_line (filter java_declares (map trim ls)))" for ls
    by (induction ls) simp_all
  then show ?thesis using assms by (simp add: java_surface_def)
qed

lemma header_words: "header_of l h \<Longrightarrow> surface_line l = join '' '' (split_whitespace h) @ [LF]"
  using header_of_cut [of l h] split_whitespace_trim_end [of h]
  by (cases "static_field_line l") (auto simp: surface_line_def header_of_def)

lemma header_part: "header_of l h \<Longrightarrow> \<exists>v. l = h @ v"
  by (auto simp: header_of_def split: if_splits)

lemma surface_line_eq:
  assumes "ascii_alone l" "ascii_alone m" "header_of l h" "header_of m k"
  shows "surface_line l @ x = surface_line m @ y \<longleftrightarrow> split_whitespace h = split_whitespace k \<and> x = y"
proof -
  have "ascii_alone h" "ascii_alone k"
    using header_part assms alone_part [of "[]"] by (metis append_Nil)+
  then have plain: "\<forall>w \<in> set (split_whitespace h) \<union> set (split_whitespace k). w \<noteq> [] \<and> CHR '' '' \<notin> set w \<and> LF \<notin> set w"
    using word_plain by blast
  have lf: "LF \<notin> set (join '' '' (split_whitespace h))" "LF \<notin> set (join '' '' (split_whitespace k))"
    using plain set_join [of "'' ''"] by fastforce+
  show ?thesis
  proof
    assume "surface_line l @ x = surface_line m @ y"
    then have "join '' '' (split_whitespace h) @ LF # x = join '' '' (split_whitespace k) @ LF # y"
      by (simp add: header_words [OF assms(3)] header_words [OF assms(4)])
    then have "join '' '' (split_whitespace h) = join '' '' (split_whitespace k) \<and> x = y"
      by (rule before_separator) (rule lf)+
    then show "split_whitespace h = split_whitespace k \<and> x = y" using join_words_inj plain by blast
  next
    assume "split_whitespace h = split_whitespace k \<and> x = y"
    then show "surface_line l @ x = surface_line m @ y"
      by (simp add: header_words [OF assms(3)] header_words [OF assms(4)])
  qed
qed

definition same_header :: "string \<Rightarrow> string \<Rightarrow> bool" where
  "same_header l m = (\<exists>h k. header_of l h \<and> header_of m k \<and> split_whitespace h = split_whitespace k)"

lemma surface_lines_eq:
  assumes "\<forall>l \<in> set ls \<union> set ms. ascii_alone l"
  shows "concat (map surface_line ls) = concat (map surface_line ms) \<longleftrightarrow> list_all2 same_header ls ms"
  using assms
proof (induction ls arbitrary: ms)
  case Nil
  then show ?case by (cases ms) (simp_all add: surface_line_def)
next
  case (Cons l ls)
  show ?case
  proof (cases ms)
    case Nil
    then show ?thesis by (simp add: surface_line_def)
  next
    case (Cons m ms')
    obtain h k where hk: "header_of l h" "header_of m k" using header_of_total by blast
    have alone: "ascii_alone l" "ascii_alone m" using Cons.prems Cons by auto
    note eq = surface_line_eq [OF alone]
    have "same_header l m \<longleftrightarrow> split_whitespace h = split_whitespace k"
      unfolding same_header_def using eq [OF hk, of "[]" "[]"] eq [of _ _ "[]" "[]"] hk by blast
    then show ?thesis using Cons.IH [of ms'] Cons.prems Cons eq [OF hk] by auto
  qed
qed

section \<open>Properties\<close>



end
