(* ===== verification/Json.thy ===== *)
theory Json
  imports Complex_Main Rust_Prelude Rust_Collections Rust_Decimal
begin

text \<open>
  JSON values as the sources handle them: the constructors of \<^verbatim>\<open>serde_json::Value\<close> the
  code matches on, and the accessors it calls (\<^verbatim>\<open>get\<close>, \<^verbatim>\<open>as_str\<close>, \<^verbatim>\<open>as_bool\<close>,
  \<^verbatim>\<open>as_i64\<close>, \<^verbatim>\<open>as_u64\<close>, \<^verbatim>\<open>as_array\<close>, \<^verbatim>\<open>as_object\<close>).  An object is a
  \<^verbatim>\<open>BTreeMap\<close> from strings; a number is integral or a finite double (by its value).
  Encoding to and decoding from bytes are not modelled here: they are parameters of the
  operations that use them.
\<close>

datatype json =
    JNull
  | JBool bool
  | JInt int
  | JFloat rat
  | JString string
  | JArray "json list"
  | JObject "(string \<times> json) list"

text \<open>Objects are ordered maps at every depth.\<close>

fun json_wf :: "json \<Rightarrow> bool" where
  "json_wf (JArray xs) = (\<forall>x \<in> set xs. json_wf x)"
| "json_wf (JObject m) = (bt_wf m \<and> (\<forall>e \<in> set m. json_wf (snd e)))"
| "json_wf _ = True"

definition json_get :: "json \<Rightarrow> string \<Rightarrow> json option" where
  "json_get v k = (case v of JObject m \<Rightarrow> bt_get m k | _ \<Rightarrow> None)"

definition as_str :: "json \<Rightarrow> string option" where
  "as_str v = (case v of JString s \<Rightarrow> Some s | _ \<Rightarrow> None)"

definition as_bool :: "json \<Rightarrow> bool option" where
  "as_bool v = (case v of JBool b \<Rightarrow> Some b | _ \<Rightarrow> None)"

definition as_array :: "json \<Rightarrow> json list option" where
  "as_array v = (case v of JArray xs \<Rightarrow> Some xs | _ \<Rightarrow> None)"

definition as_object :: "json \<Rightarrow> (string \<times> json) list option" where
  "as_object v = (case v of JObject m \<Rightarrow> Some m | _ \<Rightarrow> None)"

definition as_i64 :: "json \<Rightarrow> int option" where
  "as_i64 v = (case v of
      JInt i \<Rightarrow> if i64_min \<le> i \<and> i \<le> i64_max then Some i else None
    | _ \<Rightarrow> None)"

definition as_u64 :: "json \<Rightarrow> nat option" where
  "as_u64 v = (case v of
      JInt i \<Rightarrow> if 0 \<le> i \<and> i \<le> int u64_max then Some (nat i) else None
    | _ \<Rightarrow> None)"

text \<open>The chains \<^verbatim>\<open>value.get(key).and_then(Value::as_str)\<close> and their kin.\<close>

definition get_str :: "json \<Rightarrow> string \<Rightarrow> string option" where
  "get_str v k = Option.bind (json_get v k) as_str"

definition get_bool :: "json \<Rightarrow> string \<Rightarrow> bool option" where
  "get_bool v k = Option.bind (json_get v k) as_bool"

definition get_i64 :: "json \<Rightarrow> string \<Rightarrow> int option" where
  "get_i64 v k = Option.bind (json_get v k) as_i64"

definition get_u64 :: "json \<Rightarrow> string \<Rightarrow> nat option" where
  "get_u64 v k = Option.bind (json_get v k) as_u64"

definition unwrap_or :: "'a option \<Rightarrow> 'a \<Rightarrow> 'a" where
  "unwrap_or x d = (case x of Some y \<Rightarrow> y | None \<Rightarrow> d)"

lemma unwrap_or_simps [simp]: "unwrap_or None d = d" "unwrap_or (Some y) d = y"
  by (simp_all add: unwrap_or_def)

lemmas json_access =
  json_get_def as_str_def as_bool_def as_array_def as_object_def as_i64_def as_u64_def
  get_str_def get_bool_def get_i64_def get_u64_def bt_get_def

lemma json_wf_get: "json_wf v \<Longrightarrow> json_get v k = Some w \<Longrightarrow> json_wf w"
  by (cases v) (auto simp: json_get_def dest!: bt_get_Some_set)

end
