(* ===== verification/Protocol.thy ===== *)
theory Protocol
  imports Json
begin

text \<open>
  \<^verbatim>\<open>crates/walaru-core/src/protocol.rs\<close>: the version 1 JSON envelope every response
  carries, the capability manifest of a recording, and the RPC messages between the CLI and
  the daemon.
\<close>

definition SCHEMA_VERSION :: string where "SCHEMA_VERSION = ''1''"

datatype status = Ok | Failure | Partial | Stale | Unsupported | Error

datatype completeness = Complete | PartiallyComplete | UnsupportedRecording

record diagnostic =
  code :: string
  severity :: string
  message :: string
  details :: "(string, string) btree"

record capability_manifest =
  cap_backend :: string
  completeness :: completeness
  supported :: "string list"
  unavailable :: "(string, string) btree"

definition query_only :: capability_manifest where
  "query_only = \<lparr>cap_backend = ''none'', completeness = UnsupportedRecording,
     supported = [], unavailable = []\<rparr>"

record next_action =
  title :: string
  argv :: "string list"

record page =
  page_cursor :: "string option"
  page_next_cursor :: "string option"
  page_limit :: nat
  returned :: nat

record envelope =
  schema_version :: string
  workspace_id :: string
  env_revision :: string
  session_id :: string
  env_run_id :: "string option"
  env_status :: status
  env_data :: json
  diagnostics :: "diagnostic list"
  capabilities :: capability_manifest
  next_actions :: "next_action list"
  env_page :: "page option"

record rpc_request =
  req_schema_version :: nat
  request_id :: string
  workspace_root :: string
  command :: string
  payload_json :: string

record rpc_response =
  resp_schema_version :: nat
  resp_request_id :: string
  exit_code :: int
  envelope_json :: string

text \<open>The frame of a worker's event; bytes are a string.\<close>

record worker_event =
  we_schema_version :: nat
  we_workspace_id :: string
  we_revision :: string
  we_run_id :: string
  we_test_id :: string
  we_sequence :: nat
  we_thread_id :: nat
  we_kind :: string
  we_event_json :: string

end
