(* ===== verification/Replay.thy ===== *)
theory Replay
  imports Protocol
begin

text \<open>
  \<^verbatim>\<open>crates/walaru-core/src/replay.rs\<close>: recordings and their events, reverse navigation
  by the JVM backend, the comparison of a fresh execution with a recording
  (\<^verbatim>\<open>verify_replayed_prefix\<close>), and the experimental Linux \<^verbatim>\<open>rr\<close> backend.  Both
  backends implement the trait \<^verbatim>\<open>ReplayBackend\<close>, stated here as the locale
  \<open>replay_backend\<close> and interpreted on each of them.
\<close>

section \<open>Data\<close>

datatype event_kind =
    TestStart | Line | Call | Write | Read | Monitor | TestFinish | Output | Input
  | Checkpoint | Capture | Note | SpanStart | SpanValue | SpanEnd

record logical_frame =
  class_name :: string
  lf_method :: string
  lf_path :: string
  lf_line :: nat

record source_location =
  loc_path :: string
  loc_line :: nat
  column :: nat
  symbol :: string

record event =
  ev_id :: string
  sequence :: nat
  thread_id :: nat
  thread_key :: string
  virtual_thread :: bool
  coroutine :: bool
  logical_stack :: "logical_frame list"
  kind :: event_kind
  location :: "source_location option"
  ev_values :: json
  observations :: json
  state_hash :: string
  output_index :: nat

record recorded_input =
  input_kind :: string
  encoded :: string
  sensitive :: bool

record replay_checkpoint =
  cp_sequence :: nat
  cp_event_id :: string
  cp_state_hash :: string
  cp_output_index :: nat

record linux_process_artifact =
  trace_directory :: string
  event_index :: "(string, nat) btree"

record recording =
  rec_id :: string
  rec_revision :: string
  rec_test_id :: string
  rec_backend :: string
  rec_capabilities :: capability_manifest
  inputs :: "recorded_input list"
  linux_process :: "linux_process_artifact option"
  rec_events :: "event list"
  checkpoints :: "replay_checkpoint list"

datatype step_kind = StepLine | StepCall | StepWrite

record source_target =
  target_path :: string
  target_line :: nat

record reverse_request =
  from_event_id :: string
  step :: "step_kind option"
  until :: "source_target option"
  watch :: "string option"

record reverse_outcome =
  out_backend :: string
  out_event :: event
  verified :: bool

record linux_replay_plan =
  executable :: string
  plan_argv :: "string list"
  plan_event :: event
  plan_verified :: bool

datatype replay_error =
    UnsupportedCapability string string
  | UnknownEvent string
  | NoPreviousEvent string
  | InvalidRequest
  | Diverged nat string

section \<open>Helpers\<close>

text \<open>\<^verbatim>\<open>empty_object\<close> and \<^verbatim>\<open>value_is_empty_object\<close>, the serialization defaults of
  \<^verbatim>\<open>Event::observations\<close>.\<close>

definition empty_object :: json where "empty_object = JObject []"

definition value_is_empty_object :: "json \<Rightarrow> bool" where
  "value_is_empty_object v = (case as_object v of Some m \<Rightarrow> m = [] | None \<Rightarrow> False)"

text \<open>\<^verbatim>\<open>trim_start_matches("./")\<close> removes every leading occurrence.\<close>

fun trim_dot_slash :: "string \<Rightarrow> string" where
  "trim_dot_slash (a # b # s) =
     (if a = CHR ''.'' \<and> b = SLASH then trim_dot_slash s else a # b # s)"
| "trim_dot_slash s = s"

definition normalize_path :: "string \<Rightarrow> string" where
  "normalize_path p = trim_dot_slash (replace_char BACKSLASH SLASH p)"

text \<open>The index of an \<^verbatim>\<open>array[index]\<close> watchpoint.\<close>

definition array_watch_index :: "string \<Rightarrow> int option" where
  "array_watch_index w =
     Option.bind (strip_prefix w ''array['') (\<lambda>v. Option.bind (strip_suffix v '']'') parse_i64)"

definition valid_watchpoint :: "string \<Rightarrow> bool" where
  "valid_watchpoint w =
     ((case split_once w ''#'' of
         Some (owner, field) \<Rightarrow> trim owner \<noteq> [] \<and> trim field \<noteq> []
       | None \<Rightarrow> False)
      \<or> array_watch_index w \<noteq> None)"

definition matches_watchpoint :: "json \<Rightarrow> string \<Rightarrow> bool" where
  "matches_watchpoint values w =
     (case array_watch_index w of
        Some index \<Rightarrow>
          get_str values ''targetKind'' = Some ''array'' \<and> get_i64 values ''index'' = Some index
      | None \<Rightarrow>
          (case split_once w ''#'' of
             None \<Rightarrow> False
           | Some (owner, field) \<Rightarrow>
               get_str values ''targetKind'' = Some ''field''
               \<and> (case get_str values ''targetOwner'' of
                    Some actual \<Rightarrow>
                      replace_char (CHR ''.'') SLASH actual
                        = replace_char (CHR ''.'') SLASH (trim owner)
                  | None \<Rightarrow> False)
               \<and> get_str values ''field'' = Some (trim field)))"

definition step_matches :: "step_kind \<Rightarrow> event_kind \<Rightarrow> bool" where
  "step_matches s k = (case (s, k) of
      (StepLine, Line) \<Rightarrow> True
    | (StepCall, Call) \<Rightarrow> True
    | (StepWrite, Write) \<Rightarrow> True
    | _ \<Rightarrow> False)"

definition matches_request :: "event \<Rightarrow> reverse_request \<Rightarrow> bool" where
  "matches_request e q =
     (case step q of
        Some s \<Rightarrow>
          step_matches s (kind e)
          \<and> (case watch q of None \<Rightarrow> True | Some w \<Rightarrow> matches_watchpoint (ev_values e) w)
      | None \<Rightarrow>
          (case until q of
             None \<Rightarrow> False
           | Some target \<Rightarrow>
               (case location e of
                  None \<Rightarrow> False
                | Some l \<Rightarrow>
                    normalize_path (loc_path l) = normalize_path (target_path target)
                    \<and> loc_line l = target_line target)))"

section \<open>Validation of a recording\<close>

text \<open>The loop over the checkpoints; \<open>prev\<close> is \<^verbatim>\<open>previous_sequence\<close>.\<close>

fun validate_checkpoints ::
  "event list \<Rightarrow> nat option \<Rightarrow> replay_checkpoint list \<Rightarrow> replay_error + unit" where
  "validate_checkpoints es prev [] = Inr ()"
| "validate_checkpoints es prev (c # cs) =
     (if (case prev of Some p \<Rightarrow> cp_sequence c \<le> p | None \<Rightarrow> False)
      then Inl (Diverged (cp_sequence c) ''recording checkpoints are not strictly ordered'')
      else (case List.find (\<lambda>e. sequence e = cp_sequence c \<and> ev_id e = cp_event_id c) es of
          None \<Rightarrow> Inl (Diverged (cp_sequence c) ''recording checkpoint does not reference an event'')
        | Some e \<Rightarrow>
            if state_hash e \<noteq> cp_state_hash c \<or> output_index e \<noteq> cp_output_index c
            then Inl (Diverged (cp_sequence c) ''recording checkpoint state is inconsistent'')
            else validate_checkpoints es (Some (cp_sequence c)) cs))"

definition validate_capabilities :: "capability_manifest \<Rightarrow> replay_error + unit" where
  "validate_capabilities c =
     (if completeness c \<noteq> Complete
      then (case unavailable c of
              [] \<Rightarrow> Inl (UnsupportedCapability ''completeness'' ''recording is marked partial'')
            | (capability, reason) # _ \<Rightarrow> Inl (UnsupportedCapability capability reason))
      else if ''pureJvm'' \<notin> set (supported c)
      then Inl (UnsupportedCapability ''pureJvm'' ''recording does not declare `pureJvm`'')
      else if ''singleThread'' \<notin> set (supported c) \<and> ''threadSchedule'' \<notin> set (supported c)
      then Inl (UnsupportedCapability ''threads''
        ''recording declares neither single-thread execution nor a replay schedule'')
      else Inr ())"

definition validate_recording :: "recording \<Rightarrow> replay_error + unit" where
  "validate_recording r =
     rbind (validate_checkpoints (rec_events r) None (checkpoints r))
       (\<lambda>_. validate_capabilities (rec_capabilities r))"

section \<open>The JVM backend\<close>

definition jvm_capabilities :: capability_manifest where
  "jvm_capabilities =
     \<lparr>cap_backend = ''jvm'', completeness = Complete,
      supported = [''singleThread'', ''singleTest'', ''pureJvm'', ''line'', ''call'', ''write'',
        ''threads'', ''threadSchedule'', ''virtualThreads'', ''deterministicInputs'',
        ''fieldReads'', ''arrayWrites'', ''monitorOrder'', ''volatileAccess'',
        ''writeWatchpoints'', ''reverseContinue'', ''replayCheckpoints'',
        ''boundedFileInputsOptIn''],
      unavailable = bt_collect
        [(''native'', ''JNI inputs are not recorded''),
         (''io'', ''network and unbounded file I/O are not recorded; bounded Files reads require explicit opt-in''),
         (''subprocess'', ''child processes are not recorded'')]\<rparr>"

text \<open>The two request checks at the head of both backends.\<close>

definition check_request :: "reverse_request \<Rightarrow> replay_error + unit" where
  "check_request q =
     (if (step q \<noteq> None) = (until q \<noteq> None) then Inl InvalidRequest
      else if watch q \<noteq> None
        \<and> (step q \<noteq> Some StepWrite
           \<or> \<not> (case watch q of Some w \<Rightarrow> valid_watchpoint w | None \<Rightarrow> False))
      then Inl InvalidRequest
      else Inr ())"

text \<open>The search both backends share: the last match before the starting event.\<close>

definition find_previous :: "event list \<Rightarrow> reverse_request \<Rightarrow> replay_error + event" where
  "find_previous es q =
     (case position (\<lambda>e. ev_id e = from_event_id q) es of
        None \<Rightarrow> Inl (UnknownEvent (from_event_id q))
      | Some start \<Rightarrow>
          (case rfind (\<lambda>e. matches_request e q) (take start es) of
             None \<Rightarrow> Inl (NoPreviousEvent (from_event_id q))
           | Some e \<Rightarrow> Inr e))"

definition jvm_reverse :: "recording \<Rightarrow> reverse_request \<Rightarrow> replay_error + reverse_outcome" where
  "jvm_reverse r q =
     rbind (validate_recording r) (\<lambda>_.
     rbind (check_request q) (\<lambda>_.
     rbind (find_previous (rec_events r) q) (\<lambda>e.
       Inr \<lparr>out_backend = ''jvm'', out_event = e, verified = False\<rparr>)))"

section \<open>Comparison with a fresh execution\<close>

definition divergence :: "event \<Rightarrow> event \<Rightarrow> string option" where
  "divergence original fresh =
     (if kind original \<noteq> kind fresh then Some ''event kind changed''
      else if location original \<noteq> location fresh then Some ''source location changed''
      else if thread_key original \<noteq> thread_key fresh
        \<or> virtual_thread original \<noteq> virtual_thread fresh then Some ''logical thread changed''
      else if coroutine original \<noteq> coroutine fresh
        \<or> logical_stack original \<noteq> logical_stack fresh
      then Some ''coroutine logical stack changed''
      else if ev_values original \<noteq> ev_values fresh then Some ''captured runtime values changed''
      else if state_hash original \<noteq> state_hash fresh then Some ''state hash changed''
      else if output_index original \<noteq> output_index fresh then Some ''output position changed''
      else None)"

text \<open>The loop over the recorded prefix, in step with the replayed events.\<close>

fun compare_prefix :: "event list \<Rightarrow> event list \<Rightarrow> replay_error + unit" where
  "compare_prefix [] replayed = Inr ()"
| "compare_prefix (o1 # os) [] =
     Inl (Diverged (sequence o1) ''fresh execution ended before the target event'')"
| "compare_prefix (o1 # os) (f # fs) =
     (case divergence o1 f of
        Some reason \<Rightarrow> Inl (Diverged (sequence o1) reason)
      | None \<Rightarrow> compare_prefix os fs)"

definition verify_replayed_prefix ::
  "recording \<Rightarrow> event list \<Rightarrow> string \<Rightarrow> replay_error + unit" where
  "verify_replayed_prefix r replayed target_event_id =
     rbind (validate_recording r) (\<lambda>_.
       (case position (\<lambda>e. ev_id e = target_event_id) (rec_events r) of
          None \<Rightarrow> Inl (UnknownEvent target_event_id)
        | Some target \<Rightarrow> compare_prefix (take (Suc target) (rec_events r)) replayed))"

section \<open>The Linux process backend\<close>

record linux_backend =
  rr_executable :: "string option"

definition linux_new :: "bool \<Rightarrow> linux_backend" where
  "linux_new rr_available = \<lparr>rr_executable = (if rr_available then Some ''rr'' else None)\<rparr>"

definition with_rr_executable :: "string \<Rightarrow> linux_backend" where
  "with_rr_executable e = \<lparr>rr_executable = Some e\<rparr>"

definition native_event_of :: "linux_process_artifact \<Rightarrow> string \<Rightarrow> nat option" where
  "native_event_of a event_id =
     (case bt_get (event_index a) event_id of
        Some n \<Rightarrow> if 0 < n then Some n else None
      | None \<Rightarrow> None)"

definition plan_reverse ::
  "linux_backend \<Rightarrow> recording \<Rightarrow> reverse_request \<Rightarrow> replay_error + linux_replay_plan" where
  "plan_reverse b r q =
     (case rr_executable b of
        None \<Rightarrow> Inl (UnsupportedCapability ''rr'' ''rr executable was not detected'')
      | Some exe \<Rightarrow>
          rbind (check_request q) (\<lambda>_.
          rbind (find_previous (rec_events r) q) (\<lambda>e.
            (case linux_process r of
               None \<Rightarrow> Inl (UnsupportedCapability ''rrTrace'' ''recording does not reference an rr trace'')
             | Some a \<Rightarrow>
                 if trim (trace_directory a) = []
                 then Inl (UnsupportedCapability ''rrTrace'' ''rr trace directory is empty'')
                 else (case native_event_of a (ev_id e) of
                     None \<Rightarrow> Inl (UnsupportedCapability ''crossIndex''
                       (''Walaru event `'' @ ev_id e @ ''` has no rr event mapping''))
                   | Some n \<Rightarrow> Inr \<lparr>executable = exe,
                       plan_argv = [''replay'', ''-g'', show_nat n, trace_directory a],
                       plan_event = e, plan_verified = False\<rparr>)))))"

definition linux_capabilities :: "linux_backend \<Rightarrow> capability_manifest" where
  "linux_capabilities b =
     (if rr_executable b \<noteq> None
      then \<lparr>cap_backend = ''linux-process'', completeness = PartiallyComplete,
        supported = [''rrAdapter'', ''crossIndex'', ''navigationPlan''],
        unavailable = bt_collect
          [(''exactStateProof'', ''native/JVM observable state proof is not captured''),
           (''checkpoint'', ''CRIU/CRaC adapter not configured'')]\<rparr>
      else \<lparr>cap_backend = ''linux-process'', completeness = UnsupportedRecording,
        supported = [''crossIndex''],
        unavailable = bt_collect [(''rr'', ''rr executable was not detected'')]\<rparr>)"

definition linux_reverse ::
  "linux_backend \<Rightarrow> recording \<Rightarrow> reverse_request \<Rightarrow> replay_error + reverse_outcome" where
  "linux_reverse b r q =
     rbind (plan_reverse b r q) (\<lambda>_.
       Inl (UnsupportedCapability ''exactStateProof''
         ''rr navigation is available, but the v1 native/JVM state contract cannot yet be verified''))"


section \<open>What the checks accept\<close>

text \<open>The part of an event that replay compares: neither its ID, its raw thread ID, its
  sequence number nor its observations.\<close>

definition observable ::
  "event \<Rightarrow> event_kind \<times> source_location option \<times> (string \<times> bool) \<times>
     (bool \<times> logical_frame list) \<times> json \<times> string \<times> nat" where
  "observable e = (kind e, location e, (thread_key e, virtual_thread e),
     (coroutine e, logical_stack e), ev_values e, state_hash e, output_index e)"

lemma divergence_None: "divergence a b = None \<longleftrightarrow> observable a = observable b"
  by (simp add: divergence_def observable_def)

lemma compare_prefix_ok:
  "compare_prefix os fs = Inr () \<longleftrightarrow> map observable os = map observable (take (length os) fs)"
proof (induction os fs rule: compare_prefix.induct)
  case (3 o1 os f fs)
  then show ?case
    by (cases "divergence o1 f") (simp_all add: divergence_None [symmetric])
qed simp_all

lemma compare_prefix_diverged:
  "compare_prefix os fs = Inl e \<longleftrightarrow>
     (\<exists>i. i < length os
        \<and> map observable (take i os) = map observable (take i fs)
        \<and> e = Diverged (sequence (os ! i))
            (if length fs \<le> i then ''fresh execution ended before the target event''
             else the (divergence (os ! i) (fs ! i)))
        \<and> (i < length fs \<longrightarrow> observable (os ! i) \<noteq> observable (fs ! i)))"
proof (induction os fs rule: compare_prefix.induct)
  case (2 o1 os)
  show ?case by (subst ex_nat_0_Suc) auto
next
  case (3 o1 os f fs)
  show ?case
  proof (cases "divergence o1 f")
    case None
    then have "observable o1 = observable f" by (simp add: divergence_None)
    with 3 [OF None] None show ?thesis
      by (subst ex_nat_0_Suc) simp
  next
    case (Some reason)
    then have "observable o1 \<noteq> observable f" by (metis divergence_None option.distinct(1))
    with Some show ?thesis by (subst ex_nat_0_Suc) auto
  qed
qed simp

text \<open>Each checkpoint names an event and agrees with it.\<close>

definition checkpoint_anchored :: "event list \<Rightarrow> replay_checkpoint \<Rightarrow> bool" where
  "checkpoint_anchored es c =
     (case List.find (\<lambda>e. sequence e = cp_sequence c \<and> ev_id e = cp_event_id c) es of
        None \<Rightarrow> False
      | Some e \<Rightarrow> state_hash e = cp_state_hash c \<and> output_index e = cp_output_index c)"

lemma validate_checkpoints_ok:
  "validate_checkpoints es prev cs = Inr () \<longleftrightarrow>
     list_all (checkpoint_anchored es) cs
     \<and> sorted_wrt (<) ((case prev of None \<Rightarrow> [] | Some p \<Rightarrow> [p]) @ map cp_sequence cs)"
proof (induction es prev cs rule: validate_checkpoints.induct)
  case (2 es prev c cs)
  then show ?case
    by (cases prev; cases "List.find (\<lambda>e. sequence e = cp_sequence c \<and> ev_id e = cp_event_id c) es")
      (auto simp: checkpoint_anchored_def strict_sorted_Cons2 not_le simp del: sorted_wrt.simps)
qed (simp split: option.splits)

lemma validate_capabilities_ok:
  "validate_capabilities c = Inr () \<longleftrightarrow>
     completeness c = Complete \<and> ''pureJvm'' \<in> set (supported c)
     \<and> (''singleThread'' \<in> set (supported c) \<or> ''threadSchedule'' \<in> set (supported c))"
  by (auto simp: validate_capabilities_def split: list.splits)

lemma check_request_ok:
  "check_request q = Inr () \<longleftrightarrow>
     (step q = None) \<noteq> (until q = None)
     \<and> (\<forall>w. watch q = Some w \<longrightarrow> step q = Some StepWrite \<and> valid_watchpoint w)"
  by (cases "watch q") (auto simp: check_request_def)

lemma position_split:
  "position P xs = Some i \<Longrightarrow>
     xs = take i xs @ xs ! i # drop (Suc i) xs \<and> P (xs ! i) \<and> list_all (\<lambda>x. \<not> P x) (take i xs)"
  by (auto simp: position_Some id_take_nth_drop list_all_length)

lemma position_append:
  "list_all (\<lambda>x. \<not> P x) ys \<Longrightarrow> P x \<Longrightarrow> position P (ys @ x # zs) = Some (length ys)"
  by (induction ys) auto

text \<open>The result of the shared search, as a decomposition of the event list.\<close>

definition nearest_match :: "event list \<Rightarrow> reverse_request \<Rightarrow> event \<Rightarrow> bool" where
  "nearest_match es q e = (\<exists>before between start after.
     es = before @ e # between @ start # after
     \<and> ev_id start = from_event_id q
     \<and> list_all (\<lambda>x. ev_id x \<noteq> from_event_id q) (before @ e # between)
     \<and> matches_request e q
     \<and> list_all (\<lambda>x. \<not> matches_request x q) between)"

lemma find_previous_ok: "find_previous es q = Inr e \<longleftrightarrow> nearest_match es q e"
proof
  assume "find_previous es q = Inr e"
  then obtain i where i: "position (\<lambda>e. ev_id e = from_event_id q) es = Some i"
    and r: "rfind (\<lambda>e. matches_request e q) (take i es) = Some e"
    by (auto simp: find_previous_def split: option.splits)
  from r obtain ys zs where t: "take i es = ys @ e # zs" "matches_request e q"
    "\<forall>z \<in> set zs. \<not> matches_request z q"
    by (auto simp: rfind_Some)
  from position_split [OF i] t show "nearest_match es q e"
    unfolding nearest_match_def
    by (intro exI [of _ ys] exI [of _ zs] exI [of _ "es ! i"] exI [of _ "drop (Suc i) es"])
      (auto simp: list_all_iff)
next
  assume "nearest_match es q e"
  then obtain ys zs s as where es: "es = (ys @ e # zs) @ s # as"
    and s: "ev_id s = from_event_id q"
    and n: "list_all (\<lambda>x. ev_id x \<noteq> from_event_id q) (ys @ e # zs)"
    and m: "matches_request e q" and z: "list_all (\<lambda>x. \<not> matches_request x q) zs"
    by (auto simp: nearest_match_def)
  have "position (\<lambda>e. ev_id e = from_event_id q) es = Some (length (ys @ e # zs))"
    unfolding es by (rule position_append) (use n s in auto)
  moreover have "rfind (\<lambda>e. matches_request e q) (ys @ e # zs) = Some e"
    using m z by (fastforce simp: rfind_Some list_all_iff)
  ultimately show "find_previous es q = Inr e"
    by (simp add: find_previous_def es)
qed

section \<open>The backend contract\<close>

text \<open>What a client of the trait \<^verbatim>\<open>ReplayBackend\<close> may rely on, whichever engine is behind
  it: a navigation that succeeds names the backend, is never marked verified by itself, and
  lands on the nearest earlier match of a well-formed request.\<close>

locale replay_backend =
  fixes caps :: capability_manifest
    and rev_to :: "recording \<Rightarrow> reverse_request \<Rightarrow> replay_error + reverse_outcome"
  assumes backend_name: "rev_to r q = Inr out \<Longrightarrow> out_backend out = cap_backend caps"
    and unverified: "rev_to r q = Inr out \<Longrightarrow> \<not> verified out"
    and well_formed: "rev_to r q = Inr out \<Longrightarrow> check_request q = Inr ()"
    and nearest: "rev_to r q = Inr out \<Longrightarrow> nearest_match (rec_events r) q (out_event out)"
begin

lemma outcome_recorded: "rev_to r q = Inr out \<Longrightarrow> out_event out \<in> set (rec_events r)"
  by (drule nearest) (auto simp: nearest_match_def)

lemma outcome_not_start: "rev_to r q = Inr out \<Longrightarrow> ev_id (out_event out) \<noteq> from_event_id q"
  by (drule nearest) (auto simp: nearest_match_def)

lemma outcome_earlier:
  assumes "rev_to r q = Inr out" and "sorted_wrt (<) (map sequence (rec_events r))"
  shows "\<exists>s \<in> set (rec_events r). ev_id s = from_event_id q \<and> sequence (out_event out) < sequence s"
  using nearest [OF assms(1)] assms(2) by (auto simp: nearest_match_def sorted_wrt_append)

end

lemma jvm_reverse_ok:
  "jvm_reverse r q = Inr out \<longleftrightarrow>
     validate_recording r = Inr () \<and> check_request q = Inr ()
     \<and> (\<exists>e. nearest_match (rec_events r) q e
          \<and> out = \<lparr>out_backend = ''jvm'', out_event = e, verified = False\<rparr>)"
  unfolding jvm_reverse_def rbind_iffs find_previous_ok by auto

lemma linux_reverse_not_ok: "linux_reverse b r q \<noteq> Inr out"
  by (simp add: linux_reverse_def rbind_eq_Inr)

interpretation jvm: replay_backend jvm_capabilities jvm_reverse
  by unfold_locales (auto simp: jvm_reverse_ok jvm_capabilities_def)

interpretation linux: replay_backend "linux_capabilities b" "linux_reverse b" for b
  by unfold_locales (simp_all add: linux_reverse_not_ok)

lemma verify_replayed_prefix_ok:
  "verify_replayed_prefix r replayed target_id = Inr () \<longleftrightarrow>
     validate_recording r = Inr ()
     \<and> (\<exists>t. position (\<lambda>e. ev_id e = target_id) (rec_events r) = Some t
          \<and> map observable (take (Suc t) (rec_events r))
            = map observable (take (Suc t) replayed))"
proof (cases "position (\<lambda>e. ev_id e = target_id) (rec_events r)")
  case (Some t)
  then have "t < length (rec_events r)" by (simp add: position_Some)
  with Some show ?thesis
    by (simp add: verify_replayed_prefix_def rbind_iffs compare_prefix_ok min_absorb2)
qed (simp add: verify_replayed_prefix_def rbind_iffs)

section \<open>Properties\<close>

text \<open>\<^bold>\<open>C11\<close> Reverse navigation by the JVM backend succeeds exactly when the recording
  validates, the request is well formed, and some event strictly before the starting event
  matches it; the outcome is then the \<^emph>\<open>nearest\<close> such event (no match lies between it and the
  first event carrying the starting ID), reported by backend \<^verbatim>\<open>jvm\<close> and never marked
  verified before a fresh execution has confirmed it.\<close>

theorem jvm_reverse_nearest:
  "jvm_reverse r q = Inr out \<longleftrightarrow>
     validate_recording r = Inr () \<and> check_request q = Inr ()
     \<and> out_backend out = ''jvm'' \<and> verified out = False
     \<and> (\<exists>before between start after.
          rec_events r = before @ out_event out # between @ start # after
          \<and> ev_id start = from_event_id q
          \<and> list_all (\<lambda>x. ev_id x \<noteq> from_event_id q) (before @ out_event out # between)
          \<and> matches_request (out_event out) q
          \<and> list_all (\<lambda>x. \<not> matches_request x q) between)"
  unfolding jvm_reverse_ok nearest_match_def [symmetric]
  by (cases out) auto

text \<open>\<^bold>\<open>C10\<close> A replay is accepted exactly when the recording validates, the target event is
  recorded, and the fresh execution reproduces every observable component (kind, location,
  logical thread, coroutine stack, values, state hash, output position) of every event up to
  and including the target; event IDs, raw thread IDs and observations play no part.\<close>

theorem replay_accepted_iff_observable_prefix:
  "verify_replayed_prefix r replayed target_id = Inr () \<longleftrightarrow>
     validate_recording r = Inr ()
     \<and> (\<exists>t. position (\<lambda>e. ev_id e = target_id) (rec_events r) = Some t
          \<and> map observable (take (Suc t) (rec_events r))
            = map observable (take (Suc t) replayed))"
  by (rule verify_replayed_prefix_ok)

text \<open>Small events for the witnesses of this component.\<close>

definition sample_event :: "nat \<Rightarrow> event_kind \<Rightarrow> event" where
  "sample_event n k = \<lparr>ev_id = show_nat n, sequence = n, thread_id = 1, thread_key = ''main'',
     virtual_thread = False, coroutine = False, logical_stack = [], kind = k, location = None,
     ev_values = JNull, observations = JNull, state_hash = ''h'', output_index = 0\<rparr>"

definition sample_recording :: "event list \<Rightarrow> recording" where
  "sample_recording es = \<lparr>rec_id = ''rec'', rec_revision = ''rev'', rec_test_id = ''T#t'',
     rec_backend = ''jvm'', rec_capabilities = jvm_capabilities, inputs = [],
     linux_process = None, rec_events = es, checkpoints = []\<rparr>"

text \<open>A rejected replay of a valid recording names the first divergence: everything
  before it is observably equal, and the event whose sequence number is reported is either
  missing from the fresh execution or observably different there.\<close>

theorem replay_divergence_is_first:
  assumes "validate_recording r = Inr ()"
    and "position (\<lambda>e. ev_id e = target_id) (rec_events r) = Some t"
    and "verify_replayed_prefix r replayed target_id = Inl err"
  shows "\<exists>i reason. i \<le> t \<and> err = Diverged (sequence (rec_events r ! i)) reason
     \<and> map observable (take i (rec_events r)) = map observable (take i replayed)
     \<and> (length replayed \<le> i \<or> observable (rec_events r ! i) \<noteq> observable (replayed ! i))"
proof -
  have t: "t < length (rec_events r)" using assms(2) by (simp add: position_Some)
  have "compare_prefix (take (Suc t) (rec_events r)) replayed = Inl err"
    using assms by (simp add: verify_replayed_prefix_def)
  then obtain i reason where i: "i < length (take (Suc t) (rec_events r))"
    and pre: "map observable (take i (take (Suc t) (rec_events r))) = map observable (take i replayed)"
    and err: "err = Diverged (sequence (take (Suc t) (rec_events r) ! i)) reason"
    and obs: "i < length replayed
      \<longrightarrow> observable (take (Suc t) (rec_events r) ! i) \<noteq> observable (replayed ! i)"
    unfolding compare_prefix_diverged by blast
  from i t have "i \<le> t" by simp
  with pre err obs show ?thesis
    by (intro exI [of _ i] exI [of _ reason]) (simp add: min_def not_less [symmetric])
qed

theorem replay_divergence_is_first_witness:
  "\<exists>i reason. i \<le> 1 \<and> Diverged 1 ''event kind changed''
       = Diverged (sequence ([sample_event 0 Line, sample_event 1 Call] ! i)) reason
     \<and> map observable (take i [sample_event 0 Line, sample_event 1 Call])
       = map observable (take i [sample_event 0 Line, sample_event 1 Write])
     \<and> (length [sample_event 0 Line, sample_event 1 Write] \<le> i
        \<or> observable ([sample_event 0 Line, sample_event 1 Call] ! i)
          \<noteq> observable ([sample_event 0 Line, sample_event 1 Write] ! i))"
  using replay_divergence_is_first
    [of "sample_recording [sample_event 0 Line, sample_event 1 Call]" "show_nat 1" 1
      "[sample_event 0 Line, sample_event 1 Write]" "Diverged 1 ''event kind changed''"]
  by (simp add: sample_recording_def sample_event_def validate_recording_def
      validate_capabilities_def jvm_capabilities_def verify_replayed_prefix_def
      divergence_def show_nat.simps digit_char_def char_of_def)

text \<open>Validation accepts a recording exactly when its checkpoints are strictly
  ordered, each one is anchored at an event with the same sequence number, ID, state hash and
  output position, and its manifest claims a complete, pure-JVM execution that is either
  single-threaded or scheduled.\<close>

theorem validate_recording_iff:
  "validate_recording r = Inr () \<longleftrightarrow>
     sorted_wrt (<) (map cp_sequence (checkpoints r))
     \<and> list_all (checkpoint_anchored (rec_events r)) (checkpoints r)
     \<and> completeness (rec_capabilities r) = Complete
     \<and> ''pureJvm'' \<in> set (supported (rec_capabilities r))
     \<and> (''singleThread'' \<in> set (supported (rec_capabilities r))
        \<or> ''threadSchedule'' \<in> set (supported (rec_capabilities r)))"
  by (auto simp: validate_recording_def rbind_iffs validate_checkpoints_ok validate_capabilities_ok)

lemma native_event_of_Some:
  "native_event_of a i = Some n \<longleftrightarrow> bt_get (event_index a) i = Some n \<and> 0 < n"
  by (auto simp: native_event_of_def split: option.splits if_splits)

lemma plan_reverse_ok:
  "plan_reverse b r q = Inr p \<longleftrightarrow>
     (\<exists>exe a n. rr_executable b = Some exe \<and> check_request q = Inr ()
        \<and> nearest_match (rec_events r) q (plan_event p)
        \<and> linux_process r = Some a \<and> trim (trace_directory a) \<noteq> []
        \<and> bt_get (event_index a) (ev_id (plan_event p)) = Some n \<and> 0 < n
        \<and> executable p = exe \<and> plan_argv p = [''replay'', ''-g'', show_nat n, trace_directory a]
        \<and> plan_verified p = False)"
proof (cases "rr_executable b"; cases "linux_process r")
  fix exe a
  assume ea: "rr_executable b = Some exe" "linux_process r = Some a"
  have p: "\<lparr>executable = exe, plan_argv = as, plan_event = e, plan_verified = False\<rparr> = p
     \<longleftrightarrow> executable p = exe \<and> plan_argv p = as \<and> plan_event p = e \<and> plan_verified p = False"
    for as e by (cases p) auto
  have c: "(case native_event_of a i of None \<Rightarrow> Inl err | Some n \<Rightarrow> Inr (f n)) = Inr p
     \<longleftrightarrow> (\<exists>n. native_event_of a i = Some n \<and> f n = p)" for i err f
    by (cases "native_event_of a i") auto
  show ?thesis
    unfolding plan_reverse_def rbind_iffs find_previous_ok ea option.case
    by (cases "trim (trace_directory a) = []") (auto simp: c p native_event_of_Some)
qed (auto simp: plan_reverse_def rbind_iffs)

text \<open>The Linux backend never claims an exact replay: its \<^verbatim>\<open>reverse\<close> always
  fails.  A navigation plan, when there is one, is unverified, points at the nearest earlier
  match, and its argument vector carries the positive \<^verbatim>\<open>rr\<close> event number that the
  cross-index gives for that very event, in a form that parses back to it.\<close>

theorem linux_plan_exact_but_unverified:
  "(\<forall>out. linux_reverse b r q \<noteq> Inr out)
   \<and> (plan_reverse b r q = Inr p \<longleftrightarrow>
        (\<exists>exe a n. rr_executable b = Some exe \<and> check_request q = Inr ()
           \<and> find_previous (rec_events r) q = Inr (plan_event p)
           \<and> linux_process r = Some a \<and> trim (trace_directory a) \<noteq> []
           \<and> bt_get (event_index a) (ev_id (plan_event p)) = Some n
           \<and> 0 < n \<and> parse_digits (show_nat n) = Some n
           \<and> executable p = exe
           \<and> plan_argv p = [''replay'', ''-g'', show_nat n, trace_directory a]
           \<and> plan_verified p = False))"
  unfolding plan_reverse_ok find_previous_ok by (auto simp: linux_reverse_not_ok)

lemma array_watch_index_show:
  "i64_min \<le> i \<Longrightarrow> i \<le> i64_max \<Longrightarrow> array_watch_index (''array['' @ show_int i @ '']'') = Some i"
  using strip_prefix_Some [of "''array['' @ show_int i @ '']''" "''array[''" "show_int i @ '']''"]
    strip_suffix_Some [of "show_int i @ '']''" "'']''" "show_int i"]
  by (simp add: array_watch_index_def parse_i64_show_int)

text \<open>An array watchpoint \<^verbatim>\<open>array[i]\<close> is a valid watchpoint for every 64-bit index,
  negative ones included, and selects exactly the writes to slot \<open>i\<close> of an array.\<close>

theorem array_watchpoint_exact:
  assumes "i64_min \<le> i" and "i \<le> i64_max"
  shows "valid_watchpoint (''array['' @ show_int i @ '']'')
    \<and> (matches_watchpoint v (''array['' @ show_int i @ '']'') \<longleftrightarrow>
      get_str v ''targetKind'' = Some ''array'' \<and> get_i64 v ''index'' = Some i)"
  unfolding valid_watchpoint_def matches_watchpoint_def
  by (simp only: array_watch_index_show [OF assms]) simp

theorem array_watchpoint_exact_witness:
  "valid_watchpoint (''array['' @ show_int (-3) @ '']'')
   \<and> (matches_watchpoint (JObject [(''index'', JInt (-3)), (''targetKind'', JString ''array'')])
        (''array['' @ show_int (-3) @ '']'')
      \<longleftrightarrow> get_str (JObject [(''index'', JInt (-3)), (''targetKind'', JString ''array'')])
             ''targetKind'' = Some ''array''
          \<and> get_i64 (JObject [(''index'', JInt (-3)), (''targetKind'', JString ''array'')])
             ''index'' = Some (-3))"
  using array_watchpoint_exact [of "-3"] by (simp add: i64_min_def i64_max_def)

end
