(* ===== verification/Store.thy ===== *)
theory Store
  imports Replay "HOL-Library.Option_ord" "HOL-Library.Product_Lexorder"
begin

text \<open>
  \<^verbatim>\<open>crates/walaru-core/src/store.rs\<close>: the revision-bound SQLite store of a worktree.
  A table is the list of its rows in insertion (rowid) order; a statement of the source is a
  function on the tables with the meaning SQL gives it, including primary keys, unique
  constraints, foreign keys with \<^verbatim>\<open>ON DELETE CASCADE\<close>, and the \<^verbatim>\<open>BINARY\<close> collation,
  which is the byte order of strings.  A statement that fails changes nothing, and a
  transaction that is not committed is rolled back, so an operation returns either an error or
  the new tables.  Times are nanoseconds since the epoch; the stored text is their RFC 3339
  form.  The lock around the connection is poisoned only by a panic, which no operation has.
\<close>

section \<open>Third-party functions\<close>

text \<open>The content and surface digests of a revision, and then the parameters.\<close>

record revision_manifest =
  m_file_digests :: "(string, string) btree"
  m_surface_digests :: "(string, string) btree"

text \<open>JSON (\<^verbatim>\<open>serde_json\<close>), compression (\<^verbatim>\<open>zstd\<close>) and time formatting (\<^verbatim>\<open>chrono\<close>) are
  parameters of the model; \<open>None\<close> is their error.\<close>

record codec =
  event_to_json :: "event \<Rightarrow> string option"
  event_from_json :: "string \<Rightarrow> event option"
  recording_to_json :: "recording \<Rightarrow> string option"
  recording_from_json :: "string \<Rightarrow> recording option"
  manifest_to_json :: "revision_manifest \<Rightarrow> string option"
  manifest_from_json :: "string \<Rightarrow> revision_manifest option"
  frames_to_json :: "string list \<Rightarrow> string option"
  frames_from_json :: "string \<Rightarrow> string list option"
  zstd_encode :: "nat \<Rightarrow> string \<Rightarrow> string option"
  zstd_decode :: "string \<Rightarrow> string option"
  to_rfc3339 :: "int \<Rightarrow> string"
  parse_rfc3339 :: "string \<Rightarrow> int option"

section \<open>Data\<close>

datatype sql_error = ConstraintViolation | QueryReturnedNoRows | FromSqlConversionFailure string

datatype store_error =
    Sql sql_error
  | StoreIo
  | StoreJson
  | InvalidTimestamp string
  | IntegerRange nat

record retention_policy =
  max_age :: int
  max_bytes :: nat

definition default_retention :: retention_policy where
  "default_retention = \<lparr>max_age = 7 * 24 * 3600 * 1000000000, max_bytes = 1024 * 1024 * 1024\<rparr>"

record new_run =
  nr_id :: string
  nr_revision :: string
  nr_source_digest :: string
  nr_started_at :: int

datatype run_status = Running | Passed | Failed | RunStale | RunError

definition as_db :: "run_status \<Rightarrow> string" where
  "as_db st = (case st of
      Running \<Rightarrow> ''running''
    | Passed \<Rightarrow> ''passed''
    | Failed \<Rightarrow> ''failed''
    | RunStale \<Rightarrow> ''stale''
    | RunError \<Rightarrow> ''error'')"

definition from_db :: "string \<Rightarrow> store_error + run_status" where
  "from_db v =
     (if v = ''running'' then Inr Running
      else if v = ''passed'' then Inr Passed
      else if v = ''failed'' then Inr Failed
      else if v = ''stale'' then Inr RunStale
      else if v = ''error'' then Inr RunError
      else Inl (Sql (FromSqlConversionFailure v)))"

record run_record =
  rr_id :: string
  rr_revision :: string
  rr_source_digest :: string
  rr_status :: run_status
  rr_started_at :: int
  rr_finished_at :: "int option"

record test_record =
  tr_id :: string
  display_name :: string
  tr_module :: string
  last_status :: "string option"
  last_failure_id :: "string option"

record failure_record =
  fr_id :: string
  fr_run_id :: string
  fr_test_id :: string
  exception_type :: string
  fr_message :: string
  fr_event_id :: "string option"
  frames :: "string list"

record coverage_record =
  cr_test_id :: string
  cr_path :: string
  cr_line :: nat
  cr_symbol :: string

record dependency =
  subject :: string
  dep_kind :: string

datatype impact_selection = Exact "string list" | ModuleAll "string list" string

record 'a item_page =
  items :: "'a list"
  next_cursor :: "string option"

record prune_result =
  runs_removed :: nat
  recordings_removed :: nat

section \<open>Tables\<close>

record run_row =
  run_pk :: string
  run_revision :: string
  run_source_digest :: string
  run_status :: string
  run_started_at :: string
  run_finished_at :: "string option"

record test_row =
  test_pk :: string
  test_display_name :: string
  test_module :: string
  test_last_status :: "string option"

record dependency_row =
  dep_test_id :: string
  dep_subject :: string
  dep_row_kind :: string

record event_row =
  event_pk :: string
  event_run_id :: string
  event_test_id :: string
  event_sequence :: int
  event_payload :: string

record failure_row =
  failure_pk :: string
  failure_run_id :: string
  failure_test_id :: string
  failure_exception_type :: string
  failure_message :: string
  failure_event_id :: "string option"
  failure_frames_json :: string

record coverage_row =
  cov_rowid :: int
  cov_test_id :: string
  cov_path :: string
  cov_line :: int
  cov_symbol :: string

record recording_row =
  recording_pk :: string
  recording_revision :: string
  recording_test_id :: string
  recording_backend :: string
  recording_created_at :: string
  recording_payload :: string

record cache_row =
  cache_pk :: string
  cache_run_id :: string
  cache_created_at :: string
  cache_payload :: string

record manifest_row =
  manifest_pk :: string
  manifest_created_at :: string
  manifest_payload :: string

record store =
  runs :: "run_row list"
  tests_table :: "test_row list"
  dependencies :: "dependency_row list"
  events_table :: "event_row list"
  failures :: "failure_row list"
  coverage_table :: "coverage_row list"
  recordings :: "recording_row list"
  verification_cache_table :: "cache_row list"
  revision_manifests :: "manifest_row list"
  retention :: retention_policy

definition empty_store :: "retention_policy \<Rightarrow> store" where
  "empty_store policy =
     \<lparr>runs = [], tests_table = [], dependencies = [], events_table = [], failures = [],
      coverage_table = [], recordings = [], verification_cache_table = [],
      revision_manifests = [], retention = policy\<rparr>"

section \<open>Shared pieces of the statements\<close>

definition sqlite_i64 :: "nat \<Rightarrow> store_error + int" where
  "sqlite_i64 v = (if int v \<le> i64_max then Inr (int v) else Inl (IntegerRange v))"

text \<open>\<^verbatim>\<open>i64::try_from(n).map_err(|_| StoreError::IntegerRange(u64::MAX))\<close> on a row limit.\<close>

definition fetch_limit :: "nat \<Rightarrow> store_error + nat" where
  "fetch_limit n = (if int n \<le> i64_max then Inr n else Inl (IntegerRange u64_max))"

definition parse_timestamp :: "codec \<Rightarrow> string \<Rightarrow> store_error + int" where
  "parse_timestamp c v = (case parse_rfc3339 c v of
      Some t \<Rightarrow> Inr t
    | None \<Rightarrow> Inl (InvalidTimestamp v))"

definition json_result :: "'a option \<Rightarrow> store_error + 'a" where
  "json_result x = (case x of Some y \<Rightarrow> Inr y | None \<Rightarrow> Inl StoreJson)"

definition io_result :: "'a option \<Rightarrow> store_error + 'a" where
  "io_result x = (case x of Some y \<Rightarrow> Inr y | None \<Rightarrow> Inl StoreIo)"

text \<open>\<^verbatim>\<open>ORDER BY key DESC LIMIT 1\<close> and \<^verbatim>\<open>ORDER BY key LIMIT 1\<close>.\<close>

definition max_by :: "('r \<Rightarrow> 'k::linorder) \<Rightarrow> 'r list \<Rightarrow> 'r option" where
  "max_by key rows = foldl (\<lambda>best r. case best of
      None \<Rightarrow> Some r
    | Some b \<Rightarrow> if key b < key r then Some r else best) None rows"

definition min_by :: "('r \<Rightarrow> 'k::linorder) \<Rightarrow> 'r list \<Rightarrow> 'r option" where
  "min_by key rows = foldl (\<lambda>best r. case best of
      None \<Rightarrow> Some r
    | Some b \<Rightarrow> if key r < key b then Some r else best) None rows"

text \<open>The rowid a table without \<^verbatim>\<open>AUTOINCREMENT\<close> gives to a new row.\<close>

definition next_rowid :: "coverage_row list \<Rightarrow> int" where
  "next_rowid rows = 1 + foldl max 0 (map cov_rowid rows)"

text \<open>\<^verbatim>\<open>DELETE FROM runs WHERE ...\<close> cascades to the tables that reference \<open>runs\<close>.\<close>

definition delete_runs :: "(run_row \<Rightarrow> bool) \<Rightarrow> store \<Rightarrow> store" where
  "delete_runs P s =
     (let gone = map run_pk (filter P (runs s)) in
      s\<lparr>runs := filter (\<lambda>r. \<not> P r) (runs s),
        events_table := filter (\<lambda>e. event_run_id e \<notin> set gone) (events_table s),
        failures := filter (\<lambda>f. failure_run_id f \<notin> set gone) (failures s),
        verification_cache_table :=
          filter (\<lambda>k. cache_run_id k \<notin> set gone) (verification_cache_table s)\<rparr>)"

definition run_exists :: "store \<Rightarrow> string \<Rightarrow> bool" where
  "run_exists s run_id = list_ex (\<lambda>r. run_pk r = run_id) (runs s)"

definition test_exists :: "store \<Rightarrow> string \<Rightarrow> bool" where
  "test_exists s test_id = list_ex (\<lambda>t. test_pk t = test_id) (tests_table s)"


section \<open>Runs\<close>

text \<open>\<^verbatim>\<open>Store::open\<close> on an existing database: the schema is created if missing, and a run
  left active by a daemon that died is closed as an error.\<close>

definition store_open :: "codec \<Rightarrow> store \<Rightarrow> retention_policy \<Rightarrow> int \<Rightarrow> store" where
  "store_open c s policy now =
     s\<lparr>runs := map (\<lambda>r. if run_status r = as_db Running
           then r\<lparr>run_status := as_db RunError,
                  run_finished_at := (case run_finished_at r of
                      Some t \<Rightarrow> Some t
                    | None \<Rightarrow> Some (to_rfc3339 c now))\<rparr>
           else r) (runs s),
       retention := policy\<rparr>"

definition begin_run :: "codec \<Rightarrow> store \<Rightarrow> new_run \<Rightarrow> store_error + store" where
  "begin_run c s run =
     (if run_exists s (nr_id run) then Inl (Sql ConstraintViolation)
      else Inr (s\<lparr>runs := runs s @
        [\<lparr>run_pk = nr_id run, run_revision = nr_revision run,
          run_source_digest = nr_source_digest run, run_status = as_db Running,
          run_started_at = to_rfc3339 c (nr_started_at run), run_finished_at = None\<rparr>]\<rparr>))"

definition finish_run ::
  "codec \<Rightarrow> store \<Rightarrow> string \<Rightarrow> run_status \<Rightarrow> string \<Rightarrow> int \<Rightarrow> store_error + (store \<times> run_status)" where
  "finish_run c s run_id desired current_revision finished_at =
     (case find (\<lambda>r. run_pk r = run_id) (runs s) of
        None \<Rightarrow> Inl (Sql QueryReturnedNoRows)
      | Some row \<Rightarrow>
          let actual = (if run_revision row = current_revision then desired else RunStale) in
          Inr (s\<lparr>runs := map (\<lambda>r. if run_pk r = run_id
                 then r\<lparr>run_status := as_db actual, run_finished_at := Some (to_rfc3339 c finished_at)\<rparr>
                 else r) (runs s)\<rparr>, actual))"

definition run_of_row :: "codec \<Rightarrow> run_row \<Rightarrow> store_error + run_record" where
  "run_of_row c r =
     rbind (from_db (run_status r)) (\<lambda>st.
     rbind (parse_timestamp c (run_started_at r)) (\<lambda>started.
     rbind (case run_finished_at r of
         None \<Rightarrow> Inr None
       | Some t \<Rightarrow> rbind (parse_timestamp c t) (\<lambda>x. Inr (Some x))) (\<lambda>finished.
       Inr \<lparr>rr_id = run_pk r, rr_revision = run_revision r, rr_source_digest = run_source_digest r,
            rr_status = st, rr_started_at = started, rr_finished_at = finished\<rparr>)))"

definition run :: "codec \<Rightarrow> store \<Rightarrow> string \<Rightarrow> store_error + run_record option" where
  "run c s run_id =
     (case find (\<lambda>r. run_pk r = run_id) (runs s) of
        None \<Rightarrow> Inr None
      | Some r \<Rightarrow> rbind (run_of_row c r) (\<lambda>x. Inr (Some x)))"

section \<open>Events\<close>

definition append_event ::
  "codec \<Rightarrow> store \<Rightarrow> string \<Rightarrow> string \<Rightarrow> event \<Rightarrow> store_error + store" where
  "append_event c s run_id test_id e =
     rbind (json_result (event_to_json c e)) (\<lambda>json.
     rbind (io_result (zstd_encode c 3 json)) (\<lambda>compressed.
     rbind (sqlite_i64 (sequence e)) (\<lambda>seq.
       if list_ex (\<lambda>r. event_pk r = ev_id e) (events_table s)
          \<or> list_ex (\<lambda>r. event_run_id r = run_id \<and> event_sequence r = seq) (events_table s)
          \<or> \<not> run_exists s run_id
       then Inl (Sql ConstraintViolation)
       else Inr (s\<lparr>events_table := events_table s @
         [\<lparr>event_pk = ev_id e, event_run_id = run_id, event_test_id = test_id,
           event_sequence = seq, event_payload = compressed\<rparr>]\<rparr>))))"

text \<open>The loop of \<^verbatim>\<open>recent_test_events\<close> over the rows, newest first.\<close>

fun scan_recent ::
  "codec \<Rightarrow> nat \<Rightarrow> event list \<Rightarrow> nat \<Rightarrow> event_row list \<Rightarrow> store_error + event list" where
  "scan_recent c maxb acc bytes [] = Inr acc"
| "scan_recent c maxb acc bytes (r # rs) =
     rbind (io_result (zstd_decode c (event_payload r))) (\<lambda>json.
       if acc \<noteq> [] \<and> maxb < sat_add bytes (length json) then Inr acc
       else rbind (json_result (event_from_json c json)) (\<lambda>e.
         scan_recent c maxb (acc @ [e]) (sat_add bytes (length json)) rs))"

definition recent_test_events ::
  "codec \<Rightarrow> store \<Rightarrow> string \<Rightarrow> string \<Rightarrow> nat \<Rightarrow> nat \<Rightarrow> store_error + event list" where
  "recent_test_events c s run_id test_id limit maxb =
     rbind (fetch_limit (max limit 1)) (\<lambda>n.
     rbind (scan_recent c maxb [] 0
        (take n (rev (sort_key event_sequence
          (filter (\<lambda>r. event_run_id r = run_id \<and> event_test_id r = test_id) (events_table s))))))
       (\<lambda>es. Inr (rev es)))"

text \<open>The loop of \<^verbatim>\<open>events_matching\<close>: the events read and whether more remain.\<close>

fun scan_page ::
  "codec \<Rightarrow> nat \<Rightarrow> nat \<Rightarrow> event list \<Rightarrow> nat \<Rightarrow> event_row list \<Rightarrow> store_error + (event list \<times> bool)" where
  "scan_page c limit maxb acc bytes [] = Inr (acc, False)"
| "scan_page c limit maxb acc bytes (r # rs) =
     (if limit \<le> length acc then Inr (acc, True)
      else rbind (io_result (zstd_decode c (event_payload r))) (\<lambda>json.
        if acc \<noteq> [] \<and> maxb < sat_add bytes (length json) then Inr (acc, True)
        else rbind (json_result (event_from_json c json)) (\<lambda>e.
          scan_page c limit maxb (acc @ [e]) (sat_add bytes (length json)) rs)))"

text \<open>The rows of the statement in \<^verbatim>\<open>events_matching\<close> before its cursor and limit.\<close>

definition matching_rows :: "store \<Rightarrow> string \<Rightarrow> string option \<Rightarrow> event_row list" where
  "matching_rows s run_id test_id =
     sort_key event_sequence (filter (\<lambda>r. event_run_id r = run_id
       \<and> (test_id = None \<or> test_id = Some (event_test_id r))) (events_table s))"

definition events_matching ::
  "codec \<Rightarrow> store \<Rightarrow> string \<Rightarrow> string option \<Rightarrow> string option \<Rightarrow> nat \<Rightarrow> nat
     \<Rightarrow> store_error + event item_page" where
  "events_matching c s run_id test_id cursor limit maxb =
     (let after = unwrap_or (Option.bind cursor parse_i64) (-1) in
      rbind (fetch_limit (max (sat_add limit 1) 1)) (\<lambda>n.
      rbind (scan_page c limit maxb [] 0
         (take n (filter (\<lambda>r. after < event_sequence r) (matching_rows s run_id test_id))))
        (\<lambda>(es, has_more). Inr
          \<lparr>items = es,
           next_cursor = (if has_more \<and> es \<noteq> [] then Some (show_nat (sequence (last es))) else None)\<rparr>)))"

definition events ::
  "codec \<Rightarrow> store \<Rightarrow> string \<Rightarrow> string option \<Rightarrow> nat \<Rightarrow> nat \<Rightarrow> store_error + event item_page" where
  "events c s run_id cursor limit maxb = events_matching c s run_id None cursor limit maxb"

definition compressed_value_bytes :: "store \<Rightarrow> string \<Rightarrow> store_error + nat" where
  "compressed_value_bytes s event_id =
     (case find (\<lambda>r. event_pk r = event_id) (events_table s) of
        None \<Rightarrow> Inl (Sql QueryReturnedNoRows)
      | Some r \<Rightarrow> Inr (length (event_payload r)))"

definition event :: "codec \<Rightarrow> store \<Rightarrow> string \<Rightarrow> store_error + event option" where
  "event c s event_id =
     (case find (\<lambda>r. event_pk r = event_id) (events_table s) of
        None \<Rightarrow> Inr None
      | Some r \<Rightarrow>
          rbind (io_result (zstd_decode c (event_payload r))) (\<lambda>json.
          rbind (json_result (event_from_json c json)) (\<lambda>e. Inr (Some e))))"

definition run_started :: "store \<Rightarrow> string \<Rightarrow> string option" where
  "run_started s run_id = map_option run_started_at (find (\<lambda>r. run_pk r = run_id) (runs s))"

definition trace ::
  "codec \<Rightarrow> store \<Rightarrow> string \<Rightarrow> string option \<Rightarrow> nat \<Rightarrow> nat \<Rightarrow> store_error + event item_page" where
  "trace c s subj cursor limit maxb =
     (if run_exists s subj then events c s subj cursor limit maxb
      else (case max_by (\<lambda>e. run_started s (event_run_id e))
               (filter (\<lambda>e. event_test_id e = subj \<and> run_exists s (event_run_id e)) (events_table s)) of
          Some e \<Rightarrow> events_matching c s (event_run_id e) (Some subj) cursor limit maxb
        | None \<Rightarrow> Inr \<lparr>items = [], next_cursor = None\<rparr>))"


section \<open>Tests, failures, coverage and dependencies\<close>

definition upsert_test :: "store \<Rightarrow> test_record \<Rightarrow> store" where
  "upsert_test s t =
     (let row = \<lparr>test_pk = tr_id t, test_display_name = display_name t, test_module = tr_module t,
                 test_last_status = last_status t\<rparr> in
      if test_exists s (tr_id t)
      then s\<lparr>tests_table := map (\<lambda>r. if test_pk r = tr_id t then row else r) (tests_table s)\<rparr>
      else s\<lparr>tests_table := tests_table s @ [row]\<rparr>)"

definition update_test_status :: "string \<times> string \<Rightarrow> store \<Rightarrow> store" where
  "update_test_status entry s =
     s\<lparr>tests_table := map (\<lambda>r. if test_pk r = fst entry
         then r\<lparr>test_last_status := Some (snd entry)\<rparr> else r) (tests_table s)\<rparr>"

definition update_test_statuses :: "store \<Rightarrow> (string, string) btree \<Rightarrow> store" where
  "update_test_statuses s statuses = foldl (\<lambda>s e. update_test_status e s) s statuses"

text \<open>The subquery of \<^verbatim>\<open>Store::tests\<close>: the failure of the test with the largest rowid.\<close>

definition latest_failure :: "store \<Rightarrow> string \<Rightarrow> string option" where
  "latest_failure s test_id = map_option failure_pk (rfind (\<lambda>f. failure_test_id f = test_id) (failures s))"

definition test_of_row :: "store \<Rightarrow> test_row \<Rightarrow> test_record" where
  "test_of_row s r =
     \<lparr>tr_id = test_pk r, display_name = test_display_name r, tr_module = test_module r,
      last_status = test_last_status r, last_failure_id = latest_failure s (test_pk r)\<rparr>"

definition tests :: "store \<Rightarrow> string option \<Rightarrow> nat \<Rightarrow> store_error + test_record item_page" where
  "tests s cursor limit =
     (let after = unwrap_or cursor []; requested = max limit 1 in
      rbind (fetch_limit (sat_add requested 1)) (\<lambda>n.
        let rows = map (test_of_row s)
              (take n (filter (\<lambda>r. after < test_pk r) (sort_key test_pk (tests_table s))));
            has_more = requested < length rows;
            kept = take requested rows
        in Inr \<lparr>items = kept,
                next_cursor = (if has_more \<and> kept \<noteq> [] then Some (tr_id (last kept)) else None)\<rparr>))"

definition save_failure :: "codec \<Rightarrow> store \<Rightarrow> failure_record \<Rightarrow> store_error + store" where
  "save_failure c s f =
     rbind (json_result (frames_to_json c (frames f))) (\<lambda>json.
       if \<not> run_exists s (fr_run_id f) then Inl (Sql ConstraintViolation)
       else Inr (s\<lparr>failures := filter (\<lambda>r. failure_pk r \<noteq> fr_id f) (failures s) @
         [\<lparr>failure_pk = fr_id f, failure_run_id = fr_run_id f, failure_test_id = fr_test_id f,
           failure_exception_type = exception_type f, failure_message = fr_message f,
           failure_event_id = fr_event_id f, failure_frames_json = json\<rparr>]\<rparr>))"

definition failure :: "codec \<Rightarrow> store \<Rightarrow> string \<Rightarrow> store_error + failure_record option" where
  "failure c s i =
     (case find (\<lambda>r. failure_pk r = i) (failures s) of
        None \<Rightarrow> Inr None
      | Some r \<Rightarrow> rbind (json_result (frames_from_json c (failure_frames_json r))) (\<lambda>fs.
          Inr (Some \<lparr>fr_id = failure_pk r, fr_run_id = failure_run_id r,
            fr_test_id = failure_test_id r, exception_type = failure_exception_type r,
            fr_message = failure_message r, fr_event_id = failure_event_id r, frames = fs\<rparr>)))"

definition insert_coverage :: "store \<Rightarrow> coverage_record \<Rightarrow> store_error + store" where
  "insert_coverage s item =
     (if list_ex (\<lambda>r. cov_test_id r = cr_test_id item \<and> cov_path r = cr_path item
            \<and> cov_line r = int (cr_line item) \<and> cov_symbol r = cr_symbol item) (coverage_table s)
         \<or> \<not> test_exists s (cr_test_id item)
      then Inl (Sql ConstraintViolation)
      else Inr (s\<lparr>coverage_table := coverage_table s @
        [\<lparr>cov_rowid = next_rowid (coverage_table s), cov_test_id = cr_test_id item,
          cov_path = cr_path item, cov_line = int (cr_line item), cov_symbol = cr_symbol item\<rparr>]\<rparr>))"

fun insert_all :: "('s \<Rightarrow> 'a \<Rightarrow> 'e + 's) \<Rightarrow> 's \<Rightarrow> 'a list \<Rightarrow> 'e + 's" where
  "insert_all ins s [] = Inr s"
| "insert_all ins s (x # xs) = rbind (ins s x) (\<lambda>s'. insert_all ins s' xs)"

definition replace_coverage ::
  "store \<Rightarrow> string \<Rightarrow> coverage_record list \<Rightarrow> store_error + store" where
  "replace_coverage s test_id cov =
     insert_all insert_coverage
       (s\<lparr>coverage_table := filter (\<lambda>r. cov_test_id r \<noteq> test_id) (coverage_table s)\<rparr>) cov"

text \<open>\<^verbatim>\<open>u32::try_from(line).unwrap_or(u32::MAX)\<close>.\<close>

definition coverage_of_row :: "coverage_row \<Rightarrow> coverage_record" where
  "coverage_of_row r =
     \<lparr>cr_test_id = cov_test_id r, cr_path = cov_path r,
      cr_line = (if 0 \<le> cov_line r \<and> cov_line r \<le> int u32_max then nat (cov_line r) else u32_max),
      cr_symbol = cov_symbol r\<rparr>"

text \<open>The rows of the statement in \<^verbatim>\<open>Store::coverage\<close> before its cursor and limit.\<close>

definition coverage_rows :: "store \<Rightarrow> string \<Rightarrow> coverage_row list" where
  "coverage_rows s subj = sort_key cov_rowid
     (filter (\<lambda>r. cov_test_id r = subj \<or> cov_path r = subj \<or> cov_symbol r = subj) (coverage_table s))"

definition coverage ::
  "store \<Rightarrow> string \<Rightarrow> string option \<Rightarrow> nat \<Rightarrow> store_error + coverage_record item_page" where
  "coverage s subj cursor limit =
     (let after = unwrap_or (Option.bind cursor parse_i64) 0; requested = max limit 1 in
      rbind (fetch_limit (sat_add requested 1)) (\<lambda>n.
        let rows = take n (filter (\<lambda>r. after < cov_rowid r) (coverage_rows s subj));
            has_more = requested < length rows;
            kept = take requested rows
        in Inr \<lparr>items = map coverage_of_row kept,
                next_cursor = (if has_more \<and> kept \<noteq> []
                  then Some (show_int (cov_rowid (last kept))) else None)\<rparr>))"

definition insert_dependency :: "string \<Rightarrow> store \<Rightarrow> dependency \<Rightarrow> store_error + store" where
  "insert_dependency test_id s d =
     (let row = \<lparr>dep_test_id = test_id, dep_subject = subject d, dep_row_kind = dep_kind d\<rparr> in
      if row \<in> set (dependencies s) \<or> \<not> test_exists s test_id
      then Inl (Sql ConstraintViolation)
      else Inr (s\<lparr>dependencies := dependencies s @ [row]\<rparr>))"

definition replace_dependencies ::
  "store \<Rightarrow> string \<Rightarrow> dependency list \<Rightarrow> store_error + store" where
  "replace_dependencies s test_id deps =
     insert_all (insert_dependency test_id)
       (s\<lparr>dependencies := filter (\<lambda>r. dep_test_id r \<noteq> test_id) (dependencies s)\<rparr>) deps"

definition IMPACT_REASON :: string where
  "IMPACT_REASON = ''unknown dependency or build/resource/global change''"

definition select_impact :: "store \<Rightarrow> string \<Rightarrow> string \<Rightarrow> impact_selection" where
  "select_impact s subj modul =
     (let exact = sort (remdups (map dep_test_id (filter (\<lambda>r. dep_subject r = subj) (dependencies s)))) in
      if exact \<noteq> [] then Exact exact
      else ModuleAll (sort (map test_pk (filter (\<lambda>r. test_module r = modul) (tests_table s)))) IMPACT_REASON)"

section \<open>Cached results, manifests and recordings\<close>

definition latest_passed_revision :: "store \<Rightarrow> string option" where
  "latest_passed_revision s =
     map_option run_revision (max_by run_finished_at (filter (\<lambda>r. run_status r = ''passed'') (runs s)))"

definition save_verification_cache ::
  "codec \<Rightarrow> store \<Rightarrow> string \<Rightarrow> string \<Rightarrow> string \<Rightarrow> int \<Rightarrow> store_error + store" where
  "save_verification_cache c s revn run_id payload now =
     rbind (io_result (zstd_encode c 3 payload)) (\<lambda>compressed.
       if \<not> run_exists s run_id then Inl (Sql ConstraintViolation)
       else Inr (s\<lparr>verification_cache_table :=
         filter (\<lambda>r. cache_pk r \<noteq> revn) (verification_cache_table s) @
         [\<lparr>cache_pk = revn, cache_run_id = run_id, cache_created_at = to_rfc3339 c now,
           cache_payload = compressed\<rparr>]\<rparr>))"

definition verification_cache :: "codec \<Rightarrow> store \<Rightarrow> string \<Rightarrow> store_error + string option" where
  "verification_cache c s revn =
     (case find (\<lambda>r. cache_pk r = revn) (verification_cache_table s) of
        None \<Rightarrow> Inr None
      | Some r \<Rightarrow> rbind (io_result (zstd_decode c (cache_payload r))) (\<lambda>p. Inr (Some p)))"

definition latest_cached_revision :: "store \<Rightarrow> string option" where
  "latest_cached_revision s = map_option cache_pk (max_by cache_created_at (verification_cache_table s))"

definition save_revision_manifest ::
  "codec \<Rightarrow> store \<Rightarrow> string \<Rightarrow> revision_manifest \<Rightarrow> int \<Rightarrow> store_error + store" where
  "save_revision_manifest c s revn m now =
     rbind (json_result (manifest_to_json c m)) (\<lambda>json.
     rbind (io_result (zstd_encode c 3 json)) (\<lambda>compressed.
       Inr (s\<lparr>revision_manifests := filter (\<lambda>r. manifest_pk r \<noteq> revn) (revision_manifests s) @
         [\<lparr>manifest_pk = revn, manifest_created_at = to_rfc3339 c now,
           manifest_payload = compressed\<rparr>]\<rparr>)))"

definition revision_manifest_of :: "codec \<Rightarrow> store \<Rightarrow> string \<Rightarrow> store_error + revision_manifest option" where
  "revision_manifest_of c s revn =
     (case find (\<lambda>r. manifest_pk r = revn) (revision_manifests s) of
        None \<Rightarrow> Inr None
      | Some r \<Rightarrow>
          rbind (io_result (zstd_decode c (manifest_payload r))) (\<lambda>json.
          rbind (json_result (manifest_from_json c json)) (\<lambda>m. Inr (Some m))))"

definition save_recording :: "codec \<Rightarrow> store \<Rightarrow> recording \<Rightarrow> int \<Rightarrow> store_error + store" where
  "save_recording c s r now =
     rbind (json_result (recording_to_json c r)) (\<lambda>json.
     rbind (io_result (zstd_encode c 6 json)) (\<lambda>compressed.
       Inr (s\<lparr>recordings := filter (\<lambda>x. recording_pk x \<noteq> rec_id r) (recordings s) @
         [\<lparr>recording_pk = rec_id r, recording_revision = rec_revision r,
           recording_test_id = rec_test_id r, recording_backend = rec_backend r,
           recording_created_at = to_rfc3339 c now, recording_payload = compressed\<rparr>]\<rparr>)))"

definition recording_of :: "codec \<Rightarrow> store \<Rightarrow> string \<Rightarrow> store_error + recording option" where
  "recording_of c s i =
     (case find (\<lambda>r. recording_pk r = i) (recordings s) of
        None \<Rightarrow> Inr None
      | Some r \<Rightarrow>
          rbind (io_result (zstd_decode c (recording_payload r))) (\<lambda>json.
          rbind (json_result (recording_from_json c json)) (\<lambda>x. Inr (Some x))))"


section \<open>Minimum and maximum of a query\<close>

lemma max_by_snoc:
  "max_by key (xs @ [x]) = (case max_by key xs of
      None \<Rightarrow> Some x | Some b \<Rightarrow> if key b < key x then Some x else Some b)"
  by (simp add: max_by_def split: option.splits)

lemma min_by_snoc:
  "min_by key (xs @ [x]) = (case min_by key xs of
      None \<Rightarrow> Some x | Some b \<Rightarrow> if key x < key b then Some x else Some b)"
  by (simp add: min_by_def split: option.splits)

lemma max_by_cases:
  "case max_by key xs of None \<Rightarrow> xs = [] | Some m \<Rightarrow> m \<in> set xs \<and> (\<forall>x \<in> set xs. key x \<le> key m)"
proof (induction xs rule: rev_induct)
  case (snoc x xs)
  then show ?case by (auto simp: max_by_snoc split: option.splits)
qed (simp add: max_by_def)

lemma min_by_cases:
  "case min_by key xs of None \<Rightarrow> xs = [] | Some m \<Rightarrow> m \<in> set xs \<and> (\<forall>x \<in> set xs. key m \<le> key x)"
proof (induction xs rule: rev_induct)
  case (snoc x xs)
  then show ?case by (auto simp: min_by_snoc split: option.splits)
qed (simp add: min_by_def)

lemma max_by_Some: "max_by key xs = Some m \<Longrightarrow> m \<in> set xs \<and> (\<forall>x \<in> set xs. key x \<le> key m)"
  using max_by_cases [where key = key and xs = xs] by simp

lemma min_by_Some: "min_by key xs = Some m \<Longrightarrow> m \<in> set xs \<and> (\<forall>x \<in> set xs. key m \<le> key x)"
  using min_by_cases [where key = key and xs = xs] by simp

lemma max_by_None: "max_by key xs = None \<longleftrightarrow> xs = []"
  using max_by_cases [where key = key and xs = xs] by (auto simp: max_by_def split: option.splits)

lemma min_by_None: "min_by key xs = None \<longleftrightarrow> xs = []"
  using min_by_cases [where key = key and xs = xs] by (auto simp: min_by_def split: option.splits)

section \<open>Retention\<close>

definition payload_bytes :: "store \<Rightarrow> nat" where
  "payload_bytes s =
     sum_list (map (\<lambda>r. length (event_payload r)) (events_table s))
     + sum_list (map (\<lambda>r. length (recording_payload r)) (recordings s))
     + sum_list (map (\<lambda>r. length (cache_payload r)) (verification_cache_table s))
     + sum_list (map (\<lambda>r. length (manifest_payload r)) (revision_manifests s))"

text \<open>The union of the retention query, as (creation time, kind, identity).\<close>

definition timeline :: "store \<Rightarrow> (string \<times> string \<times> string) list" where
  "timeline s =
     map (\<lambda>r. (run_started_at r, ''run'', run_pk r)) (runs s)
     @ map (\<lambda>r. (recording_created_at r, ''recording'', recording_pk r)) (recordings s)
     @ map (\<lambda>r. (manifest_created_at r, ''manifest'', manifest_pk r)) (revision_manifests s)"

definition delete_recordings :: "(recording_row \<Rightarrow> bool) \<Rightarrow> store \<Rightarrow> store" where
  "delete_recordings P s = s\<lparr>recordings := filter (\<lambda>r. \<not> P r) (recordings s)\<rparr>"

definition delete_manifests :: "(manifest_row \<Rightarrow> bool) \<Rightarrow> store \<Rightarrow> store" where
  "delete_manifests P s = s\<lparr>revision_manifests := filter (\<lambda>r. \<not> P r) (revision_manifests s)\<rparr>"

lemma length_filter_pk_less: "x \<in> set xs \<Longrightarrow> length (filter (\<lambda>r. k r \<noteq> k x) xs) < length xs"
  by (rule length_filter_less) simp_all

lemmas delete_defs = delete_runs_def delete_recordings_def delete_manifests_def Let_def

definition retained_rows :: "store \<Rightarrow> nat" where
  "retained_rows s = length (runs s) + length (recordings s) + length (revision_manifests s)"

lemma oldest_in_table:
  assumes "min_by id (timeline s) = Some (created, what, i)"
  shows "what = ''run'' \<and> i \<in> run_pk ` set (runs s)
    \<or> what = ''recording'' \<and> i \<in> recording_pk ` set (recordings s)
    \<or> what = ''manifest'' \<and> i \<in> manifest_pk ` set (revision_manifests s)"
proof -
  have "(created, what, i) \<in> set (timeline s)"
    using min_by_Some [OF assms] by blast
  then show ?thesis by (auto simp: timeline_def)
qed

lemma retained_rows_delete:
  "i \<in> run_pk ` set (runs s) \<Longrightarrow> retained_rows (delete_runs (\<lambda>r. run_pk r = i) s) < retained_rows s"
  "i \<in> recording_pk ` set (recordings s) \<Longrightarrow>
     retained_rows (delete_recordings (\<lambda>r. recording_pk r = i) s) < retained_rows s"
  "i \<in> manifest_pk ` set (revision_manifests s) \<Longrightarrow>
     retained_rows (delete_manifests (\<lambda>r. manifest_pk r = i) s) < retained_rows s"
  by (auto simp: retained_rows_def delete_defs intro!: length_filter_pk_less)

text \<open>The loop of \<^verbatim>\<open>Store::prune\<close>, with the two counters it keeps.  Every round deletes the
  row it selected, so the number of rows decreases.\<close>

function prune_loop :: "store \<Rightarrow> nat \<Rightarrow> nat \<Rightarrow> store \<times> nat \<times> nat" where
  "prune_loop s removed_runs removed_recordings =
     (if payload_bytes s \<le> max_bytes (retention s) then (s, removed_runs, removed_recordings)
      else (case min_by id (timeline s) of
          None \<Rightarrow> (s, removed_runs, removed_recordings)
        | Some (created, what, i) \<Rightarrow>
            if what = ''run'' then
              prune_loop (delete_runs (\<lambda>r. run_pk r = i) s)
                (removed_runs + length (filter (\<lambda>r. run_pk r = i) (runs s))) removed_recordings
            else if what = ''recording'' then
              prune_loop (delete_recordings (\<lambda>r. recording_pk r = i) s) removed_runs
                (removed_recordings + length (filter (\<lambda>r. recording_pk r = i) (recordings s)))
            else prune_loop (delete_manifests (\<lambda>r. manifest_pk r = i) s)
                removed_runs removed_recordings))"
  by pat_completeness auto
termination
proof (relation "measure (\<lambda>(s, _, _). retained_rows s)")
  fix s :: store and rr rc :: nat and x :: "string \<times> string \<times> string" and created y what i
  assume oldest: "min_by id (timeline s) = Some x" "(created, y) = x" "(what, i) = y"
  then have "min_by id (timeline s) = Some (created, what, i)" by simp
  note tbl = oldest_in_table [OF this]
  show "((delete_runs (\<lambda>r. run_pk r = i) s, rr + length (filter (\<lambda>r. run_pk r = i) (runs s)), rc),
      s, rr, rc) \<in> measure (\<lambda>(s, _, _). retained_rows s)" if "what = ''run''"
    using tbl that by (simp add: retained_rows_delete)
  show "((delete_recordings (\<lambda>r. recording_pk r = i) s, rr,
      rc + length (filter (\<lambda>r. recording_pk r = i) (recordings s))),
      s, rr, rc) \<in> measure (\<lambda>(s, _, _). retained_rows s)" if "what \<noteq> ''run''" "what = ''recording''"
    using tbl that by (simp add: retained_rows_delete)
  show "((delete_manifests (\<lambda>r. manifest_pk r = i) s, rr, rc), s, rr, rc)
      \<in> measure (\<lambda>(s, _, _). retained_rows s)" if "what \<noteq> ''run''" "what \<noteq> ''recording''"
    using tbl that by (simp add: retained_rows_delete)
qed simp

declare prune_loop.simps [simp del]

definition prune :: "codec \<Rightarrow> store \<Rightarrow> int \<Rightarrow> store \<times> prune_result" where
  "prune c s now =
     (let cutoff = to_rfc3339 c (now - max_age (retention s));
          runs_gone = length (filter (\<lambda>r. run_started_at r < cutoff) (runs s));
          recordings_gone = length (filter (\<lambda>r. recording_created_at r < cutoff) (recordings s));
          aged = delete_manifests (\<lambda>r. manifest_created_at r < cutoff)
            (delete_recordings (\<lambda>r. recording_created_at r < cutoff)
              (delete_runs (\<lambda>r. run_started_at r < cutoff) s));
          (s', for_size, recordings_gone') = prune_loop aged 0 recordings_gone
      in (s', \<lparr>runs_removed = runs_gone + for_size, recordings_removed = recordings_gone'\<rparr>))"

end
