(* ===== verification/Store_Invariant.thy ===== *)
theory Store_Invariant
  imports Store
begin

text \<open>
  The invariant of the store (keys, references and readable payloads), its preservation by
  every operation that changes the tables, and what a history of operations says about the
  revision a client may trust.
\<close>

section \<open>Documented behaviour of the third-party functions\<close>

text \<open>Values that JSON text carries exactly: ordered objects of bounded depth with integers in
  the range of \<^verbatim>\<open>serde_json::Number\<close> and no floating point.\<close>

fun json_exact :: "nat \<Rightarrow> json \<Rightarrow> bool" where
  "json_exact d (JInt i) = (i64_min \<le> i \<and> i \<le> int u64_max)"
| "json_exact d (JFloat _) = False"
| "json_exact d (JArray xs) = (0 < d \<and> (\<forall>x \<in> set xs. json_exact (d - 1) x))"
| "json_exact d (JObject m) = (0 < d \<and> bt_wf m \<and> (\<forall>e \<in> set m. json_exact (d - 1) (snd e)))"
| "json_exact d _ = True"

definition event_exact :: "event \<Rightarrow> bool" where
  "event_exact e = (json_exact 100 (ev_values e) \<and> json_exact 100 (observations e))"

text \<open>Values that JSON text carries up to the last digits of floating point numbers: the numbers and objects
  of \<^verbatim>\<open>serde_json::Value\<close>, nested \<open>d\<close> levels at most.  The parser refuses to enter the 128th level, so
  every value it returns fits 127 of them.\<close>

fun json_fits :: "nat \<Rightarrow> json \<Rightarrow> bool" where
  "json_fits d (JInt i) = (i64_min \<le> i \<and> i \<le> int u64_max)"
| "json_fits d (JArray xs) = (0 < d \<and> (\<forall>x \<in> set xs. json_fits (d - 1) x))"
| "json_fits d (JObject m) = (0 < d \<and> bt_wf m \<and> (\<forall>e \<in> set m. json_fits (d - 1) (snd e)))"
| "json_fits d _ = True"

text \<open>A value without the digits of its floating point numbers: the parser reads them with its default
  precision, which may differ in the last digit from what was written.\<close>

fun json_shape :: "json \<Rightarrow> json" where
  "json_shape (JFloat _) = JFloat 0"
| "json_shape (JArray xs) = JArray (map json_shape xs)"
| "json_shape (JObject m) = JObject (map (\<lambda>(k, v). (k, json_shape v)) m)"
| "json_shape v = v"

definition event_fits :: "event \<Rightarrow> bool" where
  "event_fits e = (json_fits 126 (ev_values e) \<and> json_fits 126 (observations e))"

definition event_shape :: "event \<Rightarrow> event" where
  "event_shape e = e\<lparr>ev_values := json_shape (ev_values e), observations := json_shape (observations e)\<rparr>"

definition codec_ok :: "codec \<Rightarrow> bool" where
  "codec_ok c =
     ((\<forall>e j. event_exact e \<and> event_to_json c e = Some j \<longrightarrow> event_from_json c j = Some e)
      \<and> (\<forall>e j. event_fits e \<and> event_to_json c e = Some j
           \<longrightarrow> (\<exists>e'. event_from_json c j = Some e' \<and> event_shape e' = event_shape e))
      \<and> (\<forall>r j. list_all event_exact (rec_events r) \<and> recording_to_json c r = Some j
           \<longrightarrow> recording_from_json c j = Some r)
      \<and> (\<forall>m j. bt_wf (m_file_digests m) \<and> bt_wf (m_surface_digests m) \<and> manifest_to_json c m = Some j
           \<longrightarrow> manifest_from_json c j = Some m)
      \<and> (\<forall>fs j. frames_to_json c fs = Some j \<longrightarrow> frames_from_json c j = Some fs)
      \<and> (\<forall>l x z. zstd_encode c l x = Some z \<longrightarrow> zstd_decode c z = Some x))"

lemma codec_okD:
  assumes "codec_ok c"
  shows "event_exact e \<Longrightarrow> event_to_json c e = Some j \<Longrightarrow> event_from_json c j = Some e"
    and "list_all event_exact (rec_events r) \<Longrightarrow> recording_to_json c r = Some j \<Longrightarrow> recording_from_json c j = Some r"
    and "bt_wf (m_file_digests m) \<Longrightarrow> bt_wf (m_surface_digests m) \<Longrightarrow> manifest_to_json c m = Some j
      \<Longrightarrow> manifest_from_json c j = Some m"
    and "frames_to_json c fs = Some j \<Longrightarrow> frames_from_json c j = Some fs"
    and "zstd_encode c l x = Some z \<Longrightarrow> zstd_decode c z = Some x"
  using assms by (auto simp: codec_ok_def)

lemma codec_ok_reads:
  assumes "codec_ok c" "event_fits e" "event_to_json c e = Some j"
  obtains e' where "event_from_json c j = Some e'" "ev_id e' = ev_id e" "sequence e' = sequence e"
proof -
  obtain e' where e': "event_from_json c j = Some e'" "event_shape e' = event_shape e"
    using assms unfolding codec_ok_def by blast
  from arg_cong [OF e'(2), of ev_id] arg_cong [OF e'(2), of sequence]
  have "ev_id e' = ev_id e" "sequence e' = sequence e" by (simp_all add: event_shape_def)
  with e'(1) show thesis by (rule that)
qed

lemma result_iffs [simp]:
  "json_result x = Inr y \<longleftrightarrow> x = Some y" "io_result x = Inr y \<longleftrightarrow> x = Some y"
  "json_result (Some y) = Inr y" "io_result (Some y) = Inr y"
  by (auto simp: json_result_def io_result_def split: option.splits)

section \<open>The invariant\<close>

text \<open>Primary keys and unique constraints.\<close>

definition keys_ok :: "store \<Rightarrow> bool" where
  "keys_ok s =
     (distinct (map run_pk (runs s)) \<and> distinct (map test_pk (tests_table s))
      \<and> distinct (dependencies s)
      \<and> distinct (map event_pk (events_table s))
      \<and> distinct (map (\<lambda>e. (event_run_id e, event_sequence e)) (events_table s))
      \<and> distinct (map failure_pk (failures s))
      \<and> distinct (map (\<lambda>r. (cov_test_id r, cov_path r, cov_line r, cov_symbol r)) (coverage_table s))
      \<and> sorted_wrt (<) (map cov_rowid (coverage_table s))
      \<and> distinct (map recording_pk (recordings s))
      \<and> distinct (map cache_pk (verification_cache_table s))
      \<and> distinct (map manifest_pk (revision_manifests s)))"

text \<open>Foreign keys.\<close>

definition refs_ok :: "store \<Rightarrow> bool" where
  "refs_ok s =
     ((\<forall>r \<in> set (events_table s). event_run_id r \<in> run_pk ` set (runs s))
      \<and> (\<forall>r \<in> set (failures s). failure_run_id r \<in> run_pk ` set (runs s))
      \<and> (\<forall>r \<in> set (verification_cache_table s). cache_run_id r \<in> run_pk ` set (runs s))
      \<and> (\<forall>r \<in> set (dependencies s). dep_test_id r \<in> test_pk ` set (tests_table s))
      \<and> (\<forall>r \<in> set (coverage_table s). cov_test_id r \<in> test_pk ` set (tests_table s)))"

text \<open>Column values: known statuses, sequences and rowids in range.\<close>

definition columns_ok :: "store \<Rightarrow> bool" where
  "columns_ok s =
     ((\<forall>r \<in> set (runs s). run_status r \<in> range as_db)
      \<and> (\<forall>e \<in> set (events_table s). 0 \<le> event_sequence e \<and> event_sequence e \<le> i64_max)
      \<and> (\<forall>r \<in> set (coverage_table s). 0 < cov_rowid r))"

text \<open>A stored event decompresses and parses to an event with the row's identity.\<close>

definition readable :: "codec \<Rightarrow> event_row \<Rightarrow> bool" where
  "readable c r = (\<exists>j e. zstd_decode c (event_payload r) = Some j \<and> event_from_json c j = Some e
     \<and> int (sequence e) = event_sequence r \<and> ev_id e = event_pk r)"

definition store_wf :: "codec \<Rightarrow> store \<Rightarrow> bool" where
  "store_wf c s = (keys_ok s \<and> refs_ok s \<and> columns_ok s \<and> list_all (readable c) (events_table s))"

lemmas store_wf_defs = store_wf_def keys_ok_def refs_ok_def columns_ok_def

lemma run_exists_iff: "run_exists s i \<longleftrightarrow> i \<in> run_pk ` set (runs s)"
  by (auto simp: run_exists_def list_ex_iff)

lemma test_exists_iff: "test_exists s i \<longleftrightarrow> i \<in> test_pk ` set (tests_table s)"
  by (auto simp: test_exists_def list_ex_iff)

lemma distinct_map_filter: "distinct (map f xs) \<Longrightarrow> distinct (map f (filter P xs))"
  by (induction xs) auto

section \<open>Every operation keeps the invariant\<close>

lemma store_wf_empty: "store_wf c (empty_store p)"
  by (simp add: store_wf_defs empty_store_def)

text \<open>An update of rows that keeps their keys.\<close>

lemma store_wf_runs_update:
  assumes "store_wf c s" "map run_pk rs = map run_pk (runs s)" "\<forall>r \<in> set rs. run_status r \<in> range as_db"
  shows "store_wf c (s\<lparr>runs := rs\<rparr>)"
proof -
  have "run_pk ` set rs = run_pk ` set (runs s)"
    using arg_cong [OF assms(2), of set] by simp
  with assms show ?thesis by (simp add: store_wf_defs)
qed

lemma store_wf_tests_update:
  assumes "store_wf c s" "map test_pk ts = map test_pk (tests_table s)"
  shows "store_wf c (s\<lparr>tests_table := ts\<rparr>)"
proof -
  have "test_pk ` set ts = test_pk ` set (tests_table s)"
    using arg_cong [OF assms(2), of set] by simp
  with assms show ?thesis by (simp add: store_wf_defs)
qed

lemma statuses_known: "store_wf c s \<Longrightarrow> r \<in> set (runs s) \<Longrightarrow> run_status r \<in> range as_db"
  by (auto simp: store_wf_defs)

lemma store_wf_open:
  assumes "store_wf c s"
  shows "store_wf c (store_open c s p now)"
proof -
  let ?upd = "\<lambda>r. if run_status r = as_db Running
    then r\<lparr>run_status := as_db RunError, run_finished_at :=
      (case run_finished_at r of Some t \<Rightarrow> Some t | None \<Rightarrow> Some (to_rfc3339 c now))\<rparr> else r"
  have "store_wf c (s\<lparr>runs := map ?upd (runs s)\<rparr>)"
    by (rule store_wf_runs_update [OF assms]) (auto dest: statuses_known [OF assms])
  then show ?thesis
    by (simp add: store_open_def store_wf_defs)
qed

lemma store_wf_begin_run: "\<lbrakk>store_wf c s; begin_run c s r = Inr s'\<rbrakk> \<Longrightarrow> store_wf c s'"
  by (auto simp: store_wf_defs begin_run_def run_exists_iff split: if_splits)

lemma store_wf_finish_run: "\<lbrakk>store_wf c s; finish_run c s i d rv t = Inr (s', st)\<rbrakk> \<Longrightarrow> store_wf c s'"
  by (auto simp: finish_run_def Let_def split: option.splits intro!: store_wf_runs_update
      dest: statuses_known)

lemma append_event_ok:
  assumes "append_event c s i t e = Inr s'"
  obtains j z where "event_to_json c e = Some j" "zstd_encode c 3 j = Some z"
    "int (sequence e) \<le> i64_max" "i \<in> run_pk ` set (runs s)"
    "ev_id e \<notin> event_pk ` set (events_table s)"
    "(i, int (sequence e)) \<notin> (\<lambda>r. (event_run_id r, event_sequence r)) ` set (events_table s)"
    "s' = s\<lparr>events_table := events_table s @ [\<lparr>event_pk = ev_id e, event_run_id = i,
       event_test_id = t, event_sequence = int (sequence e), event_payload = z\<rparr>]\<rparr>"
  using assms
  by (fastforce simp: append_event_def rbind_eq_Inr sqlite_i64_def list_ex_iff run_exists_iff
      split: if_splits)

lemma store_wf_append_event:
  assumes "store_wf c s" "codec_ok c" "event_fits e" and app: "append_event c s i t e = Inr s'"
  shows "store_wf c s'"
  using app
proof (rule append_event_ok)
  fix j z
  assume row: "event_to_json c e = Some j" "zstd_encode c 3 j = Some z"
    "int (sequence e) \<le> i64_max" "i \<in> run_pk ` set (runs s)"
    "ev_id e \<notin> event_pk ` set (events_table s)"
    "(i, int (sequence e)) \<notin> (\<lambda>r. (event_run_id r, event_sequence r)) ` set (events_table s)"
    and s': "s' = s\<lparr>events_table := events_table s @ [\<lparr>event_pk = ev_id e, event_run_id = i,
       event_test_id = t, event_sequence = int (sequence e), event_payload = z\<rparr>]\<rparr>"
  obtain e' where "event_from_json c j = Some e'" "ev_id e' = ev_id e" "sequence e' = sequence e"
    using assms(2,3) row(1) by (rule codec_ok_reads)
  then have "readable c \<lparr>event_pk = ev_id e, event_run_id = i, event_test_id = t,
      event_sequence = int (sequence e), event_payload = z\<rparr>"
    using codec_okD(5) [OF assms(2) row(2)] by (simp add: readable_def)
  with row(3-) assms(1) show ?thesis unfolding s' by (simp add: store_wf_defs)
qed

lemma store_wf_upsert_test:
  assumes "store_wf c s"
  shows "store_wf c (upsert_test s t)"
proof (cases "test_exists s (tr_id t)")
  case True
  then show ?thesis
    by (auto simp: upsert_test_def Let_def intro!: store_wf_tests_update [OF assms])
next
  case False
  with assms show ?thesis
    by (auto simp: store_wf_defs upsert_test_def Let_def test_exists_iff)
qed

lemma store_wf_update_test_status: "store_wf c s \<Longrightarrow> store_wf c (update_test_status e s)"
  unfolding update_test_status_def by (rule store_wf_tests_update) auto

lemma store_wf_update_test_statuses: "store_wf c s \<Longrightarrow> store_wf c (update_test_statuses s es)"
  unfolding update_test_statuses_def
  by (induction es arbitrary: s) (simp_all add: store_wf_update_test_status)

lemma store_wf_save_failure: "\<lbrakk>store_wf c s; save_failure c s f = Inr s'\<rbrakk> \<Longrightarrow> store_wf c s'"
  by (auto simp: store_wf_defs save_failure_def rbind_eq_Inr run_exists_iff distinct_map_filter
      split: if_splits)

lemma store_wf_save_cache:
  "\<lbrakk>store_wf c s; save_verification_cache c s rv i p now = Inr s'\<rbrakk> \<Longrightarrow> store_wf c s'"
  by (auto simp: store_wf_defs save_verification_cache_def rbind_eq_Inr run_exists_iff
      distinct_map_filter split: if_splits)

lemma store_wf_save_manifest:
  "\<lbrakk>store_wf c s; save_revision_manifest c s rv m now = Inr s'\<rbrakk> \<Longrightarrow> store_wf c s'"
  by (auto simp: store_wf_defs save_revision_manifest_def rbind_eq_Inr distinct_map_filter)

lemma store_wf_save_recording:
  "\<lbrakk>store_wf c s; save_recording c s r now = Inr s'\<rbrakk> \<Longrightarrow> store_wf c s'"
  by (auto simp: store_wf_defs save_recording_def rbind_eq_Inr distinct_map_filter)


lemma insert_all_induct:
  assumes "insert_all ins s xs = Inr s'" "P s"
    and "\<And>s x s'. \<lbrakk>P s; ins s x = Inr s'\<rbrakk> \<Longrightarrow> P s'"
  shows "P s'"
  using assms(1,2) by (induction xs arbitrary: s) (auto simp: rbind_eq_Inr dest: assms(3))

lemma foldl_max: "x \<in> insert a (set xs) \<Longrightarrow> x \<le> foldl max a (xs :: int list)"
proof (induction xs arbitrary: a x)
  case (Cons y ys)
  have "max a y \<le> foldl max (max a y) ys" by (rule Cons.IH) simp
  with Cons show ?case by (auto intro: order_trans)
qed simp

lemma next_rowid_greater: "r \<in> set rows \<Longrightarrow> cov_rowid r < next_rowid rows" "0 < next_rowid rows"
  using foldl_max [of "cov_rowid r" 0 "map cov_rowid rows"] foldl_max [of 0 0 "map cov_rowid rows"]
  by (auto simp: next_rowid_def)

lemma sorted_wrt_filter_map: "sorted_wrt R (map f xs) \<Longrightarrow> sorted_wrt R (map f (filter P xs))"
  by (induction xs) auto

lemma store_wf_insert_coverage:
  assumes "store_wf c s" "insert_coverage s item = Inr s'"
  shows "store_wf c s'"
proof -
  let ?row = "\<lparr>cov_rowid = next_rowid (coverage_table s), cov_test_id = cr_test_id item,
    cov_path = cr_path item, cov_line = int (cr_line item), cov_symbol = cr_symbol item\<rparr>"
  have new: "(cr_test_id item, cr_path item, int (cr_line item), cr_symbol item)
      \<notin> (\<lambda>r. (cov_test_id r, cov_path r, cov_line r, cov_symbol r)) ` set (coverage_table s)"
    and ref: "cr_test_id item \<in> test_pk ` set (tests_table s)"
    and s': "s' = s\<lparr>coverage_table := coverage_table s @ [?row]\<rparr>"
    using assms(2) by (fastforce simp: insert_coverage_def list_ex_iff test_exists_iff split: if_splits)+
  show ?thesis
    using assms(1) new ref unfolding s'
    by (simp add: store_wf_defs sorted_wrt_append next_rowid_greater)
qed

lemma store_wf_replace_coverage:
  assumes "store_wf c s" "replace_coverage s t cov = Inr s'"
  shows "store_wf c s'"
proof (rule insert_all_induct [where P = "store_wf c"])
  show "insert_all insert_coverage
      (s\<lparr>coverage_table := filter (\<lambda>r. cov_test_id r \<noteq> t) (coverage_table s)\<rparr>) cov = Inr s'"
    using assms(2) by (simp add: replace_coverage_def)
  show "store_wf c (s\<lparr>coverage_table := filter (\<lambda>r. cov_test_id r \<noteq> t) (coverage_table s)\<rparr>)"
    using assms(1) by (simp add: store_wf_defs distinct_map_filter sorted_wrt_filter_map)
qed (rule store_wf_insert_coverage)

lemma store_wf_insert_dependency:
  "\<lbrakk>store_wf c s; insert_dependency t s d = Inr s'\<rbrakk> \<Longrightarrow> store_wf c s'"
  by (auto simp: store_wf_defs insert_dependency_def Let_def test_exists_iff split: if_splits)

lemma store_wf_replace_dependencies:
  assumes "store_wf c s" "replace_dependencies s t deps = Inr s'"
  shows "store_wf c s'"
proof (rule insert_all_induct [where P = "store_wf c"])
  show "insert_all (insert_dependency t)
      (s\<lparr>dependencies := filter (\<lambda>r. dep_test_id r \<noteq> t) (dependencies s)\<rparr>) deps = Inr s'"
    using assms(2) by (simp add: replace_dependencies_def)
  show "store_wf c (s\<lparr>dependencies := filter (\<lambda>r. dep_test_id r \<noteq> t) (dependencies s)\<rparr>)"
    using assms(1) by (simp add: store_wf_defs)
qed (rule store_wf_insert_dependency)

text \<open>A deletion from \<open>runs\<close> keeps the references because it cascades.\<close>

lemma store_wf_delete_runs: "store_wf c s \<Longrightarrow> store_wf c (delete_runs P s)"
  by (fastforce simp: store_wf_defs delete_runs_def Let_def distinct_map_filter list_all_iff)

lemma store_wf_delete_recordings: "store_wf c s \<Longrightarrow> store_wf c (delete_recordings P s)"
  by (simp add: store_wf_defs delete_recordings_def distinct_map_filter)

lemma store_wf_delete_manifests: "store_wf c s \<Longrightarrow> store_wf c (delete_manifests P s)"
  by (simp add: store_wf_defs delete_manifests_def distinct_map_filter)

lemmas store_wf_deletes = store_wf_delete_runs store_wf_delete_recordings store_wf_delete_manifests

text \<open>What every deletion step keeps is kept by the loop.\<close>

lemma prune_loop_induct:
  assumes "prune_loop s a b = (s', a', b')" "P s"
    and "\<And>s i. P s \<Longrightarrow> P (delete_runs (\<lambda>r. run_pk r = i) s)"
    and "\<And>s i. P s \<Longrightarrow> P (delete_recordings (\<lambda>r. recording_pk r = i) s)"
    and "\<And>s i. P s \<Longrightarrow> P (delete_manifests (\<lambda>r. manifest_pk r = i) s)"
  shows "P s'"
  using assms(1,2)
proof (induction s a b rule: prune_loop.induct)
  case (1 s a b)
  show ?case
  proof (cases "payload_bytes s \<le> max_bytes (retention s)")
    case True
    with 1(4,5) show ?thesis by (simp add: prune_loop.simps [of s])
  next
    case False
    note big = this
    show ?thesis
    proof (cases "min_by id (timeline s)")
      case None
      with 1(4,5) False show ?thesis by (simp add: prune_loop.simps [of s])
    next
      case (Some x)
      obtain created what i where x: "x = (created, what, i)" by (cases x)
      note step = 1(4) [unfolded prune_loop.simps [of s], simplified big Some x if_False option.case prod.case]
      show ?thesis
        using 1(1-3) [OF big Some x [symmetric] refl] step assms(3-5) 1(5) by (auto split: if_splits)
    qed
  qed
qed

lemma prune_induct:
  assumes "P s"
    and "\<And>s Q. P s \<Longrightarrow> P (delete_runs Q s)"
    and "\<And>s Q. P s \<Longrightarrow> P (delete_recordings Q s)"
    and "\<And>s Q. P s \<Longrightarrow> P (delete_manifests Q s)"
  shows "P (fst (prune c s now))"
proof -
  have loop: "P (fst (prune_loop t a b))" if "P t" for t a b
  proof -
    obtain s' a' b' where l: "prune_loop t a b = (s', a', b')" by (cases "prune_loop t a b")
    show ?thesis
      unfolding l fst_conv by (rule prune_loop_induct [where P = P, OF l that]) (simp_all add: assms(2-4))
  qed
  have "fst (prune c s now) = fst (prune_loop (delete_manifests (\<lambda>r. manifest_created_at r < cutoff)
      (delete_recordings (\<lambda>r. recording_created_at r < cutoff)
        (delete_runs (\<lambda>r. run_started_at r < cutoff) s))) 0
      (length (filter (\<lambda>r. recording_created_at r < cutoff) (recordings s))))"
    if "cutoff = to_rfc3339 c (now - max_age (retention s))" for cutoff
    by (simp add: prune_def Let_def that split: prod.splits)
  with loop assms show ?thesis by metis
qed

lemma store_wf_prune: "store_wf c s \<Longrightarrow> store_wf c (fst (prune c s now))"
  by (rule prune_induct [where P = "store_wf c"]) (auto intro: store_wf_deletes)

section \<open>Histories\<close>

text \<open>One operation that changes the tables, with the arguments of its call.\<close>

datatype store_op =
    Open retention_policy int
  | BeginRun new_run
  | FinishRun string run_status string int
  | AppendEvent string string event
  | UpsertTest test_record
  | UpdateTestStatuses "(string, string) btree"
  | SaveFailure failure_record
  | ReplaceCoverage string "coverage_record list"
  | SaveVerificationCache string string string int
  | SaveRevisionManifest string revision_manifest int
  | ReplaceDependencies string "dependency list"
  | SaveRecording recording int
  | Prune int

fun exec :: "codec \<Rightarrow> store \<Rightarrow> store_op \<Rightarrow> store_error + store" where
  "exec c s (Open p now) = Inr (store_open c s p now)"
| "exec c s (BeginRun r) = begin_run c s r"
| "exec c s (FinishRun i d rv t) = map_sum id fst (finish_run c s i d rv t)"
| "exec c s (AppendEvent i t e) = append_event c s i t e"
| "exec c s (UpsertTest t) = Inr (upsert_test s t)"
| "exec c s (UpdateTestStatuses m) = Inr (update_test_statuses s m)"
| "exec c s (SaveFailure f) = save_failure c s f"
| "exec c s (ReplaceCoverage t cov) = replace_coverage s t cov"
| "exec c s (SaveVerificationCache rv i p now) = save_verification_cache c s rv i p now"
| "exec c s (SaveRevisionManifest rv m now) = save_revision_manifest c s rv m now"
| "exec c s (ReplaceDependencies t deps) = replace_dependencies s t deps"
| "exec c s (SaveRecording r now) = save_recording c s r now"
| "exec c s (Prune now) = Inr (fst (prune c s now))"

text \<open>The stores a history of successful operations reaches from an empty database.  A failed
  operation leaves the tables as they are.\<close>

inductive reachable :: "codec \<Rightarrow> store_op list \<Rightarrow> store \<Rightarrow> bool" for c where
  initial: "reachable c [] (empty_store p)"
| step: "\<lbrakk>reachable c h s; exec c s op = Inr s'\<rbrakk> \<Longrightarrow> reachable c (h @ [op]) s'"

inductive_cases reachable_NilE: "reachable c [] s"

text \<open>The values of an appended event are values of the JSON library that it can read back.\<close>

definition fitting_op :: "store_op \<Rightarrow> bool" where
  "fitting_op op = (case op of AppendEvent i t e \<Rightarrow> event_fits e | _ \<Rightarrow> True)"

lemmas store_wf_ops =
  store_wf_open store_wf_begin_run store_wf_finish_run store_wf_append_event store_wf_upsert_test
  store_wf_update_test_statuses store_wf_save_failure store_wf_replace_coverage store_wf_save_cache
  store_wf_save_manifest store_wf_replace_dependencies store_wf_save_recording store_wf_prune

lemma map_sum_fst_Inr: "map_sum id fst r = Inr s \<longleftrightarrow> (\<exists>x. r = Inr (s, x))"
  by (cases r) auto

lemma exec_wf:
  "\<lbrakk>exec c s op = Inr s'; store_wf c s; codec_ok c; fitting_op op\<rbrakk> \<Longrightarrow> store_wf c s'"
  by (cases op) (auto simp: fitting_op_def map_sum_fst_Inr intro: store_wf_ops)

text \<open>A concrete codec for finitely many values, each written as its position.\<close>

definition table_to :: "'a list \<Rightarrow> 'a \<Rightarrow> string option" where
  "table_to xs x = map_option (\<lambda>i. replicate i (CHR ''i'')) (position (\<lambda>y. y = x) xs)"

definition table_from :: "'a list \<Rightarrow> string \<Rightarrow> 'a option" where
  "table_from xs j = (if length j < length xs then Some (xs ! length j) else None)"

definition table_codec ::
  "event list \<Rightarrow> recording list \<Rightarrow> revision_manifest list \<Rightarrow> string list list \<Rightarrow> codec" where
  "table_codec es rs ms fs =
     \<lparr>event_to_json = table_to es, event_from_json = table_from es,
      recording_to_json = table_to rs, recording_from_json = table_from rs,
      manifest_to_json = table_to ms, manifest_from_json = table_from ms,
      frames_to_json = table_to fs, frames_from_json = table_from fs,
      zstd_encode = (\<lambda>_. Some), zstd_decode = Some,
      to_rfc3339 = (\<lambda>t. replicate (nat t) (CHR ''t'')), parse_rfc3339 = (\<lambda>x. Some (int (length x)))\<rparr>"

lemma table_from_to: "table_to xs x = Some j \<Longrightarrow> table_from xs j = Some x"
  by (auto simp: table_to_def table_from_def position_Some)

lemma table_codec_ok: "codec_ok (table_codec es rs ms fs)"
  by (auto simp: codec_ok_def table_codec_def table_from_to)

text \<open>A codec that reads a third with another last digit.\<close>

definition third_event :: "rat \<Rightarrow> event" where
  "third_event q = (sample_event 0 Line)\<lparr>ev_values := JObject [(''value'', JFloat q)]\<rparr>"

definition rounding_codec :: codec where
  "rounding_codec = (table_codec [third_event (1 / 3)] [] [] [])
     \<lparr>event_from_json := table_from [third_event (333 / 1000)]\<rparr>"

lemma rounding_codec_ok: "codec_ok rounding_codec"
proof -
  have inexact: "\<not> event_exact (third_event q)" for q by (simp add: third_event_def event_exact_def)
  have enc: "e = third_event (1 / 3) \<and> j = []" if "event_to_json rounding_codec e = Some j" for e j
    using that by (auto simp: rounding_codec_def table_codec_def table_to_def split: if_splits)
  have dec: "event_from_json rounding_codec [] = Some (third_event (333 / 1000))"
    by (simp add: rounding_codec_def table_codec_def table_from_def)
  have shape: "event_shape (third_event q) = event_shape (third_event r)" for q r
    by (simp add: event_shape_def third_event_def)
  have "event_exact e \<and> event_to_json rounding_codec e = Some j \<longrightarrow> event_from_json rounding_codec j = Some e" for e j
    using enc inexact by blast
  moreover have "\<exists>e'. event_from_json rounding_codec j = Some e' \<and> event_shape e' = event_shape e"
    if "event_fits e \<and> event_to_json rounding_codec e = Some j" for e j
    using enc [OF conjunct2 [OF that]] dec shape by blast
  ultimately show ?thesis
    unfolding codec_ok_def by (intro conjI allI impI) (simp_all add: rounding_codec_def table_codec_def table_from_to)
qed


section \<open>Which rows of \<open>runs\<close> an operation can touch\<close>

lemma runs_update_test_statuses: "runs (update_test_statuses s m) = runs s"
  unfolding update_test_statuses_def
  by (induction m arbitrary: s) (simp_all add: update_test_status_def)

lemma runs_replace_coverage: "replace_coverage s t cov = Inr s' \<Longrightarrow> runs s' = runs s"
  unfolding replace_coverage_def
  by (erule insert_all_induct [where P = "\<lambda>x. runs x = runs s"])
    (auto simp: insert_coverage_def split: if_splits)

lemma runs_replace_dependencies: "replace_dependencies s t deps = Inr s' \<Longrightarrow> runs s' = runs s"
  unfolding replace_dependencies_def
  by (erule insert_all_induct [where P = "\<lambda>x. runs x = runs s"])
    (auto simp: insert_dependency_def Let_def split: if_splits)

definition some_runs_of :: "store \<Rightarrow> store \<Rightarrow> bool" where
  "some_runs_of s' s = (\<exists>P. runs s' = filter P (runs s))"

lemma some_runs_refl: "runs s' = runs s \<Longrightarrow> some_runs_of s' s"
  unfolding some_runs_of_def by (rule exI [of _ "\<lambda>_. True"]) simp

lemma some_runs_delete_runs: "some_runs_of s' s \<Longrightarrow> some_runs_of (delete_runs P s') s"
  by (auto simp: some_runs_of_def delete_defs)

lemma some_runs_delete:
  "some_runs_of s' s \<Longrightarrow> some_runs_of (delete_recordings Q s') s"
  "some_runs_of s' s \<Longrightarrow> some_runs_of (delete_manifests R s') s"
  by (simp_all add: some_runs_of_def delete_defs)

lemma some_runs_prune: "some_runs_of (fst (prune c s now)) s"
  by (rule prune_induct [where P = "\<lambda>x. some_runs_of x s"])
    (auto intro: some_runs_delete_runs some_runs_delete some_runs_refl)

lemma exec_runs:
  assumes "exec c s op = Inr s'"
    and "\<nexists>p now. op = Open p now" "\<nexists>r. op = BeginRun r" "\<nexists>i d rv t. op = FinishRun i d rv t"
  shows "some_runs_of s' s"
proof (cases op)
  case (Prune now)
  with assms(1) show ?thesis using some_runs_prune by auto
qed (use assms in \<open>auto intro!: some_runs_refl simp: append_event_def upsert_test_def Let_def save_failure_def
    save_verification_cache_def save_revision_manifest_def save_recording_def rbind_eq_Inr
    runs_update_test_statuses runs_replace_coverage runs_replace_dependencies split: if_splits\<close>)

text \<open>Every run was begun with its revision, and a passed run was finished as passed, after it
  was begun, at the revision it was begun with.\<close>

definition begun :: "store_op list \<Rightarrow> run_row \<Rightarrow> bool" where
  "begun h r = (\<exists>nr. BeginRun nr \<in> set h \<and> nr_id nr = run_pk r \<and> nr_revision nr = run_revision r)"

definition passed_at_revision :: "store_op list \<Rightarrow> run_row \<Rightarrow> bool" where
  "passed_at_revision h r =
     (\<exists>h1 t h2. h = h1 @ FinishRun (run_pk r) Passed (run_revision r) t # h2 \<and> begun h1 r)"

definition run_justified :: "store_op list \<Rightarrow> run_row \<Rightarrow> bool" where
  "run_justified h r = (begun h r \<and> (run_status r = as_db Passed \<longrightarrow> passed_at_revision h r))"

lemma run_justified_snoc: "run_justified h r \<Longrightarrow> run_justified (h @ [op]) r"
  by (fastforce simp: run_justified_def begun_def passed_at_revision_def)

lemma as_db_inj [simp]: "as_db a = as_db b \<longleftrightarrow> a = b"
  by (cases a; cases b) (simp_all add: as_db_def)

lemma run_justified_open:
  "\<forall>r \<in> set (runs s). run_justified h r \<Longrightarrow> \<forall>r \<in> set (runs (store_open c s p now)). run_justified h r"
  by (auto simp: store_open_def run_justified_def begun_def)

lemma run_justified_begin:
  "\<lbrakk>begin_run c s nr = Inr s'; \<forall>r \<in> set (runs s). run_justified h r\<rbrakk>
     \<Longrightarrow> \<forall>r \<in> set (runs s'). run_justified (h @ [BeginRun nr]) r"
  by (auto simp: begin_run_def run_justified_snoc split: if_splits)
    (auto simp: run_justified_def begun_def)

lemma run_justified_finish:
  assumes "finish_run c s i d rv t = Inr (s', st)" "\<forall>r \<in> set (runs s). run_justified h r"
    "distinct (map run_pk (runs s))"
  shows "\<forall>r \<in> set (runs s'). run_justified (h @ [FinishRun i d rv t]) r"
proof
  fix r'
  assume r': "r' \<in> set (runs s')"
  obtain row where row: "find (\<lambda>r. run_pk r = i) (runs s) = Some row"
    using assms(1) by (auto simp: finish_run_def split: option.splits)
  define actual where "actual = (if run_revision row = rv then d else RunStale)"
  have s': "s' = s\<lparr>runs := map (\<lambda>r. if run_pk r = i
      then r\<lparr>run_status := as_db actual, run_finished_at := Some (to_rfc3339 c t)\<rparr> else r) (runs s)\<rparr>"
    using assms(1) row by (auto simp: finish_run_def Let_def actual_def)
  from r' s' obtain r where r: "r \<in> set (runs s)" "r' = (if run_pk r = i
      then r\<lparr>run_status := as_db actual, run_finished_at := Some (to_rfc3339 c t)\<rparr> else r)"
    by auto
  show "run_justified (h @ [FinishRun i d rv t]) r'"
  proof (cases "run_pk r = i")
    case False
    with r assms(2) show ?thesis by (simp add: run_justified_snoc)
  next
    case True
    have "row \<in> set (runs s)" "run_pk row = i" using find_Some_in [OF row] by auto
    with r(1) True assms(3) have "row = r" by (metis distinct_map inj_onD)
    moreover have "begun h r'" using r assms(2) True by (auto simp: run_justified_def begun_def)
    ultimately show ?thesis
      using r(2) True
      by (auto simp: run_justified_def passed_at_revision_def actual_def begun_def split: if_splits)
  qed
qed


lemma runs_begin: "begin_run c s nr = Inr s' \<Longrightarrow> distinct (map run_pk (runs s)) \<Longrightarrow> distinct (map run_pk (runs s'))"
  by (auto simp: begin_run_def run_exists_iff split: if_splits)

lemma runs_keys_same:
  "map run_pk (runs (store_open c s p now)) = map run_pk (runs s)"
  "finish_run c s i d rv t = Inr (s', st) \<Longrightarrow> map run_pk (runs s') = map run_pk (runs s)"
  by (auto simp: store_open_def finish_run_def Let_def split: option.splits)

lemma reachable_justified:
  assumes "reachable c h s"
  shows "distinct (map run_pk (runs s)) \<and> (\<forall>r \<in> set (runs s). run_justified h r)"
  using assms
proof (induction rule: reachable.induct)
  case (initial p)
  then show ?case by (simp add: empty_store_def)
next
  case (step h s op s')
  consider (Open) p now where "op = Open p now" | (Begin) r where "op = BeginRun r"
    | (Finish) i d rv t where "op = FinishRun i d rv t"
    | (Other) "\<nexists>p now. op = Open p now" "\<nexists>r. op = BeginRun r" "\<nexists>i d rv t. op = FinishRun i d rv t"
    by blast
  then show ?case
  proof cases
    case Open
    with step run_justified_open [of s h c p now] show ?thesis
      by (auto simp: runs_keys_same run_justified_snoc)
  next
    case Begin
    with step run_justified_begin [of c s r s' h] runs_begin [of c s r s'] show ?thesis by auto
  next
    case Finish
    with step obtain st where "finish_run c s i d rv t = Inr (s', st)"
      by (auto simp: map_sum_fst_Inr)
    with step Finish run_justified_finish [of c s i d rv t s' st h] show ?thesis
      by (simp add: runs_keys_same)
  next
    case Other
    with exec_runs [OF step(2)] obtain P where "runs s' = filter P (runs s)"
      by (auto simp: some_runs_of_def)
    with step.IH show ?thesis by (simp add: distinct_map_filter run_justified_snoc)
  qed
qed

lemma reachable_wf:
  assumes "reachable c h s" and "codec_ok c" and "list_all fitting_op h"
  shows "store_wf c s"
  using assms(1,3)
  by (induction rule: reachable.induct) (auto simp: store_wf_empty dest: exec_wf [OF _ _ assms(2)])

section \<open>Properties\<close>

text \<open>\<^bold>\<open>C6\<close> The store is well formed after every history of its operations whose events hold values the
  JSON library can read back, floating point numbers included (nested at most 126 levels, as every
  event made of a parsed record is): keys and unique constraints hold, every reference has its parent
  row (retention deletes children with their run), statuses are known, sequence numbers and row
  identities are in range, and every stored event reads back with the identity and sequence number of
  its row.\<close>

theorem store_reachable_wf:
  assumes "reachable c h s" and "codec_ok c" and "list_all fitting_op h"
  shows "store_wf c s"
  using assms by (rule reachable_wf)

definition sample_run :: new_run where
  "sample_run = \<lparr>nr_id = ''run-1'', nr_revision = ''rev-a'', nr_source_digest = ''d'', nr_started_at = 5\<rparr>"

definition sample_history :: "store_op list" where
  "sample_history = [BeginRun sample_run, AppendEvent ''run-1'' ''T#t'' (sample_event 0 Line),
     FinishRun ''run-1'' Passed ''rev-a'' 9]"

definition sample_codec :: codec where
  "sample_codec = table_codec [sample_event 0 Line, sample_event 1 Call, sample_event 2 Line] [] [] []"

lemma sample_codec_ok: "codec_ok sample_codec"
  by (simp add: sample_codec_def table_codec_ok)

lemma sample_reachable:
  "\<exists>s. reachable sample_codec sample_history s \<and> latest_passed_revision s = Some ''rev-a''"
proof -
  let ?s1 = "(empty_store default_retention)\<lparr>runs := [\<lparr>run_pk = ''run-1'', run_revision = ''rev-a'',
    run_source_digest = ''d'', run_status = ''running'', run_started_at = ''ttttt'', run_finished_at = None\<rparr>]\<rparr>"
  let ?s2 = "?s1\<lparr>events_table := [\<lparr>event_pk = ''0'', event_run_id = ''run-1'', event_test_id = ''T#t'',
    event_sequence = 0, event_payload = []\<rparr>]\<rparr>"
  let ?s3 = "?s2\<lparr>runs := [\<lparr>run_pk = ''run-1'', run_revision = ''rev-a'', run_source_digest = ''d'',
    run_status = ''passed'', run_started_at = ''ttttt'', run_finished_at = Some ''ttttttttt''\<rparr>]\<rparr>"
  have "reachable sample_codec [BeginRun sample_run] ?s1"
    by (rule reachable.step [OF reachable.initial [of _ default_retention], simplified])
      (simp add: begin_run_def run_exists_def empty_store_def sample_run_def as_db_def
        sample_codec_def table_codec_def eval_nat_numeral)
  then have "reachable sample_codec ([BeginRun sample_run] @ [AppendEvent ''run-1'' ''T#t'' (sample_event 0 Line)]) ?s2"
    by (rule reachable.step)
      (simp add: append_event_def run_exists_def empty_store_def sample_codec_def table_codec_def
        table_to_def sample_event_def sqlite_i64_def i64_max_def show_nat_small)
  then have "reachable sample_codec (([BeginRun sample_run] @ [AppendEvent ''run-1'' ''T#t'' (sample_event 0 Line)])
      @ [FinishRun ''run-1'' Passed ''rev-a'' 9]) ?s3"
    by (rule reachable.step)
      (simp add: finish_run_def empty_store_def sample_codec_def table_codec_def as_db_def eval_nat_numeral)
  moreover have "latest_passed_revision ?s3 = Some ''rev-a''"
    by (simp add: latest_passed_revision_def max_by_def empty_store_def)
  ultimately show ?thesis by (auto simp: sample_history_def)
qed

lemma sample_history_fits: "list_all fitting_op sample_history"
  by (simp add: sample_history_def fitting_op_def event_fits_def sample_event_def)

lemma sample_wf: "\<exists>s. reachable sample_codec sample_history s \<and> store_wf sample_codec s"
  using sample_reachable reachable_wf [OF _ sample_codec_ok sample_history_fits] by blast

text \<open>A history whose event holds a floating point number.\<close>

definition float_history :: "store_op list" where
  "float_history = [BeginRun sample_run, AppendEvent ''run-1'' ''T#t'' (third_event (1 / 3))]"

lemma float_reachable: "\<exists>s. reachable rounding_codec float_history s \<and> events_table s \<noteq> []"
proof -
  let ?s1 = "(empty_store default_retention)\<lparr>runs := [\<lparr>run_pk = ''run-1'', run_revision = ''rev-a'',
    run_source_digest = ''d'', run_status = ''running'', run_started_at = ''ttttt'', run_finished_at = None\<rparr>]\<rparr>"
  let ?s2 = "?s1\<lparr>events_table := [\<lparr>event_pk = ''0'', event_run_id = ''run-1'', event_test_id = ''T#t'',
    event_sequence = 0, event_payload = []\<rparr>]\<rparr>"
  have "reachable rounding_codec [BeginRun sample_run] ?s1"
    by (rule reachable.step [OF reachable.initial [of _ default_retention], simplified])
      (simp add: begin_run_def run_exists_def empty_store_def sample_run_def as_db_def
        rounding_codec_def table_codec_def eval_nat_numeral)
  then have "reachable rounding_codec ([BeginRun sample_run] @ [AppendEvent ''run-1'' ''T#t'' (third_event (1 / 3))]) ?s2"
    by (rule reachable.step)
      (simp add: append_event_def run_exists_def empty_store_def rounding_codec_def table_codec_def
        table_to_def third_event_def sample_event_def sqlite_i64_def i64_max_def show_nat_small)
  then show ?thesis by (intro exI [of _ ?s2]) (simp add: float_history_def)
qed

lemma float_history_fits: "list_all fitting_op float_history"
  by (simp add: float_history_def fitting_op_def event_fits_def third_event_def sample_event_def bt_wf_def)

theorem store_reachable_wf_witness:
  "\<exists>s. reachable rounding_codec float_history s \<and> events_table s \<noteq> [] \<and> store_wf rounding_codec s"
proof -
  obtain s where s: "reachable rounding_codec float_history s" "events_table s \<noteq> []" using float_reachable by blast
  with store_reachable_wf [OF s(1) rounding_codec_ok float_history_fits] show ?thesis by blast
qed

text \<open>\<^bold>\<open>C3\<close> A revision is trusted only if it was verified as itself: whenever the store names
  a latest passed revision, its history contains a run begun at exactly that revision and, after
  that, the same run finished as passed while the worktree was still at that revision.  A run
  whose inputs changed under the worker, an orphaned run and a failed one never qualify.\<close>

theorem latest_passed_revision_was_verified:
  assumes "reachable c h s" and "latest_passed_revision s = Some rv"
  shows "\<exists>h1 nr t h2. h = h1 @ FinishRun (nr_id nr) Passed rv t # h2
    \<and> BeginRun nr \<in> set h1 \<and> nr_revision nr = rv"
proof -
  from assms(2) obtain r where "max_by run_finished_at (filter (\<lambda>r. run_status r = ''passed'') (runs s)) = Some r"
    and rv: "run_revision r = rv"
    by (auto simp: latest_passed_revision_def)
  then have "r \<in> set (runs s)" "run_status r = as_db Passed"
    by (auto dest!: max_by_Some simp: as_db_def)
  with reachable_justified [OF assms(1)] have "passed_at_revision h r"
    by (simp add: run_justified_def)
  then obtain h1 t h2 nr where "h = h1 @ FinishRun (run_pk r) Passed (run_revision r) t # h2"
    "BeginRun nr \<in> set h1" "nr_id nr = run_pk r" "nr_revision nr = run_revision r"
    by (auto simp: passed_at_revision_def begun_def)
  with rv have "h = h1 @ FinishRun (nr_id nr) Passed rv t # h2 \<and> BeginRun nr \<in> set h1 \<and> nr_revision nr = rv"
    by simp
  then show ?thesis by blast
qed

theorem latest_passed_revision_was_verified_witness:
  "\<exists>h1 nr t h2. sample_history = h1 @ FinishRun (nr_id nr) Passed ''rev-a'' t # h2
    \<and> BeginRun nr \<in> set h1 \<and> nr_revision nr = ''rev-a''"
  using sample_reachable latest_passed_revision_was_verified by blast

text \<open>Opening the store recovers from a daemon that died: afterwards no run is active,
  an orphaned run is an error with a finish time, and every run that had finished is unchanged.\<close>

theorem open_recovers_orphans:
  "list_all2 (\<lambda>r r'. run_pk r' = run_pk r \<and> run_revision r' = run_revision r
       \<and> (if run_status r = as_db Running
          then run_status r' = as_db RunError \<and> run_finished_at r' \<noteq> None
          else r' = r)) (runs s) (runs (store_open c s p now))
   \<and> list_all (\<lambda>r. run_status r \<noteq> as_db Running) (runs (store_open c s p now))"
  by (auto simp: store_open_def list_all2_map2 list_all2_same list_all_iff split: option.splits)

end
