(* ===== verification/Store_Paging.thy ===== *)
theory Store_Paging
  imports Store_Invariant "HOL-Library.Multiset"
begin

text \<open>
  Cursor paging of the store's queries.  The contract a client relies on, that following
  \<^verbatim>\<open>nextCursor\<close> from the first page yields every row once and in order, is proved once in the
  locale \<open>cursor_paging\<close> and obtained for events, tests and coverage by interpretation.
\<close>

section \<open>The contract\<close>

text \<open>A client that follows the cursor; \<open>None\<close> if \<open>fuel\<close> pages were not enough.\<close>

fun drain :: "(string option \<Rightarrow> 'e + 'a item_page) \<Rightarrow> nat \<Rightarrow> string option \<Rightarrow> ('e + 'a list) option" where
  "drain fetch 0 cursor = None"
| "drain fetch (Suc fuel) cursor = (case fetch cursor of
      Inl e \<Rightarrow> Some (Inl e)
    | Inr p \<Rightarrow> (case next_cursor p of
        None \<Rightarrow> Some (Inr (items p))
      | Some n \<Rightarrow> map_option (map_sum id (\<lambda>more. items p @ more)) (drain fetch fuel (Some n))))"

locale cursor_paging =
  fixes ok :: "'q \<Rightarrow> bool"
    and rows :: "'q \<Rightarrow> 'r list"
    and rest :: "'q \<Rightarrow> string option \<Rightarrow> 'r list"
    and pos :: "'r \<Rightarrow> string"
    and view :: "'q \<Rightarrow> 'r \<Rightarrow> 'a"
    and fetch :: "'q \<Rightarrow> string option \<Rightarrow> 'e + 'a item_page"
  assumes rest_first: "ok q \<Longrightarrow> rest q None = rows q"
    and rest_after: "\<lbrakk>ok q; rows q = xs @ r # ys\<rbrakk> \<Longrightarrow> rest q (Some (pos r)) = ys"
    and fetch_page: "ok q \<Longrightarrow> \<exists>n. (0 < n \<or> rest q cursor = [])
      \<and> fetch q cursor = Inr \<lparr>items = map (view q) (take n (rest q cursor)),
          next_cursor = (if n < length (rest q cursor)
            then Some (pos (last (take n (rest q cursor)))) else None)\<rparr>"
begin

lemma drain_rest:
  assumes "ok q" "rows q = pre @ rest q cursor" "length (rest q cursor) < fuel"
  shows "drain (fetch q) fuel cursor = Some (Inr (map (view q) (rest q cursor)))"
  using assms(2,3)
proof (induction fuel arbitrary: pre cursor)
  case (Suc fuel)
  let ?r = "rest q cursor"
  obtain n where n: "0 < n \<or> ?r = []"
    and page: "fetch q cursor = Inr \<lparr>items = map (view q) (take n ?r),
      next_cursor = (if n < length ?r then Some (pos (last (take n ?r))) else None)\<rparr>"
    using fetch_page [OF assms(1), of cursor] by blast
  show ?case
  proof (cases "n < length ?r")
    case False
    with page show ?thesis by simp
  next
    case True
    with n have "take n ?r \<noteq> []" by auto
    then have "take n ?r = butlast (take n ?r) @ [last (take n ?r)]" by simp
    then have "?r = (butlast (take n ?r) @ [last (take n ?r)]) @ drop n ?r"
      using append_take_drop_id [of n ?r] by simp
    then have "rows q = (pre @ butlast (take n ?r)) @ last (take n ?r) # drop n ?r"
      using Suc.prems(1) by simp
    note after = rest_after [OF assms(1) this]
    then have "rows q = (pre @ take n ?r) @ rest q (Some (pos (last (take n ?r))))"
      using Suc.prems(1) by simp
    moreover have "length (rest q (Some (pos (last (take n ?r))))) < fuel"
      using after Suc.prems(2) True n by auto
    ultimately have "drain (fetch q) fuel (Some (pos (last (take n ?r)))) = Some (Inr (map (view q) (drop n ?r)))"
      using Suc.IH [of "pre @ take n ?r"] after by simp
    then show ?thesis
      using True page by (simp add: map_append [symmetric] del: map_append)
  qed
qed simp

lemma drain_complete:
  "ok q \<Longrightarrow> drain (fetch q) (Suc (length (rows q))) None = Some (Inr (map (view q) (rows q)))"
  using drain_rest [of q "[]" None "Suc (length (rows q))"] by (simp add: rest_first del: drain.simps)

end

section \<open>Sorted rows and the row limit\<close>

lemma filter_after_key:
  assumes "sorted_wrt (\<lambda>a b. key a < (key b :: 'k::linorder)) (xs @ r # ys)"
  shows "filter (\<lambda>x. key r < key x) (xs @ r # ys) = ys"
proof -
  have "filter (\<lambda>x. key r < key x) xs = []" "filter (\<lambda>x. key r < key x) ys = ys"
    using assms by (auto simp: sorted_wrt_append filter_empty_conv filter_id_conv)
  then show ?thesis by simp
qed

lemma sort_key_strict:
  assumes "distinct (map key xs)"
  shows "sorted_wrt (\<lambda>a b. key a < (key b :: 'k::linorder)) (sort_key key xs)"
proof -
  have "distinct (map key (sort_key key xs))"
    using assms by (metis mset_eq_imp_distinct_iff mset_map mset_sort)
  then have "sorted_wrt (<) (map key (sort_key key xs))"
    by (simp add: strict_sorted_iff)
  then show ?thesis by (simp add: sorted_wrt_map)
qed

lemma fetch_limit_small: "int n < i64_max \<Longrightarrow> fetch_limit (sat_add n 1) = Inr (Suc n)"
  by (simp add: fetch_limit_def sat_add_def int_bounds)

text \<open>A page of at most \<open>limit\<close> rows cut from \<open>limit + 1\<close> fetched ones.\<close>

lemma truncated_page:
  assumes "1 \<le> limit"
  shows "take limit (take (Suc limit) xs) = take limit xs"
    and "limit < length (take (Suc limit) xs) \<longleftrightarrow> limit < length xs"
    and "limit < length xs \<Longrightarrow> take limit xs \<noteq> []"
  using assms by (auto simp: min_def)


section \<open>Events\<close>

definition decoded :: "codec \<Rightarrow> event_row \<Rightarrow> event" where
  "decoded c r = the (Option.bind (zstd_decode c (event_payload r)) (event_from_json c))"

lemma readable_decoded:
  assumes "readable c r"
  obtains j where "zstd_decode c (event_payload r) = Some j" "event_from_json c j = Some (decoded c r)"
    "int (sequence (decoded c r)) = event_sequence r"
  using assms by (auto simp: readable_def decoded_def)

lemma scan_page_take:
  assumes "list_all (readable c) rs"
  shows "\<exists>n \<le> length rs. scan_page c limit maxb acc bytes rs
      = Inr (acc @ map (decoded c) (take n rs), n < length rs)
    \<and> length acc + n \<le> max limit (length acc) \<and> (acc = [] \<and> 1 \<le> limit \<and> rs \<noteq> [] \<longrightarrow> 0 < n)"
  using assms
proof (induction rs arbitrary: acc bytes)
  case (Cons r rs)
  from Cons.prems have r: "readable c r" by simp
  then obtain j where j: "zstd_decode c (event_payload r) = Some j"
    "event_from_json c j = Some (decoded c r)"
    by (rule readable_decoded)
  show ?case
  proof (cases "limit \<le> length acc \<or> acc \<noteq> [] \<and> maxb < sat_add bytes (length j)")
    case True
    with j show ?thesis by (intro exI [of _ 0]) auto
  next
    case False
    obtain n where n: "n \<le> length rs" "scan_page c limit maxb (acc @ [decoded c r]) (sat_add bytes (length j)) rs
        = Inr ((acc @ [decoded c r]) @ map (decoded c) (take n rs), n < length rs)"
      "length (acc @ [decoded c r]) + n \<le> max limit (length (acc @ [decoded c r]))"
      using Cons.IH [of "acc @ [decoded c r]" "sat_add bytes (length j)"] Cons.prems by auto
    then show ?thesis
      using False j by (intro exI [of _ "Suc n"]) auto
  qed
qed simp

type_synonym event_query = "codec \<times> store \<times> string \<times> string option \<times> nat \<times> nat"

definition event_query_ok :: "event_query \<Rightarrow> bool" where
  "event_query_ok q = (case q of (c, s, run_id, test_id, limit, maxb) \<Rightarrow>
     store_wf c s \<and> 1 \<le> limit \<and> int limit < i64_max)"

definition event_query_rows :: "event_query \<Rightarrow> event_row list" where
  "event_query_rows q = (case q of (c, s, run_id, test_id, limit, maxb) \<Rightarrow> matching_rows s run_id test_id)"

definition event_query_rest :: "event_query \<Rightarrow> string option \<Rightarrow> event_row list" where
  "event_query_rest q cursor =
     filter (\<lambda>r. unwrap_or (Option.bind cursor parse_i64) (-1) < event_sequence r) (event_query_rows q)"

definition event_fetch :: "event_query \<Rightarrow> string option \<Rightarrow> store_error + event item_page" where
  "event_fetch q cursor = (case q of (c, s, run_id, test_id, limit, maxb) \<Rightarrow>
     events_matching c s run_id test_id cursor limit maxb)"

lemmas event_query_defs =
  event_query_ok_def event_query_rows_def event_query_rest_def event_fetch_def

lemma matching_rows_wf:
  assumes "store_wf c s"
  shows "sorted_wrt (\<lambda>a b. event_sequence a < event_sequence b) (matching_rows s i t)"
    and "r \<in> set (matching_rows s i t) \<Longrightarrow> readable c r \<and> 0 \<le> event_sequence r \<and> event_sequence r \<le> i64_max"
proof -
  have "inj_on event_sequence {e \<in> set (events_table s). event_run_id e = i}"
    and d: "distinct (events_table s)"
    using assms by (auto simp: store_wf_defs distinct_map inj_on_def)
  then have "distinct (map event_sequence (filter (\<lambda>r. event_run_id r = i
       \<and> (t = None \<or> t = Some (event_test_id r))) (events_table s)))"
    by (auto simp: distinct_map intro: inj_on_subset)
  then show "sorted_wrt (\<lambda>a b. event_sequence a < event_sequence b) (matching_rows s i t)"
    unfolding matching_rows_def by (rule sort_key_strict)
  show "r \<in> set (matching_rows s i t) \<Longrightarrow> readable c r \<and> 0 \<le> event_sequence r \<and> event_sequence r \<le> i64_max"
    using assms by (auto simp: matching_rows_def store_wf_defs list_all_iff)
qed

lemma event_page:
  assumes "event_query_ok (c, s, i, t, limit, maxb)"
  shows "\<exists>n. (0 < n \<or> event_query_rest (c, s, i, t, limit, maxb) cursor = []) \<and> n \<le> limit
    \<and> events_matching c s i t cursor limit maxb = Inr
      \<lparr>items = map (decoded c) (take n (event_query_rest (c, s, i, t, limit, maxb) cursor)),
       next_cursor = (if n < length (event_query_rest (c, s, i, t, limit, maxb) cursor)
         then Some (show_int (event_sequence (last (take n (event_query_rest (c, s, i, t, limit, maxb) cursor)))))
         else None)\<rparr>"
proof -
  let ?rest = "event_query_rest (c, s, i, t, limit, maxb) cursor"
  have wf: "store_wf c s" "1 \<le> limit" "int limit < i64_max"
    using assms by (auto simp: event_query_ok_def)
  have readable: "r \<in> set ?rest \<Longrightarrow> readable c r \<and> 0 \<le> event_sequence r" for r
    using matching_rows_wf(2) [OF wf(1), of r i t] by (auto simp: event_query_defs)
  then have "list_all (readable c) (take (Suc limit) ?rest)"
    by (auto simp: list_all_iff dest: in_set_takeD)
  from scan_page_take [OF this, of limit maxb "[]" 0]
  obtain n where n: "n \<le> length (take (Suc limit) ?rest)" "n \<le> limit"
    "0 < n \<or> take (Suc limit) ?rest = []"
    and scan: "scan_page c limit maxb [] 0 (take (Suc limit) ?rest)
      = Inr (map (decoded c) (take n (take (Suc limit) ?rest)), n < length (take (Suc limit) ?rest))"
    using wf(2) by auto
  have more: "n < length (take (Suc limit) ?rest) \<longleftrightarrow> n < length ?rest"
    "take n (take (Suc limit) ?rest) = take n ?rest"
    using n(2) by (auto simp: min_def)
  have last: "show_nat (sequence (last (map (decoded c) (take n ?rest)))) =
      show_int (event_sequence (last (take n ?rest)))" if "take n ?rest \<noteq> []"
  proof -
    have "last (take n ?rest) \<in> set ?rest" using that by (meson in_set_takeD last_in_set)
    with readable have "readable c (last (take n ?rest))" by blast
    then have "int (sequence (decoded c (last (take n ?rest)))) = event_sequence (last (take n ?rest))"
      by (rule readable_decoded)
    with that show ?thesis by (simp add: last_map show_int_def flip: \<open>int _ = _\<close>)
  qed
  have "max (sat_add limit 1) 1 = sat_add limit 1" by (simp add: sat_add_def int_bounds)
  with fetch_limit_small [OF wf(3)] scan [unfolded more]
  have "events_matching c s i t cursor limit maxb = Inr
      \<lparr>items = map (decoded c) (take n ?rest),
       next_cursor = (if n < length ?rest \<and> map (decoded c) (take n ?rest) \<noteq> []
         then Some (show_nat (sequence (last (map (decoded c) (take n ?rest))))) else None)\<rparr>"
    by (simp add: events_matching_def Let_def event_query_rest_def event_query_rows_def)
  moreover have "n < length ?rest \<Longrightarrow> take n ?rest \<noteq> []" using n(3) by auto
  moreover have "0 < n \<or> ?rest = []" using n(3) by auto
  ultimately show ?thesis using n(2) last by (intro exI [of _ n]) auto
qed

interpretation event_pages: cursor_paging event_query_ok event_query_rows event_query_rest
  "\<lambda>r. show_int (event_sequence r)" "\<lambda>q. decoded (fst q)" event_fetch
proof
  fix q :: event_query
  assume "event_query_ok q"
  obtain c s i t limit maxb where q: "q = (c, s, i, t, limit, maxb)" by (cases q)
  have wf: "store_wf c s" using \<open>event_query_ok q\<close> by (simp add: q event_query_ok_def)
  note rows = matching_rows_wf [OF wf, where i = i and t = t]
  have "- 1 < event_sequence r" if "r \<in> set (matching_rows s i t)" for r
    using rows(2) [OF that] by linarith
  then have "filter (\<lambda>r. - 1 < event_sequence r) (matching_rows s i t) = matching_rows s i t"
    by (simp add: filter_id_conv)
  then show "event_query_rest q None = event_query_rows q"
    by (simp add: event_query_defs q)
  show "event_query_rest q (Some (show_int (event_sequence r))) = ys" if "event_query_rows q = xs @ r # ys" for xs r ys
  proof -
    have m: "matching_rows s i t = xs @ r # ys" using that by (simp add: event_query_defs q)
    then have "parse_i64 (show_int (event_sequence r)) = Some (event_sequence r)"
      using rows(2) [of r] by (simp add: parse_i64_show_int i64_min_def)
    moreover have "filter (\<lambda>x. event_sequence r < event_sequence x) (matching_rows s i t) = ys"
      using filter_after_key [of event_sequence xs r ys] rows(1) by (simp only: m)
    ultimately show ?thesis
      by (simp add: event_query_defs q)
  qed
  show "\<exists>n. (0 < n \<or> event_query_rest q cursor = [])
      \<and> event_fetch q cursor = Inr \<lparr>items = map (decoded (fst q)) (take n (event_query_rest q cursor)),
          next_cursor = (if n < length (event_query_rest q cursor)
            then Some (show_int (event_sequence (last (take n (event_query_rest q cursor))))) else None)\<rparr>" for cursor
    using event_page [OF \<open>event_query_ok q\<close> [unfolded q], of cursor]
    unfolding q event_fetch_def prod.case fst_conv by blast
qed

text \<open>What the page loop has read when it stops.\<close>

lemma scan_page_budget_gen:
  assumes "scan_page c limit maxb acc bytes rs = Inr (es, left)"
    and "acc = [] \<and> bytes = 0 \<or> length acc = 1 \<or> bytes \<le> maxb"
    and "length acc \<le> limit"
  shows "\<exists>new js. es = acc @ new \<and> length es \<le> limit \<and> length new \<le> length rs
    \<and> map (event_from_json c) js = map Some new
    \<and> map Some js = map (\<lambda>r. zstd_decode c (event_payload r)) (take (length new) rs)
    \<and> (length es \<le> 1 \<or> min (bytes + sum_list (map length js)) usize_max \<le> maxb)"
  using assms
proof (induction rs arbitrary: acc bytes)
  case Nil
  then show ?case by (auto intro!: exI [of _ "[]"])
next
  case (Cons r rs)
  show ?case
  proof (cases "limit \<le> length acc")
    case True
    with Cons.prems show ?thesis by (auto intro!: exI [of _ "[]"])
  next
    case False
    then obtain j where j: "zstd_decode c (event_payload r) = Some j"
      using Cons.prems(1) by (auto simp: rbind_eq_Inr)
    show ?thesis
    proof (cases "acc \<noteq> [] \<and> maxb < sat_add bytes (length j)")
      case True
      with Cons.prems False j show ?thesis by (auto intro!: exI [of _ "[]"])
    next
      case fits: False
      then obtain e where e: "event_from_json c j = Some e"
        and scan: "scan_page c limit maxb (acc @ [e]) (sat_add bytes (length j)) rs = Inr (es, left)"
        using Cons.prems(1) False j by (auto simp: rbind_eq_Inr)
      have "length (acc @ [e]) = 1 \<or> sat_add bytes (length j) \<le> maxb" "length (acc @ [e]) \<le> limit"
        using fits False by auto
      with Cons.IH [OF scan] obtain new js where new: "es = (acc @ [e]) @ new" "length es \<le> limit"
        "length new \<le> length rs" "map (event_from_json c) js = map Some new"
        "map Some js = map (\<lambda>r. zstd_decode c (event_payload r)) (take (length new) rs)"
        "length es \<le> 1 \<or> min (sat_add bytes (length j) + sum_list (map length js)) usize_max \<le> maxb"
        by blast
      then show ?thesis
        using e j by (intro exI [of _ "e # new"] exI [of _ "j # js"]) (auto simp: sat_add_def)
    qed
  qed
qed

lemmas scan_page_budget = scan_page_budget_gen [of c limit maxb "[]" 0 for c limit maxb, simplified]

text \<open>\<^bold>\<open>C9\<close> Paging loses and repeats nothing: a client that reads a run's trace page by page
  and follows \<^verbatim>\<open>nextCursor\<close> receives, after finitely many pages, exactly the stored events
  of the run (or of one test in it), each once and in sequence order, whatever positive page
  size and byte budget it asked for.\<close>

theorem event_pages_complete:
  assumes "store_wf c s" and "1 \<le> limit" and "int limit < i64_max"
  shows "drain (\<lambda>cursor. events_matching c s run_id test_id cursor limit maxb)
      (Suc (length (matching_rows s run_id test_id))) None
    = Some (Inr (map (decoded c) (matching_rows s run_id test_id)))"
  using event_pages.drain_complete [of "(c, s, run_id, test_id, limit, maxb)"] assms
  by (simp add: event_query_ok_def event_query_rows_def event_fetch_def [abs_def] del: drain.simps)


theorem event_pages_complete_witness:
  "\<exists>s. reachable sample_codec sample_history s
     \<and> drain (\<lambda>cursor. events_matching sample_codec s ''run-1'' None cursor 1 10)
         (Suc (length (matching_rows s ''run-1'' None))) None
       = Some (Inr (map (decoded sample_codec) (matching_rows s ''run-1'' None)))"
proof -
  obtain s where s: "reachable sample_codec sample_history s" "store_wf sample_codec s"
    using sample_wf by blast
  have "(1::nat) \<le> 1" "int 1 < i64_max" by (simp_all add: i64_max_def)
  from event_pages_complete [OF s(2) this, of "''run-1''" None 10] s(1) show ?thesis by blast
qed

text \<open>A page honours its budget: it holds at most \<^verbatim>\<open>limit\<close> events, and more than one
  event only while the JSON of all of them together stays within \<^verbatim>\<open>max_bytes\<close>; and it is a
  prefix of what remains after the cursor.\<close>

theorem event_page_bounded:
  assumes "events_matching c s run_id test_id cursor limit maxb = Inr p"
  shows "length (items p) \<le> limit
    \<and> (\<exists>js. map (event_from_json c) js = map Some (items p)
         \<and> map Some js = map (\<lambda>r. zstd_decode c (event_payload r))
             (take (length (items p)) (filter (\<lambda>r. unwrap_or (Option.bind cursor parse_i64) (-1) < event_sequence r)
                (matching_rows s run_id test_id)))
         \<and> (length (items p) \<le> 1 \<or> min (sum_list (map length js)) usize_max \<le> maxb))"
proof -
  let ?rest = "filter (\<lambda>r. unwrap_or (Option.bind cursor parse_i64) (-1) < event_sequence r)
    (matching_rows s run_id test_id)"
  obtain n es left where "scan_page c limit maxb [] 0 (take n ?rest) = Inr (es, left)"
    and p: "items p = es"
    using assms by (auto simp: events_matching_def Let_def rbind_eq_Inr)
  from scan_page_budget [OF this(1)]
  obtain js where js: "length es \<le> limit" "map (event_from_json c) js = map Some es"
    "map Some js = map (\<lambda>r. zstd_decode c (event_payload r)) (take (length es) (take n ?rest))"
    "length (take (length es) (take n ?rest)) = length es"
    "length es \<le> 1 \<or> min (sum_list (map length js)) usize_max \<le> maxb"
    by auto
  from js(4) have "take (length es) (take n ?rest) = take (length es) ?rest"
    by (auto simp: min_def split: if_splits)
  with js(3) have "map Some js = map (\<lambda>r. zstd_decode c (event_payload r)) (take (length es) ?rest)"
    by (simp only:)
  with js(1,2,5) show ?thesis unfolding p by (intro conjI exI [of _ js])
qed


definition sample_store :: store where
  "sample_store = (empty_store default_retention)
     \<lparr>events_table :=
       [\<lparr>event_pk = ''0'', event_run_id = ''r'', event_test_id = ''T#t'', event_sequence = 0, event_payload = []\<rparr>,
        \<lparr>event_pk = ''1'', event_run_id = ''r'', event_test_id = ''T#t'', event_sequence = 1, event_payload = ''i''\<rparr>]\<rparr>"

theorem event_page_bounded_witness:
  "\<exists>p. events_matching sample_codec sample_store ''r'' None None 5 0 = Inr p \<and> length (items p) \<le> 5
     \<and> next_cursor p = Some ''0''"
proof -
  have page: "events_matching sample_codec sample_store ''r'' None None 5 0
      = Inr \<lparr>items = [sample_event 0 Line], next_cursor = Some ''0''\<rparr>"
  proof -
    have n: "fetch_limit (max (sat_add 5 1) 1) = Inr 6" "sat_add 0 0 = 0" "sat_add 0 (Suc 0) = 1"
      by (simp_all add: fetch_limit_def sat_add_def int_bounds)
    have rows: "filter (\<lambda>r. - 1 < event_sequence r) (matching_rows sample_store ''r'' None)
        = events_table sample_store"
      by (simp add: matching_rows_def sample_store_def)
    have "scan_page sample_codec 5 0 [] 0 (take 6 (events_table sample_store)) = Inr ([sample_event 0 Line], True)"
      by (simp add: sample_store_def sample_codec_def table_codec_def table_from_def n)
    then show ?thesis
      by (simp only: events_matching_def Let_def n rows rbind_simps unwrap_or_simps bind.simps prod.case)
        (simp add: sample_event_def show_nat_small)
  qed
  from conjunct1 [OF event_page_bounded [OF page]] page show ?thesis by simp
qed

section \<open>Tests\<close>

type_synonym test_query = "store \<times> nat"

definition test_query_ok :: "test_query \<Rightarrow> bool" where
  "test_query_ok q = (distinct (map test_pk (tests_table (fst q)))
     \<and> (\<forall>t \<in> set (tests_table (fst q)). test_pk t \<noteq> []) \<and> int (max (snd q) 1) < i64_max)"

definition test_query_rest :: "test_query \<Rightarrow> string option \<Rightarrow> test_row list" where
  "test_query_rest q cursor =
     filter (\<lambda>r. unwrap_or cursor [] < test_pk r) (sort_key test_pk (tests_table (fst q)))"

lemma test_page:
  assumes "test_query_ok q"
  shows "tests (fst q) cursor (snd q) = Inr
    \<lparr>items = map (test_of_row (fst q)) (take (max (snd q) 1) (test_query_rest q cursor)),
     next_cursor = (if max (snd q) 1 < length (test_query_rest q cursor)
       then Some (test_pk (last (take (max (snd q) 1) (test_query_rest q cursor)))) else None)\<rparr>"
proof -
  let ?n = "max (snd q) 1" and ?rest = "test_query_rest q cursor"
  note cut = truncated_page [of ?n ?rest, OF max.cobounded2]
  have n: "fetch_limit (sat_add ?n 1) = Inr (Suc ?n)"
    using assms by (simp add: test_query_ok_def fetch_limit_small del: One_nat_def)
  have "tests (fst q) cursor (snd q) = Inr
      \<lparr>items = map (test_of_row (fst q)) (take ?n (take (Suc ?n) ?rest)),
       next_cursor = (if ?n < length (take (Suc ?n) ?rest) \<and> take ?n (take (Suc ?n) ?rest) \<noteq> []
         then Some (tr_id (last (map (test_of_row (fst q)) (take ?n (take (Suc ?n) ?rest))))) else None)\<rparr>"
    unfolding tests_def Let_def n rbind_simps
    by (simp only: test_query_rest_def [symmetric] take_map length_map map_is_Nil_conv)
  also have "\<dots> = Inr \<lparr>items = map (test_of_row (fst q)) (take ?n ?rest),
     next_cursor = (if ?n < length ?rest then Some (test_pk (last (take ?n ?rest))) else None)\<rparr>"
    unfolding cut(1,2) using cut(3) by (auto simp: last_map test_of_row_def)
  finally show ?thesis .
qed

interpretation test_pages: cursor_paging test_query_ok "\<lambda>q. sort_key test_pk (tests_table (fst q))"
  test_query_rest test_pk "\<lambda>q. test_of_row (fst q)" "\<lambda>q cursor. tests (fst q) cursor (snd q)"
proof
  fix q :: test_query
  assume ok: "test_query_ok q"
  have "[] < test_pk t" if "t \<in> set (sort_key test_pk (tests_table (fst q)))" for t
    using ok that by (cases "test_pk t") (auto simp: test_query_ok_def)
  then show "test_query_rest q None = sort_key test_pk (tests_table (fst q))"
    by (simp add: test_query_rest_def filter_id_conv)
  show "test_query_rest q (Some (test_pk r)) = ys"
    if "sort_key test_pk (tests_table (fst q)) = xs @ r # ys" for xs r ys
  proof -
    have "sorted_wrt (\<lambda>a b. test_pk a < test_pk b) (sort_key test_pk (tests_table (fst q)))"
      using ok by (intro sort_key_strict) (simp add: test_query_ok_def)
    from filter_after_key [OF this [unfolded that]] show ?thesis
      by (simp only: test_query_rest_def that unwrap_or_simps)
  qed
  show "\<exists>n. (0 < n \<or> test_query_rest q cursor = [])
      \<and> tests (fst q) cursor (snd q) = Inr \<lparr>items = map (test_of_row (fst q)) (take n (test_query_rest q cursor)),
          next_cursor = (if n < length (test_query_rest q cursor)
            then Some (test_pk (last (take n (test_query_rest q cursor)))) else None)\<rparr>" for cursor
    using test_page [OF ok, of cursor] by (intro exI [of _ "max (snd q) 1"] conjI disjI1) auto
qed

section \<open>Coverage\<close>

type_synonym coverage_query = "store \<times> string \<times> nat"

definition coverage_query_ok :: "coverage_query \<Rightarrow> bool" where
  "coverage_query_ok q = (case q of (s, subj, limit) \<Rightarrow>
     sorted_wrt (<) (map cov_rowid (coverage_table s))
     \<and> (\<forall>r \<in> set (coverage_table s). 0 < cov_rowid r \<and> cov_rowid r \<le> i64_max)
     \<and> int (max limit 1) < i64_max)"

definition coverage_query_rows :: "coverage_query \<Rightarrow> coverage_row list" where
  "coverage_query_rows q = coverage_rows (fst q) (fst (snd q))"

definition coverage_query_rest :: "coverage_query \<Rightarrow> string option \<Rightarrow> coverage_row list" where
  "coverage_query_rest q cursor =
     filter (\<lambda>r. unwrap_or (Option.bind cursor parse_i64) 0 < cov_rowid r) (coverage_query_rows q)"

definition coverage_fetch :: "coverage_query \<Rightarrow> string option \<Rightarrow> store_error + coverage_record item_page" where
  "coverage_fetch q cursor = coverage (fst q) (fst (snd q)) cursor (snd (snd q))"

lemma coverage_page:
  assumes "coverage_query_ok q"
  shows "coverage_fetch q cursor = Inr
    \<lparr>items = map coverage_of_row (take (max (snd (snd q)) 1) (coverage_query_rest q cursor)),
     next_cursor = (if max (snd (snd q)) 1 < length (coverage_query_rest q cursor)
       then Some (show_int (cov_rowid (last (take (max (snd (snd q)) 1) (coverage_query_rest q cursor)))))
       else None)\<rparr>"
proof -
  let ?n = "max (snd (snd q)) 1" and ?rest = "coverage_query_rest q cursor"
  note cut = truncated_page [of ?n ?rest, OF max.cobounded2]
  have n: "fetch_limit (sat_add ?n 1) = Inr (Suc ?n)"
    using assms by (auto simp: coverage_query_ok_def fetch_limit_small simp del: One_nat_def split: prod.splits)
  show ?thesis
    unfolding coverage_fetch_def coverage_def Let_def n rbind_simps
    unfolding coverage_query_rows_def [symmetric] coverage_query_rest_def [symmetric] cut(1,2)
    using cut(3) by auto
qed

lemma coverage_rows_sorted:
  assumes "coverage_query_ok q"
  shows "sorted_wrt (\<lambda>a b. cov_rowid a < cov_rowid b) (coverage_query_rows q)"
    and "r \<in> set (coverage_query_rows q) \<Longrightarrow> 0 < cov_rowid r \<and> cov_rowid r \<le> i64_max"
proof -
  have "distinct (map cov_rowid (filter P (coverage_table (fst q))))" for P
    using assms by (intro distinct_map_filter) (auto simp: coverage_query_ok_def strict_sorted_iff split: prod.splits)
  then show "sorted_wrt (\<lambda>a b. cov_rowid a < cov_rowid b) (coverage_query_rows q)"
    unfolding coverage_query_rows_def coverage_rows_def by (intro sort_key_strict)
  show "r \<in> set (coverage_query_rows q) \<Longrightarrow> 0 < cov_rowid r \<and> cov_rowid r \<le> i64_max"
    using assms by (auto simp: coverage_query_rows_def coverage_rows_def coverage_query_ok_def split: prod.splits)
qed

interpretation coverage_pages: cursor_paging coverage_query_ok coverage_query_rows coverage_query_rest
  "\<lambda>r. show_int (cov_rowid r)" "\<lambda>q. coverage_of_row" coverage_fetch
proof
  fix q :: coverage_query
  assume ok: "coverage_query_ok q"
  note rows = coverage_rows_sorted [OF ok]
  show "coverage_query_rest q None = coverage_query_rows q"
    using rows(2) by (simp add: coverage_query_rest_def filter_id_conv)
  show "coverage_query_rest q (Some (show_int (cov_rowid r))) = ys"
    if m: "coverage_query_rows q = xs @ r # ys" for xs r ys
  proof -
    have "parse_i64 (show_int (cov_rowid r)) = Some (cov_rowid r)"
      using rows(2) [of r] m by (simp add: parse_i64_show_int i64_min_def)
    moreover have "filter (\<lambda>x. cov_rowid r < cov_rowid x) (coverage_query_rows q) = ys"
      using filter_after_key [of cov_rowid xs r ys] rows(1) by (simp only: m)
    ultimately show ?thesis by (simp add: coverage_query_rest_def)
  qed
  show "\<exists>n. (0 < n \<or> coverage_query_rest q cursor = [])
      \<and> coverage_fetch q cursor = Inr \<lparr>items = map coverage_of_row (take n (coverage_query_rest q cursor)),
          next_cursor = (if n < length (coverage_query_rest q cursor)
            then Some (show_int (cov_rowid (last (take n (coverage_query_rest q cursor))))) else None)\<rparr>" for cursor
    using coverage_page [OF ok, of cursor] by (intro exI [of _ "max (snd (snd q)) 1"] conjI disjI1) auto
qed

text \<open>Listing tests and querying coverage page completely too: following
  \<^verbatim>\<open>nextCursor\<close> yields every test in identity order, and every matching coverage line in
  row order.  For tests this needs that no test has the empty identity, because the first page
  asks for identities after the empty string.\<close>

theorem test_and_coverage_pages_complete:
  assumes "store_wf c s" and "\<forall>t \<in> set (tests_table s). test_pk t \<noteq> []"
    and "\<forall>r \<in> set (coverage_table s). cov_rowid r \<le> i64_max" and "int (max limit 1) < i64_max"
  shows "drain (\<lambda>cursor. tests s cursor limit) (Suc (length (tests_table s))) None
      = Some (Inr (map (test_of_row s) (sort_key test_pk (tests_table s))))
    \<and> drain (\<lambda>cursor. coverage s subj cursor limit) (Suc (length (coverage_rows s subj))) None
      = Some (Inr (map coverage_of_row (coverage_rows s subj)))"
proof
  have "test_query_ok (s, limit)" "coverage_query_ok (s, subj, limit)"
    using assms by (auto simp: test_query_ok_def coverage_query_ok_def store_wf_defs)
  from test_pages.drain_complete [OF this(1)] coverage_pages.drain_complete [OF this(2)]
  show "drain (\<lambda>cursor. tests s cursor limit) (Suc (length (tests_table s))) None
      = Some (Inr (map (test_of_row s) (sort_key test_pk (tests_table s))))"
    and "drain (\<lambda>cursor. coverage s subj cursor limit) (Suc (length (coverage_rows s subj))) None
      = Some (Inr (map coverage_of_row (coverage_rows s subj)))"
    by (simp_all add: coverage_query_rows_def coverage_fetch_def [abs_def] del: drain.simps)
qed

definition sample_test :: "string \<Rightarrow> test_record" where
  "sample_test i = \<lparr>tr_id = i, display_name = i, tr_module = '':app'', last_status = None, last_failure_id = None\<rparr>"

theorem test_and_coverage_pages_complete_witness:
  "drain (\<lambda>cursor. tests (upsert_test (upsert_test (empty_store default_retention) (sample_test ''b''))
       (sample_test ''a'')) cursor 1) 3 None
   = Some (Inr [sample_test ''a'', sample_test ''b''])"
proof -
  let ?s = "upsert_test (upsert_test (empty_store default_retention) (sample_test ''b'')) (sample_test ''a'')"
  have "store_wf sample_codec ?s" by (intro store_wf_upsert_test store_wf_empty)
  moreover have t: "tests_table ?s =
      [\<lparr>test_pk = ''b'', test_display_name = ''b'', test_module = '':app'', test_last_status = None\<rparr>,
       \<lparr>test_pk = ''a'', test_display_name = ''a'', test_module = '':app'', test_last_status = None\<rparr>]"
    "coverage_table ?s = []" "failures ?s = []"
    by (simp_all add: upsert_test_def test_exists_def sample_test_def empty_store_def Let_def)
  ultimately show ?thesis
    using test_and_coverage_pages_complete [of sample_codec ?s 1]
    by (simp add: t test_of_row_def latest_failure_def rfind_def sample_test_def i64_max_def
        numeral_3_eq_3 del: drain.simps)
qed

end
