(* ===== verification/Store_Retention.thy ===== *)
theory Store_Retention
  imports Store_Invariant
begin

text \<open>
  Retention, saved values and impact selection.  \<^verbatim>\<open>Store::prune\<close> ends, meets its size
  bound and removes the oldest rows first; a saved recording, manifest, cached result, failure
  or event reads back unchanged (the locale \<open>keyed_values\<close>, interpreted on each of the five
  tables); impact selection widens to the whole module when it knows nothing.
\<close>

section \<open>The size loop\<close>

fun delete_item :: "string \<times> string \<times> string \<Rightarrow> store \<Rightarrow> store" where
  "delete_item (created, what, i) s =
     (if what = ''run'' then delete_runs (\<lambda>r. run_pk r = i) s
      else if what = ''recording'' then delete_recordings (\<lambda>r. recording_pk r = i) s
      else delete_manifests (\<lambda>r. manifest_pk r = i) s)"

lemma retained_rows_delete_item:
  assumes "min_by id (timeline s) = Some x"
  shows "retained_rows (delete_item x s) < retained_rows s"
proof -
  obtain created what i where x: "x = (created, what, i)" by (cases x)
  from oldest_in_table [OF assms [unfolded x]] show ?thesis
    unfolding x by (auto simp: retained_rows_delete)
qed

lemma prune_loop_cases:
  obtains (within) "payload_bytes s \<le> max_bytes (retention s)" "prune_loop s a b = (s, a, b)"
  | (none_left) "timeline s = []" "prune_loop s a b = (s, a, b)"
  | (oldest) x a' b' where "min_by id (timeline s) = Some x" "max_bytes (retention s) < payload_bytes s"
      "prune_loop s a b = prune_loop (delete_item x s) a' b'"
proof (cases "payload_bytes s \<le> max_bytes (retention s)")
  case True
  with within show thesis by (simp add: prune_loop.simps [of s])
next
  case big: False
  show thesis
  proof (cases "min_by id (timeline s)")
    case None
    then have unchanged: "prune_loop s a b = (s, a, b)" using big by (simp add: prune_loop.simps [of s])
    have "timeline s = []" using None by (simp only: min_by_None)
    from none_left [OF this unchanged] show thesis .
  next
    case (Some x)
    obtain created what i where x: "x = (created, what, i)" by (cases x)
    from oldest_in_table [OF Some [unfolded x]]
    have "what = ''run'' \<or> what = ''recording'' \<or> what = ''manifest''" by blast
    then have "\<exists>a' b'. prune_loop s a b = prune_loop (delete_item x s) a' b'"
      using big Some x by (auto simp: prune_loop.simps [of s])
    with oldest [OF Some] big show thesis by auto
  qed
qed

lemma prune_loop_rule:
  assumes "P s"
    and "\<And>s x. \<lbrakk>P s; min_by id (timeline s) = Some x; max_bytes (retention s) < payload_bytes s\<rbrakk> \<Longrightarrow> P (delete_item x s)"
  shows "P (fst (prune_loop s a b)) \<and>
    (payload_bytes (fst (prune_loop s a b)) \<le> max_bytes (retention (fst (prune_loop s a b)))
     \<or> timeline (fst (prune_loop s a b)) = [])"
  using assms(1)
proof (induction "retained_rows s" arbitrary: s a b rule: less_induct)
  case less
  show ?case
  proof (cases rule: prune_loop_cases [of s a b])
    case (oldest x a' b')
    with less.hyps [OF retained_rows_delete_item [OF oldest(1)]] less.prems assms(2)
    show ?thesis by simp
  qed (use less.prems in auto)
qed

lemma retention_delete_item [simp]: "retention (delete_item x s) = retention s"
  by (cases x) (simp add: delete_defs)

lemma store_wf_delete_item: "store_wf c s \<Longrightarrow> store_wf c (delete_item x s)"
  by (cases x) (simp add: store_wf_deletes)

definition aged :: "codec \<Rightarrow> store \<Rightarrow> int \<Rightarrow> store" where
  "aged c s now =
     (let cutoff = to_rfc3339 c (now - max_age (retention s)) in
      delete_manifests (\<lambda>r. manifest_created_at r < cutoff)
        (delete_recordings (\<lambda>r. recording_created_at r < cutoff)
          (delete_runs (\<lambda>r. run_started_at r < cutoff) s)))"

lemma prune_as_loop: "\<exists>n. fst (prune c s now) = fst (prune_loop (aged c s now) 0 n)"
proof
  show "fst (prune c s now) = fst (prune_loop (aged c s now) 0
      (length (filter (\<lambda>r. recording_created_at r < to_rfc3339 c (now - max_age (retention s))) (recordings s))))"
    by (simp add: prune_def aged_def Let_def split: prod.splits)
qed

lemma aged_wf: "store_wf c s \<Longrightarrow> store_wf c (aged c s now)"
  by (simp add: aged_def Let_def store_wf_deletes)

lemma retention_aged [simp]: "retention (aged c s now) = retention s"
  by (simp add: aged_def delete_defs)

lemma empty_timeline_payload: "\<lbrakk>store_wf c s; timeline s = []\<rbrakk> \<Longrightarrow> payload_bytes s = 0"
  by (auto simp: timeline_def store_wf_defs payload_bytes_def)

text \<open>Deleting the selected row removes exactly its entry.\<close>

lemma image_filter_key:
  assumes "inj_on k (set xs)" "r \<in> set xs" "\<And>a b. F a = F b \<Longrightarrow> k a = k b"
  shows "F ` set (filter (\<lambda>x. k x \<noteq> k r) xs) = F ` set xs - {F r}"
proof -
  have "k a \<noteq> k r \<longleftrightarrow> F a \<noteq> F r" if "a \<in> set xs" for a
    using that assms(2) assms(3) [of a r] inj_onD [OF assms(1), of a r] by blast
  then show ?thesis by auto
qed

lemma timeline_set:
  "set (timeline s) =
     (\<lambda>r. (run_started_at r, ''run'', run_pk r)) ` set (runs s)
     \<union> (\<lambda>r. (recording_created_at r, ''recording'', recording_pk r)) ` set (recordings s)
     \<union> (\<lambda>r. (manifest_created_at r, ''manifest'', manifest_pk r)) ` set (revision_manifests s)"
  by (simp add: timeline_def Un_assoc)

lemma timeline_delete_item:
  assumes "keys_ok s" "x \<in> set (timeline s)"
  shows "set (timeline (delete_item x s)) = set (timeline s) - {x}"
proof -
  have inj: "inj_on run_pk (set (runs s))" "inj_on recording_pk (set (recordings s))"
    "inj_on manifest_pk (set (revision_manifests s))"
    using assms(1) by (simp_all add: keys_ok_def distinct_map)
  from assms(2) consider
    (run) r where "r \<in> set (runs s)" "x = (run_started_at r, ''run'', run_pk r)"
    | (rec) r where "r \<in> set (recordings s)" "x = (recording_created_at r, ''recording'', recording_pk r)"
    | (man) r where "r \<in> set (revision_manifests s)" "x = (manifest_created_at r, ''manifest'', manifest_pk r)"
    unfolding timeline_set by blast
  then show ?thesis
  proof cases
    case run
    have "set (timeline (delete_item x s)) = ((\<lambda>r. (run_started_at r, ''run'', run_pk r)) ` set (runs s) - {x})
        \<union> (\<lambda>r. (recording_created_at r, ''recording'', recording_pk r)) ` set (recordings s)
        \<union> (\<lambda>r. (manifest_created_at r, ''manifest'', manifest_pk r)) ` set (revision_manifests s)"
      using image_filter_key [OF inj(1) run(1), of "\<lambda>r. (run_started_at r, ''run'', run_pk r)"]
      by (simp add: run(2) timeline_set delete_runs_def Let_def)
    then show ?thesis unfolding timeline_set [of s] by (auto simp: run(2))
  next
    case rec
    have "set (timeline (delete_item x s)) = (\<lambda>r. (run_started_at r, ''run'', run_pk r)) ` set (runs s)
        \<union> ((\<lambda>r. (recording_created_at r, ''recording'', recording_pk r)) ` set (recordings s) - {x})
        \<union> (\<lambda>r. (manifest_created_at r, ''manifest'', manifest_pk r)) ` set (revision_manifests s)"
      using image_filter_key [OF inj(2) rec(1), of "\<lambda>r. (recording_created_at r, ''recording'', recording_pk r)"]
      by (simp add: rec(2) timeline_set delete_recordings_def)
    then show ?thesis unfolding timeline_set [of s] by (auto simp: rec(2))
  next
    case man
    have "set (timeline (delete_item x s)) = (\<lambda>r. (run_started_at r, ''run'', run_pk r)) ` set (runs s)
        \<union> (\<lambda>r. (recording_created_at r, ''recording'', recording_pk r)) ` set (recordings s)
        \<union> ((\<lambda>r. (manifest_created_at r, ''manifest'', manifest_pk r)) ` set (revision_manifests s) - {x})"
      using image_filter_key [OF inj(3) man(1), of "\<lambda>r. (manifest_created_at r, ''manifest'', manifest_pk r)"]
      by (simp add: man(2) timeline_set delete_manifests_def)
    then show ?thesis unfolding timeline_set [of s] by (auto simp: man(2))
  qed
qed

definition newest_kept :: "store \<Rightarrow> store \<Rightarrow> bool" where
  "newest_kept s s' =
     (set (timeline s') \<subseteq> set (timeline s)
      \<and> (\<forall>x \<in> set (timeline s) - set (timeline s'). \<forall>y \<in> set (timeline s'). fst x \<le> fst y))"

lemma newest_kept_aged: "newest_kept s (aged c s now)"
  by (auto simp: newest_kept_def aged_def timeline_def delete_defs)

lemma newest_kept_delete_item:
  assumes "newest_kept t s" "keys_ok s" "min_by id (timeline s) = Some x"
  shows "newest_kept t (delete_item x s)"
proof -
  have x: "x \<in> set (timeline s)" "\<And>y. y \<in> set (timeline s) \<Longrightarrow> x \<le> y"
    using min_by_Some [OF assms(3)] by auto
  have "fst x \<le> fst y" if "y \<in> set (timeline s)" for y
    using x(2) [OF that] by (auto simp: less_eq_prod_def)
  with assms(1) x(1) show ?thesis
    by (auto simp: newest_kept_def timeline_delete_item [OF assms(2) x(1)])
qed

lemma prune_loop_newest:
  assumes "store_wf c t" "newest_kept s t"
  shows "newest_kept s (fst (prune_loop t a b))"
proof -
  let ?P = "\<lambda>t. store_wf c t \<and> newest_kept s t"
  have "?P (delete_item x u)" if "?P u" "min_by id (timeline u) = Some x" for u x
    using that newest_kept_delete_item [of s u x] store_wf_delete_item [of c u x]
    by (simp add: store_wf_def del: delete_item.simps)
  with assms show ?thesis
    using prune_loop_rule [where P = ?P and s = t and a = a and b = b] by blast
qed

section \<open>Properties of retention\<close>

text \<open>\<^bold>\<open>C27\<close> Retention meets its size bound: after pruning, the compressed payloads of events,
  recordings, cached results and manifests together are within the configured ceiling.  The loop
  ends because every round deletes a row, and it cannot run out of rows while payload remains,
  because events and cached results are deleted with the run they belong to.\<close>

theorem prune_within_bound:
  assumes "store_wf c s"
  shows "payload_bytes (fst (prune c s now)) \<le> max_bytes (retention s)"
proof -
  obtain n where p: "fst (prune c s now) = fst (prune_loop (aged c s now) 0 n)"
    using prune_as_loop by blast
  let ?P = "\<lambda>t. store_wf c t \<and> retention t = retention s"
  have "?P (fst (prune_loop (aged c s now) 0 n)) \<and>
    (payload_bytes (fst (prune_loop (aged c s now) 0 n))
       \<le> max_bytes (retention (fst (prune_loop (aged c s now) 0 n)))
     \<or> timeline (fst (prune_loop (aged c s now) 0 n)) = [])"
    by (rule prune_loop_rule) (auto simp: aged_wf [OF assms] store_wf_delete_item)
  then show ?thesis
    unfolding p using empty_timeline_payload [of c "fst (prune_loop (aged c s now) 0 n)"] by auto
qed

text \<open>\<^bold>\<open>C28\<close> Retention removes the oldest data first: whatever run, recording or manifest was
  removed is not newer than anything that was kept, and nothing older than the maximum age is
  kept.\<close>

theorem prune_keeps_newest:
  assumes "store_wf c s"
  shows "newest_kept s (fst (prune c s now))
    \<and> (\<forall>x \<in> set (timeline (fst (prune c s now))). to_rfc3339 c (now - max_age (retention s)) \<le> fst x)"
proof
  obtain n where p: "fst (prune c s now) = fst (prune_loop (aged c s now) 0 n)"
    using prune_as_loop by blast
  show "newest_kept s (fst (prune c s now))"
    unfolding p by (rule prune_loop_newest [OF aged_wf [OF assms] newest_kept_aged])
  have "newest_kept (aged c s now) (aged c s now)" by (simp add: newest_kept_def)
  from prune_loop_newest [OF aged_wf [OF assms] this, of 0 n]
  have "set (timeline (fst (prune c s now))) \<subseteq> set (timeline (aged c s now))"
    unfolding p newest_kept_def by blast
  moreover have "\<forall>x \<in> set (timeline (aged c s now)). to_rfc3339 c (now - max_age (retention s)) \<le> fst x"
    by (auto simp: aged_def timeline_def delete_defs)
  ultimately show "\<forall>x \<in> set (timeline (fst (prune c s now))). to_rfc3339 c (now - max_age (retention s)) \<le> fst x"
    by blast
qed

theorem prune_within_bound_witness:
  "\<exists>s. reachable sample_codec sample_history s
     \<and> payload_bytes (fst (prune sample_codec s 7)) \<le> max_bytes (retention s)"
proof -
  obtain s where "reachable sample_codec sample_history s" "store_wf sample_codec s"
    using sample_wf by blast
  with prune_within_bound [of sample_codec s 7] show ?thesis by blast
qed

theorem prune_keeps_newest_witness:
  "\<exists>s. reachable sample_codec sample_history s \<and> newest_kept s (fst (prune sample_codec s 7))"
proof -
  obtain s where "reachable sample_codec sample_history s" "store_wf sample_codec s"
    using sample_wf by blast
  with prune_keeps_newest [of sample_codec s 7] show ?thesis by blast
qed


section \<open>Values saved under a key\<close>

text \<open>What a client of a saving and a loading operation relies on: \<open>env\<close> are the third-party
  functions, \<open>args\<close> the further arguments of a save.\<close>

locale keyed_values =
  fixes ok :: "'env \<Rightarrow> bool"
    and storable :: "'v \<Rightarrow> bool"
    and key :: "'v \<Rightarrow> string"
    and content :: "'v \<Rightarrow> 'w"
    and save :: "'env \<Rightarrow> 'args \<Rightarrow> 's \<Rightarrow> 'v \<Rightarrow> 'e + 's"
    and load :: "'env \<Rightarrow> 's \<Rightarrow> string \<Rightarrow> 'e + 'w option"
  assumes load_saved: "\<lbrakk>ok env; storable v; save env args s v = Inr s'\<rbrakk>
      \<Longrightarrow> load env s' (key v) = Inr (Some (content v))"
    and load_other: "\<lbrakk>save env args s v = Inr s'; k \<noteq> key v\<rbrakk> \<Longrightarrow> load env s' k = load env s k"
begin

lemma load_after_saves:
  assumes "ok env" "\<forall>x \<in> set vs. storable (snd x)"
    and "insert_all (\<lambda>s x. save env (fst x) s (snd x)) s vs = Inr s'"
  shows "load env s' k = (case rfind (\<lambda>x. key (snd x) = k) vs of
      Some x \<Rightarrow> Inr (Some (content (snd x)))
    | None \<Rightarrow> load env s k)"
  using assms(2,3)
proof (induction vs arbitrary: s)
  case (Cons x vs)
  from Cons.prems(2) obtain t where t: "save env (fst x) s (snd x) = Inr t"
    and rest: "insert_all (\<lambda>s x. save env (fst x) s (snd x)) t vs = Inr s'"
    by (auto simp: rbind_eq_Inr)
  have "load env t k = (if key (snd x) = k then Inr (Some (content (snd x))) else load env s k)"
    using load_saved [OF assms(1) _ t] load_other [OF t, of k] Cons.prems(1) by auto
  then show ?case
    using Cons.IH [OF _ rest] Cons.prems(1) rfind_Cons [of "\<lambda>x. key (snd x) = k" x vs]
    by (auto split: option.splits)
qed (simp add: rfind_def)

end

lemma find_append: "find P (xs @ ys) = (case find P xs of Some x \<Rightarrow> Some x | None \<Rightarrow> find P ys)"
  by (induction xs) auto

lemma find_replaced:
  "k r = k' \<Longrightarrow> find (\<lambda>x. k x = k') (filter (\<lambda>x. k x \<noteq> k r) xs @ [r]) = Some r"
  "k r \<noteq> k' \<Longrightarrow> find (\<lambda>x. k x = k') (filter (\<lambda>x. k x \<noteq> k r) xs @ [r]) = find (\<lambda>x. k x = k') xs"
  by (induction xs) auto

interpretation recording_values: keyed_values codec_ok "\<lambda>r. list_all event_exact (rec_events r)"
  rec_id id "\<lambda>c now s r. save_recording c s r now" recording_of
proof
  fix c s r now s' and i :: string
  assume saved: "save_recording c s r now = Inr s'"
  then obtain j z where jz: "recording_to_json c r = Some j" "zstd_encode c 6 j = Some z"
    and s': "recordings s' = filter (\<lambda>x. recording_pk x \<noteq> rec_id r) (recordings s) @
         [\<lparr>recording_pk = rec_id r, recording_revision = rec_revision r,
           recording_test_id = rec_test_id r, recording_backend = rec_backend r,
           recording_created_at = to_rfc3339 c now, recording_payload = z\<rparr>]" (is "_ = _ @ [?row]")
    by (auto simp: save_recording_def rbind_eq_Inr)
  note found = find_replaced [of recording_pk ?row, simplified, where xs = "recordings s"]
  show "recording_of c s' (rec_id r) = Inr (Some (id r))" if "codec_ok c" "list_all event_exact (rec_events r)"
    using that jz by (simp add: recording_of_def s' found codec_okD)
  show "recording_of c s' i = recording_of c s i" if "i \<noteq> rec_id r"
    using that by (simp add: recording_of_def s' found)
qed

interpretation cache_values: keyed_values codec_ok "\<lambda>_. True" fst snd
  "\<lambda>c args s v. save_verification_cache c s (fst v) (fst args) (snd v) (snd args)" verification_cache
proof
  fix c s v and args :: "string \<times> int" and s' and i :: string
  assume "save_verification_cache c s (fst v) (fst args) (snd v) (snd args) = Inr s'"
  then obtain z where z: "zstd_encode c 3 (snd v) = Some z"
    and s': "verification_cache_table s' = filter (\<lambda>r. cache_pk r \<noteq> fst v) (verification_cache_table s) @
         [\<lparr>cache_pk = fst v, cache_run_id = fst args, cache_created_at = to_rfc3339 c (snd args),
           cache_payload = z\<rparr>]" (is "_ = _ @ [?row]")
    by (auto simp: save_verification_cache_def rbind_eq_Inr split: if_splits)
  note found = find_replaced [of cache_pk ?row, simplified, where xs = "verification_cache_table s"]
  show "verification_cache c s' (fst v) = Inr (Some (snd v))" if "codec_ok c"
    using that z by (simp add: verification_cache_def s' found codec_okD)
  show "verification_cache c s' i = verification_cache c s i" if "i \<noteq> fst v"
    using that by (simp add: verification_cache_def s' found)
qed

interpretation manifest_values: keyed_values codec_ok
  "\<lambda>v. bt_wf (m_file_digests (snd v)) \<and> bt_wf (m_surface_digests (snd v))" fst snd
  "\<lambda>c now s v. save_revision_manifest c s (fst v) (snd v) now" revision_manifest_of
proof
  fix c s v now s' and i :: string
  assume "save_revision_manifest c s (fst v) (snd v) now = Inr s'"
  then obtain j z where jz: "manifest_to_json c (snd v) = Some j" "zstd_encode c 3 j = Some z"
    and s': "revision_manifests s' = filter (\<lambda>r. manifest_pk r \<noteq> fst v) (revision_manifests s) @
         [\<lparr>manifest_pk = fst v, manifest_created_at = to_rfc3339 c now, manifest_payload = z\<rparr>]"
      (is "_ = _ @ [?row]")
    by (auto simp: save_revision_manifest_def rbind_eq_Inr)
  note found = find_replaced [of manifest_pk ?row, simplified, where xs = "revision_manifests s"]
  show "revision_manifest_of c s' (fst v) = Inr (Some (snd v))"
    if "codec_ok c" "bt_wf (m_file_digests (snd v)) \<and> bt_wf (m_surface_digests (snd v))"
    using that jz codec_okD(3) [OF that(1), of "snd v" j] codec_okD(5) [OF that(1), of 3 j z]
    by (simp add: revision_manifest_of_def s' found)
  show "revision_manifest_of c s' i = revision_manifest_of c s i" if "i \<noteq> fst v"
    using that by (simp add: revision_manifest_of_def s' found)
qed

interpretation failure_values: keyed_values codec_ok "\<lambda>_. True" fr_id id
  "\<lambda>c (_ :: unit) s f. save_failure c s f" failure
proof
  fix c s f s' and i :: string
  assume "save_failure c s f = Inr s'"
  then obtain j where j: "frames_to_json c (frames f) = Some j"
    and s': "failures s' = filter (\<lambda>r. failure_pk r \<noteq> fr_id f) (failures s) @
         [\<lparr>failure_pk = fr_id f, failure_run_id = fr_run_id f, failure_test_id = fr_test_id f,
           failure_exception_type = exception_type f, failure_message = fr_message f,
           failure_event_id = fr_event_id f, failure_frames_json = j\<rparr>]" (is "_ = _ @ [?row]")
    by (auto simp: save_failure_def rbind_eq_Inr split: if_splits)
  note found = find_replaced [of failure_pk ?row, simplified, where xs = "failures s"]
  show "failure c s' (fr_id f) = Inr (Some (id f))" if "codec_ok c"
    using that j by (simp add: failure_def s' found codec_okD)
  show "failure c s' i = failure c s i" if "i \<noteq> fr_id f"
    using that by (simp add: failure_def s' found)
qed

interpretation event_values: keyed_values codec_ok event_exact ev_id id
  "\<lambda>c args s e. append_event c s (fst args) (snd args) e" event
proof
  fix c s e and args :: "string \<times> string" and s' and i :: string
  assume "append_event c s (fst args) (snd args) e = Inr s'"
  then show "event c s' (ev_id e) = Inr (Some (id e))" if "codec_ok c" "event_exact e"
    using that
    by (elim append_event_ok) (force simp: event_def find_append codec_okD split: option.splits
        dest!: find_Some_in)
  from \<open>append_event c s (fst args) (snd args) e = Inr s'\<close>
  show "event c s' i = event c s i" if "i \<noteq> ev_id e"
    using that by (elim append_event_ok) (auto simp: event_def find_append split: option.splits)
qed

text \<open>Saved recordings read back exactly, and a save touches no other recording: after any
  sequence of saves, a recording loads as the last value saved under its identity, or as what
  was there before.\<close>

theorem recordings_last_write_wins:
  assumes "codec_ok c" and "\<forall>x \<in> set rs. list_all event_exact (rec_events (snd x))"
    and "insert_all (\<lambda>s x. save_recording c s (snd x) (fst x)) s rs = Inr s'"
  shows "recording_of c s' i = (case rfind (\<lambda>x. rec_id (snd x) = i) rs of
      Some x \<Rightarrow> Inr (Some (snd x)) | None \<Rightarrow> recording_of c s i)"
  using recording_values.load_after_saves [OF assms] by (simp split: option.splits)

theorem recordings_last_write_wins_witness:
  "\<exists>c s'. insert_all (\<lambda>s x. save_recording c s (snd x) (fst x)) (empty_store default_retention)
       [(1, sample_recording []), (2, sample_recording [sample_event 0 Line])] = Inr s'
     \<and> recording_of c s' ''rec'' = Inr (Some (sample_recording [sample_event 0 Line]))"
proof -
  let ?rs = "[sample_recording [], sample_recording [sample_event 0 Line]]"
  let ?c = "table_codec [] ?rs [] []"
  let ?vs = "[(1::int, sample_recording []), (2, sample_recording [sample_event 0 Line])]"
  obtain s' where s': "insert_all (\<lambda>s x. save_recording ?c s (snd x) (fst x)) (empty_store default_retention) ?vs = Inr s'"
    by (simp add: save_recording_def table_codec_def table_to_def sample_recording_def)
  have "\<forall>x \<in> set ?vs. list_all event_exact (rec_events (snd x))"
    by (simp add: sample_recording_def event_exact_def sample_event_def)
  from recordings_last_write_wins [OF table_codec_ok this s', of "''rec''"] s' show ?thesis
    by (intro exI conjI) (assumption, simp add: rfind_def sample_recording_def)
qed

text \<open>A cached verification result is bound to its content revision: after any sequence
  of saves, a lookup returns the payload last saved for exactly that revision, byte for byte, and
  never one saved for another revision; failures, manifests and events obey the same law.\<close>

theorem cache_and_records_last_write_wins:
  assumes "codec_ok c"
  shows "(insert_all (\<lambda>s x. save_verification_cache c s (fst (snd x)) (fst (fst x)) (snd (snd x)) (snd (fst x))) s vs = Inr s'
      \<longrightarrow> verification_cache c s' rv = (case rfind (\<lambda>x. fst (snd x) = rv) vs of
          Some x \<Rightarrow> Inr (Some (snd (snd x))) | None \<Rightarrow> verification_cache c s rv))
    \<and> (insert_all (\<lambda>s x. save_failure c s (snd x)) s (fs :: (unit \<times> failure_record) list) = Inr s'
      \<longrightarrow> failure c s' i = (case rfind (\<lambda>x. fr_id (snd x) = i) fs of
          Some x \<Rightarrow> Inr (Some (snd x)) | None \<Rightarrow> failure c s i))
    \<and> (insert_all (\<lambda>s x. append_event c s (fst (fst x)) (snd (fst x)) (snd x)) s es = Inr s'
      \<and> (\<forall>x \<in> set es. event_exact (snd x))
      \<longrightarrow> event c s' i = (case rfind (\<lambda>x. ev_id (snd x) = i) es of
          Some x \<Rightarrow> Inr (Some (snd x)) | None \<Rightarrow> event c s i))"
  using cache_values.load_after_saves [OF assms, of vs s s' rv]
    failure_values.load_after_saves [OF assms, of fs s s' i]
    event_values.load_after_saves [OF assms, of es s s' i]
  by (auto simp del: insert_all.simps split: option.splits)

theorem cache_and_records_last_write_wins_witness:
  "\<exists>s s'. insert_all (\<lambda>s x. save_verification_cache sample_codec s (fst (snd x)) (fst (fst x)) (snd (snd x)) (snd (fst x))) s
       [((''run-1'', 3), (''rev-a'', ''first'')), ((''run-1'', 4), (''rev-a'', ''second''))] = Inr s'
     \<and> verification_cache sample_codec s' ''rev-a'' = Inr (Some ''second'')"
proof -
  let ?s = "(empty_store default_retention)\<lparr>runs := [\<lparr>run_pk = ''run-1'', run_revision = ''rev-a'',
    run_source_digest = ''d'', run_status = ''running'', run_started_at = ''t'', run_finished_at = None\<rparr>]\<rparr>"
  let ?vs = "[((''run-1'', 3), (''rev-a'', ''first'')), ((''run-1'', 4::int), (''rev-a'', ''second''))]"
  obtain s' where s': "insert_all (\<lambda>s x. save_verification_cache sample_codec s (fst (snd x)) (fst (fst x)) (snd (snd x)) (snd (fst x))) ?s ?vs = Inr s'"
    by (simp add: save_verification_cache_def sample_codec_def table_codec_def run_exists_def)
  from conjunct1 [OF cache_and_records_last_write_wins [OF sample_codec_ok, of ?s ?vs s' "''rev-a''"]] s'
  have "verification_cache sample_codec s' ''rev-a'' = Inr (Some ''second'')"
    by (simp add: rfind_def del: insert_all.simps)
  with s' show ?thesis by blast
qed

section \<open>Impact selection\<close>

text \<open>\<^bold>\<open>C29\<close> Impact selection is conservative: the selected tests are exactly those with a
  recorded dependency on the subject when there is one, and every test of the module otherwise;
  either list is in order and without duplicates.  An unknown subject is never treated as
  affecting nothing.\<close>

theorem select_impact_conservative:
  assumes "store_wf c s"
  shows "case select_impact s subj modul of
      Exact ts \<Rightarrow> ts \<noteq> [] \<and> sorted_wrt (<) ts
        \<and> set ts = {dep_test_id r | r. r \<in> set (dependencies s) \<and> dep_subject r = subj}
    | ModuleAll ts reason \<Rightarrow> sorted_wrt (<) ts
        \<and> (\<forall>r \<in> set (dependencies s). dep_subject r \<noteq> subj)
        \<and> set ts = {test_pk r | r. r \<in> set (tests_table s) \<and> test_module r = modul}"
proof -
  have "distinct (map test_pk (filter (\<lambda>r. test_module r = modul) (tests_table s)))"
    using assms by (intro distinct_map_filter) (simp add: store_wf_defs)
  moreover have "sort xs = [] \<longleftrightarrow> xs = []" for xs :: "string list"
    by (metis length_0_conv length_sort)
  ultimately show ?thesis
    by (auto simp: select_impact_def Let_def strict_sorted_iff filter_empty_conv)
qed

theorem select_impact_conservative_witness:
  "select_impact (upsert_test (empty_store default_retention)
     \<lparr>tr_id = ''T#t'', display_name = ''t'', tr_module = '':app'', last_status = None, last_failure_id = None\<rparr>)
     ''src/A.java'' '':app'' = ModuleAll [''T#t''] IMPACT_REASON"
proof -
  let ?t = "\<lparr>tr_id = ''T#t'', display_name = ''t'', tr_module = '':app'', last_status = None, last_failure_id = None\<rparr>"
  let ?s = "upsert_test (empty_store default_retention) ?t"
  have "store_wf sample_codec ?s" by (intro store_wf_upsert_test store_wf_empty)
  from select_impact_conservative [OF this, of "''src/A.java''" "'':app''"] show ?thesis
    by (simp add: select_impact_def upsert_test_def empty_store_def test_exists_def Let_def)
qed

end
