(* ===== verification/Overlay.thy ===== *)
theory Overlay
  imports Identity Rust_Path
begin

text \<open>
  \<^verbatim>\<open>crates/walaru-daemon/src/overlay.rs\<close>, validation: the unsaved documents an editor sends
  are accepted only within fixed bounds and only at paths below the workspace.
\<close>

section \<open>Data\<close>

definition MAX_OVERLAY_DOCUMENTS :: nat where "MAX_OVERLAY_DOCUMENTS = 256"
definition MAX_OVERLAY_DOCUMENT_BYTES :: nat where "MAX_OVERLAY_DOCUMENT_BYTES = 1024 * 1024"
definition MAX_OVERLAY_BYTES :: nat where "MAX_OVERLAY_BYTES = 4 * 1024 * 1024"

lemmas overlay_limits = MAX_OVERLAY_DOCUMENTS_def MAX_OVERLAY_DOCUMENT_BYTES_def MAX_OVERLAY_BYTES_def

record overlay_document =
  doc_path :: string
  doc_version :: int
  doc_content :: string

record overlay_request =
  overlay_session_id :: string
  documents :: "overlay_document list"

record overlay_manifest =
  om_schema_version :: nat
  om_session_id :: string
  om_documents :: "overlay_document list"

datatype overlay_error =
    Schema nat
  | Session
  | TooManyDocuments nat
  | OverlayPath string
  | DuplicatePath string
  | PathConflict string
  | DocumentTooLarge string nat
  | PayloadTooLarge nat
  | OverlayIo
  | OverlayJson
  | Cancelled

section \<open>Validation\<close>

definition validate_relative_path :: "string \<Rightarrow> overlay_error + unit" where
  "validate_relative_path v =
     (if v = [] \<or> 4096 < length v \<or> BACKSLASH \<in> set v \<or> list_ex is_control (utf8_chars v)
         \<or> list_ex (\<lambda>p. p = []) (split_char SLASH v)
      then Inl (OverlayPath v)
      else if is_absolute v \<or> list_ex (\<lambda>c. \<not> is_normal c) (components v)
      then Inl (OverlayPath v)
      else Inr ())"

text \<open>Whether one path needs a directory where the other needs a file.\<close>

definition below :: "string \<Rightarrow> string \<Rightarrow> bool" where
  "below p existing = (case strip_prefix p existing of
      Some suffix \<Rightarrow> starts_with suffix [SLASH] | None \<Rightarrow> False)"

definition valid_session :: "string \<Rightarrow> bool" where
  "valid_session s = (s \<noteq> [] \<and> length s \<le> 64
     \<and> list_all (\<lambda>b. is_ascii_alphanumeric b \<or> b = CHR ''-'' \<or> b = CHR ''_'') s)"

fun validate_documents :: "string list \<Rightarrow> nat \<Rightarrow> overlay_document list \<Rightarrow> overlay_error + unit" where
  "validate_documents paths sum0 [] = Inr ()"
| "validate_documents paths sum0 (d # ds) =
     rbind (validate_relative_path (doc_path d)) (\<lambda>_.
       if list_ex (\<lambda>existing. below (doc_path d) existing \<or> below existing (doc_path d)) paths
       then Inl (PathConflict (doc_path d))
       else if doc_path d \<in> set paths then Inl (DuplicatePath (doc_path d))
       else if MAX_OVERLAY_DOCUMENT_BYTES < length (doc_content d)
       then Inl (DocumentTooLarge (doc_path d) (length (doc_content d)))
       else (let sum' = sat_add sum0 (length (doc_content d)) in
         if MAX_OVERLAY_BYTES < sum' then Inl (PayloadTooLarge sum')
         else validate_documents (bs_insert (doc_path d) paths) sum' ds))"

definition validate :: "overlay_request \<Rightarrow> overlay_error + unit" where
  "validate r =
     (if \<not> valid_session (overlay_session_id r) then Inl Session
      else if MAX_OVERLAY_DOCUMENTS < length (documents r)
      then Inl (TooManyDocuments (length (documents r)))
      else validate_documents [] 0 (documents r))"

definition into_request :: "overlay_manifest \<Rightarrow> overlay_error + overlay_request" where
  "into_request m =
     (if om_schema_version m \<noteq> 1 then Inl (Schema (om_schema_version m))
      else (let r = \<lparr>overlay_session_id = om_session_id m, documents = om_documents m\<rparr> in
        rbind (validate r) (\<lambda>_. Inr r)))"

section \<open>Accepted paths\<close>

definition relative_part :: "string \<Rightarrow> bool" where
  "relative_part s = (s \<noteq> [] \<and> s \<noteq> ''..'' \<and> SLASH \<notin> set s)"

lemma components_parts:
  "components v =
     (if is_absolute v then [RootDir] else if hd (split_char SLASH v) = ''.'' then [CurDir] else [])
     @ map component_of (filter (\<lambda>s. s \<noteq> [] \<and> s \<noteq> ''.'') (split_char SLASH v))"
  by (simp add: components_def Let_def)

lemma is_normal_simps [simp]: "\<not> is_normal RootDir" "\<not> is_normal CurDir" "\<not> is_normal ParentDir" "is_normal (Normal s)"
  by (simp_all add: is_normal_def)

lemma component_of_normal: "is_normal (component_of s) \<longleftrightarrow> s \<noteq> ''..''"
  by (simp add: component_of_def)

lemma validate_relative_path_iff:
  "validate_relative_path v = Inr () \<longleftrightarrow>
     v \<noteq> [] \<and> length v \<le> 4096 \<and> BACKSLASH \<notin> set v \<and> \<not> list_ex is_control (utf8_chars v)
     \<and> list_all relative_part (split_char SLASH v) \<and> hd (split_char SLASH v) \<noteq> ''.''"
proof -
  have abs: "is_absolute v \<Longrightarrow> [] \<in> set (split_char SLASH v)"
    by (auto simp: is_absolute_def starts_with_iff)
  have parts: "list_all relative_part (split_char SLASH v) \<longleftrightarrow>
      list_all (\<lambda>s. s \<noteq> [] \<and> s \<noteq> ''..'') (split_char SLASH v)"
    using split_char_no_sep [of _ SLASH v] by (auto simp: list_all_iff relative_part_def)
  have comps: "list_ex (\<lambda>c. \<not> is_normal c) (components v) \<longleftrightarrow>
      is_absolute v \<or> hd (split_char SLASH v) = ''.'' \<or> ''..'' \<in> set (split_char SLASH v)"
    unfolding components_parts list_ex_append by (auto simp: list_ex_iff component_of_normal)
  show ?thesis
    unfolding parts validate_relative_path_def comps using abs
    by (auto simp: list_ex_iff list_all_iff)
qed

lemma validate_relative_path_cases: "validate_relative_path v = Inr () \<or> validate_relative_path v = Inl (OverlayPath v)"
  by (simp add: validate_relative_path_def)

definition conflict_free :: "string list \<Rightarrow> bool" where
  "conflict_free ps = (distinct ps \<and> (\<forall>p \<in> set ps. \<forall>q \<in> set ps. \<not> below p q))"

lemma below_irrefl [simp]: "\<not> below p p"
  by (simp add: below_def strip_prefix_def starts_with_def)

lemma conflict_free_Cons:
  "conflict_free (p # ps) \<longleftrightarrow> p \<notin> set ps \<and> (\<forall>q \<in> set ps. \<not> below p q \<and> \<not> below q p) \<and> conflict_free ps"
  by (auto simp: conflict_free_def)

lemma validate_documents_iff:
  assumes "sorted_wrt (<) paths" "sum0 \<le> MAX_OVERLAY_BYTES"
  shows "validate_documents paths sum0 ds = Inr () \<longleftrightarrow>
     list_all (\<lambda>d. validate_relative_path (doc_path d) = Inr ()
        \<and> length (doc_content d) \<le> MAX_OVERLAY_DOCUMENT_BYTES) ds
     \<and> sum0 + sum_list (map (\<lambda>d. length (doc_content d)) ds) \<le> MAX_OVERLAY_BYTES
     \<and> conflict_free (map doc_path ds)
     \<and> (\<forall>d \<in> set ds. doc_path d \<notin> set paths
          \<and> (\<forall>q \<in> set paths. \<not> below (doc_path d) q \<and> \<not> below q (doc_path d)))"
  using assms
proof (induction paths sum0 ds rule: validate_documents.induct)
  case (1 paths sum0)
  then show ?case by (simp add: conflict_free_def)
next
  case (2 paths sum0 d ds)
  let ?n = "length (doc_content d)"
  have sum0: "sum0 + ?n \<le> MAX_OVERLAY_BYTES \<longleftrightarrow> sat_add sum0 ?n \<le> MAX_OVERLAY_BYTES"
    "sat_add sum0 ?n \<le> MAX_OVERLAY_BYTES \<Longrightarrow> sat_add sum0 ?n = sum0 + ?n"
    by (auto simp: sat_add_def usize_max_def overlay_limits)
  show ?case
  proof (cases "validate_relative_path (doc_path d) = Inr () \<and> doc_path d \<notin> set paths
      \<and> (\<forall>q \<in> set paths. \<not> below (doc_path d) q \<and> \<not> below q (doc_path d))
      \<and> ?n \<le> MAX_OVERLAY_DOCUMENT_BYTES \<and> sum0 + ?n \<le> MAX_OVERLAY_BYTES")
    case True
    then have step: "validate_documents paths sum0 (d # ds)
        = validate_documents (bs_insert (doc_path d) paths) (sum0 + ?n) ds"
      using sum0 by (auto simp: Let_def list_ex_iff)
    have IH: "validate_documents (bs_insert (doc_path d) paths) (sum0 + ?n) ds = Inr () \<longleftrightarrow>
        list_all (\<lambda>d. validate_relative_path (doc_path d) = Inr ()
          \<and> length (doc_content d) \<le> MAX_OVERLAY_DOCUMENT_BYTES) ds
        \<and> sum0 + ?n + sum_list (map (\<lambda>d. length (doc_content d)) ds) \<le> MAX_OVERLAY_BYTES
        \<and> conflict_free (map doc_path ds)
        \<and> (\<forall>e \<in> set ds. doc_path e \<notin> set (bs_insert (doc_path d) paths)
          \<and> (\<forall>q \<in> set (bs_insert (doc_path d) paths). \<not> below (doc_path e) q \<and> \<not> below q (doc_path e)))"
      by (rule 2(1)) (use True sum0 2(2) bs_sorted_insert [OF 2(2)] in \<open>auto simp: list_ex_iff not_less\<close>)
    show ?thesis
      unfolding step IH set_bs_insert [OF 2(2)]
      using True by (auto simp: conflict_free_Cons image_iff)
  next
    case False
    then have "validate_documents paths sum0 (d # ds) \<noteq> Inr ()"
      using sum0 validate_relative_path_cases [of "doc_path d"]
      by (auto simp: Let_def list_ex_iff rbind_eq_Inr)
    moreover have "sum0 + ?n + k \<le> MAX_OVERLAY_BYTES \<Longrightarrow> sum0 + ?n \<le> MAX_OVERLAY_BYTES" for k
      by simp
    ultimately show ?thesis using False by (fastforce simp: add.assoc)
  qed
qed


text \<open>The components of a joined path.\<close>

lemma split_char_append: "split_char c (a @ c # b) = split_char c a @ split_char c b"
proof (induction a)
  case (Cons x a)
  then show ?case by (cases "split_char c a") auto
qed simp

lemma hd_split_char_append: "hd (split_char c (a @ c # b)) = hd (split_char c a)"
  by (simp add: split_char_append hd_append)

lemma components_path_join:
  assumes "\<not> is_absolute v" "root \<noteq> []"
  shows "components (path_join root v) = components root
    @ map component_of (filter (\<lambda>s. s \<noteq> [] \<and> s \<noteq> ''.'') (split_char SLASH v))"
proof -
  have abs: "is_absolute (root @ w) = is_absolute root" for w
    using assms(2) by (cases root) (simp_all add: is_absolute_def starts_with_def)
  show ?thesis
  proof (cases "ends_with root [SLASH]")
    case True
    then obtain r where r: "root = r @ [SLASH]" by (auto simp: ends_with_iff)
    then have "split_char SLASH (root @ v) = split_char SLASH r @ split_char SLASH v"
      "split_char SLASH root = split_char SLASH r @ [[]]"
      by (simp_all add: split_char_append split_char_snoc_sep)
    with assms True abs show ?thesis
      by (simp add: path_join_def components_parts hd_append)
  next
    case False
    with assms abs show ?thesis
      by (simp add: path_join_def components_parts split_char_append hd_append)
  qed
qed

section \<open>Properties\<close>

text \<open>What an overlay must be, in full: a session name of letters, digits, dashes and underscores; at most 256
  documents; paths of at most 4096 bytes without backslashes and control characters, whose parts
  between slashes are neither empty nor a parent directory, the first not a dot; no path twice and none
  that needs a directory where another needs a file; at most one mebibyte a document, four together.\<close>

definition overlay_policy :: "overlay_request \<Rightarrow> bool" where
  "overlay_policy r =
     (overlay_session_id r \<noteq> [] \<and> length (overlay_session_id r) \<le> 64
      \<and> (\<forall>b \<in> set (overlay_session_id r). is_ascii_alphanumeric b \<or> b = CHR ''-'' \<or> b = CHR ''_'')
      \<and> length (documents r) \<le> 256
      \<and> (\<forall>d \<in> set (documents r).
           doc_path d \<noteq> [] \<and> length (doc_path d) \<le> 4096 \<and> BACKSLASH \<notin> set (doc_path d)
           \<and> (\<forall>g \<in> set (utf8_chars (doc_path d)). \<not> is_control g)
           \<and> (\<forall>part \<in> set (split_char SLASH (doc_path d)). part \<noteq> [] \<and> part \<noteq> ''..'')
           \<and> hd (split_char SLASH (doc_path d)) \<noteq> ''.''
           \<and> length (doc_content d) \<le> 1024 * 1024)
      \<and> distinct (map doc_path (documents r))
      \<and> (\<forall>d \<in> set (documents r). \<forall>e \<in> set (documents r). \<nexists>rest. doc_path e = doc_path d @ ''/'' @ rest)
      \<and> sum_list (map (\<lambda>d. length (doc_content d)) (documents r)) \<le> 4 * 1024 * 1024)"

lemma below_iff: "below q p \<longleftrightarrow> (\<exists>rest. q = p @ ''/'' @ rest)"
proof (cases "strip_prefix q p")
  case None
  then have "q \<noteq> p @ t" for t using strip_prefix_Some [of q p t] by auto
  with None show ?thesis by (simp add: below_def)
next
  case (Some t)
  then have "q = p @ t" by (simp add: strip_prefix_Some)
  with Some show ?thesis by (simp add: below_def starts_with_iff)
qed

lemma path_policy:
  "validate_relative_path v = Inr () \<longleftrightarrow>
     v \<noteq> [] \<and> length v \<le> 4096 \<and> BACKSLASH \<notin> set v \<and> (\<forall>g \<in> set (utf8_chars v). \<not> is_control g)
     \<and> (\<forall>part \<in> set (split_char SLASH v). part \<noteq> [] \<and> part \<noteq> ''..'') \<and> hd (split_char SLASH v) \<noteq> ''.''"
  using split_char_no_sep [of _ SLASH v]
  by (auto simp: validate_relative_path_iff list_all_iff list_ex_iff relative_part_def)

lemma validate_policy: "validate r = Inr () \<longleftrightarrow> overlay_policy r"
proof -
  have "validate r = Inr () \<longleftrightarrow> valid_session (overlay_session_id r) \<and> length (documents r) \<le> 256
     \<and> list_all (\<lambda>d. validate_relative_path (doc_path d) = Inr () \<and> length (doc_content d) \<le> 1024 * 1024) (documents r)
     \<and> sum_list (map (\<lambda>d. length (doc_content d)) (documents r)) \<le> 4 * 1024 * 1024
     \<and> conflict_free (map doc_path (documents r))"
    using validate_documents_iff [of "[]" 0 "documents r"] by (auto simp: validate_def overlay_limits)
  then show ?thesis
    unfolding overlay_policy_def path_policy conflict_free_def valid_session_def below_iff by (auto simp: list_all_iff)
qed



text \<open>\<^bold>\<open>C33\<close> An accepted path cannot leave the workspace: below any root it denotes the root's
  components followed by ordinary names only, one or more, with no parent or root component, and
  no name contains a separator or a backslash.\<close>

theorem accepted_path_stays_below_root:
  assumes "validate_relative_path v = Inr ()" and "root \<noteq> []"
  shows "\<exists>names. names \<noteq> [] \<and> components v = map Normal names
    \<and> components (path_join root v) = components root @ map Normal names
    \<and> list_all (\<lambda>n. n \<noteq> [] \<and> n \<noteq> ''.'' \<and> n \<noteq> ''..'' \<and> SLASH \<notin> set n \<and> BACKSLASH \<notin> set n) names"
proof -
  let ?names = "filter (\<lambda>s. s \<noteq> [] \<and> s \<noteq> ''.'') (split_char SLASH v)"
  have v: "BACKSLASH \<notin> set v" "list_all relative_part (split_char SLASH v)" "hd (split_char SLASH v) \<noteq> ''.''"
    using assms(1) by (auto simp: validate_relative_path_iff)
  have names: "list_all (\<lambda>n. n \<noteq> [] \<and> n \<noteq> ''.'' \<and> n \<noteq> ''..'' \<and> SLASH \<notin> set n \<and> BACKSLASH \<notin> set n) ?names"
    using v split_char_subset [of _ SLASH v] by (fastforce simp: list_all_iff relative_part_def)
  have rel: "\<not> is_absolute v"
    using v(2) by (auto simp: is_absolute_def starts_with_iff relative_part_def)
  have norm: "map component_of ?names = map Normal ?names"
    using names by (auto simp: list_all_iff component_of_def)
  have "hd (split_char SLASH v) \<in> set ?names"
    using v(2,3) by (auto simp: list_all_iff relative_part_def hd_in_set)
  then have "?names \<noteq> []" by (metis list.set(1) empty_iff)
  moreover have "components v = map Normal ?names"
    using rel v(3) norm by (simp add: components_parts)
  moreover have "components (path_join root v) = components root @ map Normal ?names"
    using rel assms(2) by (simp add: components_path_join norm)
  ultimately show ?thesis using names by blast
qed

theorem accepted_path_stays_below_root_witness:
  "\<exists>names. components (path_join ''/work'' ''src/A.java'') = components ''/work'' @ map Normal names"
proof -
  have "validate_relative_path ''src/A.java'' = Inr ()" by code_simp
  from accepted_path_stays_below_root [OF this, of "''/work''"] show ?thesis by auto
qed

text \<open>The path policy promises canonical paths, but a dot between two names passes it,
  because \<^verbatim>\<open>Path::components\<close> drops such dots: one request may carry the same file under
  two spellings, and neither the duplicate nor the conflict check sees it.\<close>

theorem overlay_accepts_two_spellings_of_one_file:
  "validate \<lparr>overlay_session_id = ''editor'', documents =
      [\<lparr>doc_path = ''src/A.java'', doc_version = 1, doc_content = ''a''\<rparr>,
       \<lparr>doc_path = ''src/./A.java'', doc_version = 2, doc_content = ''b''\<rparr>]\<rparr> = Inr ()
   \<and> components ''src/A.java'' = components ''src/./A.java''"
proof
  have paths: "validate_relative_path ''src/A.java'' = Inr ()" "validate_relative_path ''src/./A.java'' = Inr ()"
    by code_simp+
  have "valid_session ''editor''" "conflict_free [''src/A.java'', ''src/./A.java'']"
    by code_simp+
  with paths show "validate \<lparr>overlay_session_id = ''editor'', documents =
      [\<lparr>doc_path = ''src/A.java'', doc_version = 1, doc_content = ''a''\<rparr>,
       \<lparr>doc_path = ''src/./A.java'', doc_version = 2, doc_content = ''b''\<rparr>]\<rparr> = Inr ()"
    by (simp add: validate_def validate_documents_iff overlay_limits del: validate_documents.simps)
  show "components ''src/A.java'' = components ''src/./A.java''"
    by code_simp
qed

end
