(* ===== verification/Verifier_Data.thy ===== *)
theory Verifier_Data
  imports Store_Invariant Overlay Workspace
begin

text \<open>
  \<^verbatim>\<open>crates/walaru-daemon/src/verifier.rs\<close>, data and leaf functions: requests, outcomes and
  errors of a verification, the discovery of the runtime artifacts, the classification of
  paths, the replay tapes written for and read from a worker, and the checkpoints of a
  recording.  Files are given by their contents; writing a file succeeds.
\<close>

section \<open>Data\<close>

definition MAX_EVENT_LINE_BYTES :: nat where "MAX_EVENT_LINE_BYTES = 1024 * 1024"
definition MAX_EVENTS_PER_RUN :: nat where "MAX_EVENTS_PER_RUN = 1000000"
definition MAX_WORKER_LOG_BYTES :: nat where "MAX_WORKER_LOG_BYTES = 8 * 1024 * 1024"
definition MAX_LIVE_VALUE_HINTS :: nat where "MAX_LIVE_VALUE_HINTS = 256"
definition MAX_LIVE_VALUE_BYTES :: nat where "MAX_LIVE_VALUE_BYTES = 4 * 1024"
definition VERIFICATION_EVIDENCE_FORMAT_VERSION :: nat where "VERIFICATION_EVIDENCE_FORMAT_VERSION = 1"

record runtime_artifacts =
  adapter_jar :: string
  agent_jar :: string
  init_script :: string

datatype verification_mode = Fast | Full

definition mode_as_str :: "verification_mode \<Rightarrow> string" where
  "mode_as_str m = (case m of Fast \<Rightarrow> ''fast'' | Full \<Rightarrow> ''full'')"

record verification_request =
  mode :: verification_mode
  selected_tests :: "string list"
  full :: bool
  since :: "string option"
  capture_file_io :: bool
  overlay :: "overlay_request option"

definition fast_request :: verification_request where
  "fast_request = \<lparr>mode = Fast, selected_tests = [], full = False, since = None,
     capture_file_io = False, overlay = None\<rparr>"

record worker_problem =
  wp_path :: string
  wp_line :: nat
  wp_column :: "nat option"
  wp_severity :: string
  wp_message :: string

record live_value_hint =
  hint_test_id :: string
  hint_event_id :: string
  hint_path :: string
  hint_line :: nat
  hint_label :: string
  hint_value :: json

record verification_outcome =
  evidence_format_version :: nat
  vo_run_id :: string
  vo_revision :: string
  vo_status :: run_status
  vo_exit_code :: int
  vo_tests :: "string list"
  vo_test_statuses :: "(string, string) btree"
  vo_failures :: "string list"
  vo_events :: nat
  vo_capabilities :: capability_manifest
  vo_log_file :: string
  cached :: bool
  selection :: string
  vo_selected_tests :: "string list"
  vo_overlay_versions :: "(string, int) btree"
  problems :: "worker_problem list"
  vo_value_hints :: "live_value_hint list"

datatype verifier_error =
    VWorkspace workspace_error
  | VStore store_error
  | VIo string
  | VJson
  | MissingArtifact string
  | VOverlay overlay_error
  | Timeout nat
  | VerificationCancelled
  | StaleRecording
  | ReplayRevision string string
  | VReplay replay_error

definition overlay_versions :: "verification_request \<Rightarrow> (string, int) btree" where
  "overlay_versions q = (case overlay q of
      None \<Rightarrow> []
    | Some ov \<Rightarrow> bt_collect (map (\<lambda>d. (doc_path d, doc_version d)) (documents ov)))"

section \<open>Runtime artifacts\<close>

text \<open>The process environment: variables, regular files, and where the daemon was installed.
  \<open>install_root\<close> is \<^verbatim>\<open>executable.parent().and_then(Path::parent)\<close>.\<close>

record host =
  var_os :: "string \<Rightarrow> string option"
  is_file :: "string \<Rightarrow> bool"
  development_root :: string
  current_exe_ok :: bool
  install_root :: "string option"
  package_version :: string

definition artifact_path :: "host \<Rightarrow> string \<Rightarrow> string list \<Rightarrow> verifier_error + string" where
  "artifact_path w name candidates =
     (case var_os w name of
        Some path \<Rightarrow> if is_file w path then Inr path else Inl (MissingArtifact name)
      | None \<Rightarrow> (case List.find (is_file w) candidates of
            Some path \<Rightarrow> Inr path
          | None \<Rightarrow> Inl (MissingArtifact name)))"

definition discover :: "host \<Rightarrow> verifier_error + runtime_artifacts" where
  "discover w =
     (if \<not> current_exe_ok w then Inl (VIo ''current_exe'')
      else (let dev = development_root w; rel = unwrap_or (install_root w) dev; v = package_version w in
        rbind (artifact_path w ''WALARU_ADAPTER_JAR''
          [path_join rel ''lib/walaru-gradle-adapter.jar'',
           path_join dev (''gradle-adapter/build/libs/gradle-adapter-'' @ v @ ''-all.jar'')]) (\<lambda>adapter.
        rbind (artifact_path w ''WALARU_AGENT_JAR''
          [path_join rel ''lib/walaru-agent.jar'',
           path_join dev (''jvm-agent/build/libs/jvm-agent-'' @ v @ ''-all.jar'')]) (\<lambda>agent.
        rbind (artifact_path w ''WALARU_INIT_SCRIPT''
          [path_join rel ''share/walaru/walaru.init.gradle.kts'',
           path_join dev ''gradle/walaru.init.gradle.kts'']) (\<lambda>script.
          Inr \<lparr>adapter_jar = adapter, agent_jar = agent, init_script = script\<rparr>)))))"

definition validate_artifacts :: "host \<Rightarrow> runtime_artifacts \<Rightarrow> verifier_error + unit" where
  "validate_artifacts w a =
     (case List.find (\<lambda>p. \<not> is_file w p) [adapter_jar a, agent_jar a, init_script a] of
        Some p \<Rightarrow> Inl (MissingArtifact p)
      | None \<Rightarrow> Inr ())"

definition new_run_id :: "nat \<Rightarrow> nat \<Rightarrow> string" where
  "new_run_id pid nanos = ''run-'' @ show_nat pid @ ''-'' @ show_nat nanos"

definition short_hash :: "hashes \<Rightarrow> string \<Rightarrow> string" where
  "short_hash h v = hex h (take 12 (sha256 h v))"

section \<open>Paths of the worktree\<close>

definition implementation_source :: "string \<Rightarrow> bool" where
  "implementation_source p0 =
     (let p = replace_char BACKSLASH SLASH p0 in
      (starts_with p ''src/main/'' \<or> contains_sub p ''/src/main/'')
      \<and> (case extension p of Some e \<Rightarrow> e = ''java'' \<or> e = ''kt'' | None \<Rightarrow> False))"

definition source_input :: "string \<Rightarrow> bool" where
  "source_input p0 =
     (let p = replace_char BACKSLASH SLASH p0 in starts_with p ''src/'' \<or> contains_sub p ''/src/'')"

definition trim_slashes :: "string \<Rightarrow> string" where
  "trim_slashes s = rev (dropWhile (\<lambda>c. c = SLASH) (rev (dropWhile (\<lambda>c. c = SLASH) s)))"

definition module_for_path :: "string \<Rightarrow> string" where
  "module_for_path p0 =
     (case split_once (replace_char BACKSLASH SLASH p0) ''/src/'' of
        None \<Rightarrow> '':''
      | Some (prefix, _) \<Rightarrow>
          if prefix = [] then '':''
          else CHR '':'' # replace_char SLASH (CHR '':'') (trim_slashes prefix))"

definition build_input :: "string \<Rightarrow> bool" where
  "build_input p = (case file_name p of
      None \<Rightarrow> False
    | Some f \<Rightarrow> f \<in> {''build.gradle'', ''build.gradle.kts'', ''settings.gradle'', ''settings.gradle.kts'',
        ''gradle.properties'', ''libs.versions.toml'', ''gradle-wrapper.properties'', ''pom.xml'',
        ''maven.config'', ''jvm.config'', ''extensions.xml'', ''maven-wrapper.properties'',
        ''walaru.toml''})"

section \<open>Tapes\<close>

definition invalid_input_tape :: verifier_error where
  "invalid_input_tape = VIo ''recording contains a malformed deterministic input''"

definition tape_control :: "string \<Rightarrow> bool" where
  "tape_control s = (TAB \<in> set s \<or> LF \<in> set s \<or> CR \<in> set s)"

definition base64_byte :: "char \<Rightarrow> bool" where
  "base64_byte b = (is_ascii_alphanumeric b \<or> b = CHR ''+'' \<or> b = CHR ''/'' \<or> b = CHR ''='')"

definition append_tape_entry :: "string \<Rightarrow> string \<Rightarrow> string \<Rightarrow> verifier_error + string" where
  "append_tape_entry tape knd enc =
     (if knd = [] \<or> enc = [] \<or> tape_control knd \<or> tape_control enc \<or> \<not> list_all base64_byte enc
      then Inl invalid_input_tape
      else Inr (tape @ knd @ [TAB] @ enc @ [LF]))"

fun append_all :: "string \<Rightarrow> (string \<times> string) list \<Rightarrow> verifier_error + string" where
  "append_all tape [] = Inr tape"
| "append_all tape ((knd, enc) # es) =
     rbind (append_tape_entry tape knd enc) (\<lambda>tape'. append_all tape' es)"

definition write_replay_inputs :: "recording \<Rightarrow> verifier_error + string" where
  "write_replay_inputs r =
     (if inputs r \<noteq> []
      then append_all [] (map (\<lambda>i. (input_kind i, encoded i)) (inputs r))
      else append_all []
        (map (\<lambda>e. (unwrap_or (get_str (ev_values e) ''kind'') [],
                   unwrap_or (get_str (ev_values e) ''encoded'') []))
          (filter (\<lambda>e. kind e = Input) (rec_events r))))"

fun recorded_lines :: "string list \<Rightarrow> verifier_error + recorded_input list" where
  "recorded_lines [] = Inr []"
| "recorded_lines (l # ls) =
     (case split_once l [TAB] of
        None \<Rightarrow> Inl invalid_input_tape
      | Some (knd, enc) \<Rightarrow>
          rbind (append_tape_entry [] knd enc) (\<lambda>_.
          rbind (recorded_lines ls) (\<lambda>is.
            Inr (\<lparr>input_kind = knd, encoded = enc, sensitive = starts_with knd ''io.''\<rparr> # is))))"

text \<open>\<^verbatim>\<open>read_to_string\<close> fails on bytes that are not UTF-8.\<close>

definition recorded_inputs :: "string option \<Rightarrow> verifier_error + recorded_input list" where
  "recorded_inputs f = (case f of
      None \<Rightarrow> Inr []
    | Some text \<Rightarrow>
        if \<not> utf8_valid text then Inl (VIo ''invalid UTF-8'')
        else recorded_lines (filter (\<lambda>l. l \<noteq> []) (lines text)))"

definition category :: "event_kind \<Rightarrow> string" where
  "category k = (case k of
      TestStart \<Rightarrow> ''TEST_START'' | Line \<Rightarrow> ''LINE'' | Call \<Rightarrow> ''CALL'' | Write \<Rightarrow> ''WRITE''
    | Read \<Rightarrow> ''READ'' | Monitor \<Rightarrow> ''MONITOR'' | TestFinish \<Rightarrow> ''TEST_FINISH'' | Output \<Rightarrow> ''OUTPUT''
    | Input \<Rightarrow> ''INPUT'' | Checkpoint \<Rightarrow> ''CHECKPOINT'' | Capture \<Rightarrow> ''CAPTURE'' | Note \<Rightarrow> ''NOTE''
    | SpanStart \<Rightarrow> ''SPAN_START'' | SpanValue \<Rightarrow> ''SPAN_VALUE'' | SpanEnd \<Rightarrow> ''SPAN_END'')"

definition write_replay_schedule :: "hashes \<Rightarrow> recording \<Rightarrow> string \<times> bool" where
  "write_replay_schedule h r =
     (let schedule = concat (map (\<lambda>e. category (kind e) @ [TAB] @ hex h (thread_key e) @ [LF])
            (filter (\<lambda>e. thread_key e \<noteq> []) (rec_events r)))
      in (schedule, schedule \<noteq> []))"

section \<open>Checkpoints\<close>

definition checkpoint_of :: "event \<Rightarrow> replay_checkpoint" where
  "checkpoint_of e = \<lparr>cp_sequence = sequence e, cp_event_id = ev_id e,
     cp_state_hash = state_hash e, cp_output_index = output_index e\<rparr>"

definition replay_checkpoints :: "event list \<Rightarrow> replay_checkpoint list" where
  "replay_checkpoints es =
     map (\<lambda>(i, e). checkpoint_of e)
       (filter (\<lambda>(i, e). i = 0 \<or> i mod 256 = 0 \<or> i + 1 = length es) (enumerate 0 es))"

section \<open>Text that is split at ASCII bytes stays UTF-8\<close>

abbreviation continuation :: "char \<Rightarrow> bool" where
  "continuation \<equiv> between_bytes 128 191"

definition second_byte :: "char \<Rightarrow> char \<Rightarrow> bool" where
  "second_byte a b =
     (if byte_of a = 224 then between_bytes 160 191 b
      else if byte_of a = 237 then between_bytes 128 159 b
      else if byte_of a = 240 then between_bytes 144 191 b
      else if byte_of a = 244 then between_bytes 128 143 b
      else continuation b)"

lemma utf8_valid_ascii_Cons [simp]: "byte_of c < 128 \<Longrightarrow> utf8_valid (c # s) \<longleftrightarrow> utf8_valid s"
  by (cases s rule: utf8_valid.cases) auto

lemma utf8_valid_two:
  assumes "between_bytes 194 223 a"
  shows "\<not> utf8_valid [a]" "utf8_valid (a # b # s) \<longleftrightarrow> continuation b \<and> utf8_valid s"
proof -
  have "\<not> byte_of a < 128" using assms by (simp add: between_bytes_def)
  with assms show "\<not> utf8_valid [a]" "utf8_valid (a # b # s) \<longleftrightarrow> continuation b \<and> utf8_valid s"
    by (cases s rule: utf8_valid.cases; simp)+
qed

lemma utf8_valid_three:
  assumes "between_bytes 224 239 a"
  shows "\<not> utf8_valid [a]" "\<not> utf8_valid [a, b]"
    "utf8_valid (a # b # c # s) \<longleftrightarrow> second_byte a b \<and> continuation c \<and> utf8_valid s"
proof -
  have "\<not> byte_of a < 128" "\<not> between_bytes 194 223 a" "byte_of a \<noteq> 240" "byte_of a \<noteq> 244"
    "byte_of a = 224 \<or> between_bytes 225 239 a"
    using assms by (auto simp: between_bytes_def)
  with assms show "\<not> utf8_valid [a]" "\<not> utf8_valid [a, b]"
    "utf8_valid (a # b # c # s) \<longleftrightarrow> second_byte a b \<and> continuation c \<and> utf8_valid s"
    by (cases s; auto simp: second_byte_def)+
qed

lemma utf8_valid_four:
  assumes "between_bytes 240 244 a"
  shows "\<not> utf8_valid [a]" "\<not> utf8_valid [a, b]" "\<not> utf8_valid [a, b, c]"
    "utf8_valid (a # b # c # d # s) \<longleftrightarrow> second_byte a b \<and> continuation c \<and> continuation d \<and> utf8_valid s"
proof -
  have "\<not> byte_of a < 128" "\<not> between_bytes 194 223 a" "\<not> between_bytes 224 239 a"
    "\<not> between_bytes 225 239 a" "byte_of a \<noteq> 224" "byte_of a \<noteq> 237"
    using assms by (auto simp: between_bytes_def)
  with assms show "\<not> utf8_valid [a]" "\<not> utf8_valid [a, b]" "\<not> utf8_valid [a, b, c]"
    "utf8_valid (a # b # c # d # s) \<longleftrightarrow> second_byte a b \<and> continuation c \<and> continuation d \<and> utf8_valid s"
    by (auto simp: second_byte_def)
qed

lemma utf8_valid_other:
  assumes "\<not> byte_of a < 128" "\<not> between_bytes 194 223 a" "\<not> between_bytes 224 239 a"
    "\<not> between_bytes 240 244 a"
  shows "\<not> utf8_valid (a # s)"
proof -
  have "byte_of a \<noteq> 224" "byte_of a \<noteq> 237" "\<not> between_bytes 225 239 a"
    using assms(3) by (auto simp: between_bytes_def)
  with assms show ?thesis by (cases "a # s" rule: utf8_valid.cases) auto
qed

lemma ascii_not_continuation:
  assumes "byte_of c < 128" shows "\<not> continuation c" "\<not> second_byte a c"
  using assms by (auto simp: between_bytes_def second_byte_def split: if_splits)

lemma utf8_valid_ascii_split:
  assumes c: "byte_of c < 128"
  shows "utf8_valid (p @ c # q) \<longleftrightarrow> utf8_valid p \<and> utf8_valid q"
proof (induction p rule: length_induct)
  case (1 p)
  show ?case
  proof (cases p)
    case (Cons a p')
    have IH: "length r < length p \<Longrightarrow> utf8_valid (r @ c # q) \<longleftrightarrow> utf8_valid r \<and> utf8_valid q" for r
      using "1.IH" by blast
    note rules = utf8_valid_two utf8_valid_three utf8_valid_four ascii_not_continuation [OF c] Cons IH
    consider "byte_of a < 128" | "between_bytes 194 223 a" | "between_bytes 224 239 a"
      | "between_bytes 240 244 a"
      | "\<not> byte_of a < 128" "\<not> between_bytes 194 223 a" "\<not> between_bytes 224 239 a" "\<not> between_bytes 240 244 a"
      by blast
    then show ?thesis
    proof cases
      case 1 then show ?thesis using IH [of p'] Cons by simp
    next
      case 2 then show ?thesis by (cases p') (simp_all add: rules del: utf8_valid.simps(2-5))
    next
      case 3
      show ?thesis
      proof (cases p')
        case Nil with 3 show ?thesis by (cases q) (simp_all add: rules del: utf8_valid.simps(2-5))
      next
        case (Cons b p2) with 3 show ?thesis by (cases p2) (simp_all add: rules del: utf8_valid.simps(2-5))
      qed
    next
      case 4
      show ?thesis
      proof (cases p')
        case Nil with 4 show ?thesis
          by (cases q; cases "tl q") (simp_all add: rules del: utf8_valid.simps(2-5))
      next
        case (Cons b p2)
        show ?thesis
        proof (cases p2)
          case Nil with 4 Cons show ?thesis by (cases q) (simp_all add: rules del: utf8_valid.simps(2-5))
        next
          case (Cons b3 p3) with 4 \<open>p' = b # p2\<close> show ?thesis by (cases p3) (simp_all add: rules del: utf8_valid.simps(2-5))
        qed
      qed
    next
      case 5 then show ?thesis using Cons by (simp add: utf8_valid_other)
    qed
  qed (use c in simp)
qed

section \<open>The input tape\<close>

definition tape_entry :: "string \<Rightarrow> string \<Rightarrow> bool" where
  "tape_entry k e = (k \<noteq> [] \<and> e \<noteq> [] \<and> \<not> tape_control k \<and> \<not> tape_control e \<and> list_all base64_byte e)"

lemma append_tape_entry_eq:
  "append_tape_entry t k e =
     (if tape_entry k e then Inr (t @ k @ [TAB] @ e @ [LF]) else Inl invalid_input_tape)"
  by (auto simp: append_tape_entry_def tape_entry_def)

definition tape_text :: "(string \<times> string) list \<Rightarrow> string" where
  "tape_text es = concat (map (\<lambda>(k, e). (k @ TAB # e) @ [LF]) es)"

lemma append_all_eq:
  "append_all t es =
     (if list_all (\<lambda>(k, e). tape_entry k e) es then Inr (t @ tape_text es) else Inl invalid_input_tape)"
  by (induction t es rule: append_all.induct) (auto simp: append_tape_entry_eq tape_text_def)

lemma find_sub_char: "c \<notin> set a \<Longrightarrow> find_sub (a @ c # b) [c] = Some (length a)"
  by (induction a) (auto simp: starts_with_def)

lemma split_once_char: "c \<notin> set a \<Longrightarrow> split_once (a @ c # b) [c] = Some (a, b)"
  by (simp add: split_once_def find_sub_char)

lemma split_char_terminated:
  "(\<And>l. l \<in> set ls \<Longrightarrow> c \<notin> set l) \<Longrightarrow> split_char c (concat (map (\<lambda>l. l @ [c]) ls)) = ls @ [[]]"
  by (induction ls) (simp_all add: split_char_append_sep)

lemma strip_cr_id: "CR \<notin> set l \<Longrightarrow> strip_cr l = l"
  by (auto simp: strip_cr_def strip_suffix_def ends_with_iff)

lemma lines_terminated:
  assumes "\<And>l. l \<in> set ls \<Longrightarrow> LF \<notin> set l \<and> CR \<notin> set l"
  shows "lines (concat (map (\<lambda>l. l @ [LF]) ls)) = ls"
proof -
  have "split_char LF (concat (map (\<lambda>l. l @ [LF]) ls)) = ls @ [[]]"
    by (rule split_char_terminated) (use assms in blast)
  moreover have "map strip_cr ls = ls"
    by (rule map_idI) (use assms in \<open>simp add: strip_cr_id\<close>)
  ultimately show ?thesis by (simp add: lines_def)
qed

definition tape_input :: "recorded_input \<Rightarrow> bool" where
  "tape_input i = (tape_entry (input_kind i) (encoded i) \<and> sensitive i = starts_with (input_kind i) ''io.'')"

abbreviation input_line :: "recorded_input \<Rightarrow> string" where
  "input_line i \<equiv> input_kind i @ TAB # encoded i"

lemma recorded_lines_Inr:
  "recorded_lines ls = Inr is \<Longrightarrow> list_all tape_input is \<and> ls = map input_line is"
proof (induction ls arbitrary: "is")
  case (Cons l ls)
  then obtain k e where kv: "split_once l [TAB] = Some (k, e)" by (auto split: option.splits)
  with Cons.prems obtain js where js: "recorded_lines ls = Inr js" "tape_entry k e"
    and is_: "is = \<lparr>input_kind = k, encoded = e, sensitive = starts_with k ''io.''\<rparr> # js"
    by (auto simp: rbind_iffs append_tape_entry_eq split: if_splits)
  have "l = k @ TAB # e" using split_once_Some [OF kv] by simp
  with Cons.IH [OF js(1)] js(2) is_ show ?case by (simp add: tape_input_def)
qed simp

lemma recorded_lines_of:
  "list_all tape_input is \<Longrightarrow> recorded_lines (map input_line is) = Inr is"
proof (induction "is")
  case (Cons i "is")
  then have "TAB \<notin> set (input_kind i)" by (simp add: tape_input_def tape_entry_def tape_control_def)
  with Cons show ?case
    by (cases i) (simp add: split_once_char append_tape_entry_eq tape_input_def)
qed simp

lemma tape_text_inputs:
  "tape_text (map (\<lambda>i. (input_kind i, encoded i)) is) = concat (map (\<lambda>l. l @ [LF]) (map input_line is))"
  by (simp add: tape_text_def comp_def)

lemma lines_of_inputs:
  assumes "list_all tape_input is"
  shows "lines (tape_text (map (\<lambda>i. (input_kind i, encoded i)) is)) = map input_line is"
  unfolding tape_text_inputs
proof (rule lines_terminated)
  fix l assume "l \<in> set (map input_line is)"
  with assms show "LF \<notin> set l \<and> CR \<notin> set l"
    by (auto simp: list_all_iff tape_input_def tape_entry_def tape_control_def)
qed

lemma utf8_valid_ascii: "list_all (\<lambda>c. byte_of c < 128) s \<Longrightarrow> utf8_valid s"
  by (induction s) auto

lemma utf8_valid_terminated: "utf8_valid (concat (map (\<lambda>l. l @ [LF]) ls)) \<longleftrightarrow> list_all utf8_valid ls"
proof (induction ls)
  case (Cons l ls)
  have "byte_of LF < 128" by (simp add: byte_of_def)
  with Cons show ?case by (simp add: utf8_valid_ascii_split)
qed simp

lemma utf8_valid_split_char:
  "byte_of c < 128 \<Longrightarrow> utf8_valid s \<longleftrightarrow> list_all utf8_valid (split_char c s)"
proof -
  assume c: "byte_of c < 128"
  have "utf8_valid (join [c] ps) \<longleftrightarrow> list_all utf8_valid ps" for ps
    by (induction ps rule: induct_list012) (simp_all add: utf8_valid_ascii_split c)
  from this [of "split_char c s"] show ?thesis by (simp add: join_split_char)
qed

lemma utf8_valid_lines:
  assumes "utf8_valid s" "l \<in> set (lines s)" shows "utf8_valid l"
proof -
  have "list_all utf8_valid (split_char LF s)"
    using utf8_valid_split_char [of LF s] assms(1) by (simp add: byte_of_def)
  moreover have "set (lines s) \<subseteq> strip_cr ` set (split_char LF s) \<union> set (split_char LF s)"
    by (auto simp: lines_def Let_def dest: in_set_butlastD)
  then obtain p where "p \<in> set (split_char LF s)" "l = p \<or> l = strip_cr p"
    using assms(2) by blast
  moreover have "utf8_valid p \<Longrightarrow> utf8_valid (strip_cr p)" for p
    using utf8_valid_ascii_split [of CR "butlast p" "[]"]
    by (auto simp: strip_cr_def strip_suffix_Some byte_of_def split: option.splits)
  ultimately show ?thesis by (auto simp: list_all_iff)
qed

text \<open>\<^bold>\<open>C39\<close> The deterministic inputs a recording keeps are replayed as they were recorded: if
  the worker's tape was read without error into the inputs of a recording, then the tape
  written for its replay exists and reads back as exactly these inputs.\<close>

theorem recorded_inputs_replayed_exactly:
  assumes "recorded_inputs (Some text) = Inr (inputs r)" "inputs r \<noteq> []"
  shows "\<exists>tape. write_replay_inputs r = Inr tape \<and> recorded_inputs (Some tape) = Inr (inputs r)"
proof -
  from assms(1) have valid: "utf8_valid text"
    and rl: "recorded_lines (filter (\<lambda>l. l \<noteq> []) (lines text)) = Inr (inputs r)"
    by (auto simp: recorded_inputs_def split: if_splits)
  from recorded_lines_Inr [OF rl] have ok: "list_all tape_input (inputs r)"
    and ls: "filter (\<lambda>l. l \<noteq> []) (lines text) = map input_line (inputs r)" by blast+
  let ?tape = "tape_text (map (\<lambda>i. (input_kind i, encoded i)) (inputs r))"
  have "list_all utf8_valid (map input_line (inputs r))"
    using utf8_valid_lines [OF valid] by (simp add: ls [symmetric] list_all_iff)
  then have "utf8_valid ?tape"
    unfolding tape_text_inputs utf8_valid_terminated .
  moreover have "write_replay_inputs r = Inr ?tape"
    using assms(2) ok by (simp add: write_replay_inputs_def append_all_eq list_all_iff tape_input_def)
  moreover have "filter (\<lambda>l. l \<noteq> []) (map input_line (inputs r)) = map input_line (inputs r)"
    by (simp add: filter_map comp_def)
  ultimately show ?thesis
    using ok by (simp add: recorded_inputs_def lines_of_inputs recorded_lines_of)
qed

definition sample_input :: recorded_input where
  "sample_input = \<lparr>input_kind = ''time'', encoded = ''MTI='', sensitive = False\<rparr>"

definition sample_tape :: string where
  "sample_tape = ''time'' @ [TAB] @ ''MTI='' @ [CR, LF, LF]"

definition sample_replay_recording :: recording where
  "sample_replay_recording = \<lparr>rec_id = ''r'', rec_revision = ''v'', rec_test_id = ''t'', rec_backend = ''jvm'',
     rec_capabilities = query_only, inputs = [sample_input], linux_process = None, rec_events = [],
     checkpoints = []\<rparr>"

theorem recorded_inputs_replayed_exactly_witness:
  "recorded_inputs (Some sample_tape) = Inr (inputs sample_replay_recording)
   \<and> (\<exists>tape. write_replay_inputs sample_replay_recording = Inr tape
        \<and> recorded_inputs (Some tape) = Inr (inputs sample_replay_recording))"
proof -
  have "recorded_inputs (Some sample_tape) = Inr (inputs sample_replay_recording)" by code_simp
  with recorded_inputs_replayed_exactly [OF this] show ?thesis
    by (simp add: sample_replay_recording_def)
qed

section \<open>Checkpoints of a recording\<close>

lemma find_distinct_sequence:
  assumes "distinct (map sequence es)" "e \<in> set es"
  shows "List.find (\<lambda>x. sequence x = sequence e \<and> ev_id x = ev_id e) es = Some e"
  using assms
proof (induction es)
  case (Cons x es)
  then show ?case by (cases "x = e") (auto simp: image_iff)
qed simp

lemma checkpoint_of_sel [simp]:
  "cp_sequence (checkpoint_of e) = sequence e" "cp_event_id (checkpoint_of e) = ev_id e"
  "cp_state_hash (checkpoint_of e) = state_hash e" "cp_output_index (checkpoint_of e) = output_index e"
  by (simp_all add: checkpoint_of_def)

lemma validate_checkpoints_of:
  assumes "sorted_wrt (<) (map sequence es)" "set cs \<subseteq> set es" "sorted_wrt (<) (map sequence cs)"
    and "\<forall>p. prev = Some p \<longrightarrow> (\<forall>c \<in> set cs. p < sequence c)"
  shows "validate_checkpoints es prev (map checkpoint_of cs) = Inr ()"
  using assms(2-)
proof (induction cs arbitrary: prev)
  case (Cons c cs)
  have "distinct (map sequence es)" using assms(1) by (simp add: strict_sorted_iff)
  with Cons.prems have "List.find (\<lambda>x. sequence x = sequence c \<and> ev_id x = ev_id c) es = Some c"
    by (intro find_distinct_sequence) auto
  moreover have "\<not> (case prev of Some p \<Rightarrow> sequence c \<le> p | None \<Rightarrow> False)"
    using Cons.prems(3) by (auto split: option.splits)
  moreover have "validate_checkpoints es (Some (sequence c)) (map checkpoint_of cs) = Inr ()"
    using Cons.prems by (intro Cons.IH) auto
  ultimately show ?case by (cases prev) simp_all
qed simp

lemma sorted_wrt_enumerate_filter:
  "sorted_wrt R (map f es) \<Longrightarrow> sorted_wrt R (map f (map snd (filter P (enumerate n es))))"
  by (induction es arbitrary: n) (auto simp: in_set_enumerate_eq)

lemma replay_checkpoints_eq:
  "replay_checkpoints es = map checkpoint_of (map snd
     (filter (\<lambda>(i, e). i = 0 \<or> i mod 256 = 0 \<or> i + 1 = length es) (enumerate 0 es)))"
  by (auto simp: replay_checkpoints_def)

lemma replay_checkpoints_valid:
  assumes "sorted_wrt (<) (map sequence es)"
  shows "validate_checkpoints es None (replay_checkpoints es) = Inr ()"
  unfolding replay_checkpoints_eq
  using assms sorted_wrt_enumerate_filter [OF assms]
  by (intro validate_checkpoints_of) (auto simp: in_set_enumerate_eq)

end
