(* ===== verification/Analysis.thy ===== *)
theory Analysis
  imports Store
begin

text \<open>
  \<^verbatim>\<open>crates/walaru-core/src/analysis.rs\<close>: the deterministic explanation of a failure from
  its redacted message and the trace.  \<^verbatim>\<open>Value::to_string\<close> (JSON text) is the parameter
  \<open>show_json\<close>.
\<close>

record failure_evidence =
  fe_kind :: string
  fe_label :: string
  fe_event_id :: "string option"
  fe_location :: "source_location option"
  fe_value :: json

record failure_analysis =
  summary :: string
  likely_cause :: string
  focus :: "source_location option"
  evidence :: "failure_evidence list"
  suggestions :: "string list"

section \<open>Text helpers\<close>

abbreviation ELLIPSIS :: string where "ELLIPSIS \<equiv> [CHR 0xE2, CHR 0x80, CHR 0xA6]"

definition clipped :: "string \<Rightarrow> nat \<Rightarrow> string" where
  "clipped v maximum =
     (if chars_count v \<le> maximum then v else chars_take maximum v @ ELLIPSIS)"

definition simple_type :: "string \<Rightarrow> string" where
  "simple_type v = last (split_char (CHR ''.'') v)"

definition trim_assertion_value :: "string \<Rightarrow> string" where
  "trim_assertion_value v =
     trim_by (\<lambda>g. is_whitespace g
       \<or> g \<in> {'':'', ''='', ''<'', ''['', ''('', ''.'', ''>'', '']'', '')''}) v"

definition word_byte :: "char \<Rightarrow> bool" where
  "word_byte b = (is_ascii_alphanumeric b \<or> b = CHR ''_'')"

definition eq_ignore_ascii_case :: "string \<Rightarrow> string \<Rightarrow> bool" where
  "eq_ignore_ascii_case a b = (map to_ascii_lower a = map to_ascii_lower b)"

text \<open>Whether the loop body returns at \<open>pos\<close>.\<close>

definition word_at :: "string \<Rightarrow> string \<Rightarrow> nat \<Rightarrow> bool" where
  "word_at bytes needle pos =
     (let stop = pos + length needle;
          before_is_word = 0 < pos \<and> word_byte (bytes ! (pos - 1));
          after_is_word = stop < length bytes \<and> word_byte (bytes ! stop)
      in \<not> before_is_word \<and> \<not> after_is_word
         \<and> eq_ignore_ascii_case (take (length needle) (drop pos bytes)) needle)"

function find_word_from :: "string \<Rightarrow> string \<Rightarrow> nat \<Rightarrow> nat option" where
  "find_word_from bytes needle pos =
     (if pos + length needle \<le> length bytes
      then if word_at bytes needle pos then Some pos
           else find_word_from bytes needle (Suc pos)
      else None)"
  by pat_completeness auto
termination by (relation "measure (\<lambda>(bytes, needle, pos). Suc (length bytes) - pos)") auto

declare find_word_from.simps [simp del]

definition find_ascii_word_case_insensitive :: "string \<Rightarrow> string \<Rightarrow> nat \<Rightarrow> nat option" where
  "find_ascii_word_case_insensitive haystack needle start =
     (if needle = [] then if start \<le> length haystack then Some start else None
      else find_word_from haystack needle start)"

text \<open>The earlier of the two separators; \<^verbatim>\<open>min_by_key\<close> keeps the first of equal keys.\<close>

definition find_separator :: "string \<Rightarrow> nat \<Rightarrow> (nat \<times> string) option" where
  "find_separator msg expected_start =
     (let found = List.map_filter (\<lambda>marker. map_option (\<lambda>p. (p, marker))
            (find_ascii_word_case_insensitive msg marker expected_start)) [''but was'', ''but found'']
      in min_by fst found)"

definition slice :: "string \<Rightarrow> nat \<Rightarrow> nat \<Rightarrow> string" where
  "slice s a b = take (b - a) (drop a s)"

definition assertion_mismatch :: "string \<Rightarrow> (string \<times> string) option" where
  "assertion_mismatch msg =
     Option.bind (find_ascii_word_case_insensitive msg ''expected'' 0) (\<lambda>p.
       let expected_start = p + length ''expected'' in
       Option.bind (find_separator msg expected_start) (\<lambda>(separator, marker).
         let actual_start = separator + length marker;
             expected = trim_assertion_value (slice msg expected_start separator);
             actual = trim_assertion_value (drop actual_start msg)
         in if expected \<noteq> [] \<and> actual \<noteq> [] then Some (expected, actual) else None))"

section \<open>Evidence\<close>

definition backquoted :: "string \<Rightarrow> string \<Rightarrow> string \<Rightarrow> string" where
  "backquoted before name after = before @ ''`'' @ name @ ''`'' @ after"

definition evidence_from_event :: "event \<Rightarrow> (string \<times> string \<times> json) option" where
  "evidence_from_event e =
     (let name = get_str (ev_values e) ''name'';
          value = unwrap_or (json_get (ev_values e) ''value'') JNull
      in case kind e of
        Capture \<Rightarrow> Some (''capture'', backquoted ''Captured '' (unwrap_or name ''value'') [], value)
      | Checkpoint \<Rightarrow>
          Some (''checkpoint'', backquoted ''Reached checkpoint '' (unwrap_or name ''unnamed'') [], value)
      | Note \<Rightarrow> Some (''note'', backquoted ''Note '' (unwrap_or name ''unnamed'') [],
          unwrap_or (json_get (ev_values e) ''message'') JNull)
      | SpanValue \<Rightarrow> Some (''spanValue'', backquoted ''Span captured '' (unwrap_or name ''value'') [], value)
      | SpanEnd \<Rightarrow>
          if get_str (ev_values e) ''status'' = Some ''failed''
          then Some (''failedSpan'', backquoted ''Span '' (unwrap_or name ''unnamed'') '' failed'', ev_values e)
          else None
      | Write \<Rightarrow>
          let target = (case (get_str (ev_values e) ''field'', get_i64 (ev_values e) ''index'') of
              (Some field, _) \<Rightarrow> backquoted ''field '' field []
            | (None, Some index) \<Rightarrow> ''array index '' @ show_int index
            | (None, None) \<Rightarrow> ''state'')
          in Some (''write'', ''Last observed write to '' @ target, ev_values e)
      | _ \<Rightarrow> None)"

definition actionable :: "failure_evidence \<Rightarrow> bool" where
  "actionable item = (case as_str (fe_value item) of
      Some v \<Rightarrow> \<not> starts_with v ''<redacted''
    | None \<Rightarrow> True)"

definition explicit_kind :: "string \<Rightarrow> bool" where
  "explicit_kind k = (k \<in> {''capture'', ''checkpoint'', ''spanValue'', ''failedSpan'', ''write''})"

definition explicit_or :: "(json \<Rightarrow> string) \<Rightarrow> failure_evidence list \<Rightarrow> string \<Rightarrow> string" where
  "explicit_or show_json es fallback =
     (case find (\<lambda>item. actionable item \<and> explicit_kind (fe_kind item)) es of
        None \<Rightarrow> fallback
      | Some item \<Rightarrow>
          let v = clipped (show_json (fe_value item)) 160 in
          if v = ''null'' then fe_label item @ '' immediately preceded the failure.''
          else fe_label item @ '' with value '' @ v @ '' immediately preceded the failure.'')"

definition event_evidence :: "event \<Rightarrow> (string \<times> string \<times> json) \<Rightarrow> failure_evidence" where
  "event_evidence e x = (case x of (k, label, v) \<Rightarrow>
     \<lparr>fe_kind = k, fe_label = label, fe_event_id = Some (ev_id e), fe_location = location e, fe_value = v\<rparr>)"

text \<open>The loop over the trace, newest event first.\<close>

fun collect_evidence :: "failure_evidence list \<Rightarrow> event list \<Rightarrow> failure_evidence list" where
  "collect_evidence acc [] = acc"
| "collect_evidence acc (e # es) =
     (if 7 \<le> length acc then acc
      else (case evidence_from_event e of
          None \<Rightarrow> collect_evidence acc es
        | Some x \<Rightarrow> collect_evidence (acc @ [event_evidence e x]) es))"

definition mismatch_evidence :: "failure_record \<Rightarrow> failure_evidence list" where
  "mismatch_evidence f = (case assertion_mismatch (fr_message f) of
      None \<Rightarrow> []
    | Some (expected, actual) \<Rightarrow>
        [\<lparr>fe_kind = ''assertionMismatch'', fe_label = ''Expected and observed values differ'',
          fe_event_id = fr_event_id f, fe_location = None,
          fe_value = JObject (bt_collect [(''expected'', JString expected), (''actual'', JString actual)])\<rparr>])"

fun find_map :: "('a \<Rightarrow> 'b option) \<Rightarrow> 'a list \<Rightarrow> 'b option" where
  "find_map f [] = None"
| "find_map f (x # xs) = (case f x of Some y \<Rightarrow> Some y | None \<Rightarrow> find_map f xs)"

definition or_else :: "'a option \<Rightarrow> 'a option \<Rightarrow> 'a option" where
  "or_else a b = (case a of Some x \<Rightarrow> Some x | None \<Rightarrow> b)"

definition analysis_focus :: "failure_evidence list \<Rightarrow> event list \<Rightarrow> source_location option" where
  "analysis_focus es trace_events =
     or_else (find_map fe_location (filter actionable es))
       (or_else (find_map fe_location es) (find_map location (rev trace_events)))"

text \<open>Summary, likely cause and suggestions by the class of the failure.\<close>

definition classify_failure ::
  "(json \<Rightarrow> string) \<Rightarrow> failure_record \<Rightarrow> failure_evidence list \<Rightarrow> string \<times> string \<times> string list" where
  "classify_failure show_json f es =
     (case assertion_mismatch (fr_message f) of
        Some (expected, actual) \<Rightarrow>
          (''Assertion failed: expected '' @ clipped expected 96 @ '', observed '' @ clipped actual 96 @ ''.'',
           explicit_or show_json es
             (''The assertion compared different values ('' @ expected @ '' versus '' @ actual @ '').''),
           [''Inspect the focused source line and the latest named captures before the assertion.'',
            ''Record this test in full when the fast trace does not include the state transition.''])
      | None \<Rightarrow>
          if contains_sub (exception_type f) ''NullPointerException''
          then (''A null value was dereferenced.'',
            explicit_or show_json es ''A value required by the failing code was null.'',
            [''Inspect the latest capture or write feeding the focused line.'',
             ''Add Walaru.capture at the nullable boundary if the producer is not visible.''])
          else if contains_sub (exception_type f) ''IndexOutOfBounds''
          then (''A collection or array index was outside its valid range.'',
            explicit_or show_json es (clipped (fr_message f) 256),
            [''Compare the captured index with the collection length at the focused line.'',
             ''Add a checkpoint at the loop or partition boundary when those values are absent.''])
          else (simple_type (exception_type f) @ '': '' @ clipped (fr_message f) 256,
            explicit_or show_json es (clipped (fr_message f) 256),
            [''Inspect the focused source line and recent trace evidence.'',
             ''Record this test in full for ordered reads, writes, and safely captured values.'']))"

definition analyze_failure ::
  "(json \<Rightarrow> string) \<Rightarrow> failure_record \<Rightarrow> event list \<Rightarrow> failure_analysis" where
  "analyze_failure show_json f trace_events =
     (let es = collect_evidence (mismatch_evidence f) (rev trace_events);
          (summ, cause, follow) = classify_failure show_json f es
      in \<lparr>summary = summ, likely_cause = cause, focus = analysis_focus es trace_events,
          evidence = es, suggestions = follow\<rparr>)"


section \<open>Scalar values of a clipped text\<close>

lemma chars_count_clipped: "chars_count (clipped v n) \<le> Suc n"
proof (cases "chars_count v \<le> n")
  case False
  have "well_grouped (take n (utf8_chars v) @ [ELLIPSIS])"
    by (intro well_grouped_snoc well_grouped_take well_grouped_utf8_chars)
      (simp_all add: utf8_continuation_def byte_of_def)
  from utf8_chars_concat [OF this] False show ?thesis
    by (simp add: clipped_def chars_count_def chars_take_def)
qed (simp add: clipped_def)

section \<open>The word search\<close>

lemma find_word_from_Some:
  "find_word_from bytes needle p = Some i \<longleftrightarrow>
     p \<le> i \<and> i + length needle \<le> length bytes \<and> word_at bytes needle i
     \<and> (\<forall>j. p \<le> j \<and> j < i \<longrightarrow> \<not> word_at bytes needle j)"
proof (induction bytes needle p rule: find_word_from.induct)
  case (1 bytes needle p)
  consider (found) "p + length needle \<le> length bytes" "word_at bytes needle p"
    | (go) "p + length needle \<le> length bytes" "\<not> word_at bytes needle p"
    | (out) "\<not> p + length needle \<le> length bytes" by blast
  then show ?case
  proof cases
    case found
    then have "find_word_from bytes needle p = Some p" by (simp add: find_word_from.simps [of _ _ p])
    with found show ?thesis by (metis le_neq_implies_less le_refl not_less_iff_gr_or_eq option.inject)
  next
    case go
    then have "find_word_from bytes needle p = find_word_from bytes needle (Suc p)"
      by (simp add: find_word_from.simps [of _ _ p])
    moreover have "(\<forall>j. p \<le> j \<and> j < i \<longrightarrow> \<not> word_at bytes needle j) \<longleftrightarrow>
        (\<forall>j. Suc p \<le> j \<and> j < i \<longrightarrow> \<not> word_at bytes needle j)"
      using go(2) by (metis Suc_leI Suc_leD le_neq_implies_less)
    moreover have "word_at bytes needle i \<Longrightarrow> p \<le> i \<longleftrightarrow> Suc p \<le> i"
      using go(2) by (metis Suc_leI Suc_leD le_neq_implies_less)
    ultimately show ?thesis using 1 [OF go] by auto
  next
    case out
    then show ?thesis by (simp add: find_word_from.simps [of _ _ p])
  qed
qed

lemma find_ascii_word_Some:
  "needle \<noteq> [] \<Longrightarrow> find_ascii_word_case_insensitive bytes needle p = Some i \<longleftrightarrow>
     p \<le> i \<and> i + length needle \<le> length bytes \<and> word_at bytes needle i
     \<and> (\<forall>j. p \<le> j \<and> j < i \<longrightarrow> \<not> word_at bytes needle j)"
  by (simp add: find_ascii_word_case_insensitive_def find_word_from_Some)

lemma collect_evidence_take:
  "collect_evidence acc es = acc @ take (7 - length acc)
     (concat (map (\<lambda>e. case evidence_from_event e of None \<Rightarrow> [] | Some x \<Rightarrow> [event_evidence e x]) es))"
  by (induction acc es rule: collect_evidence.induct)
    (auto split: option.splits simp: take_Cons' Suc_diff_le numeral_eq_Suc)

lemma set_map_filter: "set (List.map_filter f xs) = {y. \<exists>x \<in> set xs. f x = Some y}"
  by (induction xs) (auto simp: List.map_filter_simps split: option.splits)

section \<open>Properties\<close>

text \<open>The evidence of an explanation is bounded and recent: it is the assertion mismatch,
  if the message states one, followed by the newest relevant trace events in reverse order, at
  most seven items in all.\<close>

theorem analysis_evidence_bounded_and_newest:
  "length (evidence (analyze_failure show_json f es)) \<le> 7
   \<and> evidence (analyze_failure show_json f es) = mismatch_evidence f @
       take (7 - length (mismatch_evidence f)) (concat (map (\<lambda>e. case evidence_from_event e of
          None \<Rightarrow> [] | Some x \<Rightarrow> [event_evidence e x]) (rev es)))"
proof -
  have "length (mismatch_evidence f) \<le> 1"
    by (simp add: mismatch_evidence_def split: option.splits prod.splits)
  then show ?thesis
    by (auto simp: analyze_failure_def Let_def collect_evidence_take split: prod.splits)
qed


text \<open>An explanation never quotes a redacted capture: the likely cause is either the text
  that depends on the failure message alone, or it names one evidence item whose value is not a
  redaction marker, and quotes at most 161 characters of that value.\<close>

theorem likely_cause_not_redacted:
  "explicit_or show_json es fallback = fallback
   \<or> (\<exists>item \<in> set es. actionable item \<and> explicit_kind (fe_kind item)
        \<and> (explicit_or show_json es fallback = fe_label item @ '' immediately preceded the failure.''
           \<or> (\<exists>v. chars_count v \<le> 161 \<and> v = clipped (show_json (fe_value item)) 160
                \<and> explicit_or show_json es fallback
                  = fe_label item @ '' with value '' @ v @ '' immediately preceded the failure.'')))"
proof (cases "find (\<lambda>item. actionable item \<and> explicit_kind (fe_kind item)) es")
  case None
  then show ?thesis by (simp add: explicit_or_def)
next
  case (Some item)
  from find_Some_in [OF this] have "item \<in> set es" "actionable item" "explicit_kind (fe_kind item)" by auto
  moreover have "chars_count (clipped (show_json (fe_value item)) 160) \<le> 161"
    using chars_count_clipped [of _ 160] by simp
  ultimately show ?thesis using Some by (auto simp: explicit_or_def Let_def)
qed



end
