(* ===== verification/Verifier_Problems.thy ===== *)
theory Verifier_Problems
  imports Verifier_Data Analysis
begin

text \<open>
  \<^verbatim>\<open>crates/walaru-daemon/src/verifier.rs\<close>, worker output: the log is cut to its tail, and
  lines that name a source file and a position become bounded, workspace-relative problems.
  The model is the Unix build (\<^verbatim>\<open>cfg!(windows)\<close> is false).
\<close>

section \<open>Text\<close>

text \<open>\<^verbatim>\<open>s.rfind(p)\<close>: the last offset at which \<open>p\<close> occurs.\<close>

fun rfind_sub :: "'a list \<Rightarrow> 'a list \<Rightarrow> nat option" where
  "rfind_sub [] p = (if p = [] then Some 0 else None)"
| "rfind_sub (x # xs) p = (case rfind_sub xs p of
      Some i \<Rightarrow> Some (Suc i)
    | None \<Rightarrow> if starts_with (x # xs) p then Some 0 else None)"

text \<open>\<^verbatim>\<open>s.trim_start_matches(p)\<close> for a string pattern that is not empty.\<close>

function trim_start_matches :: "'a list \<Rightarrow> 'a list \<Rightarrow> 'a list" where
  "trim_start_matches p s =
     (if p \<noteq> [] \<and> starts_with s p then trim_start_matches p (drop (length p) s) else s)"
  by pat_completeness auto
termination
  by (relation "measure (\<lambda>(p, s). length s)") (auto simp: starts_with_iff)

declare trim_start_matches.simps [simp del]

definition to_ascii_lowercase :: "string \<Rightarrow> string" where
  "to_ascii_lowercase s = map to_ascii_lower s"

text \<open>\<^verbatim>\<open>String::from_utf8_lossy\<close>: every maximal prefix of an ill-formed sequence becomes
  U+FFFD.  \<open>scalar_len s\<close> is the length of the scalar value at the head of \<open>s\<close>, or the length of
  the ill-formed prefix.\<close>

definition cont :: "string \<Rightarrow> nat \<Rightarrow> bool" where
  "cont s i = (i < length s \<and> continuation (s ! i))"

definition scalar_len :: "string \<Rightarrow> nat + nat" where
  "scalar_len s =
     (let a = hd s in
      if byte_of a < 128 then Inr 1
      else if between_bytes 194 223 a then (if cont s 1 then Inr 2 else Inl 1)
      else if between_bytes 224 239 a then
        (if \<not> (1 < length s \<and> second_byte a (s ! 1)) then Inl 1 else if cont s 2 then Inr 3 else Inl 2)
      else if between_bytes 240 244 a then
        (if \<not> (1 < length s \<and> second_byte a (s ! 1)) then Inl 1
         else if \<not> cont s 2 then Inl 2 else if cont s 3 then Inr 4 else Inl 3)
      else Inl 1)"

lemma scalar_len_pos: "scalar_len s = Inl n \<or> scalar_len s = Inr n \<Longrightarrow> 0 < n"
  by (auto simp: scalar_len_def Let_def split: if_splits)

function from_utf8_lossy :: "string \<Rightarrow> string" where
  "from_utf8_lossy s =
     (if s = [] then []
      else (case scalar_len s of
          Inr n \<Rightarrow> take n s @ from_utf8_lossy (drop n s)
        | Inl n \<Rightarrow> [CHR 0xEF, CHR 0xBF, CHR 0xBD] @ from_utf8_lossy (drop n s)))"
  by pat_completeness auto
termination
  by (relation "measure length") (auto dest: scalar_len_pos [OF disjI1] scalar_len_pos [OF disjI2])

declare from_utf8_lossy.simps [simp del]

section \<open>The log\<close>

definition truncate_file_tail :: "string \<Rightarrow> nat \<Rightarrow> string" where
  "truncate_file_tail contents maxb =
     (if length contents \<le> maxb then contents else drop (length contents - maxb) contents)"

definition compiler_path :: "string \<Rightarrow> string" where
  "compiler_path prefix =
     (let trimmed = trim prefix in
      case rfind_sub trimmed ''file://'' of
        Some i \<Rightarrow> trim (drop (i + length ''file://'') trimmed)
      | None \<Rightarrow> (case List.find (starts_with trimmed) [''[ERROR] '', ''[WARNING] '', ''e: '', ''w: ''] of
            Some marker \<Rightarrow> trim (drop (length marker) trimmed)
          | None \<Rightarrow> trimmed))"

definition trim_quotes :: "string \<Rightarrow> string" where
  "trim_quotes s = (let q = (\<lambda>c. c = CHR 0x27 \<or> c = CHR 0x22) in rev (dropWhile q (rev (dropWhile q s))))"

definition relative_problem_path :: "string \<Rightarrow> string \<Rightarrow> string option" where
  "relative_problem_path path root_path =
     (let normalized = replace_char BACKSLASH SLASH (trim_quotes path);
          r = replace_char BACKSLASH SLASH root_path;
          root_prefix = rev (dropWhile (\<lambda>c. c = SLASH) (rev r)) @ [SLASH];
          rel = (case strip_prefix normalized root_prefix of Some v \<Rightarrow> v | None \<Rightarrow> normalized)
      in if rel = [] \<or> is_absolute rel \<or> list_ex (\<lambda>c. \<not> is_normal c) (components rel) then None
         else Some rel)"

definition positive :: "nat option \<Rightarrow> nat option" where
  "positive c = (case c of Some n \<Rightarrow> if 0 < n then Some n else None | None \<Rightarrow> None)"

text \<open>A bracketed position \<^verbatim>\<open>line,column\<close> ended by \<open>close\<close>.\<close>

definition bracketed_position :: "char \<Rightarrow> string \<Rightarrow> (nat \<times> nat option \<times> string) option" where
  "bracketed_position close rest =
     Option.bind (split_once rest [close]) (\<lambda>(pos, remainder).
       let parts = map trim (split_char (CHR '','') pos) in
       Option.bind (parse_u32 (hd parts)) (\<lambda>l.
         let col = Option.bind (if tl parts = [] then None else Some (hd (tl parts))) parse_u32 in
         if 0 < l then Some (l, positive col, remainder) else None))"

definition compiler_position :: "string \<Rightarrow> (nat \<times> nat option \<times> string) option" where
  "compiler_position v0 =
     (let v = trim_start v0 in
      case strip_prefix v ''['' of
        Some rest \<Rightarrow> bracketed_position (CHR '']'') rest
      | None \<Rightarrow> (case strip_prefix v ''('' of
          Some rest \<Rightarrow> bracketed_position (CHR '')'') rest
        | None \<Rightarrow>
            Option.bind (split_once v '':'') (\<lambda>(l, remainder0).
            Option.bind (parse_u32 (trim l)) (\<lambda>l.
              if l = 0 then None
              else (let remainder = trim_start remainder0 in
                case split_once remainder '':'' of
                  Some (candidate, rest) \<Rightarrow> (case parse_u32 (trim candidate) of
                      Some col \<Rightarrow> Some (l, if 0 < col then Some col else None, rest)
                    | None \<Rightarrow> Some (l, None, remainder))
                | None \<Rightarrow> Some (l, None, remainder))))))"

definition problem_message :: "string \<Rightarrow> string" where
  "problem_message remainder =
     chars_take 2000 (trim (trim_start_matches ''warning:'' (trim_start_matches ''error:''
       (trim (dropWhile (\<lambda>c. c = CHR '':'') (trim remainder))))))"

definition first_marker :: "string \<Rightarrow> (string \<times> nat) option" where
  "first_marker line = min_by snd (List.map_filter (\<lambda>m. map_option (Pair m) (find_sub line m))
     [''.java:'', ''.kt:'', ''.kts:''])"

definition problem_severity :: "string \<Rightarrow> string" where
  "problem_severity line =
     (if contains_sub (to_ascii_lowercase line) ''warning'' \<or> starts_with (trim_start line) ''w:''
      then ''warning'' else ''error'')"

definition parse_worker_problem :: "string \<Rightarrow> string \<Rightarrow> worker_problem option" where
  "parse_worker_problem line root_path =
     (if 16 * 1024 < length line then None
      else Option.bind (first_marker line) (\<lambda>(marker, marker_index).
        let path_end = marker_index + length marker - 1 in
        Option.bind (relative_problem_path (compiler_path (take path_end line)) root_path) (\<lambda>rel.
        Option.bind (compiler_position (drop (path_end + 1) line)) (\<lambda>(l, col, remainder).
          let m = problem_message remainder in
          Some \<lparr>wp_path = rel, wp_line = l, wp_column = col, wp_severity = problem_severity line,
            wp_message = (if m = [] then ''Compiler reported a problem'' else m)\<rparr>))))"

text \<open>The loop over the lines; \<^verbatim>\<open>unique\<close> holds every problem seen, so its keys are the problems
  themselves.  The loop stops at 256 problems.\<close>

fun collect_problems :: "string \<Rightarrow> worker_problem list \<Rightarrow> string list \<Rightarrow> worker_problem list" where
  "collect_problems root_path found [] = found"
| "collect_problems root_path found (l # ls) =
     (case parse_worker_problem l root_path of
        None \<Rightarrow> collect_problems root_path found ls
      | Some p \<Rightarrow>
          (let found' = (if p \<in> set found then found else found @ [p]) in
           if 256 \<le> length found' then found' else collect_problems root_path found' ls))"

text \<open>\<open>None\<close> is a log that cannot be read; the caller then uses no problems.\<close>

definition worker_problems :: "string option \<Rightarrow> string \<Rightarrow> worker_problem list" where
  "worker_problems log_file root_path = (case log_file of
      None \<Rightarrow> []
    | Some contents \<Rightarrow> collect_problems root_path [] (lines (from_utf8_lossy contents)))"

section \<open>Bounds\<close>

definition problem_ok :: "worker_problem \<Rightarrow> bool" where
  "problem_ok p =
     (wp_path p \<noteq> [] \<and> \<not> is_absolute (wp_path p) \<and> list_all is_normal (components (wp_path p))
      \<and> 0 < wp_line p \<and> wp_line p \<le> u32_max
      \<and> (case wp_column p of None \<Rightarrow> True | Some c \<Rightarrow> 0 < c \<and> c \<le> u32_max)
      \<and> wp_severity p \<in> {''error'', ''warning''}
      \<and> wp_message p \<noteq> [] \<and> chars_count (wp_message p) \<le> 2000)"

lemma parse_u32_le: "parse_u32 s = Some n \<Longrightarrow> n \<le> u32_max"
  unfolding parse_u32_def by (rule parse_unsigned_le)

lemma relative_problem_path_ok:
  "relative_problem_path p r = Some rel \<Longrightarrow> rel \<noteq> [] \<and> \<not> is_absolute rel \<and> list_all is_normal (components rel)"
  by (auto simp: relative_problem_path_def Let_def list_all_iff list_ex_iff split: if_splits)

lemma bracketed_position_ok:
  "bracketed_position close v = Some (l, c, r) \<Longrightarrow>
     0 < l \<and> l \<le> u32_max \<and> (case c of None \<Rightarrow> True | Some c \<Rightarrow> 0 < c \<and> c \<le> u32_max)"
  by (auto simp: bracketed_position_def positive_def Let_def bind_eq_Some_conv parse_u32_le
      split: option.splits if_splits)

lemma compiler_position_ok:
  "compiler_position v = Some (l, c, r) \<Longrightarrow>
     0 < l \<and> l \<le> u32_max \<and> (case c of None \<Rightarrow> True | Some c \<Rightarrow> 0 < c \<and> c \<le> u32_max)"
  by (auto simp: compiler_position_def Let_def bind_eq_Some_conv parse_u32_le
      split: option.splits if_splits dest: bracketed_position_ok)

lemma parse_worker_problem_ok:
  assumes "parse_worker_problem line r = Some p"
  shows "problem_ok p"
proof -
  have "\<not> 16 * 1024 < length line"
    using assms by (cases "16 * 1024 < length line") (simp_all add: parse_worker_problem_def)
  with assms obtain pre post rel l col rest where
    rel: "relative_problem_path (compiler_path pre) r = Some rel"
    and pos: "compiler_position post = Some (l, col, rest)"
    and p: "p = \<lparr>wp_path = rel, wp_line = l, wp_column = col, wp_severity = problem_severity line,
      wp_message = (if problem_message rest = [] then ''Compiler reported a problem'' else problem_message rest)\<rparr>"
    by (auto simp: parse_worker_problem_def Let_def bind_eq_Some_conv)
  have "chars_count ''Compiler reported a problem'' \<le> 2000" by code_simp
  then have "wp_message p \<noteq> [] \<and> chars_count (wp_message p) \<le> 2000"
    unfolding p problem_message_def using chars_count_take [of 2000] by simp
  with relative_problem_path_ok [OF rel] compiler_position_ok [OF pos] p show ?thesis
    by (simp add: problem_ok_def problem_severity_def)
qed

lemma collect_problems_ok:
  assumes "distinct found" "list_all problem_ok found" "length found < 256"
  shows "distinct (collect_problems r found ls) \<and> list_all problem_ok (collect_problems r found ls)
    \<and> length (collect_problems r found ls) \<le> 256"
  using assms
proof (induction ls arbitrary: found)
  case (Cons l ls)
  show ?case
  proof (cases "parse_worker_problem l r")
    case None
    with Cons.IH [OF Cons.prems] show ?thesis by simp
  next
    case (Some p)
    let ?found = "if p \<in> set found then found else found @ [p]"
    have "distinct ?found" "list_all problem_ok ?found" "length ?found \<le> 256"
      using Cons.prems parse_worker_problem_ok [OF Some] by simp_all
    with Cons.IH [of ?found] Some show ?thesis by (simp add: Let_def)
  qed
qed simp

text \<open>Whatever a build tool printed, at most 256 distinct problems are reported, and each
  names a non-empty path that stays below the workspace, a positive 32-bit line, a positive
  column if any, a known severity and a non-empty message of at most 2000 characters.\<close>

theorem worker_problems_bounded_and_relative:
  "length (worker_problems log_file root_path) \<le> 256
   \<and> distinct (worker_problems log_file root_path)
   \<and> list_all problem_ok (worker_problems log_file root_path)"
  using collect_problems_ok [of "[]"] by (auto simp: worker_problems_def split: option.splits)

lemma truncate_file_tail_bounded:
  "length (truncate_file_tail s n) \<le> n" "\<exists>p. s = p @ truncate_file_tail s n"
  by (auto simp: truncate_file_tail_def intro: exI [of _ "take (length s - n) s"] exI [of _ "[]"])

end
