(* ===== verification/Mirror.thy ===== *)
theory Mirror
  imports Overlay Workspace Verifier_Problems "HOL-Library.Sublist"
begin

text \<open>
  \<^verbatim>\<open>crates/walaru-daemon/src/overlay.rs\<close>, mirroring: the private shadow of a worktree in which a
  live verification runs.  Source files are copied incrementally, files that disappeared are
  removed, and the unsaved documents are written over the copy.
\<close>

section \<open>The file system below the session directory\<close>

text \<open>A path is its list of names, starting at the session directory, which exists.  A file has its
  bytes, its modification time and its permissions.  Links are leaves: the model does not follow a
  link that a build put into the mirror.\<close>

datatype mirror_entry = EFile string nat nat | EDirectory | ELink

type_synonym mirror_fs = "string list \<Rightarrow> mirror_entry option"

datatype fs_error = NotFound | OtherError

definition blocks :: "mirror_entry option \<Rightarrow> bool" where
  "blocks e = (case e of Some (EFile _ _ _) \<Rightarrow> True | Some ELink \<Rightarrow> True | _ \<Rightarrow> False)"

text \<open>\<^verbatim>\<open>symlink_metadata\<close>.\<close>

definition stat :: "mirror_fs \<Rightarrow> string list \<Rightarrow> fs_error + mirror_entry" where
  "stat fs p =
     (if p = [] then Inr EDirectory
      else if list_ex (\<lambda>i. blocks (fs (take i p))) [1..<length p] then Inl OtherError
      else (case fs p of None \<Rightarrow> Inl NotFound | Some e \<Rightarrow> Inr e))"

text \<open>The changes; \<open>None\<close> is an I/O error.\<close>

definition create_dir_all :: "mirror_fs \<Rightarrow> string list \<Rightarrow> mirror_fs option" where
  "create_dir_all fs p =
     (if list_ex (\<lambda>i. blocks (fs (take i p))) [1..<Suc (length p)] then None
      else Some (\<lambda>q. if q \<noteq> [] \<and> prefix q p then Some EDirectory else fs q))"

definition remove_dir_all :: "mirror_fs \<Rightarrow> string list \<Rightarrow> mirror_fs" where
  "remove_dir_all fs p = (\<lambda>q. if prefix p q then None else fs q)"

definition remove_destination :: "mirror_fs \<Rightarrow> string list \<Rightarrow> mirror_fs option" where
  "remove_destination fs p = (case stat fs p of
      Inr EDirectory \<Rightarrow> Some (remove_dir_all fs p)
    | Inr _ \<Rightarrow> Some (fs(p := None))
    | Inl NotFound \<Rightarrow> Some fs
    | Inl OtherError \<Rightarrow> None)"

definition ensure_directory :: "mirror_fs \<Rightarrow> string list \<Rightarrow> mirror_fs option" where
  "ensure_directory fs p = (case stat fs p of
      Inr EDirectory \<Rightarrow> Some fs
    | Inr _ \<Rightarrow> Option.bind (remove_destination fs p) (\<lambda>fs'. create_dir_all fs' p)
    | Inl NotFound \<Rightarrow> create_dir_all fs p
    | Inl OtherError \<Rightarrow> None)"

text \<open>A new file in an existing directory.\<close>

definition write_file :: "mirror_fs \<Rightarrow> string list \<Rightarrow> string \<Rightarrow> nat \<Rightarrow> nat \<Rightarrow> mirror_fs option" where
  "write_file fs p bytes mtime perms =
     (if stat fs (butlast p) = Inr EDirectory \<and> p \<noteq> [] \<and> fs p \<noteq> Some EDirectory
      then Some (fs(p := Some (EFile bytes mtime perms))) else None)"

section \<open>Manifest, sources and environment\<close>

definition MAX_MIRROR_MANIFEST_BYTES :: nat where "MAX_MIRROR_MANIFEST_BYTES = 64 * 1024 * 1024"

record mirror_manifest =
  mm_schema_version :: nat
  mm_paths :: "string list"
  mm_digests :: "(string, string) btree"
  mm_overlay_paths :: "string list"

definition manifest_new :: mirror_manifest where
  "manifest_new = \<lparr>mm_schema_version = 1, mm_paths = [], mm_digests = [], mm_overlay_paths = []\<rparr>"

text \<open>The source tree: bytes (\<open>None\<close> when unreadable), modification time and permissions of a file.\<close>

datatype source_node =
    SourceFile "string option" nat nat
  | SourceDirectory "(string \<times> source_node) list option"
  | SourceLink
  | SourceOther

text \<open>\<open>me_git_dir p\<close> says that \<^verbatim>\<open>.git\<close> exists in \<open>p\<close>, \<open>me_tracked\<close> and \<open>me_listed\<close> are the two runs of git,
  \<open>me_tree p\<close> is the tree at \<open>p\<close>.  \<open>me_cancelled k\<close> is the answer to the \<open>k\<close>-th cancellation check.
  Written files have the time \<open>me_now\<close> and the permissions \<open>me_perms\<close>.\<close>

record mirror_env =
  me_hashes :: hashes
  me_workspace :: "string list"
  me_git_dir :: "string list \<Rightarrow> bool"
  me_tracked :: "string list \<Rightarrow> string list \<Rightarrow> (bool \<times> string) option"
  me_listed :: "string list \<Rightarrow> (bool \<times> string) option"
  me_tree :: "string list \<Rightarrow> source_node"
  me_cancelled :: "nat \<Rightarrow> bool"
  me_now :: nat
  me_perms :: nat
  me_writable :: "nat \<Rightarrow> bool"
  me_encode :: "mirror_manifest \<Rightarrow> string option"
  me_decode :: "string \<Rightarrow> mirror_manifest option"
  me_decode_paths :: "string \<Rightarrow> string list option"

text \<open>A preparation threads the files, the number of cancellation checks and the new manifest; it
  keeps them when it fails.\<close>

record mirror_state =
  mfs :: mirror_fs
  checks :: nat
  current :: mirror_manifest

type_synonym 'a mirroring = "mirror_state \<Rightarrow> mirror_state \<times> (overlay_error + 'a)"

definition mreturn :: "'a \<Rightarrow> 'a mirroring" where "mreturn x st = (st, Inr x)"

definition mfail :: "overlay_error \<Rightarrow> 'a mirroring" where "mfail e st = (st, Inl e)"

definition mbind :: "'a mirroring \<Rightarrow> ('a \<Rightarrow> 'b mirroring) \<Rightarrow> 'b mirroring" where
  "mbind m f st = (case m st of (st', Inl e) \<Rightarrow> (st', Inl e) | (st', Inr x) \<Rightarrow> f x st')"

text \<open>A change of the files.\<close>

definition mchange :: "(mirror_fs \<Rightarrow> mirror_fs option) \<Rightarrow> unit mirroring" where
  "mchange f st = (case f (mfs st) of
      None \<Rightarrow> (st, Inl OverlayIo) | Some fs \<Rightarrow> (st\<lparr>mfs := fs\<rparr>, Inr ()))"

fun mforeach :: "('x \<Rightarrow> unit mirroring) \<Rightarrow> 'x list \<Rightarrow> unit mirroring" where
  "mforeach f [] = mreturn ()"
| "mforeach f (x # xs) = mbind (f x) (\<lambda>_. mforeach f xs)"

definition check_cancelled :: "mirror_env \<Rightarrow> unit mirroring" where
  "check_cancelled env st =
     (st\<lparr>checks := checks st + 1\<rparr>, if me_cancelled env (checks st) then Inl Cancelled else Inr ())"

section \<open>Files\<close>

definition CHUNK :: nat where "CHUNK = 64 * 1024"

text \<open>The reading loops, with a check before every read: the checks made, the bytes read and whether
  the loop was cancelled.\<close>

function read_chunks :: "(nat \<Rightarrow> bool) \<Rightarrow> nat \<Rightarrow> string \<Rightarrow> string \<Rightarrow> nat \<times> string \<times> bool" where
  "read_chunks stop k out rest =
     (if stop k then (k + 1, out, True)
      else if rest = [] then (k + 1, out, False)
      else read_chunks stop (k + 1) (out @ take CHUNK rest) (drop CHUNK rest))"
  by pat_completeness auto
termination
  by (relation "measure (\<lambda>(_, _, _, rest). length rest)") (auto simp: CHUNK_def)

declare read_chunks.simps [simp del]

definition file_digest :: "mirror_env \<Rightarrow> string option \<Rightarrow> string mirroring" where
  "file_digest env contents st = (case contents of
      None \<Rightarrow> (st, Inl OverlayIo)
    | Some bytes \<Rightarrow>
        (case read_chunks (me_cancelled env) (checks st) [] bytes of (k, out, stopped) \<Rightarrow>
          (st\<lparr>checks := k\<rparr>, if stopped then Inl Cancelled else Inr (digest (me_hashes env) out))))"

definition destination_matches :: "mirror_env \<Rightarrow> string \<Rightarrow> nat \<Rightarrow> string list \<Rightarrow> string \<Rightarrow> bool mirroring" where
  "destination_matches env bytes mtime dest source_digest st = (case stat (mfs st) dest of
      Inr (EFile dest_bytes dest_mtime _) \<Rightarrow>
        if length bytes \<noteq> length dest_bytes then (st, Inr False)
        else if mtime = dest_mtime then (st, Inr True)
        else mbind (file_digest env (Some dest_bytes)) (\<lambda>d. mreturn (d = source_digest)) st
    | _ \<Rightarrow> (st, Inr False))"

text \<open>The copy keeps the permissions, and the modification time where the file can be reopened.\<close>

definition copy_input :: "mirror_env \<Rightarrow> string \<Rightarrow> nat \<Rightarrow> nat \<Rightarrow> string list \<Rightarrow> unit mirroring" where
  "copy_input env bytes mtime perms dest =
     mbind (mchange (\<lambda>fs. remove_destination fs dest)) (\<lambda>_ st.
       (case read_chunks (me_cancelled env) (checks st) [] bytes of (k, out, stopped) \<Rightarrow>
         (let time = (if \<not> stopped \<and> me_writable env perms then mtime else me_now env);
              mode = (if stopped then me_perms env else perms) in
          case write_file (mfs st) dest out time mode of
            None \<Rightarrow> (st, Inl OverlayIo)
          | Some fs \<Rightarrow> (st\<lparr>mfs := fs, checks := k\<rparr>, if stopped then Inl Cancelled else Inr ()))))"

definition record_file :: "string \<Rightarrow> string \<Rightarrow> unit mirroring" where
  "record_file rel d st = (st\<lparr>current := (current st)
     \<lparr>mm_paths := bs_insert rel (mm_paths (current st)),
      mm_digests := bt_insert rel d (mm_digests (current st))\<rparr>\<rparr>, Inr ())"

abbreviation MIRROR :: string where "MIRROR \<equiv> ''mirror''"

definition mirror_file ::
  "mirror_env \<Rightarrow> mirror_manifest \<Rightarrow> string list \<Rightarrow> string \<Rightarrow> string option \<Rightarrow> nat \<Rightarrow> nat \<Rightarrow> unit mirroring" where
  "mirror_file env previous p rel contents mtime perms =
     (let dest = MIRROR # p; bytes = unwrap_or contents [] in
      mbind (check_cancelled env) (\<lambda>_.
      mbind (file_digest env contents) (\<lambda>d.
      mbind (if bt_get (mm_digests previous) rel = Some d \<and> rel \<notin> set (mm_overlay_paths previous)
             then destination_matches env bytes mtime dest d else mreturn False) (\<lambda>reusable.
      mbind (if reusable then mreturn ()
             else mbind (mchange (\<lambda>fs. create_dir_all fs (butlast dest)))
               (\<lambda>_. copy_input env bytes mtime perms dest)) (\<lambda>_.
        record_file rel d)))))"

section \<open>The files to mirror\<close>

text \<open>A mirroring walks the source tree in a fixed order: a cancellation check per entry, directories
  to ensure and files to copy.  The source lies outside the session directory, so the order of
  visits depends on the source alone.\<close>

datatype mirror_visit =
    VisitCheck
  | VisitDirectory "string list"
  | VisitFile "string list" string "string option" nat nat
  | VisitError overlay_error

text \<open>\<^verbatim>\<open>overlay::ignored_directory\<close>, which also skips every name that starts with \<^verbatim>\<open>.gradle\<close>.\<close>

definition mirror_ignored :: "string \<Rightarrow> bool" where
  "mirror_ignored name = (starts_with name ''.gradle''
     \<or> name \<in> {''.git'', ''.idea'', ''.kotlin'', ''build'', ''dist'', ''out'', ''target'', ''node_modules''})"

text \<open>\<^verbatim>\<open>to_string_lossy().replace('\\', "/")\<close>.\<close>

definition lossy_relative :: "string list \<Rightarrow> string" where
  "lossy_relative p = replace_char BACKSLASH SLASH (from_utf8_lossy (join [SLASH] p))"

function walk_directory :: "string list \<Rightarrow> source_node \<Rightarrow> mirror_visit list"
  and walk_entries :: "string list \<Rightarrow> (string \<times> source_node) list \<Rightarrow> mirror_visit list" where
  "walk_directory dir (SourceDirectory (Some es)) = walk_entries dir (sort_key fst es)"
| "walk_directory dir (SourceDirectory None) = [VisitError OverlayIo]"
| "walk_directory dir (SourceFile c m p) = [VisitError OverlayIo]"
| "walk_directory dir SourceLink = [VisitError OverlayIo]"
| "walk_directory dir SourceOther = [VisitError OverlayIo]"
| "walk_entries dir [] = []"
| "walk_entries dir ((name, n) # es) =
     (let path = dir @ [name] in
      VisitCheck #
      (case n of
         SourceLink \<Rightarrow> []
       | SourceDirectory _ \<Rightarrow>
           if mirror_ignored name then [] else VisitDirectory path # walk_directory path n
       | SourceFile c m p \<Rightarrow> [VisitFile path (lossy_relative path) c m p]
       | SourceOther \<Rightarrow> [])
      @ walk_entries dir es)"
  by pat_completeness auto
termination
proof (relation "measure (\<lambda>x. case x of Inl (_, n) \<Rightarrow> Suc (2 * size n)
    | Inr (_, es) \<Rightarrow> Suc (2 * sum_list (map (\<lambda>e. Suc (size (snd e))) es)))"; (simp; fail)?)
  fix dir :: "string list" and es :: "(string \<times> source_node) list"
  have "sum_list (map (\<lambda>e. Suc (size (snd e))) (sort_key fst es))
      = sum_list (map (\<lambda>e. Suc (size (snd e))) es)"
    by (simp only: sum_mset_sum_list [symmetric] mset_map mset_sort)
  also have "\<dots> < size (SourceDirectory (Some es))"
    by (induction es) auto
  finally show "(Inr (dir, sort_key fst es), Inl (dir, SourceDirectory (Some es))) \<in>
     measure (\<lambda>x. case x of Inl (_, n) \<Rightarrow> Suc (2 * size n)
    | Inr (_, es) \<Rightarrow> Suc (2 * sum_list (map (\<lambda>e. Suc (size (snd e))) es)))"
    by simp
qed

text \<open>The names of \<^verbatim>\<open>path_from_slashes\<close> as the operating system reads them: a dot stands for the
  directory it is in.\<close>

definition names_of :: "string \<Rightarrow> string list" where
  "names_of v = filter (\<lambda>s. s \<noteq> ''.'' \<and> s \<noteq> []) (split_char SLASH v)"

fun node_at :: "source_node \<Rightarrow> string list \<Rightarrow> source_node option" where
  "node_at n [] = Some n"
| "node_at (SourceDirectory (Some es)) (x # xs) = Option.bind (map_of es x) (\<lambda>n. node_at n xs)"
| "node_at _ (x # xs) = None"

text \<open>One path of \<^verbatim>\<open>git ls-files -z\<close>.\<close>

definition visit_listed :: "source_node \<Rightarrow> string \<Rightarrow> mirror_visit list" where
  "visit_listed tree bytes =
     VisitCheck # (if bytes = [] then []
      else (let rel = replace_char BACKSLASH SLASH (from_utf8_lossy bytes) in
        case validate_relative_path rel of
          Inl e \<Rightarrow> [VisitError e]
        | Inr _ \<Rightarrow> (case node_at tree (names_of rel) of
              Some (SourceFile c m p) \<Rightarrow> [VisitFile (names_of rel) rel c m p]
            | _ \<Rightarrow> [])))"

definition visit :: "mirror_env \<Rightarrow> mirror_manifest \<Rightarrow> mirror_visit \<Rightarrow> unit mirroring" where
  "visit env previous v = (case v of
      VisitCheck \<Rightarrow> check_cancelled env
    | VisitDirectory p \<Rightarrow> mchange (\<lambda>fs. ensure_directory fs (MIRROR # p))
    | VisitFile p rel c m pm \<Rightarrow> mirror_file env previous p rel c m pm
    | VisitError e \<Rightarrow> mfail e)"

definition mirror_directory :: "mirror_env \<Rightarrow> source_node \<Rightarrow> mirror_manifest \<Rightarrow> unit mirroring" where
  "mirror_directory env tree previous = mforeach (visit env previous) (walk_directory [] tree)"

definition listed_visits :: "source_node \<Rightarrow> string \<Rightarrow> mirror_visit list" where
  "listed_visits tree out = concat (map (visit_listed tree) (split_char NUL out))"

definition mirror_repository :: "mirror_env \<Rightarrow> string list \<Rightarrow> source_node \<Rightarrow> mirror_manifest \<Rightarrow> unit mirroring" where
  "mirror_repository env source_root tree previous =
     mbind (check_cancelled env) (\<lambda>_.
     (case me_listed env source_root of
        None \<Rightarrow> mfail OverlayIo
      | Some (ok, out) \<Rightarrow>
          mbind (check_cancelled env) (\<lambda>_.
            if \<not> ok then mfail OverlayIo else mforeach (visit env previous) (listed_visits tree out))))"

fun ancestors :: "string list \<Rightarrow> string list list" where
  "ancestors p = (if p = [] then [[]] else p # ancestors (butlast p))"

declare ancestors.simps [simp del]

definition repository_root :: "mirror_env \<Rightarrow> string list option" where
  "repository_root env = (case List.find (me_git_dir env) (ancestors (me_workspace env)) of
      None \<Rightarrow> None
    | Some candidate \<Rightarrow>
        if candidate = me_workspace env then Some candidate
        else (case me_tracked env candidate (drop (length candidate) (me_workspace env)) of
            None \<Rightarrow> None
          | Some (ok, out) \<Rightarrow> if ok \<and> out \<noteq> [] then Some candidate else None))"

section \<open>The manifest of the mirror\<close>

abbreviation MANIFEST :: "string list" where "MANIFEST \<equiv> [''mirrored-files.json'']"
abbreviation MANIFEST_TMP :: "string list" where "MANIFEST_TMP \<equiv> [''mirrored-files.json.tmp'']"
abbreviation PREPARING :: "string list" where "PREPARING \<equiv> [''mirror-preparing'']"

definition path_exists :: "mirror_fs \<Rightarrow> string list \<Rightarrow> bool" where
  "path_exists fs p = (case stat fs p of Inr _ \<Rightarrow> True | Inl _ \<Rightarrow> False)"

definition decode_manifest :: "mirror_env \<Rightarrow> string \<Rightarrow> mirror_manifest option" where
  "decode_manifest env bytes = (case me_decode env bytes of
      Some m \<Rightarrow> if mm_schema_version m = 1 then Some m
        else map_option (\<lambda>ps. manifest_new\<lparr>mm_paths := ps\<rparr>) (me_decode_paths env bytes)
    | None \<Rightarrow> map_option (\<lambda>ps. manifest_new\<lparr>mm_paths := ps\<rparr>) (me_decode_paths env bytes))"

definition read_mirror_manifest :: "mirror_env \<Rightarrow> mirror_manifest option mirroring" where
  "read_mirror_manifest env st = (case stat (mfs st) MANIFEST of
      Inl NotFound \<Rightarrow> (st, Inr None)
    | Inl OtherError \<Rightarrow> (st, Inl OverlayIo)
    | Inr (EFile bytes _ _) \<Rightarrow>
        (st, Inr (if MAX_MIRROR_MANIFEST_BYTES < length bytes then None else decode_manifest env bytes))
    | Inr _ \<Rightarrow> (st, Inl OverlayIo))"

definition rename_file :: "mirror_fs \<Rightarrow> string list \<Rightarrow> string list \<Rightarrow> mirror_fs option" where
  "rename_file fs p q = (if fs q = Some EDirectory then None else Some (fs(q := fs p, p := None)))"

definition write_mirror_manifest :: "mirror_env \<Rightarrow> mirror_manifest \<Rightarrow> unit mirroring" where
  "write_mirror_manifest env m =
     (case me_encode env m of
        None \<Rightarrow> mfail OverlayJson
      | Some bytes \<Rightarrow>
          if MAX_MIRROR_MANIFEST_BYTES < length bytes then mfail OverlayIo
          else mbind (mchange (\<lambda>fs. remove_destination fs MANIFEST_TMP)) (\<lambda>_.
               mbind (mchange (\<lambda>fs. write_file fs MANIFEST_TMP bytes (me_now env) (me_perms env))) (\<lambda>_.
                 mchange (\<lambda>fs. rename_file fs MANIFEST_TMP MANIFEST))))"

section \<open>Preparing the mirror\<close>

text \<open>The manifest the mirror is trusted with; a mirror whose preparation did not finish, or whose
  manifest is lost, is removed.\<close>

definition open_mirror :: "mirror_env \<Rightarrow> mirror_manifest mirroring" where
  "open_mirror env st =
     mbind (if path_exists (mfs st) PREPARING then mreturn None else read_mirror_manifest env) (\<lambda>found.
       (case found of
          Some m \<Rightarrow> mreturn m
        | None \<Rightarrow>
            mbind (\<lambda>st. if path_exists (mfs st) [MIRROR] then mchange (\<lambda>fs. remove_destination fs [MIRROR]) st
                        else (st, Inr ())) (\<lambda>_.
            mbind (mchange (\<lambda>fs. remove_destination fs MANIFEST)) (\<lambda>_. mreturn manifest_new)))) st"

definition mark_preparing :: "mirror_env \<Rightarrow> unit mirroring" where
  "mark_preparing env =
     mbind (mchange (\<lambda>fs. remove_destination fs PREPARING)) (\<lambda>_.
       mchange (\<lambda>fs. write_file fs PREPARING [] (me_now env) (me_perms env)))"

definition record_overlay :: "mirror_env \<Rightarrow> string list \<Rightarrow> overlay_document \<Rightarrow> unit mirroring" where
  "record_overlay env below_root d =
     mbind (check_cancelled env) (\<lambda>_ st.
       (let rel = lossy_relative (below_root @ split_char SLASH (doc_path d)) in
        (st\<lparr>current := (current st)\<lparr>mm_paths := bs_insert rel (mm_paths (current st)),
           mm_overlay_paths := bs_insert rel (mm_overlay_paths (current st))\<rparr>\<rparr>, Inr ())))"

definition remove_if_file :: "string list \<Rightarrow> unit mirroring" where
  "remove_if_file target st = (case stat (mfs st) target of
      Inr (EFile _ _ _) \<Rightarrow> (st\<lparr>mfs := (mfs st)(target := None)\<rparr>, Inr ())
    | Inr ELink \<Rightarrow> (st\<lparr>mfs := (mfs st)(target := None)\<rparr>, Inr ())
    | _ \<Rightarrow> (st, Inr ()))"

definition remove_stale :: "mirror_env \<Rightarrow> string \<Rightarrow> unit mirroring" where
  "remove_stale env removed =
     mbind (check_cancelled env) (\<lambda>_. remove_if_file (MIRROR # names_of removed))"

definition write_document :: "mirror_env \<Rightarrow> string list \<Rightarrow> overlay_document \<Rightarrow> unit mirroring" where
  "write_document env below_root d =
     (let target = MIRROR # below_root @ names_of (doc_path d) in
      mbind (check_cancelled env) (\<lambda>_.
      mbind (mchange (\<lambda>fs. create_dir_all fs (butlast target))) (\<lambda>_.
      mbind (mchange (\<lambda>fs. remove_destination fs target)) (\<lambda>_.
        mchange (\<lambda>fs. write_file fs target (doc_content d) (me_now env) (me_perms env))))))"

text \<open>The mirror itself, from the trusted manifest on.\<close>

definition fill_mirror :: "mirror_env \<Rightarrow> overlay_request \<Rightarrow> mirror_manifest \<Rightarrow> string list mirroring" where
  "fill_mirror env request previous =
     (let repository = repository_root env;
          source_root = (case repository of None \<Rightarrow> me_workspace env | Some r \<Rightarrow> r);
          below_root = drop (length source_root) (me_workspace env);
          tree = me_tree env source_root in
      mbind (mchange (\<lambda>fs. create_dir_all fs (MIRROR # below_root))) (\<lambda>_.
      mbind (if repository \<noteq> None then mirror_repository env source_root tree previous
             else mirror_directory env tree previous) (\<lambda>_.
      mbind (mforeach (record_overlay env below_root) (documents request)) (\<lambda>_.
      mbind (\<lambda>st. mforeach (remove_stale env)
          (filter (\<lambda>p. p \<notin> set (mm_paths (current st))) (mm_paths previous)) st) (\<lambda>_.
      mbind (mforeach (write_document env below_root) (documents request)) (\<lambda>_.
        mreturn (MIRROR # below_root)))))))"

definition prepare_cancellable :: "mirror_env \<Rightarrow> overlay_request \<Rightarrow> string list mirroring" where
  "prepare_cancellable env request =
     (case validate request of
        Inl e \<Rightarrow> mfail e
      | Inr _ \<Rightarrow>
          mbind (check_cancelled env) (\<lambda>_.
          mbind (open_mirror env) (\<lambda>previous.
          mbind (mark_preparing env) (\<lambda>_.
          mbind (\<lambda>st. (st\<lparr>current := manifest_new\<rparr>, Inr ())) (\<lambda>_.
          mbind (fill_mirror env request previous) (\<lambda>r.
          mbind (check_cancelled env) (\<lambda>_.
          mbind (\<lambda>st. write_mirror_manifest env (current st) st) (\<lambda>_.
          mbind (mchange (\<lambda>fs. if path_exists fs PREPARING then Some (fs(PREPARING := None)) else None)) (\<lambda>_.
            mreturn r)))))))))"

end
