(* ===== verification/Mirror_Exact.thy ===== *)
theory Mirror_Exact
  imports Mirror
begin

text \<open>
  What a preparation leaves: the mirror holds the source files and the documents exactly, whatever
  it held before, as long as a trusted manifest tells the truth; and the manifest it leaves does.
\<close>

section \<open>The monad\<close>

lemma mbind_Inr: "mbind m f st = (st', Inr y) \<longleftrightarrow> (\<exists>st1 x. m st = (st1, Inr x) \<and> f x st1 = (st', Inr y))"
  by (auto simp: mbind_def split: prod.splits sum.splits)

lemma mbind_InrE:
  assumes "mbind m f st = (st', Inr y)"
  obtains st1 x where "m st = (st1, Inr x)" "f x st1 = (st', Inr y)"
  using assms by (auto simp: mbind_Inr)

lemma mchange_Inr: "mchange f st = (st', Inr u) \<longleftrightarrow> (\<exists>fs. f (mfs st) = Some fs \<and> st' = st\<lparr>mfs := fs\<rparr>)"
  by (auto simp: mchange_def split: option.splits)

lemma mreturn_Inr [simp]: "mreturn x st = (st', Inr y) \<longleftrightarrow> st' = st \<and> y = x"
  by (auto simp: mreturn_def)

lemma mfail_Inr [simp]: "mfail e st \<noteq> (st', Inr y)"
  by (simp add: mfail_def)

lemma check_cancelled_Inr: "check_cancelled env st = (st', Inr u) \<Longrightarrow> mfs st' = mfs st \<and> current st' = current st"
  by (auto simp: check_cancelled_def)

section \<open>The file operations\<close>

lemma blocks_simps [simp]: "\<not> blocks None" "\<not> blocks (Some EDirectory)" "blocks (Some ELink)" "blocks (Some (EFile b t x))"
  by (simp_all add: blocks_def)

lemma create_dir_all_Some:
  assumes "create_dir_all fs p = Some fs'"
  shows "fs' = (\<lambda>q. if q \<noteq> [] \<and> prefix q p then Some EDirectory else fs q)"
    "q \<noteq> [] \<Longrightarrow> prefix q p \<Longrightarrow> \<not> blocks (fs q)"
proof -
  have free: "\<not> list_ex (\<lambda>i. blocks (fs (take i p))) [1..<Suc (length p)]"
    using assms by (cases "list_ex (\<lambda>i. blocks (fs (take i p))) [1..<Suc (length p)]") (simp_all only: create_dir_all_def if_True option.distinct not_False_eq_True)
  then have fs': "fs' = (\<lambda>q. if q \<noteq> [] \<and> prefix q p then Some EDirectory else fs q)"
    using assms by (simp only: create_dir_all_def if_False option.inject)
  show "fs' = (\<lambda>q. if q \<noteq> [] \<and> prefix q p then Some EDirectory else fs q)" by (rule fs')
  assume q: "q \<noteq> []" "prefix q p"
  then obtain z where p: "p = q @ z" by (auto simp: prefix_def)
  have "length q \<in> set [1..<Suc (length p)]" using q(1) p by (auto simp: Suc_le_eq)
  then have "\<not> blocks (fs (take (length q) p))" using free unfolding list_ex_iff by blast
  then show "\<not> blocks (fs q)" by (simp add: p)
qed

lemma create_dir_all_effect:
  assumes "create_dir_all fs p = Some fs'"
  shows "blocks (fs r) \<Longrightarrow> fs' r = fs r" "blocks (fs' r) \<Longrightarrow> fs r = fs' r"
  using create_dir_all_Some(2) [OF assms, of r] by (auto simp: create_dir_all_Some(1) [OF assms] split: if_splits)

lemma stat_file: "stat fs p = Inr e \<Longrightarrow> p \<noteq> [] \<Longrightarrow> fs p = Some e"
  by (auto simp: stat_def split: if_splits option.splits)

lemma remove_destination_effect:
  assumes "remove_destination fs p = Some fs'"
  shows "\<not> prefix p r \<Longrightarrow> fs' r = fs r" "fs' r \<noteq> None \<Longrightarrow> fs r = fs' r"
  using assms
  by (auto simp: remove_destination_def remove_dir_all_def split: sum.splits mirror_entry.splits fs_error.splits if_splits)

lemma ensure_directory_Some:
  assumes "ensure_directory fs p = Some fs'" "p \<noteq> []"
  obtains "fs' = fs" | "create_dir_all fs p = Some fs'" | "create_dir_all (fs(p := None)) p = Some fs'"
proof (cases "stat fs p")
  case (Inl e)
  then show thesis using assms(1) that by (cases e) (auto simp: ensure_directory_def)
next
  case (Inr e)
  then show thesis using assms(1) that
    by (cases e) (auto simp: ensure_directory_def remove_destination_def)
qed

lemma ensure_directory_effect:
  assumes "ensure_directory fs p = Some fs'" "p \<noteq> []"
  shows "blocks (fs r) \<Longrightarrow> r \<noteq> p \<Longrightarrow> fs' r = fs r" "blocks (fs' r) \<Longrightarrow> fs r = fs' r"
proof -
  show "blocks (fs r) \<Longrightarrow> r \<noteq> p \<Longrightarrow> fs' r = fs r"
    using ensure_directory_Some [OF assms] create_dir_all_effect(1) [of fs p fs' r]
      create_dir_all_effect(1) [of "fs(p := None)" p fs' r] by (metis fun_upd_other)
  show "blocks (fs' r) \<Longrightarrow> fs r = fs' r"
    using ensure_directory_Some [OF assms] create_dir_all_effect(2) [of fs p fs' r]
      create_dir_all_effect(2) [of "fs(p := None)" p fs' r] by (metis blocks_simps(1) fun_upd_apply)
qed

lemma write_file_effect: "write_file fs p b t x = Some fs' \<Longrightarrow> fs' = fs(p := Some (EFile b t x))"
  by (auto simp: write_file_def split: if_splits)

lemma read_chunks_all: "read_chunks stop k out rest = (k', out', False) \<Longrightarrow> out' = out @ rest"
proof (induction stop k out rest rule: read_chunks.induct)
  case (1 stop k out rest)
  from 1(2) show ?case
    using 1(1) by (simp add: read_chunks.simps [of stop k out rest] split: if_splits)
qed

lemma file_digest_Inr:
  assumes "file_digest env c st = (st', Inr d)"
  obtains bytes where "c = Some bytes" "d = digest (me_hashes env) bytes" "mfs st' = mfs st" "current st' = current st"
  using assms read_chunks_all
  by (fastforce simp: file_digest_def split: option.splits prod.splits if_splits)

lemma destination_matches_Inr:
  assumes "destination_matches env bytes m dest d st = (st', Inr b)"
  shows "mfs st' = mfs st \<and> current st' = current st \<and> (b \<longrightarrow> (\<exists>b t x. stat (mfs st) dest = Inr (EFile b t x)))"
  using assms
  by (auto simp: destination_matches_def mbind_Inr elim!: file_digest_Inr
      split: sum.splits mirror_entry.splits if_splits)

lemma copy_input_Inr:
  assumes "copy_input env bytes m pm dest st = (st', Inr u)"
  shows "current st' = current st \<and> (\<exists>t x. mfs st' dest = Some (EFile bytes t x))
    \<and> (\<forall>r. \<not> prefix dest r \<longrightarrow> mfs st' r = mfs st r) \<and> (\<forall>r. mfs st' r \<noteq> None \<and> r \<noteq> dest \<longrightarrow> mfs st r = mfs st' r)"
proof -
  obtain fs1 where r: "remove_destination (mfs st) dest = Some fs1"
    using assms by (cases "remove_destination (mfs st) dest") (simp_all add: copy_input_def mbind_def mchange_def)
  obtain k out stopped where c: "read_chunks (me_cancelled env) (checks st) [] bytes = (k, out, stopped)"
    by (metis prod_cases3)
  obtain t x fs2 where w: "write_file fs1 dest out t x = Some fs2" and st': "st' = st\<lparr>mfs := fs2, checks := k\<rparr>" "\<not> stopped"
    using assms r c by (simp add: copy_input_def mbind_def mchange_def Let_def split: option.splits if_splits)
  have "out = bytes" using read_chunks_all c st'(2) by fastforce
  moreover have "mfs st' = fs1(dest := Some (EFile out t x))" using write_file_effect [OF w] st' by simp
  ultimately show ?thesis
    using remove_destination_effect [OF r] st' by auto
qed

section \<open>One file\<close>

text \<open>What mirroring a file does: the destination holds its bytes, or a file that the previous
  manifest vouches for; other files stay, except below a directory that gives way to the file.\<close>

definition vouched :: "mirror_env \<Rightarrow> mirror_manifest \<Rightarrow> string \<Rightarrow> string \<Rightarrow> bool" where
  "vouched env previous rel bytes =
     (bt_get (mm_digests previous) rel = Some (digest (me_hashes env) bytes) \<and> rel \<notin> set (mm_overlay_paths previous))"

lemma mirror_file_steps:
  assumes "mirror_file env previous p rel c m pm st = (st', Inr u)"
  obtains u1 st1 st2 d st3 reusable u4 st4 where
    "check_cancelled env st = (st1, Inr u1)" "file_digest env c st1 = (st2, Inr d)"
    "(if bt_get (mm_digests previous) rel = Some d \<and> rel \<notin> set (mm_overlay_paths previous)
       then destination_matches env (unwrap_or c []) m (MIRROR # p) d else mreturn False) st2 = (st3, Inr reusable)"
    "(if reusable then mreturn () else mbind (mchange (\<lambda>fs. create_dir_all fs (butlast (MIRROR # p))))
       (\<lambda>_. copy_input env (unwrap_or c []) m pm (MIRROR # p))) st3 = (st4, Inr u4)"
    "record_file rel d st4 = (st', Inr u)"
  using assms unfolding mirror_file_def Let_def by (elim mbind_InrE) (rule that; assumption)

lemma mirror_file_cases:
  assumes "mirror_file env previous p rel c m pm st = (st', Inr u)"
  obtains bytes where "c = Some bytes"
    "current st' = (current st)\<lparr>mm_paths := bs_insert rel (mm_paths (current st)),
          mm_digests := bt_insert rel (digest (me_hashes env) bytes) (mm_digests (current st))\<rparr>"
    "vouched env previous rel bytes" "\<exists>b t x. mfs st (MIRROR # p) = Some (EFile b t x)" "mfs st' = mfs st"
  | bytes fs1 st4 u4 st0 where "c = Some bytes"
    "current st' = (current st)\<lparr>mm_paths := bs_insert rel (mm_paths (current st)),
          mm_digests := bt_insert rel (digest (me_hashes env) bytes) (mm_digests (current st))\<rparr>"
    "create_dir_all (mfs st) (butlast (MIRROR # p)) = Some fs1" "mfs st0 = fs1"
    "copy_input env bytes m pm (MIRROR # p) st0 = (st4, Inr u4)" "mfs st' = mfs st4"
proof -
  obtain u1 st1 st2 d st3 reusable u4 st4 where
    s1: "check_cancelled env st = (st1, Inr u1)" and s2: "file_digest env c st1 = (st2, Inr d)" and
    s3: "(if bt_get (mm_digests previous) rel = Some d \<and> rel \<notin> set (mm_overlay_paths previous)
       then destination_matches env (unwrap_or c []) m (MIRROR # p) d else mreturn False) st2 = (st3, Inr reusable)" and
    s4: "(if reusable then mreturn () else mbind (mchange (\<lambda>fs. create_dir_all fs (butlast (MIRROR # p))))
       (\<lambda>_. copy_input env (unwrap_or c []) m pm (MIRROR # p))) st3 = (st4, Inr u4)" and
    s5: "record_file rel d st4 = (st', Inr u)"
    by (rule mirror_file_steps [OF assms])
  obtain bytes where c: "c = Some bytes" "d = digest (me_hashes env) bytes" "mfs st2 = mfs st1" "current st2 = current st1"
    by (rule file_digest_Inr [OF s2])
  have st2: "mfs st2 = mfs st" "current st2 = current st"
    using check_cancelled_Inr [OF s1] c by simp_all
  have st3: "mfs st3 = mfs st \<and> current st3 = current st"
  proof (cases "bt_get (mm_digests previous) rel = Some d \<and> rel \<notin> set (mm_overlay_paths previous)")
    case True
    then show ?thesis using destination_matches_Inr s3 st2 by fastforce
  next
    case False
    show ?thesis using s3 st2 by (simp only: if_not_P [OF False] mreturn_Inr)
  qed
  have cur: "mfs st' = mfs st4" "current st' = (current st4)\<lparr>mm_paths := bs_insert rel (mm_paths (current st4)),
      mm_digests := bt_insert rel d (mm_digests (current st4))\<rparr>"
    using s5 by (auto simp: record_file_def)
  show thesis
  proof (cases reusable)
    case True
    then have st4: "st4 = st3" using s4 by simp
    have v: "bt_get (mm_digests previous) rel = Some d \<and> rel \<notin> set (mm_overlay_paths previous)"
      using s3 True by (rule_tac ccontr) simp
    then have dm: "destination_matches env (unwrap_or c []) m (MIRROR # p) d st2 = (st3, Inr True)"
      using s3 True by simp
    have "\<exists>b t x. mfs st (MIRROR # p) = Some (EFile b t x)"
      using destination_matches_Inr [OF dm] stat_file [of "mfs st" "MIRROR # p"] st2 by auto
    then show thesis using that(1) [of bytes] v c cur st3 st4 by (simp add: vouched_def)
  next
    case False
    then have "mbind (mchange (\<lambda>fs. create_dir_all fs (butlast (MIRROR # p))))
       (\<lambda>_. copy_input env bytes m pm (MIRROR # p)) st3 = (st4, Inr u4)"
      using s4 c by simp
    then obtain st0 u0 where d1: "mchange (\<lambda>fs. create_dir_all fs (butlast (MIRROR # p))) st3 = (st0, Inr u0)"
      and cp: "copy_input env bytes m pm (MIRROR # p) st0 = (st4, Inr u4)"
      by (rule mbind_InrE)
    obtain fs1 where "create_dir_all (mfs st) (butlast (MIRROR # p)) = Some fs1" "st0 = st3\<lparr>mfs := fs1\<rparr>"
      using d1 st3 by (simp only: mchange_Inr) blast
    then show thesis using that(2) [of bytes fs1 st0 st4 u4] c cur st3 cp copy_input_Inr [OF cp] by simp
  qed
qed

lemma mirror_file_effect:
  assumes "mirror_file env previous p rel c m pm st = (st', Inr u)"
  obtains bytes b t x where "c = Some bytes" "mfs st' (MIRROR # p) = Some (EFile b t x)"
     "b = bytes \<or> mfs st (MIRROR # p) = Some (EFile b t x) \<and> vouched env previous rel bytes"
     "current st' = (current st)\<lparr>mm_paths := bs_insert rel (mm_paths (current st)),
          mm_digests := bt_insert rel (digest (me_hashes env) bytes) (mm_digests (current st))\<rparr>"
  using assms
proof (cases rule: mirror_file_cases)
  case (1 bytes)
  then show thesis using that by metis
next
  case (2 bytes fs1 st4 u4 st0)
  then show thesis using that copy_input_Inr [OF 2(5)] by metis
qed

lemma mirror_file_keeps:
  assumes "mirror_file env previous p rel c m pm st = (st', Inr u)" "blocks (mfs st r)" "\<not> prefix (MIRROR # p) r"
  shows "mfs st' r = mfs st r"
  using assms(1)
proof (cases rule: mirror_file_cases)
  case (2 bytes fs1 st4 u4 st0)
  then show ?thesis using copy_input_Inr [OF 2(5)] create_dir_all_effect(1) [OF 2(3), of r] assms(2, 3) by simp
qed simp

lemma mirror_file_no_new:
  assumes "mirror_file env previous p rel c m pm st = (st', Inr u)" "blocks (mfs st' r)" "r \<noteq> MIRROR # p"
  shows "mfs st r = mfs st' r"
  using assms(1)
proof (cases rule: mirror_file_cases)
  case (2 bytes fs1 st4 u4 st0)
  have "mfs st0 r = mfs st' r"
    using copy_input_Inr [OF 2(5)] assms(2, 3) 2(6) by (metis blocks_simps(1))
  then show ?thesis using create_dir_all_effect(2) [OF 2(3), of r] assms(2) 2(4) by simp
qed simp


section \<open>A list of visits\<close>

text \<open>The visits agree with the source tree, and their names with their spelling.\<close>

definition plain_path :: "string \<Rightarrow> bool" where
  "plain_path v = (names_of v = split_char SLASH v)"

fun fits :: "source_node \<Rightarrow> mirror_visit \<Rightarrow> bool" where
  "fits tree (VisitFile p rel c m pm) =
     (p \<noteq> [] \<and> p = split_char SLASH rel \<and> plain_path rel \<and> node_at tree p = Some (SourceFile c m pm))"
| "fits tree (VisitDirectory p) = (p \<noteq> [] \<and> (\<exists>es. node_at tree p = Some (SourceDirectory es)))"
| "fits tree v = True"

definition visits_file :: "mirror_visit list \<Rightarrow> string \<Rightarrow> string \<Rightarrow> bool" where
  "visits_file vs rel bytes = (\<exists>p m pm. VisitFile p rel (Some bytes) m pm \<in> set vs)"

lemma node_at_append: "node_at t (p @ q) = Option.bind (node_at t p) (\<lambda>n. node_at n q)"
proof (induction t p rule: node_at.induct)
  case (2 es x xs)
  then show ?case by (cases "map_of es x") simp_all
qed (cases q, simp_all)+

lemma node_at_below_file:
  assumes "node_at t p = Some (SourceFile c m pm)" "prefix p q" "q \<noteq> p"
  shows "node_at t q = None"
proof -
  obtain x z where "q = p @ x # z" using assms(2, 3) by (metis append_Nil2 neq_Nil_conv prefixE)
  then show ?thesis by (simp add: node_at_append assms(1))
qed

lemma split_char_inject: "split_char c a = split_char c b \<longleftrightarrow> a = b"
  by (metis join_split_char)

text \<open>The mirror at a source file: whatever is there comes from the source or was there.\<close>

definition sound_at :: "mirror_fs \<Rightarrow> mirror_fs \<Rightarrow> string list \<Rightarrow> string \<Rightarrow> bool" where
  "sound_at fs0 fs r bytes =
     (\<forall>b t x. fs r = Some (EFile b t x) \<longrightarrow> b = bytes \<or> fs0 r = Some (EFile b t x))"

definition copied_at :: "mirror_env \<Rightarrow> mirror_manifest \<Rightarrow> string \<Rightarrow> mirror_fs \<Rightarrow> mirror_fs \<Rightarrow> string list \<Rightarrow> string \<Rightarrow> bool" where
  "copied_at env previous rel fs0 fs r bytes = (\<exists>b t x. fs r = Some (EFile b t x)
     \<and> (b = bytes \<or> fs0 r = Some (EFile b t x) \<and> vouched env previous rel bytes))"

lemma visit_no_new:
  assumes "visit env previous v st = (st', Inr u)" "fits tree v" "blocks (mfs st' r)"
    and "\<forall>p rel c m pm. v = VisitFile p rel c m pm \<longrightarrow> r \<noteq> MIRROR # p"
  shows "mfs st r = mfs st' r"
proof (cases v)
  case VisitCheck
  then show ?thesis using assms(1) check_cancelled_Inr by (simp add: visit_def)
next
  case (VisitDirectory p)
  then obtain fs where "ensure_directory (mfs st) (MIRROR # p) = Some fs" "mfs st' = fs"
    using assms(1) by (auto simp: visit_def mchange_Inr)
  then show ?thesis using ensure_directory_effect(2) [of "mfs st" "MIRROR # p" fs r] assms(3) by simp
next
  case (VisitFile p rel c m pm)
  then show ?thesis using assms(1) mirror_file_no_new [OF _ assms(3)] assms(4) by (simp add: visit_def)
next
  case (VisitError e)
  then show ?thesis using assms(1) by (simp add: visit_def)
qed

lemma visit_keeps_file:
  assumes "visit env previous v st = (st', Inr u)" "fits tree v" "blocks (mfs st (MIRROR # q))"
    and "node_at tree q = Some (SourceFile c m pm)" "\<And>rel c m pm. v \<noteq> VisitFile q rel c m pm"
  shows "mfs st' (MIRROR # q) = mfs st (MIRROR # q)"
proof (cases v)
  case VisitCheck
  then show ?thesis using assms(1) check_cancelled_Inr by (simp add: visit_def)
next
  case (VisitDirectory p)
  then obtain fs where "ensure_directory (mfs st) (MIRROR # p) = Some fs" "mfs st' = fs"
    using assms(1) by (auto simp: visit_def mchange_Inr)
  moreover have "p \<noteq> q" using assms(2, 4) VisitDirectory by auto
  ultimately show ?thesis using ensure_directory_effect(1) [of "mfs st" "MIRROR # p" fs "MIRROR # q"] assms(3) by simp
next
  case (VisitFile p rel c' m' pm')
  have "\<not> prefix p q" using node_at_below_file [of tree p c' m' pm' q] assms(2, 4, 5) VisitFile by auto
  then show ?thesis using assms(1) VisitFile mirror_file_keeps [OF _ assms(3)] by (simp add: visit_def)
next
  case (VisitError e)
  then show ?thesis using assms(1) by (simp add: visit_def)
qed


lemma mforeach_Cons_Inr:
  assumes "mforeach f (v # vs) st = (st', Inr u)"
  obtains st1 u1 where "f v st = (st1, Inr u1)" "mforeach f vs st1 = (st', Inr u)"
  using assms by (auto simp: mbind_Inr)

lemma visits_no_new:
  assumes "mforeach (visit env previous) vs st = (st', Inr u)" "\<forall>v\<in>set vs. fits tree v" "blocks (mfs st' r)"
    and "\<forall>p rel c m pm. VisitFile p rel c m pm \<in> set vs \<longrightarrow> r \<noteq> MIRROR # p"
  shows "mfs st r = mfs st' r"
  using assms
proof (induction vs arbitrary: st)
  case Nil
  then show ?case by simp
next
  case (Cons v vs)
  obtain st1 u1 where v: "visit env previous v st = (st1, Inr u1)"
    and vs: "mforeach (visit env previous) vs st1 = (st', Inr u)"
    by (rule mforeach_Cons_Inr [OF Cons.prems(1)])
  have "mfs st1 r = mfs st' r" using Cons.IH [OF vs] Cons.prems(2-4) by (meson list.set_intros(2))
  moreover have "mfs st r = mfs st1 r"
    using visit_no_new [OF v, of tree r] Cons.prems(2-4) calculation by (metis list.set_intros(1))
  ultimately show ?case by simp
qed

lemma visit_sound_at:
  assumes "visit env previous v st = (st', Inr u)" "fits tree v" "sound_at fs0 (mfs st) (MIRROR # q) bytes"
    and "node_at tree q = Some (SourceFile (Some bytes) m pm)"
  shows "sound_at fs0 (mfs st') (MIRROR # q) bytes"
proof (cases "\<exists>rel c m pm. v = VisitFile q rel c m pm")
  case True
  then obtain rel c m' pm' where v: "v = VisitFile q rel c m' pm'" by blast
  then have "mirror_file env previous q rel c m' pm' st = (st', Inr u)" "c = Some bytes"
    using assms(1, 2, 4) by (simp_all add: visit_def)
  then show ?thesis using assms(3) by (elim mirror_file_effect) (auto simp: sound_at_def)
next
  case False
  then have "blocks (mfs st' (MIRROR # q)) \<Longrightarrow> mfs st (MIRROR # q) = mfs st' (MIRROR # q)"
    using visit_no_new [OF assms(1, 2), of "MIRROR # q"] by (metis list.inject)
  then show ?thesis using assms(3) by (simp add: sound_at_def)
qed

lemma visit_copied_at:
  assumes "visit env previous v st = (st', Inr u)" "fits tree v" "sound_at fs0 (mfs st) (MIRROR # q) bytes"
    and "node_at tree q = Some (SourceFile (Some bytes) m pm)" "q = split_char SLASH rel"
    and "v = VisitFile q rel (Some bytes) m pm \<or> copied_at env previous rel fs0 (mfs st) (MIRROR # q) bytes"
  shows "copied_at env previous rel fs0 (mfs st') (MIRROR # q) bytes"
proof (cases "\<exists>rel c m pm. v = VisitFile q rel c m pm")
  case True
  then obtain c m' pm' where v: "v = VisitFile q rel c m' pm'"
    using assms(2, 5) by (auto simp: split_char_inject)
  then have "mirror_file env previous q rel c m' pm' st = (st', Inr u)" "c = Some bytes"
    using assms(1, 2, 4) by (simp_all add: visit_def)
  then show ?thesis using assms(3) by (elim mirror_file_effect) (auto simp: sound_at_def copied_at_def)
next
  case False
  then have "copied_at env previous rel fs0 (mfs st) (MIRROR # q) bytes" using assms(6) by blast
  moreover from this have "mfs st' (MIRROR # q) = mfs st (MIRROR # q)"
    using visit_keeps_file [OF assms(1, 2) _ assms(4)] False by (auto simp: copied_at_def)
  ultimately show ?thesis by (simp add: copied_at_def)
qed

lemma visits_copied_at:
  assumes "mforeach (visit env previous) vs st = (st', Inr u)" "\<forall>v\<in>set vs. fits tree v"
    and "sound_at fs0 (mfs st) (MIRROR # q) bytes"
    and "node_at tree q = Some (SourceFile (Some bytes) m pm)" "q = split_char SLASH rel"
    and "VisitFile q rel (Some bytes) m pm \<in> set vs \<or> copied_at env previous rel fs0 (mfs st) (MIRROR # q) bytes"
  shows "copied_at env previous rel fs0 (mfs st') (MIRROR # q) bytes"
  using assms
proof (induction vs arbitrary: st)
  case Nil
  then show ?case by simp
next
  case (Cons v vs)
  obtain st1 u1 where v: "visit env previous v st = (st1, Inr u1)"
    and vs: "mforeach (visit env previous) vs st1 = (st', Inr u)"
    by (rule mforeach_Cons_Inr [OF Cons.prems(1)])
  note IH = Cons.IH [OF vs _ visit_sound_at [OF v _ Cons.prems(3, 4)] Cons.prems(4, 5)]
  show ?case
  proof (cases "v = VisitFile q rel (Some bytes) m pm \<or> copied_at env previous rel fs0 (mfs st) (MIRROR # q) bytes")
    case True
    then show ?thesis
      using IH visit_copied_at [OF v _ Cons.prems(3-5)] Cons.prems(2) by simp
  next
    case False
    then show ?thesis using IH Cons.prems(2, 6) by auto
  qed
qed


text \<open>What the new manifest records.\<close>

definition manifest_wf :: "mirror_manifest \<Rightarrow> bool" where
  "manifest_wf m = (sorted_wrt (<) (mm_paths m) \<and> bt_wf (mm_digests m) \<and> sorted_wrt (<) (mm_overlay_paths m))"

definition records :: "mirror_env \<Rightarrow> mirror_manifest \<Rightarrow> mirror_visit list \<Rightarrow> mirror_manifest \<Rightarrow> bool" where
  "records env m vs m' = (manifest_wf m' \<and> mm_schema_version m' = mm_schema_version m
     \<and> mm_overlay_paths m' = mm_overlay_paths m
     \<and> set (mm_paths m') = set (mm_paths m) \<union> {rel. \<exists>bytes. visits_file vs rel bytes}
     \<and> (\<forall>rel d. bt_get (mm_digests m') rel = Some d \<longrightarrow> bt_get (mm_digests m) rel = Some d
          \<or> (\<exists>bytes. visits_file vs rel bytes \<and> d = digest (me_hashes env) bytes)))"

lemma visits_file_simps:
  "visits_file [] rel bytes = False"
  "visits_file (v # vs) rel bytes = ((\<exists>p m pm. v = VisitFile p rel (Some bytes) m pm) \<or> visits_file vs rel bytes)"
  by (auto simp: visits_file_def)

lemma visit_records:
  assumes "visit env previous v st = (st', Inr u)" "manifest_wf (current st)"
  shows "records env (current st) [v] (current st')"
proof (cases v)
  case VisitCheck
  then show ?thesis using assms check_cancelled_Inr [of env st st' u]
    by (simp add: visit_def records_def visits_file_simps)
next
  case (VisitDirectory p)
  then show ?thesis using assms by (auto simp: visit_def mchange_Inr records_def visits_file_simps)
next
  case (VisitFile p rel c m pm)
  then obtain bytes where "c = Some bytes" "current st' = (current st)\<lparr>mm_paths := bs_insert rel (mm_paths (current st)),
          mm_digests := bt_insert rel (digest (me_hashes env) bytes) (mm_digests (current st))\<rparr>"
    using assms(1) by (auto simp: visit_def elim: mirror_file_effect)
  then show ?thesis using assms(2) VisitFile
    by (auto simp: records_def visits_file_simps manifest_wf_def bs_sorted_insert bt_wf_insert set_bs_insert bt_get_insert)
next
  case (VisitError e)
  then show ?thesis using assms by (simp add: visit_def)
qed

lemma visits_records:
  assumes "mforeach (visit env previous) vs st = (st', Inr u)" "manifest_wf (current st)"
  shows "records env (current st) vs (current st')"
  using assms
proof (induction vs arbitrary: st)
  case Nil
  then show ?case by (simp add: records_def visits_file_simps)
next
  case (Cons v vs)
  obtain st1 u1 where v: "visit env previous v st = (st1, Inr u1)"
    and vs: "mforeach (visit env previous) vs st1 = (st', Inr u)"
    by (rule mforeach_Cons_Inr [OF Cons.prems(1)])
  have r1: "records env (current st) [v] (current st1)" by (rule visit_records [OF v Cons.prems(2)])
  then have r2: "records env (current st1) vs (current st')" using Cons.IH [OF vs] by (simp add: records_def)
  have "set (mm_paths (current st')) = set (mm_paths (current st)) \<union> {rel. \<exists>bytes. visits_file (v # vs) rel bytes}"
    using r1 r2 by (auto simp: records_def visits_file_simps)
  moreover have "\<forall>rel d. bt_get (mm_digests (current st')) rel = Some d \<longrightarrow> bt_get (mm_digests (current st)) rel = Some d
      \<or> (\<exists>bytes. visits_file (v # vs) rel bytes \<and> d = digest (me_hashes env) bytes)"
  proof (intro allI impI)
    fix rel d
    assume "bt_get (mm_digests (current st')) rel = Some d"
    then have "bt_get (mm_digests (current st1)) rel = Some d
        \<or> (\<exists>bytes. visits_file vs rel bytes \<and> d = digest (me_hashes env) bytes)"
      using r2 by (simp add: records_def)
    then show "bt_get (mm_digests (current st)) rel = Some d
      \<or> (\<exists>bytes. visits_file (v # vs) rel bytes \<and> d = digest (me_hashes env) bytes)"
      using r1 unfolding records_def visits_file_simps by blast
  qed
  ultimately show ?case using r1 r2 by (simp add: records_def)
qed


section \<open>The visits of a source tree\<close>

text \<open>No directory has two entries of one name.\<close>

fun distinct_tree :: "source_node \<Rightarrow> bool" where
  "distinct_tree (SourceDirectory (Some es)) = (distinct (map fst es) \<and> (\<forall>e \<in> set es. distinct_tree (snd e)))"
| "distinct_tree _ = True"

fun in_tree :: "source_node \<Rightarrow> mirror_visit \<Rightarrow> bool" where
  "in_tree tree (VisitFile p rel c m pm) = (node_at tree p = Some (SourceFile c m pm))"
| "in_tree tree (VisitDirectory p) = (p \<noteq> [] \<and> (\<exists>es. node_at tree p = Some (SourceDirectory es)))"
| "in_tree tree v = True"

lemma walk_in_tree:
  "node_at tree dir = Some n \<Longrightarrow> distinct_tree n \<Longrightarrow> v \<in> set (walk_directory dir n) \<Longrightarrow> in_tree tree v"
  "(\<forall>e \<in> set es. node_at tree (dir @ [fst e]) = Some (snd e) \<and> distinct_tree (snd e))
    \<Longrightarrow> v \<in> set (walk_entries dir es) \<Longrightarrow> in_tree tree v"
proof (induction dir n and dir es rule: walk_directory_walk_entries.induct)
  case (1 dir es)
  have "node_at tree (dir @ [fst e]) = Some (snd e) \<and> distinct_tree (snd e)" if e: "e \<in> set es" for e
  proof -
    have "distinct (map fst es)" using 1(3) by simp
    then have "map_of es (fst e) = Some (snd e)" using e map_of_is_SomeI [of es "fst e" "snd e"] by simp
    then show ?thesis using e 1(2, 3) by (simp add: node_at_append)
  qed
  then show ?case using 1(1, 4) by simp
next
  case (7 dir name n es)
  have here: "node_at tree (dir @ [name]) = Some n" "distinct_tree n" using 7(3) by simp_all
  have rest: "v \<in> set (walk_entries dir es) \<Longrightarrow> in_tree tree v" using 7(2) 7(3) by simp
  show ?case
  proof (cases n)
    case (SourceDirectory es')
    then show ?thesis using 7(1) [OF refl SourceDirectory] 7(4) here rest by (auto simp: Let_def split: if_splits)
  next
    case (SourceFile c m pm)
    then show ?thesis using 7(4) here rest by (auto simp: Let_def)
  next
    case SourceLink
    then show ?thesis using 7(4) rest by (auto simp: Let_def)
  next
    case SourceOther
    then show ?thesis using 7(4) rest by (auto simp: Let_def)
  qed
qed simp_all

lemma visit_listed_in_tree: "v \<in> set (visit_listed tree bytes) \<Longrightarrow> in_tree tree v"
  by (cases "validate_relative_path (replace_char BACKSLASH SLASH (from_utf8_lossy bytes))")
    (auto simp: visit_listed_def Let_def split: if_splits option.splits source_node.splits)

lemma listed_in_tree: "v \<in> set (listed_visits tree out) \<Longrightarrow> in_tree tree v"
  by (auto simp: listed_visits_def dest: visit_listed_in_tree)

text \<open>The visits of a preparation, and what the theorems below ask of the sources: distinct names, and
  every file spelled by the names it has.\<close>

definition source_root_of :: "mirror_env \<Rightarrow> string list" where
  "source_root_of env = unwrap_or (repository_root env) (me_workspace env)"

definition source_visits :: "mirror_env \<Rightarrow> mirror_visit list" where
  "source_visits env =
     (let tree = me_tree env (source_root_of env) in
      if repository_root env = None then walk_directory [] tree
      else (case me_listed env (source_root_of env) of
          Some (_, out) \<Rightarrow> listed_visits tree out | None \<Rightarrow> []))"

definition plain_visit :: "mirror_visit \<Rightarrow> bool" where
  "plain_visit v = (case v of VisitFile p rel c m pm \<Rightarrow> p = split_char SLASH rel \<and> plain_path rel | _ \<Rightarrow> True)"

definition plain_sources :: "mirror_env \<Rightarrow> bool" where
  "plain_sources env = (distinct_tree (me_tree env (source_root_of env)) \<and> list_all plain_visit (source_visits env))"

lemma source_visits_fit:
  assumes "plain_sources env" "v \<in> set (source_visits env)"
  shows "fits (me_tree env (source_root_of env)) v"
proof -
  have "in_tree (me_tree env (source_root_of env)) v"
    using assms walk_in_tree(1) [of _ "[]"] listed_in_tree
    by (auto simp: source_visits_def plain_sources_def Let_def split: if_splits option.splits)
  moreover have "plain_visit v" using assms by (simp add: plain_sources_def list_all_iff)
  ultimately show ?thesis
    by (cases v) (auto simp: plain_visit_def)
qed


section \<open>Documents and stale files\<close>

abbreviation overlay_name :: "string list \<Rightarrow> overlay_document \<Rightarrow> string" where
  "overlay_name below_root d \<equiv> lossy_relative (below_root @ split_char SLASH (doc_path d))"

lemma record_overlays_effect:
  assumes "mforeach (record_overlay env below_root) ds st = (st', Inr u)" "manifest_wf (current st)"
  shows "mfs st' = mfs st \<and> manifest_wf (current st') \<and> mm_schema_version (current st') = mm_schema_version (current st)
    \<and> mm_digests (current st') = mm_digests (current st)
    \<and> set (mm_paths (current st')) = set (mm_paths (current st)) \<union> overlay_name below_root ` set ds
    \<and> set (mm_overlay_paths (current st')) = set (mm_overlay_paths (current st)) \<union> overlay_name below_root ` set ds"
  using assms
proof (induction ds arbitrary: st)
  case Nil
  then show ?case by simp
next
  case (Cons d ds)
  obtain st1 u1 where d: "record_overlay env below_root d st = (st1, Inr u1)"
    and ds: "mforeach (record_overlay env below_root) ds st1 = (st', Inr u)"
    by (rule mforeach_Cons_Inr [OF Cons.prems(1)])
  obtain st0 u0 where c: "check_cancelled env st = (st0, Inr u0)"
    and st1: "st1 = st0\<lparr>current := (current st0)\<lparr>mm_paths := bs_insert (overlay_name below_root d) (mm_paths (current st0)),
           mm_overlay_paths := bs_insert (overlay_name below_root d) (mm_overlay_paths (current st0))\<rparr>\<rparr>"
    using d by (auto simp: record_overlay_def mbind_Inr Let_def)
  have wf: "manifest_wf (current st1)"
    using Cons.prems(2) check_cancelled_Inr [OF c] by (simp add: st1 manifest_wf_def bs_sorted_insert)
  show ?case
    using Cons.IH [OF ds wf] Cons.prems(2) check_cancelled_Inr [OF c]
    by (auto simp: st1 manifest_wf_def set_bs_insert)
qed

lemma remove_stale_effect:
  assumes "remove_stale env rel st = (st', Inr u)"
  shows "current st' = current st"
    and "(r \<noteq> MIRROR # names_of rel \<and> mfs st' r = mfs st r) \<or> (r = MIRROR # names_of rel
      \<and> mfs st' r = (case stat (mfs st) r of Inr (EFile _ _ _) \<Rightarrow> None | Inr ELink \<Rightarrow> None | _ \<Rightarrow> mfs st r))"
proof -
  obtain st0 u0 where c: "check_cancelled env st = (st0, Inr u0)"
    and st': "remove_if_file (MIRROR # names_of rel) st0 = (st', Inr u)"
    using assms unfolding remove_stale_def by (elim mbind_InrE) (rule that; assumption)
  note c = check_cancelled_Inr [OF c]
  show "current st' = current st"
    using c st' by (auto simp: remove_if_file_def split: sum.splits mirror_entry.splits)
  show "(r \<noteq> MIRROR # names_of rel \<and> mfs st' r = mfs st r) \<or> (r = MIRROR # names_of rel
      \<and> mfs st' r = (case stat (mfs st) r of Inr (EFile _ _ _) \<Rightarrow> None | Inr ELink \<Rightarrow> None | _ \<Rightarrow> mfs st r))"
    using c st' by (cases "r = MIRROR # names_of rel")
      (auto simp: remove_if_file_def split: sum.splits mirror_entry.splits)
qed

text \<open>Nothing hangs below a file or a link.\<close>

definition fs_tree :: "mirror_fs \<Rightarrow> bool" where
  "fs_tree fs = (\<forall>p q. fs q \<noteq> None \<longrightarrow> p \<noteq> [] \<longrightarrow> strict_prefix p q \<longrightarrow> fs p = Some EDirectory)"

lemma stat_tree:
  assumes "fs_tree fs" "fs p = Some e" "p \<noteq> []"
  shows "stat fs p = Inr e"
proof -
  have "\<not> blocks (fs (take i p))" if "i \<in> set [1..<length p]" for i
  proof -
    have "take i p \<noteq> []" "strict_prefix (take i p) p"
      using that by (auto simp: strict_prefix_def take_is_prefix)
    then have "fs (take i p) = Some EDirectory" using assms(1, 2) unfolding fs_tree_def by blast
    then show ?thesis by simp
  qed
  then have "\<not> list_ex (\<lambda>i. blocks (fs (take i p))) [1..<length p]" unfolding list_ex_iff by blast
  then show ?thesis using assms(2, 3) by (simp only: stat_def if_False option.simps)
qed

lemma remove_stale_tree:
  assumes "remove_stale env rel st = (st', Inr u)" "fs_tree (mfs st)"
  shows "mfs st' = (if blocks (mfs st (MIRROR # names_of rel)) then (mfs st)(MIRROR # names_of rel := None) else mfs st)"
proof
  fix r
  show "mfs st' r = (if blocks (mfs st (MIRROR # names_of rel)) then (mfs st)(MIRROR # names_of rel := None) else mfs st) r"
  proof (cases "mfs st (MIRROR # names_of rel)")
    case None
    then show ?thesis using remove_stale_effect(2) [OF assms(1), of r]
      by (auto split: sum.splits mirror_entry.splits)
  next
    case (Some e)
    then show ?thesis using remove_stale_effect(2) [OF assms(1), of r] stat_tree [OF assms(2) Some]
      by (cases e) auto
  qed
qed


section \<open>What a preparation keeps\<close>

definition keeps :: "(mirror_fs \<Rightarrow> bool) \<Rightarrow> 'a mirroring \<Rightarrow> bool" where
  "keeps P m = (\<forall>st. P (mfs st) \<longrightarrow> P (mfs (fst (m st))))"

named_theorems keeping

lemma keeps_return [keeping]: "keeps P (mreturn x)"
  by (simp add: keeps_def mreturn_def)

lemma keeps_fail [keeping]: "keeps P (mfail e)"
  by (simp add: keeps_def mfail_def)

lemma keeps_bind [keeping]: "keeps P m \<Longrightarrow> (\<And>x. keeps P (f x)) \<Longrightarrow> keeps P (mbind m f)"
  by (auto simp: keeps_def mbind_def split: prod.splits sum.splits)

lemma keeps_if [keeping]: "keeps P a \<Longrightarrow> keeps P b \<Longrightarrow> keeps P (if c then a else b)"
  by simp

lemma keeps_foreach [keeping]: "(\<And>x. x \<in> set xs \<Longrightarrow> keeps P (f x)) \<Longrightarrow> keeps P (mforeach f xs)"
  by (induction xs) (simp_all add: keeps_return keeps_bind)

lemma keeps_check [keeping]: "keeps P (check_cancelled env)"
  by (simp add: keeps_def check_cancelled_def)

lemma keeps_change: "(\<And>fs fs'. P fs \<Longrightarrow> f fs = Some fs' \<Longrightarrow> P fs') \<Longrightarrow> keeps P (mchange f)"
  by (auto simp: keeps_def mchange_def split: option.splits)

lemma keeps_digest [keeping]: "keeps P (file_digest env c)"
  by (auto simp: keeps_def file_digest_def split: option.splits prod.splits)

lemma keeps_matches [keeping]: "keeps P (destination_matches env b m dest d)"
  unfolding keeps_def
proof (intro allI impI)
  fix st :: mirror_state
  assume P: "P (mfs st)"
  have "P (mfs (fst (mbind (file_digest env (Some b')) (\<lambda>d'. mreturn (d' = d)) st)))" for b'
    using keeps_bind [OF keeps_digest keeps_return, of P env "Some b'" "\<lambda>d'. d' = d"] P by (simp add: keeps_def)
  then show "P (mfs (fst (destination_matches env b m dest d st)))"
    using P by (auto simp: destination_matches_def split: sum.splits mirror_entry.splits)
qed

lemma keeps_record [keeping]: "keeps P (record_file rel d)"
  by (simp add: keeps_def record_file_def)

lemma keeps_overlay [keeping]: "keeps P (record_overlay env below_root d)"
  unfolding record_overlay_def by (rule keeps_bind [OF keeps_check]) (simp add: keeps_def Let_def)

text \<open>A property of the files that every change below the mirror keeps.\<close>

locale mirror_change =
  fixes P :: "mirror_fs \<Rightarrow> bool"
  assumes change_create: "P fs \<Longrightarrow> create_dir_all fs p = Some fs' \<Longrightarrow> p = [] \<or> hd p = MIRROR \<Longrightarrow> P fs'"
    and change_remove: "P fs \<Longrightarrow> remove_destination fs (MIRROR # p) = Some fs' \<Longrightarrow> P fs'"
    and change_write: "P fs \<Longrightarrow> write_file fs (MIRROR # p) b t x = Some fs' \<Longrightarrow> P fs'"
begin

lemma keeps_create: "p = [] \<or> hd p = MIRROR \<Longrightarrow> keeps P (mchange (\<lambda>fs. create_dir_all fs p))"
  by (rule keeps_change) (rule change_create)

lemma keeps_parent: "keeps P (mchange (\<lambda>fs. create_dir_all fs (butlast (MIRROR # p))))"
  by (rule keeps_create) (cases p, simp_all)

lemma keeps_remove: "keeps P (mchange (\<lambda>fs. remove_destination fs (MIRROR # p)))"
  by (rule keeps_change) (rule change_remove)

lemma keeps_write: "keeps P (mchange (\<lambda>fs. write_file fs (MIRROR # p) b t x))"
  by (rule keeps_change) (rule change_write)

lemma keeps_ensure: "keeps P (mchange (\<lambda>fs. ensure_directory fs (MIRROR # p)))"
proof (rule keeps_change)
  fix fs fs'
  assume P: "P fs" and e: "ensure_directory fs (MIRROR # p) = Some fs'"
  have "create_dir_all fs'' (MIRROR # p) = Some fs' \<Longrightarrow> P fs'' \<Longrightarrow> P fs'" for fs''
    using change_create [of fs'' "MIRROR # p"] by simp
  then show "P fs'"
    using e P change_remove [OF P, of p]
    by (auto simp: ensure_directory_def split: sum.splits mirror_entry.splits fs_error.splits Option.bind_splits)
qed

lemma keeps_copy: "keeps P (copy_input env b m pm (MIRROR # p))"
  unfolding copy_input_def
proof (rule keeps_bind [OF keeps_remove])
  fix u
  show "keeps P (\<lambda>st. case read_chunks (me_cancelled env) (checks st) [] b of (k, out, stopped) \<Rightarrow>
         (let time = (if \<not> stopped \<and> me_writable env pm then m else me_now env);
              mode = (if stopped then me_perms env else pm) in
          case write_file (mfs st) (MIRROR # p) out time mode of
            None \<Rightarrow> (st, Inl OverlayIo)
          | Some fs \<Rightarrow> (st\<lparr>mfs := fs, checks := k\<rparr>, if stopped then Inl Cancelled else Inr ())))"
    unfolding keeps_def
    using change_write by (auto simp: Let_def split: prod.splits option.splits)
qed

lemma keeps_file: "keeps P (mirror_file env previous p rel c m pm)"
  unfolding mirror_file_def Let_def
  by (intro keeping keeps_parent keeps_copy)

lemma keeps_visit: "keeps P (visit env previous v)"
  by (cases v) (simp_all add: visit_def keeps_check keeps_ensure keeps_file keeps_fail)

lemma keeps_stale: "keeps P (remove_stale env rel)"
  unfolding remove_stale_def
proof (rule keeps_bind [OF keeps_check])
  fix u
  have remove: "stat fs p = Inr (EFile b t x) \<or> stat fs p = Inr ELink \<Longrightarrow> remove_destination fs p = Some (fs(p := None))"
    for fs p b t x by (auto simp: remove_destination_def)
  show "keeps P (remove_if_file (MIRROR # names_of rel))"
    unfolding keeps_def remove_if_file_def
    using change_remove [OF _ remove]
    by (auto split: sum.splits mirror_entry.splits)
qed

lemma keeps_document: "keeps P (write_document env below_root d)"
  unfolding write_document_def Let_def
  by (intro keeping keeps_parent keeps_remove keeps_write)

lemma keeps_fill: "keeps P (fill_mirror env request previous)"
proof -
  have stale: "keeps P (\<lambda>st. mforeach (remove_stale env) (filter (\<lambda>p. p \<notin> set (mm_paths (current st))) ps) st)" for ps
    unfolding keeps_def using keeps_foreach [of _ P "remove_stale env"] keeps_stale by (simp add: keeps_def)
  have "keeps P (mirror_repository env source_root tree previous)" for source_root tree
    unfolding mirror_repository_def
    by (rule keeps_bind [OF keeps_check])
      (auto split: option.splits prod.splits intro!: keeping keeps_visit)
  moreover have "keeps P (mirror_directory env tree previous)" for tree
    unfolding mirror_directory_def by (rule keeps_foreach) (rule keeps_visit)
  ultimately show ?thesis
    unfolding fill_mirror_def Let_def
    by (intro keeps_bind keeps_foreach keeps_create stale keeps_overlay keeps_document keeps_return) simp_all
qed

end

end
