(* ===== verification/Mirror_Trust.thy ===== *)
theory Mirror_Trust
  imports Mirror_Exact
begin

text \<open>
  The mirror as a whole: a preparation that succeeds leaves the source files and the documents in the
  mirror, exactly, and nothing that an earlier preparation had put there.  The metadata it trusts for
  that is kept true by every preparation, finished, failed or cancelled.
\<close>

section \<open>The files form a tree\<close>

lemma fs_tree_parent: "fs_tree fs \<Longrightarrow> fs q \<noteq> None \<Longrightarrow> p \<noteq> [] \<Longrightarrow> strict_prefix p q \<Longrightarrow> fs p = Some EDirectory"
  unfolding fs_tree_def by blast

lemma fs_tree_remove_dir: "fs_tree fs \<Longrightarrow> fs_tree (remove_dir_all fs p)"
  unfolding fs_tree_def remove_dir_all_def
  by (auto dest: prefix_order.trans [OF _ prefix_order.less_imp_le])

lemma fs_tree_leaf:
  assumes "fs_tree fs" "fs p \<noteq> Some EDirectory" "e = None \<or> stat fs (butlast p) = Inr EDirectory \<and> p \<noteq> []"
  shows "fs_tree (fs(p := e))"
  unfolding fs_tree_def
proof (intro allI impI)
  fix r q
  assume q: "(fs(p := e)) q \<noteq> None" and r: "r \<noteq> []" "strict_prefix r q"
  have up: "fs r = Some EDirectory"
  proof (cases "q = p")
    case False
    then show ?thesis using fs_tree_parent [OF assms(1) _ r] q by simp
  next
    case True
    then have stat: "stat fs (butlast p) = Inr EDirectory" "p \<noteq> []" using q assms(3) by auto
    have "prefix r (butlast p)"
      using r(2) True stat(2) by (metis append_butlast_last_id prefix_snoc strict_prefix_def)
    moreover have "fs (butlast p) = Some EDirectory" if "butlast p \<noteq> []"
      using stat_file [OF stat(1) that] .
    ultimately show ?thesis using fs_tree_parent [OF assms(1), of "butlast p" r] r(1)
      by (metis option.distinct(1) prefix_bot.extremum_uniqueI prefix_order.le_less)
  qed
  then have "r \<noteq> p" using assms(2) by auto
  then show "(fs(p := e)) r = Some EDirectory" using up by simp
qed

lemma fs_tree_create:
  assumes "fs_tree fs" "create_dir_all fs p = Some fs'"
  shows "fs_tree fs'"
  unfolding fs_tree_def
proof (intro allI impI)
  fix r q
  assume "fs' q \<noteq> None" "r \<noteq> []" "strict_prefix r q"
  then show "fs' r = Some EDirectory"
    using fs_tree_parent [OF assms(1), of q r] create_dir_all_Some(1) [OF assms(2)]
    by (auto split: if_splits dest: prefix_order.trans [OF prefix_order.less_imp_le])
qed

lemma fs_tree_remove:
  assumes "fs_tree fs" "remove_destination fs p = Some fs'" "p \<noteq> []"
  shows "fs_tree fs'"
proof (cases "stat fs p")
  case (Inl e)
  then show ?thesis using assms by (cases e) (simp_all add: remove_destination_def)
next
  case (Inr e)
  then show ?thesis
    using assms fs_tree_remove_dir [OF assms(1)] stat_file [OF Inr assms(3)] fs_tree_leaf [OF assms(1), of p None]
    by (cases e) (auto simp: remove_destination_def)
qed

lemma fs_tree_write: "fs_tree fs \<Longrightarrow> write_file fs p b t x = Some fs' \<Longrightarrow> fs_tree fs'"
  using fs_tree_leaf [of fs p "Some (EFile b t x)"] by (auto simp: write_file_def split: if_splits)

interpretation tree: mirror_change fs_tree
  by unfold_locales (auto intro: fs_tree_create fs_tree_remove fs_tree_write)

text \<open>Nothing outside the mirror changes.\<close>

definition outside :: "string list \<Rightarrow> bool" where
  "outside p = (case p of [] \<Rightarrow> True | n # _ \<Rightarrow> n \<noteq> MIRROR)"

lemma outside_not_prefix: "outside q \<Longrightarrow> \<not> prefix (MIRROR # p) q"
  by (auto simp: outside_def split: list.splits)

interpretation outside: mirror_change "\<lambda>fs. \<forall>q. outside q \<longrightarrow> fs q = fs0 q" for fs0
proof unfold_locales
  fix fs p fs' b t x
  assume P: "\<forall>q. outside q \<longrightarrow> fs q = fs0 q"
  show "create_dir_all fs p = Some fs' \<Longrightarrow> p = [] \<or> hd p = MIRROR \<Longrightarrow> \<forall>q. outside q \<longrightarrow> fs' q = fs0 q"
    using create_dir_all_Some(1) [of fs p fs'] P by (cases p) (auto simp: outside_def split: list.splits)
  show "remove_destination fs (MIRROR # p) = Some fs' \<Longrightarrow> \<forall>q. outside q \<longrightarrow> fs' q = fs0 q"
    using remove_destination_effect(1) [of fs "MIRROR # p" fs'] P outside_not_prefix by simp
  show "write_file fs (MIRROR # p) b t x = Some fs' \<Longrightarrow> \<forall>q. outside q \<longrightarrow> fs' q = fs0 q"
    using write_file_effect [of fs "MIRROR # p" b t x fs'] P by (auto simp: outside_def)
qed


section \<open>Documents\<close>

definition document_target :: "string list \<Rightarrow> overlay_document \<Rightarrow> string list" where
  "document_target below_root d = MIRROR # below_root @ names_of (doc_path d)"

lemma write_document_steps:
  assumes "write_document env below_root d st = (st', Inr u)"
  obtains fs1 fs2 where "create_dir_all (mfs st) (butlast (document_target below_root d)) = Some fs1"
    "remove_destination fs1 (document_target below_root d) = Some fs2"
    "mfs st' = fs2(document_target below_root d := Some (EFile (doc_content d) (me_now env) (me_perms env)))"
    "current st' = current st"
proof -
  let ?t = "document_target below_root d"
  obtain u0 st0 u1 st1 u2 st2 where c: "check_cancelled env st = (st0, Inr u0)"
    and d: "mchange (\<lambda>fs. create_dir_all fs (butlast ?t)) st0 = (st1, Inr u1)"
    and r: "mchange (\<lambda>fs. remove_destination fs ?t) st1 = (st2, Inr u2)"
    and w: "mchange (\<lambda>fs. write_file fs ?t (doc_content d) (me_now env) (me_perms env)) st2 = (st', Inr u)"
    using assms unfolding write_document_def Let_def document_target_def [symmetric]
    by (elim mbind_InrE) (rule that; assumption)
  show thesis
    using check_cancelled_Inr [OF c] d r w that
    unfolding mchange_Inr by (auto dest!: write_file_effect)
qed

lemma write_document_keeps:
  assumes "write_document env below_root d st = (st', Inr u)" "blocks (mfs st r)" "\<not> prefix (document_target below_root d) r"
  shows "mfs st' r = mfs st r"
proof -
  obtain fs1 fs2 where e: "create_dir_all (mfs st) (butlast (document_target below_root d)) = Some fs1"
    "remove_destination fs1 (document_target below_root d) = Some fs2"
    "mfs st' = fs2(document_target below_root d := Some (EFile (doc_content d) (me_now env) (me_perms env)))"
    by (rule write_document_steps [OF assms(1)])
  show ?thesis
    using create_dir_all_effect(1) [OF e(1) assms(2)] remove_destination_effect(1) [OF e(2) assms(3)] assms(3) e(3) by auto
qed

lemma write_document_no_new:
  assumes "write_document env below_root d st = (st', Inr u)" "blocks (mfs st' r)" "r \<noteq> document_target below_root d"
  shows "mfs st r = mfs st' r"
proof -
  obtain fs1 fs2 where e: "create_dir_all (mfs st) (butlast (document_target below_root d)) = Some fs1"
    "remove_destination fs1 (document_target below_root d) = Some fs2"
    "mfs st' = fs2(document_target below_root d := Some (EFile (doc_content d) (me_now env) (me_perms env)))"
    by (rule write_document_steps [OF assms(1)])
  have "mfs st' r = fs2 r" using e(3) assms(3) by simp
  moreover have "fs1 r = fs2 r"
    using remove_destination_effect(2) [OF e(2), of r] calculation assms(2) by (metis blocks_simps(1))
  ultimately show ?thesis
    using create_dir_all_effect(2) [OF e(1), of r] assms(2) by simp
qed

definition related :: "string list \<Rightarrow> string list \<Rightarrow> bool" where
  "related p q = (prefix p q \<or> prefix q p)"

lemma documents_keep:
  assumes "mforeach (write_document env below_root) ds st = (st', Inr u)" "blocks (mfs st r)"
    and "\<forall>d \<in> set ds. \<not> prefix (document_target below_root d) r"
  shows "mfs st' r = mfs st r"
  using assms
proof (induction ds arbitrary: st)
  case (Cons d ds)
  obtain st1 u1 where d: "write_document env below_root d st = (st1, Inr u1)"
    and ds: "mforeach (write_document env below_root) ds st1 = (st', Inr u)"
    by (rule mforeach_Cons_Inr [OF Cons.prems(1)])
  have "mfs st1 r = mfs st r" using write_document_keeps [OF d Cons.prems(2)] Cons.prems(3) by simp
  then show ?case using Cons.IH [OF ds] Cons.prems(2, 3) by simp
qed simp

lemma documents_no_new:
  assumes "mforeach (write_document env below_root) ds st = (st', Inr u)" "blocks (mfs st' r)"
    and "\<forall>d \<in> set ds. r \<noteq> document_target below_root d"
  shows "mfs st r = mfs st' r"
  using assms
proof (induction ds arbitrary: st)
  case (Cons d ds)
  obtain st1 u1 where d: "write_document env below_root d st = (st1, Inr u1)"
    and ds: "mforeach (write_document env below_root) ds st1 = (st', Inr u)"
    by (rule mforeach_Cons_Inr [OF Cons.prems(1)])
  have "mfs st1 r = mfs st' r" using Cons.IH [OF ds] Cons.prems(2, 3) by simp
  then show ?case using write_document_no_new [OF d, of r] Cons.prems(2, 3) by simp
qed simp

lemma documents_current:
  assumes "mforeach (write_document env below_root) ds st = (st', Inr u)"
  shows "current st' = current st"
  using assms
proof (induction ds arbitrary: st)
  case (Cons d ds)
  obtain st1 u1 where d: "write_document env below_root d st = (st1, Inr u1)"
    and ds: "mforeach (write_document env below_root) ds st1 = (st', Inr u)"
    by (rule mforeach_Cons_Inr [OF Cons.prems(1)])
  have "current st1 = current st" by (rule write_document_steps [OF d])
  then show ?case using Cons.IH [OF ds] by simp
qed simp

lemma documents_written:
  assumes "mforeach (write_document env below_root) ds st = (st', Inr u)" "d \<in> set ds"
    and "sorted_wrt (\<lambda>d e. \<not> related (document_target below_root d) (document_target below_root e)) ds"
  shows "mfs st' (document_target below_root d) = Some (EFile (doc_content d) (me_now env) (me_perms env))"
  using assms
proof (induction ds arbitrary: st)
  case (Cons e ds)
  obtain st1 u1 where e: "write_document env below_root e st = (st1, Inr u1)"
    and ds: "mforeach (write_document env below_root) ds st1 = (st', Inr u)"
    by (rule mforeach_Cons_Inr [OF Cons.prems(1)])
  obtain fs1 fs2 where s: "mfs st1 = fs2(document_target below_root e := Some (EFile (doc_content e) (me_now env) (me_perms env)))"
    by (rule write_document_steps [OF e])
  show ?case
  proof (cases "d \<in> set ds")
    case True
    then show ?thesis using Cons.IH [OF ds True] Cons.prems(3) by simp
  next
    case False
    then have d: "d = e" using Cons.prems(2) by simp
    have "mfs st' (document_target below_root e) = mfs st1 (document_target below_root e)"
      using documents_keep [OF ds, of "document_target below_root e"] s Cons.prems(3) by (auto simp: related_def)
    then show ?thesis using s d by simp
  qed
qed simp

section \<open>Stale files\<close>

lemma stale_files_removed:
  assumes "mforeach (remove_stale env) rels st = (st', Inr u)" "fs_tree (mfs st)"
  shows "current st' = current st" "fs_tree (mfs st')"
    "mfs st' r = (if (\<exists>rel \<in> set rels. r = MIRROR # names_of rel) \<and> blocks (mfs st r) then None else mfs st r)"
  using assms
proof (induction rels arbitrary: st)
  case Nil
  { case 1 then show ?case by simp }
  { case 2 then show ?case by simp }
  { case 3 then show ?case by simp }
next
  case (Cons rel rels)
  have step: "\<exists>st1. current st1 = current st \<and> fs_tree (mfs st1)
      \<and> mfs st1 = (if blocks (mfs st (MIRROR # names_of rel)) then (mfs st)(MIRROR # names_of rel := None) else mfs st)
      \<and> mforeach (remove_stale env) rels st1 = (st', Inr u)"
    if m: "mforeach (remove_stale env) (rel # rels) st = (st', Inr u)" and tree: "fs_tree (mfs st)" for st
  proof -
    obtain st1 u1 where s: "remove_stale env rel st = (st1, Inr u1)"
      and ss: "mforeach (remove_stale env) rels st1 = (st', Inr u)"
      by (rule mforeach_Cons_Inr [OF m])
    have "fs_tree (mfs st1)" using tree.keeps_stale [of env rel] tree s unfolding keeps_def by (metis fst_conv)
    then show ?thesis using remove_stale_effect(1) [OF s] remove_stale_tree [OF s tree] ss by metis
  qed
  { case 1 then show ?case using step Cons.IH(1) by metis }
  { case 2 then show ?case using step Cons.IH(2) by metis }
  { case 3
    obtain st1 where st1: "fs_tree (mfs st1)"
      "mfs st1 = (if blocks (mfs st (MIRROR # names_of rel)) then (mfs st)(MIRROR # names_of rel := None) else mfs st)"
      "mforeach (remove_stale env) rels st1 = (st', Inr u)"
      using step [OF 3] by blast
    show ?case using Cons.IH(3) [OF st1(3, 1)] st1(2) by (auto split: if_splits) }
qed

section \<open>Filling the mirror\<close>

definition below_root_of :: "mirror_env \<Rightarrow> string list" where
  "below_root_of env = drop (length (source_root_of env)) (me_workspace env)"

lemma sources_mirrored:
  assumes "(if repository_root env \<noteq> None then mirror_repository env (source_root_of env) (me_tree env (source_root_of env)) previous
     else mirror_directory env (me_tree env (source_root_of env)) previous) st = (st', Inr u)"
  obtains st0 where "mfs st0 = mfs st" "current st0 = current st"
    "mforeach (visit env previous) (source_visits env) st0 = (st', Inr u)"
proof (cases "repository_root env = None")
  case True
  then show thesis using assms that [of st] by (simp add: mirror_directory_def source_visits_def)
next
  case False
  then have "mirror_repository env (source_root_of env) (me_tree env (source_root_of env)) previous st = (st', Inr u)"
    using assms by simp
  then obtain st0 u0 where c: "check_cancelled env st = (st0, Inr u0)"
    and r: "(case me_listed env (source_root_of env) of None \<Rightarrow> mfail OverlayIo
      | Some (ok, out) \<Rightarrow> mbind (check_cancelled env) (\<lambda>_. if \<not> ok then mfail OverlayIo
          else mforeach (visit env previous) (listed_visits (me_tree env (source_root_of env)) out))) st0 = (st', Inr u)"
    unfolding mirror_repository_def by (rule mbind_InrE)
  obtain ok out where l: "me_listed env (source_root_of env) = Some (ok, out)"
    using r by (cases "me_listed env (source_root_of env)") auto
  obtain st1 u1 where c1: "check_cancelled env st0 = (st1, Inr u1)"
    and v: "(if \<not> ok then mfail OverlayIo
          else mforeach (visit env previous) (listed_visits (me_tree env (source_root_of env)) out)) st1 = (st', Inr u)"
    using r unfolding l option.simps prod.case by (rule mbind_InrE)
  have ok using v by (cases ok) simp_all
  then show thesis
    using that [of st1] v False l check_cancelled_Inr [OF c] check_cancelled_Inr [OF c1]
    by (simp add: source_visits_def)
qed

lemma fill_mirror_steps:
  assumes "fill_mirror env request previous st = (st', Inr where_root)"
  obtains fs1 st1 st2 u2 st3 u3 st4 u4 u5 where
    "create_dir_all (mfs st) (MIRROR # below_root_of env) = Some fs1" "mfs st1 = fs1" "current st1 = current st"
    "mforeach (visit env previous) (source_visits env) st1 = (st2, Inr u2)"
    "mforeach (record_overlay env (below_root_of env)) (documents request) st2 = (st3, Inr u3)"
    "mforeach (remove_stale env) (filter (\<lambda>p. p \<notin> set (mm_paths (current st3))) (mm_paths previous)) st3 = (st4, Inr u4)"
    "mforeach (write_document env (below_root_of env)) (documents request) st4 = (st', Inr u5)"
    "where_root = MIRROR # below_root_of env"
proof -
  have root: "(case repository_root env of None \<Rightarrow> me_workspace env | Some r \<Rightarrow> r) = source_root_of env"
    by (simp add: source_root_of_def unwrap_or_def split: option.splits)
  obtain st0 u0 st2 u2 st3 u3 st4 u4 st5 u5 where
    c: "mchange (\<lambda>fs. create_dir_all fs (MIRROR # below_root_of env)) st = (st0, Inr u0)"
    and v: "(if repository_root env \<noteq> None then mirror_repository env (source_root_of env) (me_tree env (source_root_of env)) previous
     else mirror_directory env (me_tree env (source_root_of env)) previous) st0 = (st2, Inr u2)"
    and o': "mforeach (record_overlay env (below_root_of env)) (documents request) st2 = (st3, Inr u3)"
    and s: "mforeach (remove_stale env) (filter (\<lambda>p. p \<notin> set (mm_paths (current st3))) (mm_paths previous)) st3 = (st4, Inr u4)"
    and d: "mforeach (write_document env (below_root_of env)) (documents request) st4 = (st5, Inr u5)"
    and r: "mreturn (MIRROR # below_root_of env) st5 = (st', Inr where_root)"
    using assms unfolding fill_mirror_def Let_def root below_root_of_def [symmetric]
    by (elim mbind_InrE) (rule that; assumption)
  obtain fs1 where fs1: "create_dir_all (mfs st) (MIRROR # below_root_of env) = Some fs1" "st0 = st\<lparr>mfs := fs1\<rparr>"
    using c unfolding mchange_Inr by blast
  obtain st1 where "mfs st1 = mfs st0" "current st1 = current st0"
    "mforeach (visit env previous) (source_visits env) st1 = (st2, Inr u2)"
    by (rule sources_mirrored [OF v])
  then show thesis using that [of fs1 st1] fs1 o' s d r by simp
qed


section \<open>What the filled mirror holds\<close>

text \<open>The digests of a manifest are those of the files in the mirror, where these are files at all.\<close>

definition digests_true :: "mirror_env \<Rightarrow> mirror_fs \<Rightarrow> mirror_manifest \<Rightarrow> bool" where
  "digests_true env fs m = (list_all plain_path (mm_paths m)
     \<and> (\<forall>rel d b t x. bt_get (mm_digests m) rel = Some d \<longrightarrow> rel \<notin> set (mm_overlay_paths m) \<longrightarrow>
          fs (MIRROR # split_char SLASH rel) = Some (EFile b t x) \<longrightarrow> digest (me_hashes env) b = d))"

text \<open>No file of the mirror has the digest of a source file with other bytes.\<close>

definition no_collision :: "mirror_env \<Rightarrow> mirror_fs \<Rightarrow> bool" where
  "no_collision env fs = (\<forall>rel bytes r b t x. visits_file (source_visits env) rel bytes \<longrightarrow>
     fs (MIRROR # r) = Some (EFile b t x) \<longrightarrow> digest (me_hashes env) b = digest (me_hashes env) bytes \<longrightarrow> b = bytes)"

text \<open>The paths of the documents are spelled by their names, and the documents do not overlap.\<close>

definition plain_documents :: "mirror_env \<Rightarrow> overlay_document list \<Rightarrow> bool" where
  "plain_documents env ds =
     (list_all (\<lambda>d. plain_path (doc_path d) \<and> plain_path (overlay_name (below_root_of env) d)
        \<and> split_char SLASH (overlay_name (below_root_of env) d) = below_root_of env @ split_char SLASH (doc_path d)) ds)"

definition holds_documents :: "mirror_env \<Rightarrow> overlay_document list \<Rightarrow> mirror_fs \<Rightarrow> bool" where
  "holds_documents env ds fs = (\<forall>d \<in> set ds.
     fs (document_target (below_root_of env) d) = Some (EFile (doc_content d) (me_now env) (me_perms env)))"

definition apart_from :: "mirror_env \<Rightarrow> overlay_document list \<Rightarrow> string list \<Rightarrow> bool" where
  "apart_from env ds p = (\<forall>d \<in> set ds. \<not> related p (document_target (below_root_of env) d))"

definition holds_sources :: "mirror_env \<Rightarrow> overlay_document list \<Rightarrow> mirror_fs \<Rightarrow> bool" where
  "holds_sources env ds fs = (\<forall>rel bytes. visits_file (source_visits env) rel bytes \<longrightarrow>
     apart_from env ds (MIRROR # split_char SLASH rel) \<longrightarrow>
     (\<exists>t x. fs (MIRROR # split_char SLASH rel) = Some (EFile bytes t x)))"

definition is_input :: "mirror_env \<Rightarrow> overlay_document list \<Rightarrow> string list \<Rightarrow> bool" where
  "is_input env ds p = ((\<exists>d \<in> set ds. p = document_target (below_root_of env) d)
     \<or> (\<exists>rel bytes. visits_file (source_visits env) rel bytes \<and> p = MIRROR # split_char SLASH rel))"

definition nothing_else :: "mirror_env \<Rightarrow> overlay_document list \<Rightarrow> mirror_manifest \<Rightarrow> mirror_fs \<Rightarrow> mirror_fs \<Rightarrow> bool" where
  "nothing_else env ds previous before fs = (\<forall>p. blocks (fs p) \<longrightarrow> \<not> is_input env ds p \<longrightarrow>
     before p = fs p \<and> (\<forall>rel \<in> set (mm_paths previous). p \<noteq> MIRROR # split_char SLASH rel))"

lemma document_target_plain:
  "plain_documents env ds \<Longrightarrow> d \<in> set ds \<Longrightarrow>
     document_target (below_root_of env) d = MIRROR # split_char SLASH (overlay_name (below_root_of env) d)"
  by (auto simp: plain_documents_def list_all_iff document_target_def plain_path_def)

lemma visits_file_node:
  assumes "plain_sources env" "visits_file (source_visits env) rel bytes"
  obtains m pm where "VisitFile (split_char SLASH rel) rel (Some bytes) m pm \<in> set (source_visits env)"
    "node_at (me_tree env (source_root_of env)) (split_char SLASH rel) = Some (SourceFile (Some bytes) m pm)" "plain_path rel"
proof -
  obtain p m pm where v: "VisitFile p rel (Some bytes) m pm \<in> set (source_visits env)"
    using assms(2) by (auto simp: visits_file_def)
  from source_visits_fit [OF assms(1) v] have "p = split_char SLASH rel" "plain_path rel"
    "node_at (me_tree env (source_root_of env)) p = Some (SourceFile (Some bytes) m pm)"
    unfolding fits.simps by blast+
  then show thesis using that v by blast
qed

text \<open>The state after the sources were mirrored, the documents recorded and the stale files removed.\<close>

lemma mirrored_sources:
  assumes "create_dir_all (mfs st) (MIRROR # below_root_of env) = Some (mfs st1)"
    and "mforeach (visit env previous) (source_visits env) st1 = (st2, Inr u)"
    and "plain_sources env" "digests_true env (mfs st) previous" "no_collision env (mfs st)"
    and "visits_file (source_visits env) rel bytes"
  shows "\<exists>t x. mfs st2 (MIRROR # split_char SLASH rel) = Some (EFile bytes t x)"
proof -
  let ?q = "split_char SLASH rel"
  obtain m pm where v: "VisitFile ?q rel (Some bytes) m pm \<in> set (source_visits env)"
    and n: "node_at (me_tree env (source_root_of env)) ?q = Some (SourceFile (Some bytes) m pm)"
    by (rule visits_file_node [OF assms(3, 6)])
  have "sound_at (mfs st) (mfs st1) (MIRROR # ?q) bytes"
    using create_dir_all_effect(2) [OF assms(1), of "MIRROR # ?q"] by (auto simp: sound_at_def)
  then have "copied_at env previous rel (mfs st) (mfs st2) (MIRROR # ?q) bytes"
    using visits_copied_at [OF assms(2) _ _ n refl] source_visits_fit [OF assms(3)] v by blast
  then show ?thesis
    using assms(4, 5, 6) unfolding copied_at_def vouched_def digests_true_def no_collision_def by blast
qed


definition documents_apart :: "mirror_env \<Rightarrow> overlay_document list \<Rightarrow> bool" where
  "documents_apart env ds = sorted_wrt (\<lambda>d e. \<not> related (document_target (below_root_of env) d)
     (document_target (below_root_of env) e)) ds"

lemma visits_readable:
  assumes "mforeach (visit env previous) vs st = (st', Inr u)" "VisitFile p rel c m pm \<in> set vs"
  shows "\<exists>bytes. c = Some bytes"
  using assms
proof (induction vs arbitrary: st)
  case (Cons v vs)
  obtain st1 u1 where v: "visit env previous v st = (st1, Inr u1)"
    and vs: "mforeach (visit env previous) vs st1 = (st', Inr u)"
    by (rule mforeach_Cons_Inr [OF Cons.prems(1)])
  show ?case
  proof (cases "VisitFile p rel c m pm \<in> set vs")
    case True
    then show ?thesis by (rule Cons.IH [OF vs])
  next
    case False
    then have "mirror_file env previous p rel c m pm st = (st1, Inr u1)" using v Cons.prems(2) by (auto simp: visit_def)
    then show ?thesis by (elim mirror_file_effect) blast
  qed
qed simp

lemma visit_is_input:
  assumes "plain_sources env" "\<exists>bytes. c = Some bytes" "VisitFile q rel c m pm \<in> set (source_visits env)"
  shows "is_input env ds (MIRROR # q)"
proof -
  have "q = split_char SLASH rel"
    using source_visits_fit [OF assms(1, 3)] unfolding fits.simps by blast
  then show ?thesis using assms(2, 3) unfolding is_input_def visits_file_def by blast
qed

text \<open>The facts of a filled mirror that the conclusions below share.\<close>

lemma fill_mirror_stages:
  assumes "fill_mirror env request previous st = (st', Inr where_root)"
    and "fs_tree (mfs st)" "current st = manifest_new"
    and "plain_sources env" "plain_documents env (documents request)"
    and "digests_true env (mfs st) previous" "no_collision env (mfs st)"
  obtains fs2 fs4 where
    "\<And>rel bytes. visits_file (source_visits env) rel bytes \<Longrightarrow> \<exists>t x. fs2 (MIRROR # split_char SLASH rel) = Some (EFile bytes t x)"
    "\<And>p. blocks (fs2 p) \<Longrightarrow> \<not> is_input env (documents request) p \<Longrightarrow> mfs st p = fs2 p"
    "\<And>p. fs4 p = (if (\<exists>rel \<in> set (mm_paths previous). rel \<notin> set (mm_paths (current st'))
        \<and> p = MIRROR # split_char SLASH rel) \<and> blocks (fs2 p) then None else fs2 p)"
    "\<And>p. blocks (fs4 p) \<Longrightarrow> apart_from env (documents request) p \<Longrightarrow> mfs st' p = fs4 p"
    "\<And>p. blocks (mfs st' p) \<Longrightarrow> \<not> is_input env (documents request) p \<Longrightarrow> fs4 p = mfs st' p"
    "\<And>rel. rel \<in> set (mm_paths (current st')) \<longleftrightarrow> (\<exists>bytes. visits_file (source_visits env) rel bytes)
        \<or> rel \<in> overlay_name (below_root_of env) ` set (documents request)"
    "\<And>rel d. bt_get (mm_digests (current st')) rel = Some d \<Longrightarrow>
        \<exists>bytes. visits_file (source_visits env) rel bytes \<and> d = digest (me_hashes env) bytes"
    "set (mm_overlay_paths (current st')) = overlay_name (below_root_of env) ` set (documents request)"
    "mm_schema_version (current st') = 1"
    "documents_apart env (documents request) \<Longrightarrow> holds_documents env (documents request) (mfs st')"
    "where_root = MIRROR # below_root_of env"
proof -
  let ?ds = "documents request" and ?vs = "source_visits env"
  obtain fs1 st1 st2 u2 st3 u3 st4 u4 u5 where
    c: "create_dir_all (mfs st) (MIRROR # below_root_of env) = Some fs1" "mfs st1 = fs1" "current st1 = current st"
    and v: "mforeach (visit env previous) ?vs st1 = (st2, Inr u2)"
    and ov: "mforeach (record_overlay env (below_root_of env)) ?ds st2 = (st3, Inr u3)"
    and s: "mforeach (remove_stale env) (filter (\<lambda>p. p \<notin> set (mm_paths (current st3))) (mm_paths previous)) st3 = (st4, Inr u4)"
    and d: "mforeach (write_document env (below_root_of env)) ?ds st4 = (st', Inr u5)"
    and root: "where_root = MIRROR # below_root_of env"
    by (rule fill_mirror_steps [OF assms(1)])
  have fits: "\<forall>v \<in> set ?vs. fits (me_tree env (source_root_of env)) v" using source_visits_fit [OF assms(4)] by blast
  have c1: "create_dir_all (mfs st) (MIRROR # below_root_of env) = Some (mfs st1)" using c by simp
  have wf1: "manifest_wf (current st1)" using c(3) assms(3) by (simp add: manifest_new_def manifest_wf_def bt_wf_def)
  have r: "records env manifest_new ?vs (current st2)" using visits_records [OF v wf1] c(3) assms(3) by simp
  then have "manifest_wf (current st2)" by (simp add: records_def)
  note e = record_overlays_effect [OF ov this]
  have tree2: "fs_tree (mfs st2)"
    using keeps_foreach [of ?vs fs_tree "visit env previous"] tree.keeps_visit v fs_tree_create [OF assms(2) c1]
    unfolding keeps_def by (metis fst_conv)
  then have tree3: "fs_tree (mfs st3)" using e by simp
  note stale = stale_files_removed [OF s tree3]
  have cur: "current st' = current st3" using stale(1) documents_current [OF d] by simp
  have plain: "rel \<in> set (mm_paths previous) \<Longrightarrow> names_of rel = split_char SLASH rel" for rel
    using assms(6) by (simp add: digests_true_def list_all_iff plain_path_def)
  have paths: "rel \<in> set (mm_paths (current st')) \<longleftrightarrow> (\<exists>bytes. visits_file ?vs rel bytes)
      \<or> rel \<in> overlay_name (below_root_of env) ` set ?ds" for rel
    using e r cur by (simp add: records_def manifest_new_def)
  show thesis
  proof (rule that [of "mfs st2" "mfs st4"])
    show "\<exists>t x. mfs st2 (MIRROR # split_char SLASH rel) = Some (EFile bytes t x)"
      if "visits_file ?vs rel bytes" for rel bytes
      by (rule mirrored_sources [OF c1 v assms(4, 6, 7) that])
    show "mfs st p = mfs st2 p" if "blocks (mfs st2 p)" "\<not> is_input env ?ds p" for p
    proof -
      have "p \<noteq> MIRROR # q" if f: "VisitFile q rel c m pm \<in> set ?vs" for q rel c m pm
        using visit_is_input [OF assms(4) _ f] visits_readable [OF v f] \<open>\<not> is_input env ?ds p\<close> by blast
      then have "mfs st1 p = mfs st2 p" using visits_no_new [OF v fits that(1)] by blast
      then show ?thesis using create_dir_all_effect(2) [OF c1, of p] that(1) by simp
    qed
    show "mfs st4 p = (if (\<exists>rel \<in> set (mm_paths previous). rel \<notin> set (mm_paths (current st'))
        \<and> p = MIRROR # split_char SLASH rel) \<and> blocks (mfs st2 p) then None else mfs st2 p)" for p
      unfolding stale(3) [of p] using e plain by (auto simp: cur)
    show "mfs st' p = mfs st4 p" if "blocks (mfs st4 p)" "apart_from env ?ds p" for p
      using documents_keep [OF d that(1)] that(2) by (auto simp: apart_from_def related_def)
    show "mfs st4 p = mfs st' p" if "blocks (mfs st' p)" "\<not> is_input env ?ds p" for p
      using documents_no_new [OF d that(1)] that(2) by (auto simp: is_input_def)
    show "\<exists>bytes. visits_file ?vs rel bytes \<and> d = digest (me_hashes env) bytes"
      if "bt_get (mm_digests (current st')) rel = Some d" for rel d
      using that e r cur by (simp add: records_def manifest_new_def)
    show "set (mm_overlay_paths (current st')) = overlay_name (below_root_of env) ` set ?ds"
      using e r cur by (simp add: records_def manifest_new_def)
    show "mm_schema_version (current st') = 1"
      using e r cur by (simp add: records_def manifest_new_def)
    show "holds_documents env ?ds (mfs st')"
      if "documents_apart env ?ds"
      using that documents_written [OF d] unfolding holds_documents_def documents_apart_def by blast
  qed (fact paths root)+
qed


lemma fill_mirror_exact:
  assumes "fill_mirror env request previous st = (st', Inr where_root)"
    and "fs_tree (mfs st)" "current st = manifest_new"
    and "plain_sources env" "plain_documents env (documents request)" "documents_apart env (documents request)"
    and "digests_true env (mfs st) previous" "no_collision env (mfs st)"
  shows "holds_documents env (documents request) (mfs st')" "holds_sources env (documents request) (mfs st')"
    "nothing_else env (documents request) previous (mfs st) (mfs st')"
    "digests_true env (mfs st') (current st')" "mm_schema_version (current st') = 1"
    "where_root = MIRROR # below_root_of env"
proof -
  let ?ds = "documents request" and ?vs = "source_visits env"
  obtain fs2 fs4 where
    src: "\<And>rel bytes. visits_file ?vs rel bytes \<Longrightarrow> \<exists>t x. fs2 (MIRROR # split_char SLASH rel) = Some (EFile bytes t x)"
    and new: "\<And>p. blocks (fs2 p) \<Longrightarrow> \<not> is_input env ?ds p \<Longrightarrow> mfs st p = fs2 p"
    and stale: "\<And>p. fs4 p = (if (\<exists>rel \<in> set (mm_paths previous). rel \<notin> set (mm_paths (current st'))
        \<and> p = MIRROR # split_char SLASH rel) \<and> blocks (fs2 p) then None else fs2 p)"
    and keep: "\<And>p. blocks (fs4 p) \<Longrightarrow> apart_from env ?ds p \<Longrightarrow> mfs st' p = fs4 p"
    and new4: "\<And>p. blocks (mfs st' p) \<Longrightarrow> \<not> is_input env ?ds p \<Longrightarrow> fs4 p = mfs st' p"
    and paths: "\<And>rel. rel \<in> set (mm_paths (current st')) \<longleftrightarrow> (\<exists>bytes. visits_file ?vs rel bytes)
        \<or> rel \<in> overlay_name (below_root_of env) ` set ?ds"
    and dig: "\<And>rel d. bt_get (mm_digests (current st')) rel = Some d \<Longrightarrow>
        \<exists>bytes. visits_file ?vs rel bytes \<and> d = digest (me_hashes env) bytes"
    and ov: "set (mm_overlay_paths (current st')) = overlay_name (below_root_of env) ` set ?ds"
    and "mm_schema_version (current st') = 1"
    and "documents_apart env ?ds \<Longrightarrow> holds_documents env ?ds (mfs st')"
    and "where_root = MIRROR # below_root_of env"
    by (rule fill_mirror_stages [OF assms(1-5, 7, 8)]) blast
  then show "mm_schema_version (current st') = 1" "where_root = MIRROR # below_root_of env"
    and docs: "holds_documents env ?ds (mfs st')" using assms(6) by blast+
  have tree: "fs_tree (mfs st')"
    using tree.keeps_fill [of env request previous] assms(1, 2) unfolding keeps_def by (metis fst_conv)
  note target = document_target_plain [OF assms(5)]
  show srcs: "holds_sources env ?ds (mfs st')"
    unfolding holds_sources_def
  proof (intro allI impI)
    fix rel bytes
    assume v: "visits_file ?vs rel bytes" and apart: "apart_from env ?ds (MIRROR # split_char SLASH rel)"
    obtain t x where f: "fs2 (MIRROR # split_char SLASH rel) = Some (EFile bytes t x)" using src [OF v] by blast
    have "fs4 (MIRROR # split_char SLASH rel) = Some (EFile bytes t x)"
      using stale [of "MIRROR # split_char SLASH rel"] f paths [of rel] v by (auto simp: split_char_inject)
    then show "\<exists>t x. mfs st' (MIRROR # split_char SLASH rel) = Some (EFile bytes t x)"
      using keep [OF _ apart] by auto
  qed
  show "nothing_else env ?ds previous (mfs st) (mfs st')"
    unfolding nothing_else_def
  proof (intro allI impI conjI ballI)
    fix p
    assume b: "blocks (mfs st' p)" and n: "\<not> is_input env ?ds p"
    have e4: "fs4 p = mfs st' p" by (rule new4 [OF b n])
    then have e2: "fs2 p = fs4 p" using stale [of p] b by (auto split: if_splits)
    then show "mfs st p = mfs st' p" using new [of p] e4 b n by simp
    fix rel
    assume rel: "rel \<in> set (mm_paths previous)"
    show "p \<noteq> MIRROR # split_char SLASH rel"
    proof
      assume p: "p = MIRROR # split_char SLASH rel"
      then have "rel \<in> set (mm_paths (current st'))" using stale [of p] e4 b rel by (auto split: if_splits)
      then show False using paths [of rel] n p target unfolding is_input_def by auto
    qed
  qed
  show "digests_true env (mfs st') (current st')"
    unfolding digests_true_def
  proof (intro conjI allI impI)
    have "plain_path rel" if "rel \<in> set (mm_paths (current st'))" for rel
      using that paths [of rel] assms(5) visits_file_node [OF assms(4)]
      by (auto simp: plain_documents_def list_all_iff)
    then show "list_all plain_path (mm_paths (current st'))" by (simp add: list_all_iff)
    fix rel d b t x
    assume g: "bt_get (mm_digests (current st')) rel = Some d" and n: "rel \<notin> set (mm_overlay_paths (current st'))"
      and f: "mfs st' (MIRROR # split_char SLASH rel) = Some (EFile b t x)"
    obtain bytes where v: "visits_file ?vs rel bytes" "d = digest (me_hashes env) bytes" using dig [OF g] by blast
    have "apart_from env ?ds (MIRROR # split_char SLASH rel)"
      unfolding apart_from_def
    proof
      fix doc
      assume doc: "doc \<in> set ?ds"
      have "MIRROR # split_char SLASH rel \<noteq> document_target (below_root_of env) doc"
        using target [OF doc] n ov doc by (auto simp: split_char_inject)
      moreover have "mfs st' (document_target (below_root_of env) doc) \<noteq> None"
        "mfs st' (document_target (below_root_of env) doc) \<noteq> Some EDirectory"
        using docs doc unfolding holds_documents_def by auto
      moreover have "document_target (below_root_of env) doc \<noteq> []" by (simp add: document_target_def)
      ultimately show "\<not> related (MIRROR # split_char SLASH rel) (document_target (below_root_of env) doc)"
        using fs_tree_parent [OF tree, of "document_target (below_root_of env) doc" "MIRROR # split_char SLASH rel"]
          fs_tree_parent [OF tree, of "MIRROR # split_char SLASH rel" "document_target (below_root_of env) doc"] f
        by (auto simp: related_def strict_prefix_def)
    qed
    then show "digest (me_hashes env) b = d" using srcs v f unfolding holds_sources_def by fastforce
  qed
qed


section \<open>Validated documents do not overlap\<close>

lemma join_append:
  "xs \<noteq> [] \<Longrightarrow> ys \<noteq> [] \<Longrightarrow> join sep (xs @ ys) = join sep xs @ sep @ join sep ys"
  by (induction xs) (auto simp: join_Cons)

lemma prefix_split_below:
  assumes "prefix (split_char SLASH p) (split_char SLASH q)"
  shows "p = q \<or> below q p"
proof -
  obtain z where z: "split_char SLASH q = split_char SLASH p @ z" using assms by (auto simp: prefix_def)
  show ?thesis
  proof (cases "z = []")
    case True
    then show ?thesis using z split_char_inject [of SLASH q p] by simp
  next
    case False
    have "q = join [SLASH] (split_char SLASH p @ z)" by (metis z join_split_char)
    also have "\<dots> = p @ [SLASH] @ join [SLASH] z"
      using join_append [OF split_char_not_Nil False, of "[SLASH]" SLASH p] by (simp only: join_split_char)
    finally show ?thesis by (simp add: below_def strip_prefix_def starts_with_def)
  qed
qed

lemma validated_documents_apart:
  assumes "validate request = Inr ()" "plain_documents env (documents request)"
  shows "documents_apart env (documents request)"
proof -
  have free: "conflict_free (map doc_path (documents request))"
  proof -
    have "validate_documents [] 0 (documents request) = Inr ()"
      using assms(1) unfolding validate_def by (simp split: if_splits)
    then show ?thesis by (simp add: validate_documents_iff)
  qed
  have "sorted_wrt (\<lambda>d e. \<not> related (document_target br d) (document_target br e)) ds"
    if "conflict_free (map doc_path ds)" "list_all (\<lambda>d. plain_path (doc_path d)) ds" for br ds
    using that
  proof (induction ds)
    case (Cons d ds)
    have "\<not> related (document_target br d) (document_target br e)" if e: "e \<in> set ds" for e
    proof
      assume "related (document_target br d) (document_target br e)"
      then have "prefix (split_char SLASH (doc_path d)) (split_char SLASH (doc_path e))
          \<or> prefix (split_char SLASH (doc_path e)) (split_char SLASH (doc_path d))"
        using Cons.prems(2) e by (auto simp: related_def document_target_def plain_path_def list_all_iff)
      moreover have "doc_path d \<noteq> doc_path e" "\<not> below (doc_path d) (doc_path e)" "\<not> below (doc_path e) (doc_path d)"
        using Cons.prems(1) e by (auto simp: conflict_free_Cons)
      ultimately show False using prefix_split_below by metis
    qed
    then show ?case using Cons by (simp add: conflict_free_Cons)
  qed simp
  then show ?thesis
    using free assms(2) by (auto simp: documents_apart_def plain_documents_def list_all_iff)
qed

section \<open>Opening the mirror\<close>

text \<open>The manifest that a preparation trusts, if it trusts one.\<close>

definition opened :: "mirror_env \<Rightarrow> mirror_fs \<Rightarrow> mirror_manifest option" where
  "opened env fs = (if path_exists fs PREPARING then None
     else (case stat fs MANIFEST of
        Inr (EFile bytes _ _) \<Rightarrow> if MAX_MIRROR_MANIFEST_BYTES < length bytes then None else decode_manifest env bytes
      | _ \<Rightarrow> None))"

definition trusted :: "mirror_env \<Rightarrow> mirror_fs \<Rightarrow> bool" where
  "trusted env fs = (\<forall>m. opened env fs = Some m \<longrightarrow> digests_true env fs m)"

text \<open>The top level of the session directory.\<close>

lemma stat_top: "stat fs [n] = (case fs [n] of None \<Rightarrow> Inl NotFound | Some e \<Rightarrow> Inr e)"
  by (simp add: stat_def)

lemma path_exists_top: "path_exists fs [n] \<longleftrightarrow> fs [n] \<noteq> None"
  by (auto simp: path_exists_def stat_top split: option.splits)

lemma opened_cong:
  "fs PREPARING = fs' PREPARING \<Longrightarrow> fs MANIFEST = fs' MANIFEST \<Longrightarrow> opened env fs = opened env fs'"
  by (simp add: opened_def path_exists_top stat_top)

lemma remove_top:
  "\<exists>fs'. remove_destination fs [n] = Some fs' \<and> fs' [n] = None \<and> (\<forall>q. \<not> prefix [n] q \<longrightarrow> fs' q = fs q)"
  by (auto simp: remove_destination_def stat_top remove_dir_all_def split: option.splits mirror_entry.splits)

lemma remove_top_Some:
  "remove_destination fs [n] = Some fs' \<Longrightarrow> fs' [n] = None \<and> (\<forall>q. \<not> prefix [n] q \<longrightarrow> fs' q = fs q)"
  using remove_top [of fs n] by auto


lemma open_mirror_steps:
  assumes "open_mirror env st = (st', Inr previous)" "fs_tree (mfs st)"
  shows "current st' = current st"
    and "(opened env (mfs st) = Some previous \<and> mfs st' = mfs st)
      \<or> (opened env (mfs st) = None \<and> previous = manifest_new \<and> mfs st' MANIFEST = None \<and> (\<forall>p. mfs st' (MIRROR # p) = None))"
proof -
  have below: "fs (MIRROR # p) = None" if "fs_tree fs" "fs [MIRROR] = None" for fs p
    using fs_tree_parent [OF that(1), of "MIRROR # p" "[MIRROR]"] that(2)
    by (cases "p = []"; cases "fs (MIRROR # p)") (auto simp: strict_prefix_def)
  obtain st1 found where f: "(if path_exists (mfs st) PREPARING then mreturn None else read_mirror_manifest env) st = (st1, Inr found)"
    and m: "(case found of
          Some m \<Rightarrow> mreturn m
        | None \<Rightarrow>
            mbind (\<lambda>st. if path_exists (mfs st) [MIRROR] then mchange (\<lambda>fs. remove_destination fs [MIRROR]) st
                        else (st, Inr ())) (\<lambda>_.
            mbind (mchange (\<lambda>fs. remove_destination fs MANIFEST)) (\<lambda>_. mreturn manifest_new))) st1 = (st', Inr previous)"
    using assms(1) unfolding open_mirror_def by (rule mbind_InrE)
  have found: "st1 = st \<and> found = opened env (mfs st)"
    using f by (auto simp: read_mirror_manifest_def opened_def split: if_splits sum.splits fs_error.splits mirror_entry.splits)
  have "current st' = current st
    \<and> ((opened env (mfs st) = Some previous \<and> mfs st' = mfs st)
      \<or> (opened env (mfs st) = None \<and> previous = manifest_new \<and> mfs st' MANIFEST = None \<and> (\<forall>p. mfs st' (MIRROR # p) = None)))"
  proof (cases "opened env (mfs st)")
    case (Some m')
    then show ?thesis using m found by simp
  next
    case None
    obtain st2 u2 st3 u3 where r: "(if path_exists (mfs st) [MIRROR] then mchange (\<lambda>fs. remove_destination fs [MIRROR]) st
                        else (st, Inr ())) = (st2, Inr u2)"
      and s: "mchange (\<lambda>fs. remove_destination fs MANIFEST) st2 = (st3, Inr u3)"
      and n: "mreturn manifest_new st3 = (st', Inr previous)"
      using m found None by (auto elim!: mbind_InrE)
    have "current st2 = current st \<and> fs_tree (mfs st2) \<and> mfs st2 [MIRROR] = None"
    proof (cases "path_exists (mfs st) [MIRROR]")
      case True
      then obtain fs where "remove_destination (mfs st) [MIRROR] = Some fs" "st2 = st\<lparr>mfs := fs\<rparr>"
        using r by (auto simp: mchange_Inr)
      then show ?thesis using remove_top_Some fs_tree_remove [OF assms(2), of "[MIRROR]" fs] by simp
    next
      case False
      then show ?thesis using r assms(2) by (simp add: path_exists_top)
    qed
    moreover obtain fs where "remove_destination (mfs st2) MANIFEST = Some fs" "st3 = st2\<lparr>mfs := fs\<rparr>"
      using s by (auto simp: mchange_Inr)
    ultimately show ?thesis
      using remove_top_Some [of "mfs st2" "''mirrored-files.json''" fs] below [of "mfs st2"] None n by simp
  qed
  then show "current st' = current st"
    "(opened env (mfs st) = Some previous \<and> mfs st' = mfs st)
      \<or> (opened env (mfs st) = None \<and> previous = manifest_new \<and> mfs st' MANIFEST = None \<and> (\<forall>p. mfs st' (MIRROR # p) = None))"
    by blast+
qed

lemma open_mirror_keeps_tree: "keeps fs_tree (open_mirror env)"
proof -
  have r: "keeps fs_tree (mchange (\<lambda>fs. remove_destination fs [n]))" for n
    by (rule keeps_change) (erule fs_tree_remove, assumption, simp)
  have c: "keeps fs_tree (\<lambda>st. if path_exists (mfs st) [MIRROR] then mchange (\<lambda>fs. remove_destination fs [MIRROR]) st else (st, Inr ()))"
    using r unfolding keeps_def by simp
  have rd: "keeps fs_tree (if path_exists fs PREPARING then mreturn None else read_mirror_manifest env)" for fs
    unfolding keeps_def
    by (auto simp: read_mirror_manifest_def mreturn_def split: sum.splits fs_error.splits mirror_entry.splits)
  show ?thesis
    unfolding keeps_def open_mirror_def
  proof (intro allI impI)
    fix st :: mirror_state
    assume "fs_tree (mfs st)"
    moreover have "keeps fs_tree (mbind (if path_exists (mfs st) PREPARING then mreturn None else read_mirror_manifest env)
       (\<lambda>found. case found of Some m \<Rightarrow> mreturn m
        | None \<Rightarrow>
            mbind (\<lambda>st. if path_exists (mfs st) [MIRROR] then mchange (\<lambda>fs. remove_destination fs [MIRROR]) st
                        else (st, Inr ())) (\<lambda>_.
            mbind (mchange (\<lambda>fs. remove_destination fs MANIFEST)) (\<lambda>_. mreturn manifest_new))))"
      by (intro keeps_bind rd) (auto split: option.split intro!: keeping c r)
    ultimately show "fs_tree (mfs (fst (mbind (if path_exists (mfs st) PREPARING then mreturn None else read_mirror_manifest env)
       (\<lambda>found. case found of Some m \<Rightarrow> mreturn m
        | None \<Rightarrow>
            mbind (\<lambda>st. if path_exists (mfs st) [MIRROR] then mchange (\<lambda>fs. remove_destination fs [MIRROR]) st
                        else (st, Inr ())) (\<lambda>_.
            mbind (mchange (\<lambda>fs. remove_destination fs MANIFEST)) (\<lambda>_. mreturn manifest_new))) st)))"
      by (simp add: keeps_def)
  qed
qed


lemma remove_top_change: "mchange (\<lambda>fs. remove_destination fs [n]) st \<noteq> (st', Inl e)"
  using remove_top [of "mfs st" n] by (auto simp: mchange_def)

lemma write_top:
  "fs [n] \<noteq> Some EDirectory \<Longrightarrow> write_file fs [n] b t x = Some (fs([n] := Some (EFile b t x)))"
  by (simp add: write_file_def stat_def)

lemma mbind_Inl:
  "mbind m f st = (st', Inl e) \<longleftrightarrow> m st = (st', Inl e) \<or> (\<exists>st1 x. m st = (st1, Inr x) \<and> f x st1 = (st', Inl e))"
  by (auto simp: mbind_def split: prod.splits sum.splits)

lemma open_mirror_error: "open_mirror env st = (st', Inl e) \<Longrightarrow> st' = st"
proof -
  assume o': "open_mirror env st = (st', Inl e)"
  have rest: "(case found of Some m \<Rightarrow> mreturn m
        | None \<Rightarrow> mbind (\<lambda>st. if path_exists (mfs st) [MIRROR] then mchange (\<lambda>fs. remove_destination fs [MIRROR]) st
              else (st, Inr ())) (\<lambda>_.
            mbind (mchange (\<lambda>fs. remove_destination fs MANIFEST)) (\<lambda>_. mreturn manifest_new))) st1 \<noteq> (st', Inl e)" for found st1
    using remove_top_change by (cases found) (auto simp: mbind_Inl mreturn_def split: if_splits)
  have "(if path_exists (mfs st) PREPARING then mreturn None else read_mirror_manifest env) st = (st', Inl e)"
    using o' rest unfolding open_mirror_def mbind_Inl by blast
  then show "st' = st"
    by (auto simp: read_mirror_manifest_def mreturn_def split: if_splits sum.splits fs_error.splits mirror_entry.splits)
qed

lemma mark_preparing_effect:
  assumes "fs_tree (mfs st)"
  obtains st' where "mark_preparing env st = (st', Inr ())" "current st' = current st" "fs_tree (mfs st')"
    "mfs st' PREPARING = Some (EFile [] (me_now env) (me_perms env))" "\<forall>q. \<not> prefix PREPARING q \<longrightarrow> mfs st' q = mfs st q"
proof -
  obtain fs where fs: "remove_destination (mfs st) PREPARING = Some fs" "fs PREPARING = None"
    "\<forall>q. \<not> prefix PREPARING q \<longrightarrow> fs q = mfs st q"
    using remove_top by blast
  have w: "write_file fs PREPARING [] (me_now env) (me_perms env) = Some (fs(PREPARING := Some (EFile [] (me_now env) (me_perms env))))"
    using write_top fs(2) by simp
  have "fs_tree fs" using fs_tree_remove [OF assms fs(1)] by simp
  then have t: "fs_tree (fs(PREPARING := Some (EFile [] (me_now env) (me_perms env))))" using fs_tree_write [OF _ w] by simp
  have "mark_preparing env st = (st\<lparr>mfs := fs(PREPARING := Some (EFile [] (me_now env) (me_perms env)))\<rparr>, Inr ())"
    using fs(1) w by (simp add: mark_preparing_def mbind_def mchange_def)
  moreover have "(fs(PREPARING := Some (EFile [] (me_now env) (me_perms env)))) q = mfs st q" if "\<not> prefix PREPARING q" for q
    using that fs(3) by auto
  ultimately show thesis using t that [of "st\<lparr>mfs := fs(PREPARING := Some (EFile [] (me_now env) (me_perms env)))\<rparr>"] by simp
qed

text \<open>From the filled mirror to the end.\<close>

definition finish_mirror :: "mirror_env \<Rightarrow> string list \<Rightarrow> string list mirroring" where
  "finish_mirror env r =
     mbind (check_cancelled env) (\<lambda>_.
     mbind (\<lambda>st. write_mirror_manifest env (current st) st) (\<lambda>_.
     mbind (mchange (\<lambda>fs. if path_exists fs PREPARING then Some (fs(PREPARING := None)) else None)) (\<lambda>_.
       mreturn r)))"

definition written :: "mirror_env \<Rightarrow> mirror_manifest \<Rightarrow> mirror_fs \<Rightarrow> bool" where
  "written env m fs = (\<exists>bytes t x. me_encode env m = Some bytes \<and> length bytes \<le> MAX_MIRROR_MANIFEST_BYTES
     \<and> fs MANIFEST = Some (EFile bytes t x))"

lemma write_mirror_manifest_effect:
  assumes "write_mirror_manifest env m st = (st', res)" "fs_tree (mfs st)"
  shows "fs_tree (mfs st') \<and> current st' = current st
    \<and> (\<forall>q. hd q \<notin> {hd MANIFEST, hd MANIFEST_TMP} \<or> q = [] \<longrightarrow> mfs st' q = mfs st q)
    \<and> (res = Inr u \<longrightarrow> written env m (mfs st'))"
proof (cases "me_encode env m")
  case None
  then show ?thesis using assms by (auto simp: write_mirror_manifest_def mfail_def)
next
  case (Some bytes)
  show ?thesis
  proof (cases "MAX_MIRROR_MANIFEST_BYTES < length bytes")
    case True
    then show ?thesis using assms Some by (auto simp: write_mirror_manifest_def mfail_def)
  next
    case False
    let ?e = "EFile bytes (me_now env) (me_perms env)"
    obtain fs where fs: "remove_destination (mfs st) MANIFEST_TMP = Some fs" "fs MANIFEST_TMP = None"
      "\<forall>q. \<not> prefix MANIFEST_TMP q \<longrightarrow> fs q = mfs st q"
      using remove_top by blast
    have w: "write_file fs MANIFEST_TMP bytes (me_now env) (me_perms env) = Some (fs(MANIFEST_TMP := Some ?e))"
      using write_top fs(2) by simp
    have t1: "fs_tree fs" using fs_tree_remove [OF assms(2) fs(1)] by simp
    then have t2: "fs_tree (fs(MANIFEST_TMP := Some ?e))" using fs_tree_write [OF _ w] by simp
    have out: "fs q = mfs st q" if "hd q \<notin> {hd MANIFEST, hd MANIFEST_TMP} \<or> q = []" for q
      using fs(3) that by (cases q) (auto simp: prefix_def)
    let ?fs2 = "fs(MANIFEST_TMP := Some ?e)"
    have res: "(st', res) = (case rename_file ?fs2 MANIFEST_TMP MANIFEST of
        None \<Rightarrow> (st\<lparr>mfs := ?fs2\<rparr>, Inl OverlayIo) | Some fs3 \<Rightarrow> (st\<lparr>mfs := fs3\<rparr>, Inr ()))"
      using assms(1) Some False fs(1) w
      by (simp add: write_mirror_manifest_def mbind_def mchange_def split: option.splits)
    show ?thesis
    proof (cases "fs MANIFEST = Some EDirectory")
      case True
      then show ?thesis using res t2 out by (auto simp: rename_file_def)
    next
      case False
      have t3: "fs_tree (?fs2(MANIFEST := Some ?e))"
        using fs_tree_leaf [OF t2, of MANIFEST "Some ?e"] False by (simp add: stat_def)
      have t4: "fs_tree (?fs2(MANIFEST := Some ?e, MANIFEST_TMP := None))"
        using fs_tree_leaf [OF t3, of MANIFEST_TMP None] by simp
      have st': "st' = st\<lparr>mfs := ?fs2(MANIFEST := Some ?e, MANIFEST_TMP := None)\<rparr>"
        using res False by (auto simp: rename_file_def)
      show ?thesis
        using st' t4 out Some \<open>\<not> MAX_MIRROR_MANIFEST_BYTES < length bytes\<close>
        by (auto simp: written_def)
    qed
  qed
qed


lemma finish_mirror_effect:
  assumes "finish_mirror env r st = (st', res)" "fs_tree (mfs st)" "mfs st PREPARING = Some (EFile b t x)"
  shows "fs_tree (mfs st')"
    and "res = Inl e \<Longrightarrow> mfs st' PREPARING = Some (EFile b t x)"
    and "res = Inr r' \<Longrightarrow> r' = r \<and> mfs st' PREPARING = None \<and> written env (current st) (mfs st')
      \<and> (\<forall>p. mfs st' (MIRROR # p) = mfs st (MIRROR # p))"
proof -
  obtain st1 c where c: "check_cancelled env st = (st1, c)" by fastforce
  have st1: "mfs st1 = mfs st" "current st1 = current st" using c by (auto simp: check_cancelled_def)
  obtain st2 w where w: "write_mirror_manifest env (current st1) st1 = (st2, w)" by fastforce
  note e = write_mirror_manifest_effect [OF w, of "()"]
  have st2: "fs_tree (mfs st2)" "mfs st2 PREPARING = Some (EFile b t x)" "\<forall>p. mfs st2 (MIRROR # p) = mfs st (MIRROR # p)"
    "w = Inr () \<Longrightarrow> written env (current st) (mfs st2)"
    using e st1 assms(2, 3) by auto
  have res: "(st', res) = (case c of Inl e \<Rightarrow> (st1, Inl e) | Inr _ \<Rightarrow>
      (case w of Inl e \<Rightarrow> (st2, Inl e) | Inr _ \<Rightarrow> (st2\<lparr>mfs := (mfs st2)(PREPARING := None)\<rparr>, Inr r)))"
    using assms(1) c w st2(2)
    by (simp add: finish_mirror_def mbind_def mchange_def mreturn_def path_exists_top split: sum.splits)
  have t3: "fs_tree ((mfs st2)(PREPARING := None))" using fs_tree_leaf [OF st2(1), of PREPARING None] st2(2) by simp
  have wr: "written env m (fs(PREPARING := None)) = written env m fs" for m fs by (simp add: written_def)
  show "fs_tree (mfs st')" using res t3 st2(1) st1 assms(2) by (auto split: sum.splits)
  show "res = Inl e \<Longrightarrow> mfs st' PREPARING = Some (EFile b t x)"
    using res st2 st1 assms(3) by (auto split: sum.splits)
  show "res = Inr r' \<Longrightarrow> r' = r \<and> mfs st' PREPARING = None \<and> written env (current st) (mfs st')
      \<and> (\<forall>p. mfs st' (MIRROR # p) = mfs st (MIRROR # p))"
    using res st2(3, 4) by (auto simp: wr split: sum.splits)
qed

lemma fill_keeps_outside:
  assumes "fill_mirror env request previous st = (st', res)" "outside q"
  shows "mfs st' q = mfs st q"
  using outside.keeps_fill [of "mfs st" env request previous] assms unfolding keeps_def by (metis fst_conv)

lemma fill_keeps_tree:
  "fill_mirror env request previous st = (st', res) \<Longrightarrow> fs_tree (mfs st) \<Longrightarrow> fs_tree (mfs st')"
  using tree.keeps_fill [of env request previous] unfolding keeps_def by (metis fst_conv)

text \<open>A preparation does nothing, or is interrupted, or finishes.\<close>

lemma prepare_outcome:
  assumes "prepare_cancellable env request st = (st', res)" "fs_tree (mfs st)"
  obtains
    (unchanged) e where "mfs st' = mfs st" "res = Inl e"
  | (interrupted) e where "fs_tree (mfs st')" "mfs st' PREPARING \<noteq> None" "res = Inl e"
  | (finished) previous st2 st3 r where "validate request = Inr ()" "res = Inr r"
      "fill_mirror env request previous st2 = (st3, Inr r)" "fs_tree (mfs st2)" "current st2 = manifest_new"
      "opened env (mfs st) = Some previous \<and> (\<forall>p. mfs st2 (MIRROR # p) = mfs st (MIRROR # p))
        \<or> opened env (mfs st) = None \<and> previous = manifest_new \<and> (\<forall>p. mfs st2 (MIRROR # p) = None)"
      "fs_tree (mfs st')" "\<forall>p. mfs st' (MIRROR # p) = mfs st3 (MIRROR # p)"
      "mfs st' PREPARING = None" "written env (current st3) (mfs st')"
proof (cases "validate request")
  case (Inl e)
  then show thesis using assms(1) unchanged [of e] by (auto simp: prepare_cancellable_def mfail_def)
next
  case (Inr u)
  have unit: "u = ()" by simp
  let ?rest = "\<lambda>previous. mbind (mark_preparing env) (\<lambda>_. mbind (\<lambda>st. (st\<lparr>current := manifest_new\<rparr>, Inr ())) (\<lambda>_.
      mbind (fill_mirror env request previous) (finish_mirror env)))"
  have eq: "prepare_cancellable env request = mbind (check_cancelled env) (\<lambda>_. mbind (open_mirror env) ?rest)"
    by (simp add: prepare_cancellable_def Inr finish_mirror_def [abs_def])
  obtain st0 c where c: "check_cancelled env st = (st0, c)" by fastforce
  have st0: "mfs st0 = mfs st" using c by (auto simp: check_cancelled_def)
  obtain st1 found where o': "open_mirror env st0 = (st1, found)" by fastforce
  show thesis
  proof (cases c)
    case (Inl e)
    then show thesis using assms(1) eq c st0 unchanged [of e] by (auto simp: mbind_def)
  next
    case c': (Inr u0)
    show thesis
    proof (cases found)
      case (Inl e)
      then have "mfs st' = mfs st" "res = Inl e"
        using assms(1) eq c c' o' st0 open_mirror_error [of env st0 st1 e] by (simp_all add: mbind_def)
      then show thesis by (rule unchanged)
    next
      case found: (Inr previous)
      have rest: "?rest previous st1 = (st', res)"
        using assms(1) unfolding eq mbind_def [of "check_cancelled env"] mbind_def [of "open_mirror env"] c c' prod.case sum.case o' found by simp
      have tree0: "fs_tree (mfs st0)" using assms(2) st0 by simp
      have tree1: "fs_tree (mfs st1)"
        using open_mirror_keeps_tree [of env] tree0 o' unfolding keeps_def by (metis fst_conv)
      note op = open_mirror_steps(2) [OF o' [unfolded found] tree0]
      obtain st2 where m: "mark_preparing env st1 = (st2, Inr ())" "current st2 = current st1" "fs_tree (mfs st2)"
        "mfs st2 PREPARING = Some (EFile [] (me_now env) (me_perms env))" "\<forall>q. \<not> prefix PREPARING q \<longrightarrow> mfs st2 q = mfs st1 q"
        by (rule mark_preparing_effect [OF tree1, of env])
      let ?st2 = "st2\<lparr>current := manifest_new\<rparr>"
      obtain st3 filled where f: "fill_mirror env request previous ?st2 = (st3, filled)" by fastforce
      have tree3: "fs_tree (mfs st3)" using fill_keeps_tree [OF f] m(3) by simp
      have mark3: "mfs st3 PREPARING = Some (EFile [] (me_now env) (me_perms env))"
        using fill_keeps_outside [OF f, of PREPARING] m(4) by (simp add: outside_def)
      show thesis
      proof (cases filled)
        case (Inl e)
        then have "st' = st3" "res = Inl e" using rest m(1) f by (simp_all add: mbind_def)
        then show thesis using interrupted tree3 mark3 by simp
      next
        case filled: (Inr r)
        have fin: "finish_mirror env r st3 = (st', res)" using rest m(1) f filled by (simp add: mbind_def)
        note fe = finish_mirror_effect [OF fin tree3 mark3]
        show thesis
        proof (cases res)
          case (Inl e)
          then show thesis using interrupted fe(1) fe(2) [OF Inl] by simp
        next
          case res: (Inr r')
          have "\<forall>p. mfs ?st2 (MIRROR # p) = mfs st1 (MIRROR # p)" using m(5) by simp
          then show thesis
            using finished [of r previous ?st2 st3] Inr unit fe(1) fe(3) [OF res] f filled m(3) op st0 res by auto
        qed
      qed
    qed
  qed
qed


section \<open>A preparation\<close>

definition left_over :: "mirror_env \<Rightarrow> mirror_fs \<Rightarrow> string list \<Rightarrow> bool" where
  "left_over env fs p = (\<exists>m. opened env fs = Some m \<and> (\<forall>rel \<in> set (mm_paths m). p \<noteq> MIRROR # split_char SLASH rel))"

definition mirror_exact :: "mirror_env \<Rightarrow> overlay_document list \<Rightarrow> mirror_fs \<Rightarrow> mirror_fs \<Rightarrow> bool" where
  "mirror_exact env ds before fs = (holds_documents env ds fs \<and> holds_sources env ds fs
     \<and> (\<forall>p. blocks (fs (MIRROR # p)) \<longrightarrow> is_input env ds (MIRROR # p)
          \<or> left_over env before (MIRROR # p) \<and> before (MIRROR # p) = fs (MIRROR # p)))"

lemma no_collision_cong: "(\<And>p. fs (MIRROR # p) = fs' (MIRROR # p)) \<Longrightarrow> no_collision env fs = no_collision env fs'"
  by (simp add: no_collision_def)

lemma digests_true_cong: "(\<And>p. fs (MIRROR # p) = fs' (MIRROR # p)) \<Longrightarrow> digests_true env fs m = digests_true env fs' m"
  by (simp add: digests_true_def)

lemma document_target_mirror: "document_target br d = MIRROR # tl (document_target br d)"
  by (simp add: document_target_def)

lemma holds_cong:
  assumes "\<And>p. fs (MIRROR # p) = fs' (MIRROR # p)"
  shows "holds_documents env ds fs = holds_documents env ds fs'" "holds_sources env ds fs = holds_sources env ds fs'"
  unfolding holds_documents_def holds_sources_def document_target_def by (simp_all add: assms)

lemma prepared_mirror:
  assumes "prepare_cancellable env request st = (st', Inr r)" "fs_tree (mfs st)"
    and "plain_sources env" "plain_documents env (documents request)"
    and "opened env (mfs st) \<noteq> None \<longrightarrow> trusted env (mfs st) \<and> no_collision env (mfs st)"
  shows "r = MIRROR # below_root_of env \<and> mirror_exact env (documents request) (mfs st) (mfs st')
    \<and> (\<exists>m. written env m (mfs st') \<and> mm_schema_version m = 1 \<and> digests_true env (mfs st') m) \<and> mfs st' PREPARING = None"
  using assms(1, 2)
proof (cases rule: prepare_outcome)
  case (finished previous st2 st3 r')
  let ?ds = "documents request"
  have d2: "digests_true env (mfs st2) previous \<and> no_collision env (mfs st2)"
    using finished(6)
  proof
    assume "opened env (mfs st) = Some previous \<and> (\<forall>p. mfs st2 (MIRROR # p) = mfs st (MIRROR # p))"
    then show ?thesis using assms(5) digests_true_cong [of "mfs st2" "mfs st"] no_collision_cong [of "mfs st2" "mfs st"]
      unfolding trusted_def by blast
  next
    assume "opened env (mfs st) = None \<and> previous = manifest_new \<and> (\<forall>p. mfs st2 (MIRROR # p) = None)"
    then show ?thesis by (simp add: digests_true_def no_collision_def manifest_new_def)
  qed
  note e = fill_mirror_exact [OF finished(3-5) assms(3, 4) validated_documents_apart [OF finished(1) assms(4)]
      conjunct1 [OF d2] conjunct2 [OF d2]]
  have same: "\<And>p. mfs st' (MIRROR # p) = mfs st3 (MIRROR # p)" using finished(8) by blast
  have "is_input env ?ds (MIRROR # p) \<or> left_over env (mfs st) (MIRROR # p) \<and> mfs st (MIRROR # p) = mfs st' (MIRROR # p)"
    if "blocks (mfs st' (MIRROR # p))" for p
  proof (cases "is_input env ?ds (MIRROR # p)")
    case False
    then have "mfs st2 (MIRROR # p) = mfs st' (MIRROR # p) \<and> (\<forall>rel \<in> set (mm_paths previous). MIRROR # p \<noteq> MIRROR # split_char SLASH rel)"
      using e(3) that same [of p] unfolding nothing_else_def by metis
    then show ?thesis using finished(6) that unfolding left_over_def by (metis blocks_simps(1))
  qed blast
  then have "mirror_exact env ?ds (mfs st) (mfs st')"
    using e(1, 2) holds_cong [of "mfs st'" "mfs st3", OF same] by (simp add: mirror_exact_def)
  then show ?thesis
    using e(4-6) digests_true_cong [of "mfs st'" "mfs st3", OF same] finished(2, 9, 10) by auto
qed simp_all

lemma written_opened:
  assumes "\<forall>m bytes. me_encode env m = Some bytes \<longrightarrow> me_decode env bytes = Some m"
    and "written env m fs" "mm_schema_version m = 1" "fs PREPARING = None"
  shows "opened env fs = Some m"
  using assms by (auto simp: written_def opened_def path_exists_top stat_top decode_manifest_def)

lemma prepare_keeps_trust:
  assumes "fs_tree (mfs st)" "trusted env (mfs st)"
    and "\<forall>m bytes. me_encode env m = Some bytes \<longrightarrow> me_decode env bytes = Some m"
    and "plain_sources env" "plain_documents env (documents request)" "no_collision env (mfs st)"
  shows "fs_tree (mfs (fst (prepare_cancellable env request st))) \<and> trusted env (mfs (fst (prepare_cancellable env request st)))"
proof -
  obtain st' res where p: "prepare_cancellable env request st = (st', res)" by fastforce
  then have "fs_tree (mfs st') \<and> trusted env (mfs st')" using assms(1)
  proof (cases rule: prepare_outcome)
    case (unchanged e)
    then show ?thesis using assms(1, 2) by simp
  next
    case (interrupted e)
    then show ?thesis by (simp add: trusted_def opened_def path_exists_top)
  next
    case (finished previous st2 st3 r)
    have "prepare_cancellable env request st = (st', Inr r)" using p finished(2) by simp
    from prepared_mirror [OF this assms(1, 4, 5)] assms(2, 6) obtain m
      where "written env m (mfs st')" "mm_schema_version m = 1" "digests_true env (mfs st') m" by blast
    then show ?thesis using written_opened [OF assms(3)] finished(7, 9) unfolding trusted_def by auto
  qed
  then show ?thesis using p by simp
qed

section \<open>Sessions\<close>

text \<open>The life of a session directory: preparations, whatever their sources, documents and outcome,
  and builds.  A build changes the mirror only, and not the files the manifest vouches for.\<close>

definition same_format :: "mirror_env \<Rightarrow> mirror_env \<Rightarrow> bool" where
  "same_format env env' = (me_hashes env = me_hashes env' \<and> me_encode env = me_encode env'
     \<and> me_decode env = me_decode env' \<and> me_decode_paths env = me_decode_paths env')"

abbreviation prepare_from :: "mirror_env \<Rightarrow> overlay_request \<Rightarrow> mirror_fs \<Rightarrow> mirror_state \<times> (overlay_error + string list)" where
  "prepare_from env request fs \<equiv>
     prepare_cancellable env request \<lparr>mfs = fs, checks = 0, current = manifest_new\<rparr>"

inductive mirror_session :: "mirror_env \<Rightarrow> mirror_fs \<Rightarrow> bool" for format :: mirror_env where
  session_start: "mirror_session format (\<lambda>_. None)"
| session_prepare: "mirror_session format fs \<Longrightarrow> same_format format env \<Longrightarrow> plain_sources env \<Longrightarrow>
    plain_documents env (documents request) \<Longrightarrow> no_collision env fs \<Longrightarrow>
    mirror_session format (mfs (fst (prepare_from env request fs)))"
| session_build: "mirror_session format fs \<Longrightarrow> fs_tree fs' \<Longrightarrow> \<forall>p. outside p \<longrightarrow> fs' p = fs p \<Longrightarrow>
    \<forall>m rel b t x. opened format fs = Some m \<longrightarrow> bt_contains (mm_digests m) rel \<longrightarrow>
      fs' (MIRROR # split_char SLASH rel) = Some (EFile b t x) \<longrightarrow>
      (\<exists>t x. fs (MIRROR # split_char SLASH rel) = Some (EFile b t x)) \<Longrightarrow>
    mirror_session format fs'"

lemma trusted_cong: "same_format env env' \<Longrightarrow> trusted env fs = trusted env' fs"
proof -
  assume f: "same_format env env'"
  have "decode_manifest env bytes = decode_manifest env' bytes" for bytes
    using f unfolding same_format_def decode_manifest_def by (simp cong: option.case_cong if_cong)
  then have d: "decode_manifest env = decode_manifest env'" ..
  have "opened env fs = opened env' fs" unfolding opened_def d ..
  moreover have "digests_true env fs m = digests_true env' fs m" for m
    using f unfolding same_format_def digests_true_def by simp
  ultimately have "opened env fs = opened env' fs" "\<And>m. digests_true env fs m = digests_true env' fs m" by blast+
  then show ?thesis by (simp add: trusted_def)
qed

lemma session_trusted:
  assumes "mirror_session format fs" "\<forall>m bytes. me_encode format m = Some bytes \<longrightarrow> me_decode format bytes = Some m"
  shows "fs_tree fs \<and> trusted format fs"
  using assms(1)
proof (induction rule: mirror_session.induct)
  case session_start
  then show ?case by (simp add: fs_tree_def trusted_def opened_def path_exists_top stat_top)
next
  case (session_prepare fs env request)
  have "\<forall>m bytes. me_encode env m = Some bytes \<longrightarrow> me_decode env bytes = Some m"
    using assms(2) session_prepare(2) by (simp add: same_format_def)
  then show ?case
    using prepare_keeps_trust [of "\<lparr>mfs = fs, checks = 0, current = manifest_new\<rparr>" env request]
      session_prepare trusted_cong [OF session_prepare(2)] by simp
next
  case (session_build fs fs')
  have same: "opened format fs' = opened format fs"
    by (rule opened_cong) (simp_all add: session_build(3) outside_def)
  have "digests_true format fs' m" if m: "opened format fs' = Some m" for m
  proof -
    have d: "digests_true format fs m" using session_build.IH m same by (simp add: trusted_def)
    show ?thesis
      unfolding digests_true_def
    proof (intro conjI allI impI)
      show "list_all plain_path (mm_paths m)" using d by (simp add: digests_true_def)
      fix rel d' b t x
      assume g: "bt_get (mm_digests m) rel = Some d'" and n: "rel \<notin> set (mm_overlay_paths m)"
        and f: "fs' (MIRROR # split_char SLASH rel) = Some (EFile b t x)"
      obtain t' x' where "fs (MIRROR # split_char SLASH rel) = Some (EFile b t' x')"
        using session_build(4) m same g f unfolding bt_contains_def by fastforce
      then show "digest (me_hashes format) b = d'" using d g n unfolding digests_true_def by blast
    qed
  qed
  then show ?case using session_build(2) by (simp add: trusted_def)
qed

end
