(* ===== verification/Mirror_Sessions.thy ===== *)
theory Mirror_Sessions
  imports Mirror_Trust
begin

text \<open>
  The promises of the mirror, over the whole life of a session directory.
\<close>

section \<open>A session with one file and one document\<close>

definition sample_mirror_manifest :: mirror_manifest where
  "sample_mirror_manifest = \<lparr>mm_schema_version = 1, mm_paths = [''a'', ''b''], mm_digests = [(''a'', ''x'')],
     mm_overlay_paths = [''b'']\<rparr>"

definition sample_mirror_env :: mirror_env where
  "sample_mirror_env = \<lparr>me_hashes = \<lparr>sha256 = (\<lambda>s. s), hex = (\<lambda>s. s)\<rparr>, me_workspace = [''w''],
     me_git_dir = (\<lambda>_. False), me_tracked = (\<lambda>_ _. None), me_listed = (\<lambda>_. None),
     me_tree = (\<lambda>_. SourceDirectory (Some [(''a'', SourceFile (Some ''x'') 3 0)])),
     me_cancelled = (\<lambda>_. False), me_now = 9, me_perms = 7, me_writable = (\<lambda>_. True),
     me_encode = (\<lambda>m. if m = sample_mirror_manifest then Some ''m'' else None),
     me_decode = (\<lambda>_. Some sample_mirror_manifest), me_decode_paths = (\<lambda>_. None)\<rparr>"

definition sample_mirror_request :: overlay_request where
  "sample_mirror_request = \<lparr>overlay_session_id = ''s'',
     documents = [\<lparr>doc_path = ''b'', doc_version = 1, doc_content = ''y''\<rparr>]\<rparr>"

lemma sample_roots:
  "repository_root sample_mirror_env = None" "source_root_of sample_mirror_env = [''w'']"
  "below_root_of sample_mirror_env = []"
  by code_simp+

lemma sample_spellings: "lossy_relative [''a''] = ''a''" "lossy_relative [''b''] = ''b''"
  "split_char SLASH ''a'' = [''a'']" "split_char SLASH ''b'' = [''b'']" "names_of ''b'' = [''b'']" "names_of ''a'' = [''a'']"
  by code_simp+

abbreviation sample_tree :: source_node where
  "sample_tree \<equiv> SourceDirectory (Some [(''a'', SourceFile (Some ''x'') 3 0)])"

lemma sample_env [simp]:
  "me_workspace sample_mirror_env = [''w'']" "me_cancelled sample_mirror_env = (\<lambda>_. False)"
  "me_now sample_mirror_env = 9" "me_perms sample_mirror_env = 7" "me_writable sample_mirror_env = (\<lambda>_. True)"
  "me_tree sample_mirror_env = (\<lambda>_. sample_tree)" "digest (me_hashes sample_mirror_env) s = s"
  "me_encode sample_mirror_env = (\<lambda>m. if m = sample_mirror_manifest then Some ''m'' else None)"
  "me_decode sample_mirror_env = (\<lambda>_. Some sample_mirror_manifest)"
  by (simp_all add: sample_mirror_env_def digest_def)

lemma sample_visits:
  "walk_directory [] sample_tree = [VisitCheck, VisitFile [''a''] ''a'' (Some ''x'') 3 0]"
  "source_visits sample_mirror_env = [VisitCheck, VisitFile [''a''] ''a'' (Some ''x'') 3 0]"
proof -
  show "walk_directory [] sample_tree = [VisitCheck, VisitFile [''a''] ''a'' (Some ''x'') 3 0]"
    by (simp add: Let_def sample_spellings)
  then show "source_visits sample_mirror_env = [VisitCheck, VisitFile [''a''] ''a'' (Some ''x'') 3 0]"
    by (simp only: source_visits_def sample_roots sample_env Let_def if_True simp_thms)
qed

lemma sample_valid: "validate sample_mirror_request = Inr ()"
proof -
  have "validate_relative_path ''b'' = Inr ()" "valid_session ''s''" "conflict_free [''b'']" by code_simp+
  then show ?thesis
    by (simp add: sample_mirror_request_def validate_def validate_documents_iff overlay_limits del: validate_documents.simps)
qed

lemma sample_mirror_plain: "plain_sources sample_mirror_env" "plain_documents sample_mirror_env (documents sample_mirror_request)"
proof -
  have p: "plain_path ''a''" "plain_path ''b''"
    by (simp_all add: plain_path_def sample_spellings del: split_char.simps)
  show "plain_sources sample_mirror_env"
    by (simp add: plain_sources_def sample_visits plain_visit_def p sample_spellings del: split_char.simps)
  show "plain_documents sample_mirror_env (documents sample_mirror_request)"
    by (simp add: plain_documents_def sample_roots sample_mirror_request_def p sample_spellings del: split_char.simps)
qed

abbreviation mst :: "mirror_fs \<Rightarrow> nat \<Rightarrow> mirror_manifest \<Rightarrow> mirror_state" where
  "mst fs k m \<equiv> \<lparr>mfs = fs, checks = k, current = m\<rparr>"

lemmas sample_simps = mbind_def mreturn_def mchange_def check_cancelled_def stat_def path_exists_def
  remove_destination_def write_file_def create_dir_all_def

lemma sample_open: "open_mirror sample_mirror_env (mst (\<lambda>_. None) k m) = (mst (\<lambda>_. None) k m, Inr manifest_new)"
  by (simp add: open_mirror_def read_mirror_manifest_def sample_simps)

lemma sample_mark: "mark_preparing sample_mirror_env (mst (\<lambda>_. None) k m) = (mst [PREPARING \<mapsto> EFile [] 9 7] k m, Inr ())"
  by (simp add: mark_preparing_def sample_simps)

definition sample_fs :: mirror_fs where
  "sample_fs = [PREPARING \<mapsto> EFile [] 9 7, [MIRROR] \<mapsto> EDirectory]"

lemma sample_create: "create_dir_all [PREPARING \<mapsto> EFile [] 9 7] [MIRROR] = Some sample_fs"
  by (auto simp: create_dir_all_def sample_fs_def fun_eq_iff prefix_Cons)

lemma sample_read: "read_chunks (\<lambda>_. False) k [] ''x'' = (k + 2, ''x'', False)"
  by (simp add: read_chunks.simps CHUNK_def)

lemma sample_file:
  "mirror_file sample_mirror_env manifest_new [''a''] ''a'' (Some ''x'') 3 0 (mst sample_fs k manifest_new)
     = (mst (sample_fs([MIRROR, ''a''] \<mapsto> EFile ''x'' 3 0)) (k + 5)
          (manifest_new\<lparr>mm_paths := [''a''], mm_digests := [(''a'', ''x'')]\<rparr>), Inr ())"
proof -
  have c: "create_dir_all sample_fs [MIRROR] = Some sample_fs"
    by (auto simp: create_dir_all_def sample_fs_def fun_eq_iff prefix_Cons)
  have r: "remove_destination sample_fs [MIRROR, ''a''] = Some sample_fs"
    by (simp add: remove_destination_def stat_def sample_fs_def)
  have w: "write_file sample_fs [MIRROR, ''a''] ''x'' 3 0 = Some (sample_fs([MIRROR, ''a''] \<mapsto> EFile ''x'' 3 0))"
    by (simp add: write_file_def stat_def sample_fs_def)
  show ?thesis
    by (simp add: mirror_file_def file_digest_def sample_read manifest_new_def copy_input_def record_file_def
      mbind_def mreturn_def mchange_def check_cancelled_def c r w Let_def bs_insert_def)
qed


definition sample_filled :: mirror_fs where
  "sample_filled = sample_fs([MIRROR, ''a''] \<mapsto> EFile ''x'' 3 0, [MIRROR, ''b''] \<mapsto> EFile ''y'' 9 7)"

lemma sample_document:
  "write_document sample_mirror_env [] \<lparr>doc_path = ''b'', doc_version = 1, doc_content = ''y''\<rparr>
      (mst (sample_fs([MIRROR, ''a''] \<mapsto> EFile ''x'' 3 0)) k m)
    = (mst sample_filled (k + 1) m, Inr ())"
proof -
  let ?fs = "sample_fs([MIRROR, ''a''] \<mapsto> EFile ''x'' 3 0)"
  have c: "create_dir_all ?fs [MIRROR] = Some ?fs"
    by (auto simp: create_dir_all_def sample_fs_def fun_eq_iff prefix_Cons)
  have r: "remove_destination ?fs [MIRROR, ''b''] = Some ?fs"
    by (simp add: remove_destination_def stat_def sample_fs_def)
  have w: "write_file ?fs [MIRROR, ''b''] ''y'' 9 7 = Some sample_filled"
    by (simp add: write_file_def stat_def sample_fs_def sample_filled_def)
  show ?thesis
    by (simp add: write_document_def sample_spellings mbind_def mchange_def check_cancelled_def c r w Let_def)
qed

lemma sample_fill:
  "fill_mirror sample_mirror_env sample_mirror_request manifest_new (mst [PREPARING \<mapsto> EFile [] 9 7] k manifest_new)
    = (mst sample_filled (k + 8) sample_mirror_manifest, Inr [MIRROR])"
proof -
  have overlay: "record_overlay sample_mirror_env [] \<lparr>doc_path = ''b'', doc_version = 1, doc_content = ''y''\<rparr>
      (mst fs k (manifest_new\<lparr>mm_paths := [''a''], mm_digests := [(''a'', ''x'')]\<rparr>))
    = (mst fs (k + 1) sample_mirror_manifest, Inr ())" for fs k
    by (simp add: record_overlay_def mbind_def check_cancelled_def sample_spellings bs_insert_def manifest_new_def
        sample_mirror_manifest_def Let_def less_list_code del: split_char.simps)
  have empty: "mm_paths manifest_new = []" by (simp add: manifest_new_def)
  show ?thesis
    by (simp add: fill_mirror_def sample_roots Let_def sample_create mirror_directory_def sample_visits visit_def
      sample_file sample_document overlay sample_mirror_request_def mbind_def mchange_def mreturn_def
      check_cancelled_def empty del: walk_directory.simps)
qed

lemma sample_finish:
  "finish_mirror sample_mirror_env [MIRROR] (mst sample_filled k sample_mirror_manifest)
    = (mst ((sample_filled(MANIFEST \<mapsto> EFile ''m'' 9 7))(PREPARING := None)) (k + 1) sample_mirror_manifest, Inr [MIRROR])"
proof -
  let ?tmp = "sample_filled(MANIFEST_TMP \<mapsto> EFile ''m'' 9 7)"
  have small: "\<not> MAX_MIRROR_MANIFEST_BYTES < length ''m''" by (simp add: MAX_MIRROR_MANIFEST_BYTES_def)
  have r: "remove_destination sample_filled MANIFEST_TMP = Some sample_filled"
    by (simp add: remove_destination_def stat_def sample_filled_def sample_fs_def)
  have w: "write_file sample_filled MANIFEST_TMP ''m'' 9 7 = Some ?tmp"
    by (simp add: write_file_def stat_def sample_filled_def sample_fs_def)
  have n: "rename_file ?tmp MANIFEST_TMP MANIFEST = Some (sample_filled(MANIFEST \<mapsto> EFile ''m'' 9 7))"
    by (auto simp: rename_file_def sample_filled_def sample_fs_def fun_eq_iff)
  have e: "path_exists (sample_filled(MANIFEST \<mapsto> EFile ''m'' 9 7)) PREPARING"
    by (simp add: path_exists_top sample_filled_def sample_fs_def)
  show ?thesis
    using small by (simp add: finish_mirror_def write_mirror_manifest_def mbind_def mchange_def mreturn_def check_cancelled_def r w n e)
qed

lemma sample_mirror_result:
  "prepare_from sample_mirror_env sample_mirror_request (\<lambda>_. None)
    = (mst ((sample_filled(MANIFEST \<mapsto> EFile ''m'' 9 7))(PREPARING := None)) 10 sample_mirror_manifest, Inr [MIRROR])"
  by (simp add: prepare_cancellable_def sample_valid mbind_def check_cancelled_def sample_open sample_mark sample_fill
    finish_mirror_def [symmetric] sample_finish)

section \<open>Properties\<close>

text \<open>\<^bold>\<open>C1\<close> A live verification runs on exactly what the editor shows.  Whatever happened in the
  session directory before (preparations of other sources and documents, finished, failed, cancelled
  half-way, and builds that leave the mirrored inputs alone), a preparation that succeeds leaves
  every unsaved document and every source file that no document covers in the mirror, byte for byte;
  and any other file in it is untouched and was not put there by the previous preparation.\<close>

theorem session_mirror_is_exact:
  assumes "mirror_session format fs" "\<forall>m bytes. me_encode format m = Some bytes \<longrightarrow> me_decode format bytes = Some m"
    and "same_format format env" "plain_sources env" "plain_documents env (documents request)" "no_collision env fs"
    and "prepare_from env request fs = (st', Inr r)"
  shows "r = MIRROR # below_root_of env \<and> mirror_exact env (documents request) fs (mfs st')"
proof -
  have "fs_tree fs \<and> trusted env fs"
    using session_trusted [OF assms(1, 2)] trusted_cong [OF assms(3)] by blast
  then show ?thesis
    using prepared_mirror [OF assms(7) _ assms(4, 5)] assms(6) by simp
qed

theorem session_mirror_is_exact_witness:
  "mirror_exact sample_mirror_env (documents sample_mirror_request) (\<lambda>_. None)
     ((sample_filled(MANIFEST \<mapsto> EFile ''m'' 9 7))(PREPARING := None))"
proof -
  have enc: "\<forall>m bytes. me_encode sample_mirror_env m = Some bytes \<longrightarrow> me_decode sample_mirror_env bytes = Some m"
    by simp
  have "no_collision sample_mirror_env (\<lambda>_. None)" by (simp add: no_collision_def)
  from session_mirror_is_exact [OF session_start enc _ sample_mirror_plain this sample_mirror_result]
  show ?thesis by (simp add: same_format_def)
qed

text \<open>\<^bold>\<open>C15\<close> A preparation that did not finish is not trusted.  When a preparation fails or is
  cancelled after it changed anything in the session directory, and whatever then happens inside the
  mirror, the next preparation that succeeds rebuilds it: the mirror holds the documents and the
  sources, and no other file at all.\<close>

theorem interrupted_mirror_is_rebuilt:
  assumes "fs_tree fs" "prepare_from env1 request1 fs = (st1, Inl e)" "mfs st1 \<noteq> fs"
    and "fs_tree fs2" "\<forall>p. (p = [] \<or> hd p \<noteq> MIRROR) \<longrightarrow> fs2 p = mfs st1 p"
    and "plain_sources env" "plain_documents env (documents request)"
    and "prepare_from env request fs2 = (st', Inr r)"
  shows "holds_documents env (documents request) (mfs st') \<and> holds_sources env (documents request) (mfs st')
    \<and> (\<forall>p. blocks (mfs st' (MIRROR # p)) \<longrightarrow> is_input env (documents request) (MIRROR # p))"
proof -
  have "fs_tree (mfs \<lparr>mfs = fs, checks = 0, current = manifest_new\<rparr>)" using assms(1) by simp
  from assms(2) this have "mfs st1 PREPARING \<noteq> None"
    by (cases rule: prepare_outcome) (use assms(3) in auto)
  then have "opened env fs2 = None" using assms(5) by (simp add: opened_def path_exists_top)
  then show ?thesis
    using prepared_mirror [OF assms(8) _ assms(6, 7)] assms(4) by (auto simp: mirror_exact_def left_over_def)
qed

text \<open>A preparation cancelled before the first file, and a file that appeared in the mirror afterwards.\<close>

definition cancelled_mirror_env :: mirror_env where
  "cancelled_mirror_env = sample_mirror_env\<lparr>me_cancelled := (\<lambda>k. 0 < k)\<rparr>"

lemma cancelled_mirror_result: "prepare_from cancelled_mirror_env sample_mirror_request (\<lambda>_. None) = (mst sample_fs 2 manifest_new, Inl Cancelled)"
proof -
  let ?env = cancelled_mirror_env
  have c: "me_cancelled ?env = (\<lambda>k. 0 < k)" "me_tree ?env = (\<lambda>_. sample_tree)"
    by (simp_all add: cancelled_mirror_env_def)
  have r: "repository_root ?env = None" "me_workspace ?env = [''w'']"
    by code_simp+
  have o': "open_mirror ?env (mst (\<lambda>_. None) k m) = (mst (\<lambda>_. None) k m, Inr manifest_new)" for k m
    by (simp add: open_mirror_def read_mirror_manifest_def sample_simps)
  have m: "mark_preparing ?env (mst (\<lambda>_. None) k m) = (mst [PREPARING \<mapsto> EFile [] 9 7] k m, Inr ())" for k m
    by (simp add: mark_preparing_def sample_simps cancelled_mirror_env_def)
  have f: "fill_mirror ?env sample_mirror_request manifest_new (mst [PREPARING \<mapsto> EFile [] 9 7] (Suc 0) manifest_new)
      = (mst sample_fs 2 manifest_new, Inl Cancelled)"
    by (simp add: fill_mirror_def r c Let_def sample_create mirror_directory_def sample_visits visit_def
      mbind_def mchange_def mreturn_def check_cancelled_def del: walk_directory.simps)
  show ?thesis
    by (simp add: prepare_cancellable_def sample_valid mbind_def check_cancelled_def c o' m f)
qed

definition sample_interrupted :: mirror_fs where
  "sample_interrupted = sample_fs([MIRROR, ''c''] \<mapsto> EFile ''z'' 4 7)"

lemma sample_interrupted_result:
  "prepare_from sample_mirror_env sample_mirror_request sample_interrupted
    = (mst ((sample_filled(MANIFEST \<mapsto> EFile ''m'' 9 7))(PREPARING := None)) 10 sample_mirror_manifest, Inr [MIRROR])"
proof -
  have r: "remove_destination sample_interrupted [MIRROR] = Some [PREPARING \<mapsto> EFile [] 9 7]"
    by (auto simp: remove_destination_def remove_dir_all_def stat_def sample_interrupted_def sample_fs_def fun_eq_iff)
  have e: "path_exists sample_interrupted PREPARING" "path_exists sample_interrupted [MIRROR]"
    by (simp_all add: path_exists_top sample_interrupted_def sample_fs_def)
  have n: "remove_destination [PREPARING \<mapsto> EFile [] 9 7] MANIFEST = Some [PREPARING \<mapsto> EFile [] 9 7]"
    by (simp add: remove_destination_def stat_def)
  have o': "open_mirror sample_mirror_env (mst sample_interrupted k m) = (mst [PREPARING \<mapsto> EFile [] 9 7] k m, Inr manifest_new)" for k m
    by (simp add: open_mirror_def mbind_def mreturn_def mchange_def r e n)
  have m: "mark_preparing sample_mirror_env (mst [PREPARING \<mapsto> EFile [] 9 7] k m) = (mst [PREPARING \<mapsto> EFile [] 9 7] k m, Inr ())" for k m
    by (simp add: mark_preparing_def mbind_def mchange_def remove_destination_def stat_def write_file_def)
  show ?thesis
    by (simp add: prepare_cancellable_def sample_valid mbind_def check_cancelled_def o' m sample_fill
      finish_mirror_def [symmetric] sample_finish)
qed

theorem interrupted_mirror_is_rebuilt_witness:
  "holds_sources sample_mirror_env (documents sample_mirror_request)
     ((sample_filled(MANIFEST \<mapsto> EFile ''m'' 9 7))(PREPARING := None))"
proof -
  have "fs_tree sample_interrupted"
    by (auto simp: fs_tree_def sample_interrupted_def sample_fs_def strict_prefix_def prefix_Cons split: if_splits)
  moreover have "fs_tree (\<lambda>_. None)" by (simp add: fs_tree_def)
  moreover have "mfs (mst sample_fs 2 manifest_new) \<noteq> (\<lambda>_. None)" by (auto simp: sample_fs_def fun_eq_iff)
  moreover have "\<forall>p. (p = [] \<or> hd p \<noteq> MIRROR) \<longrightarrow> sample_interrupted p = mfs (mst sample_fs 2 manifest_new) p"
    by (auto simp: sample_interrupted_def)
  ultimately show ?thesis
    using interrupted_mirror_is_rebuilt [OF _ cancelled_mirror_result _ _ _ sample_mirror_plain sample_interrupted_result] by simp
qed

text \<open>The files of a session directory stay a tree, and its metadata stays true: in every state
  of a session nothing hangs below a file or a link, and a manifest that the next preparation would
  trust records the digests of the files that are in the mirror.\<close>

theorem session_keeps_tree_and_trust:
  assumes "mirror_session format fs" "\<forall>m bytes. me_encode format m = Some bytes \<longrightarrow> me_decode format bytes = Some m"
  shows "fs_tree fs \<and> trusted format fs"
  by (rule session_trusted [OF assms])

theorem session_keeps_tree_and_trust_witness:
  "fs_tree ((sample_filled(MANIFEST \<mapsto> EFile ''m'' 9 7))(PREPARING := None))
   \<and> trusted sample_mirror_env ((sample_filled(MANIFEST \<mapsto> EFile ''m'' 9 7))(PREPARING := None))"
proof -
  have enc: "\<forall>m bytes. me_encode sample_mirror_env m = Some bytes \<longrightarrow> me_decode sample_mirror_env bytes = Some m"
    by simp
  have "no_collision sample_mirror_env (\<lambda>_. None)" by (simp add: no_collision_def)
  from session_prepare [OF session_start _ sample_mirror_plain this, of sample_mirror_env]
  have "mirror_session sample_mirror_env ((sample_filled(MANIFEST \<mapsto> EFile ''m'' 9 7))(PREPARING := None))"
    by (simp add: sample_mirror_result same_format_def)
  from session_keeps_tree_and_trust [OF this enc] show ?thesis .
qed

end
