(* ===== verification/Verifier_Ingest.thy ===== *)
theory Verifier_Ingest
  imports Verifier_Data
begin

text \<open>
  \<^verbatim>\<open>crates/walaru-daemon/src/verifier.rs\<close>, ingestion: the event stream a worker wrote is
  read line by line, each JSON record becomes a stored event with its redacted values, and the
  observations of the whole stream decide what the recording may promise.
\<close>

section \<open>Reading bounded lines\<close>

text \<open>A buffered reader is the list of the chunks \<^verbatim>\<open>fill_buf\<close> will return; an empty chunk is the
  end of the stream.  A chunk whose bytes are all consumed is gone.\<close>

definition consume :: "nat \<Rightarrow> string \<Rightarrow> string list \<Rightarrow> string list" where
  "consume n chunk rest = (if length chunk \<le> n then rest else drop n chunk # rest)"

fun read_bounded_line :: "nat \<Rightarrow> string \<Rightarrow> string list \<Rightarrow> verifier_error + (string \<times> string list)" where
  "read_bounded_line maxb out [] = Inr (out, [])"
| "read_bounded_line maxb out (available # rest) =
     (if available = [] then Inr (out, available # rest)
      else (let newline = position (\<lambda>b. b = LF) available;
                consumed = (case newline of Some i \<Rightarrow> i + 1 | None \<Rightarrow> length available)
            in if maxb < sat_add (length out) consumed then Inl (VIo ''JVM event line exceeds limit'')
               else if newline \<noteq> None
                 then Inr (out @ take consumed available, consume consumed available rest)
                 else read_bounded_line maxb (out @ take consumed available) rest))"

section \<open>Fields of a raw record\<close>

text \<open>\<^verbatim>\<open>s.split(p).nth(1)\<close>.\<close>

definition split_nth1 :: "string \<Rightarrow> string \<Rightarrow> string option" where
  "split_nth1 s p = (case split_once s p of
      None \<Rightarrow> None
    | Some (_, b) \<Rightarrow> Some (case split_once b p of None \<Rightarrow> b | Some (x, _) \<Rightarrow> x))"

definition public_test_id :: "json \<Rightarrow> string" where
  "public_test_id raw =
     (let name = get_str raw ''testName'';
          unique = unwrap_or (get_str raw ''testId'') ''unknown-test'';
          cls = map_option (\<lambda>part. hd (split_char (CHR '']'') part)) (split_nth1 unique ''[class:'');
          mth = map_option (\<lambda>part. hd (split_char (CHR ''('') (hd (split_char (CHR '']'') part))))
            (split_nth1 unique ''[method:'')
      in case name of
           Some n \<Rightarrow> if CHR ''#'' \<in> set n then n
             else (case (cls, mth) of (Some c, Some m) \<Rightarrow> c @ ''#'' @ m | _ \<Rightarrow> n)
         | None \<Rightarrow> (case (cls, mth) of (Some c, Some m) \<Rightarrow> c @ ''#'' @ m | _ \<Rightarrow> unique))"

text \<open>\<^verbatim>\<open>.as_u64().and_then(|line| u32::try_from(line).ok())\<close>.\<close>

definition get_line :: "json \<Rightarrow> nat option" where
  "get_line raw = Option.bind (get_u64 raw ''line'') (\<lambda>n. if n \<le> u32_max then Some n else None)"

definition logical_frame_of :: "json \<Rightarrow> logical_frame option" where
  "logical_frame_of raw =
     (case (get_str raw ''className'', get_str raw ''method'', get_str raw ''path'', get_line raw) of
        (Some c, Some m, Some p, Some l) \<Rightarrow>
          Some \<lparr>class_name = c, lf_method = m, lf_path = replace_char BACKSLASH SLASH p, lf_line = max l 1\<rparr>
      | _ \<Rightarrow> None)"

definition event_kind_of :: "string \<Rightarrow> event_kind" where
  "event_kind_of v =
     (if v = ''TEST_START'' then TestStart
      else if v = ''TEST_FINISH'' then TestFinish
      else if v = ''LINE'' then Line
      else if v = ''WRITE'' then Write
      else if v = ''READ'' then Read
      else if v = ''MONITOR'' then Monitor
      else if v = ''INPUT'' then Input
      else if v = ''CHECKPOINT'' then Checkpoint
      else if v = ''CAPTURE'' then Capture
      else if v = ''NOTE'' then Note
      else if v = ''SPAN_START'' then SpanStart
      else if v = ''SPAN_VALUE'' then SpanValue
      else if v = ''SPAN_END'' then SpanEnd
      else if v = ''CALL'' \<or> v = ''METHOD_ENTER'' \<or> v = ''METHOD_EXIT'' then Call
      else Output)"

section \<open>Redaction and live values\<close>

definition file_placeholder :: "nat \<Rightarrow> string" where
  "file_placeholder n = ''<redacted:file-input '' @ show_nat n @ '' bytes>''"

definition sensitive_placeholder :: "(string, json) btree \<Rightarrow> string option" where
  "sensitive_placeholder m =
     (if \<not> unwrap_or (Option.bind (bt_get m ''sensitive'') as_bool) False then None
      else Option.bind (Option.bind (bt_get m ''value'') as_str) (\<lambda>v.
           Option.bind (strip_prefix v ''<redacted:file-input '') (\<lambda>v.
           Option.bind (strip_suffix v '' bytes>'') (\<lambda>v.
           Option.bind (parse_usize v) (\<lambda>n.
             if MAX_EVENT_LINE_BYTES < n then None else Some (file_placeholder n))))))"

definition flagged :: "(string, json) btree \<Rightarrow> bool" where
  "flagged m = (unwrap_or (Option.bind (bt_get m ''redacted'') as_bool) False
     \<or> unwrap_or (Option.bind (bt_get m ''sensitive'') as_bool) False)"

definition public_event_values :: "json option \<Rightarrow> json" where
  "public_event_values raw =
     (case unwrap_or raw empty_object of
        JObject m \<Rightarrow>
          if flagged m
          then JObject (bt_remove ''encoded''
            (bt_insert ''value'' (JString (unwrap_or (sensitive_placeholder m) ''<redacted>'')) m))
          else JObject m
      | v \<Rightarrow> v)"

definition canonical_relative_source_path :: "string \<Rightarrow> bool" where
  "canonical_relative_source_path v =
     (v \<noteq> [] \<and> BACKSLASH \<notin> set v \<and> \<not> is_absolute v \<and> list_all is_normal (components v))"

text \<open>The label and value to show: the match on the event's kind.\<close>

definition hint_payload :: "event \<Rightarrow> (string, json) btree \<Rightarrow> (string \<times> json) option" where
  "hint_payload e m = (case kind e of
      Capture \<Rightarrow> map_option (Pair ''value'') (bt_get m ''value'')
    | SpanValue \<Rightarrow> map_option (Pair ''value'') (bt_get m ''value'')
    | Checkpoint \<Rightarrow> Some (''checkpoint'', unwrap_or (bt_get m ''value'') (JString ''reached''))
    | Note \<Rightarrow> map_option (Pair ''note'') (bt_get m ''message'')
    | Line \<Rightarrow> if m \<noteq> [] then Some (''values'', ev_values e) else None
    | _ \<Rightarrow> None)"

text \<open>\<open>json_len\<close> is the length of the value's JSON text, \<open>None\<close> when it cannot be written.\<close>

definition live_value_hint_of ::
  "(json \<Rightarrow> nat option) \<Rightarrow> event \<Rightarrow> string \<Rightarrow> live_value_hint option" where
  "live_value_hint_of json_len e test_id =
     Option.bind (location e) (\<lambda>l.
       if \<not> canonical_relative_source_path (loc_path l) then None
       else Option.bind (as_object (ev_values e)) (\<lambda>m.
         Option.bind (hint_payload e m) (\<lambda>(fallback, v).
           let label = concat (take 80 (filter (\<lambda>g. \<not> is_control g)
                 (utf8_chars (unwrap_or (Option.bind (bt_get m ''name'') as_str) fallback))));
               shown = (case json_len v of
                   Some n \<Rightarrow> if MAX_LIVE_VALUE_BYTES < n
                     then JString (''<value exceeds '' @ show_nat MAX_LIVE_VALUE_BYTES @ ''-byte live display limit; query event>'')
                     else v
                 | None \<Rightarrow> JString (''<value exceeds '' @ show_nat MAX_LIVE_VALUE_BYTES @ ''-byte live display limit; query event>''))
           in Some \<lparr>hint_test_id = test_id, hint_event_id = ev_id e, hint_path = loc_path l,
                hint_line = loc_line l, hint_label = (if label = [] then fallback else label),
                hint_value = shown\<rparr>)))"

section \<open>Source paths\<close>

text \<open>A directory as \<^verbatim>\<open>is_dir\<close> and \<^verbatim>\<open>read_dir\<close> see it, symbolic links followed; \<open>None\<close> is a
  directory that cannot be read.\<close>

datatype fs_view = FsFile | FsDir "(string \<times> fs_view) list option"

fun collect_named_files :: "string list \<Rightarrow> string option \<Rightarrow> fs_view \<Rightarrow> string list list" where
  "collect_named_files dir name FsFile = []"
| "collect_named_files dir name (FsDir None) = []"
| "collect_named_files dir name (FsDir (Some es)) =
     concat (map (\<lambda>(n, v). case v of
         FsDir _ \<Rightarrow> collect_named_files (dir @ [n]) name v
       | FsFile \<Rightarrow> if name = Some n then [dir @ [n]] else []) es)"

definition resolve_source_path :: "(string \<Rightarrow> bool) \<Rightarrow> fs_view \<Rightarrow> string \<Rightarrow> string \<Rightarrow> string" where
  "resolve_source_path is_file_at src workspace raw =
     (let normalized = replace_char BACKSLASH SLASH raw in
      if is_file_at (path_join workspace normalized) then normalized
      else (case collect_named_files [''src''] (file_name normalized) src of
          [p] \<Rightarrow> replace_char BACKSLASH SLASH (join [SLASH] p)
        | _ \<Rightarrow> normalized))"

section \<open>Boundaries\<close>

definition target_owner :: "json \<Rightarrow> string" where
  "target_owner raw = unwrap_or (get_str raw ''targetOwner'') []"

definition target_method :: "json \<Rightarrow> string" where
  "target_method raw = unwrap_or (get_str raw ''targetMethod'') []"

definition external_owner :: "string \<Rightarrow> bool" where
  "external_owner owner = (starts_with owner ''java/io/'' \<or> starts_with owner ''java/nio/file/''
     \<or> starts_with owner ''java/net/'')"

definition io_boundary :: "json \<Rightarrow> bool" where
  "io_boundary raw = (case get_str raw ''targetOwner'' of Some owner \<Rightarrow> external_owner owner | None \<Rightarrow> False)"

definition supported_file_io_boundary :: "json \<Rightarrow> bool" where
  "supported_file_io_boundary raw =
     (get_str raw ''targetOwner'' = Some ''java/nio/file/Files''
      \<and> (case get_str raw ''targetMethod'' of
           Some m \<Rightarrow> m = ''readAllBytes'' \<or> m = ''readString'' | None \<Rightarrow> False))"

definition nondeterministic_boundary :: "json \<Rightarrow> bool" where
  "nondeterministic_boundary raw =
     (let owner = target_owner raw; mth = target_method raw in
      (owner = ''java/lang/System'' \<and> (mth = ''currentTimeMillis'' \<or> mth = ''nanoTime''))
      \<or> (starts_with owner ''java/time/'' \<and> mth = ''now'')
      \<or> ((starts_with owner ''java/util/Random'' \<or> owner = ''java/util/SplittableRandom''
          \<or> starts_with owner ''java/util/random/'' \<or> owner = ''java/util/concurrent/ThreadLocalRandom''
          \<or> owner = ''java/security/SecureRandom'')
         \<and> (starts_with mth ''next'' \<or> mth = ''generateSeed''))
      \<or> (owner = ''java/util/UUID'' \<and> mth = ''randomUUID'')
      \<or> (owner = ''java/lang/Math'' \<and> mth = ''random''))"

definition classify_boundary :: "json \<Rightarrow> (string, string) btree \<Rightarrow> (string, string) btree" where
  "classify_boundary raw un =
     (let owner = target_owner raw; mth = target_method raw;
          un1 = (if external_owner owner
            then bt_insert ''io'' (''external boundary '' @ owner @ ''#'' @ mth @ '' observed'') un else un);
          un2 = (if owner = ''java/lang/ProcessBuilder'' \<or> owner = ''java/lang/Runtime'' \<and> mth = ''exec''
            then bt_insert ''subprocess'' (''subprocess boundary '' @ owner @ ''#'' @ mth @ '' observed'') un1 else un1);
          un3 = (if owner = ''java/lang/System'' \<and> mth = ''getenv''
            then bt_insert ''environment'' ''environment variables are redacted and not recorded for replay'' un2 else un2);
          un4 = (if owner = ''java/lang/System'' \<and> mth = ''getProperty''
            then bt_insert ''systemProperties'' ''system property reads are redacted and not recorded for replay'' un3 else un3);
          un5 = (if nondeterministic_boundary raw
            then bt_insert ''nondeterminism'' (''unrecorded nondeterministic input '' @ owner @ ''#'' @ mth) un4 else un4)
      in if (owner = ''java/lang/System'' \<and> (mth = ''load'' \<or> mth = ''loadLibrary''))
            \<or> (owner = ''java/lang/Runtime'' \<and> (mth = ''load'' \<or> mth = ''loadLibrary''))
         then bt_insert ''native'' (''native library boundary '' @ owner @ ''#'' @ mth @ '' observed'') un5
         else un5)"

section \<open>The state of an ingestion\<close>

text \<open>The local variables of \<^verbatim>\<open>ingest_events\<close>; a \<^verbatim>\<open>BTreeSet\<close> is its sorted list.\<close>

record ingest_state =
  in_tests :: "(string, string option) btree"
  in_modules :: "(string, string) btree"
  in_coverage :: "(string, (string \<times> nat \<times> string) list) btree"
  in_dependencies :: "(string, (string \<times> string) list) btree"
  in_failures :: "string list"
  in_last_event :: "(string, string) btree"
  in_threads :: "nat list"
  in_thread_keys :: "(nat, string) btree"
  thread_identity_conflict :: bool
  virtual_thread_observed :: bool
  coroutine_observed :: bool
  in_unavailable :: "(string, string) btree"
  nondeterministic_calls :: nat
  deterministic_inputs :: nat
  supported_file_io_calls :: nat
  recorded_file_inputs :: nat
  unsupported_io_observed :: bool
  field_reads :: bool
  array_writes :: bool
  monitor_order :: bool
  volatile_access :: bool
  event_count :: nat
  in_value_hints :: "live_value_hint list"

definition ingest_start :: ingest_state where
  "ingest_start = \<lparr>in_tests = [], in_modules = [], in_coverage = [], in_dependencies = [],
     in_failures = [], in_last_event = [], in_threads = [], in_thread_keys = [],
     thread_identity_conflict = False, virtual_thread_observed = False, coroutine_observed = False,
     in_unavailable = [], nondeterministic_calls = 0, deterministic_inputs = 0,
     supported_file_io_calls = 0, recorded_file_inputs = 0, unsupported_io_observed = False,
     field_reads = False, array_writes = False, monitor_order = False, volatile_access = False,
     event_count = 0, in_value_hints = []\<rparr>"

record ingested =
  ig_tests :: "string list"
  ig_test_statuses :: "(string, string) btree"
  ig_failures :: "string list"
  ig_event_count :: nat
  ig_value_hints :: "live_value_hint list"
  ig_capabilities :: capability_manifest

definition ingested_default :: ingested where
  "ingested_default = \<lparr>ig_tests = [], ig_test_statuses = [], ig_failures = [], ig_event_count = 0,
     ig_value_hints = [], ig_capabilities = \<lparr>cap_backend = ''jvm'', completeness = PartiallyComplete,
       supported = [], unavailable = [(''events'', ''worker emitted no event stream'')]\<rparr>\<rparr>"

text \<open>What ingestion is given: the third-party functions, the run, the revision, the source
  directory of the execution root, and the cancellation token as seen when a line is handled.\<close>

record ingest_env =
  ie_hashes :: hashes
  ie_codec :: codec
  ie_parse_json :: "string \<Rightarrow> json option"
  ie_json_len :: "json \<Rightarrow> nat option"
  ie_run_id :: string
  ie_revision :: string
  ie_is_file :: "string \<Rightarrow> bool"
  ie_src :: fs_view
  ie_root :: string
  ie_cancelled :: "nat \<Rightarrow> bool"

text \<open>An operation on the store: the store is kept also when it fails.\<close>

type_synonym 'a act = "store \<times> (verifier_error + 'a)"

definition abind :: "'a act \<Rightarrow> (store \<Rightarrow> 'a \<Rightarrow> 'b act) \<Rightarrow> 'b act" where
  "abind r f = (case r of (s, Inl e) \<Rightarrow> (s, Inl e) | (s, Inr x) \<Rightarrow> f s x)"

definition store_call :: "store \<Rightarrow> store_error + store \<Rightarrow> unit act" where
  "store_call s r = (case r of Inl e \<Rightarrow> (s, Inl (VStore e)) | Inr s' \<Rightarrow> (s', Inr ()))"

section \<open>One record\<close>

definition kind_name :: "json \<Rightarrow> string" where
  "kind_name raw = unwrap_or (get_str raw ''type'') ''OUTPUT''"

definition raw_thread_id :: "json \<Rightarrow> nat" where
  "raw_thread_id raw = unwrap_or (get_u64 raw ''threadId'') 0"

definition raw_symbol :: "json \<Rightarrow> string" where
  "raw_symbol raw = replace_char SLASH (CHR ''.'') (unwrap_or (get_str raw ''owner'') [])
     @ ''#'' @ unwrap_or (get_str raw ''method'') []"

definition raw_line :: "json \<Rightarrow> nat" where
  "raw_line raw = max (unwrap_or (get_line raw) 1) 1"

definition raw_path :: "ingest_env \<Rightarrow> json \<Rightarrow> string option" where
  "raw_path env raw = map_option (resolve_source_path (ie_is_file env) (ie_src env) (ie_root env))
     (get_str raw ''path'')"

definition event_of_raw :: "ingest_env \<Rightarrow> nat \<Rightarrow> json \<Rightarrow> event" where
  "event_of_raw env seq raw =
     \<lparr>ev_id = event_id_new (ie_hashes env)
        \<lparr>id_revision = ie_revision env, id_run_id = ie_run_id env, id_test_id = public_test_id raw,
         id_sequence = seq, id_thread_id = raw_thread_id raw\<rparr>,
      sequence = seq,
      thread_id = raw_thread_id raw,
      thread_key = unwrap_or (get_str raw ''threadKey'') [],
      virtual_thread = unwrap_or (get_bool raw ''virtualThread'') False,
      coroutine = unwrap_or (get_bool raw ''coroutine'') False,
      logical_stack = List.map_filter logical_frame_of
        (take 64 (unwrap_or (Option.bind (json_get raw ''logicalStack'') as_array) [])),
      kind = event_kind_of (kind_name raw),
      location = map_option (\<lambda>p. \<lparr>loc_path = p, loc_line = raw_line raw, column = 1, symbol = raw_symbol raw\<rparr>)
        (raw_path env raw),
      ev_values = public_event_values (json_get raw ''values''),
      observations = unwrap_or (json_get raw ''observations'') empty_object,
      state_hash = unwrap_or (get_str raw ''stateHash'') [],
      output_index = unwrap_or (get_u64 raw ''outputIndex'') 0\<rparr>"

text \<open>Threads, modules and coroutines seen in the record.\<close>

definition observe_threads :: "json \<Rightarrow> ingest_state \<Rightarrow> ingest_state" where
  "observe_threads raw st =
     (let tid = raw_thread_id raw; key = unwrap_or (get_str raw ''threadKey'') [] in
      st\<lparr>in_threads := bs_insert tid (in_threads st),
         in_thread_keys := (if key = [] then in_thread_keys st else bt_insert tid key (in_thread_keys st)),
         thread_identity_conflict := (thread_identity_conflict st
           \<or> key \<noteq> [] \<and> (case bt_get (in_thread_keys st) tid of Some k \<Rightarrow> k \<noteq> key | None \<Rightarrow> False)),
         virtual_thread_observed :=
           (virtual_thread_observed st \<or> unwrap_or (get_bool raw ''virtualThread'') False),
         in_modules := (if bt_contains (in_modules st) (public_test_id raw) then in_modules st
           else bt_insert (public_test_id raw) (unwrap_or (get_str raw ''module'') '':'') (in_modules st)),
         coroutine_observed := (coroutine_observed st
           \<or> (case get_str raw ''descriptor'' of
                Some d \<Rightarrow> contains_sub d ''kotlin/coroutines/Continuation'' | None \<Rightarrow> False))\<rparr>)"

definition observe_event :: "ingest_env \<Rightarrow> event \<Rightarrow> string \<Rightarrow> ingest_state \<Rightarrow> ingest_state" where
  "observe_event env e test_id st =
     st\<lparr>in_value_hints := (if length (in_value_hints st) < MAX_LIVE_VALUE_HINTS
          then (case live_value_hint_of (ie_json_len env) e test_id of
              Some hint \<Rightarrow> in_value_hints st @ [hint] | None \<Rightarrow> in_value_hints st)
          else in_value_hints st)\<rparr>"

definition finish_status :: "json \<Rightarrow> string" where
  "finish_status raw =
     (let s = unwrap_or (get_str raw ''status'') ''unknown'' in
      if s = ''successful'' then ''passed'' else if s = ''aborted'' then ''skipped'' else s)"

definition failure_of_raw :: "ingest_env \<Rightarrow> string \<Rightarrow> nat \<Rightarrow> string option \<Rightarrow> json \<Rightarrow> failure_record" where
  "failure_of_raw env test_id seq last_id raw =
     \<lparr>fr_id = ''failure-'' @ short_hash (ie_hashes env) (ie_run_id env @ [NUL] @ test_id @ [NUL] @ show_nat seq),
      fr_run_id = ie_run_id env, fr_test_id = test_id,
      exception_type = unwrap_or (get_str raw ''failureType'') ''java.lang.AssertionError'',
      fr_message = chars_take 512
        (unwrap_or (get_str raw ''message'') ''test failed; inspect trace and worker log''),
      fr_event_id = last_id,
      frames = take 64 (List.map_filter as_str (unwrap_or (Option.bind (json_get raw ''frames'') as_array) []))\<rparr>"

text \<open>The two test lifecycle records; a failed test is saved as a failure.\<close>

definition observe_test :: "ingest_env \<Rightarrow> nat \<Rightarrow> json \<Rightarrow> ingest_state \<Rightarrow> store \<Rightarrow> ingest_state act" where
  "observe_test env seq raw st s =
     (let test_id = public_test_id raw;
          st1 = (if kind_name raw = ''TEST_START'' \<and> \<not> bt_contains (in_tests st) test_id
            then st\<lparr>in_tests := bt_insert test_id None (in_tests st)\<rparr> else st)
      in if kind_name raw \<noteq> ''TEST_FINISH'' then (s, Inr st1)
         else (let st2 = st1\<lparr>in_tests := bt_insert test_id (Some (finish_status raw)) (in_tests st1)\<rparr>;
                   f = failure_of_raw env test_id seq (bt_get (in_last_event st2) test_id) raw
               in if finish_status raw \<noteq> ''failed'' then (s, Inr st2)
                  else abind (store_call s (save_failure (ie_codec env) s f)) (\<lambda>s' _.
                    (s', Inr (st2\<lparr>in_failures := in_failures st2 @ [fr_id f]\<rparr>)))))"

definition add_to_set :: "string \<Rightarrow> 'a::linorder \<Rightarrow> (string, 'a list) btree \<Rightarrow> (string, 'a list) btree" where
  "add_to_set k x m = bt_insert k (bs_insert x (unwrap_or (bt_get m k) [])) m"

definition observe_coverage :: "ingest_env \<Rightarrow> json \<Rightarrow> ingest_state \<Rightarrow> ingest_state" where
  "observe_coverage env raw st =
     (case raw_path env raw of
        Some path \<Rightarrow>
          if kind_name raw = ''LINE''
          then st\<lparr>in_coverage := add_to_set (public_test_id raw) (path, raw_line raw, raw_symbol raw) (in_coverage st),
                  in_dependencies := add_to_set (public_test_id raw) (path, ''method'') (in_dependencies st)\<rparr>
          else st
      | None \<Rightarrow> st)"

definition value_str :: "json \<Rightarrow> string \<Rightarrow> string option" where
  "value_str raw k = Option.bind (json_get raw ''values'') (\<lambda>v. get_str v k)"

definition observe_boundary :: "json \<Rightarrow> ingest_state \<Rightarrow> ingest_state" where
  "observe_boundary raw st =
     (if kind_name raw = ''CALL''
      then st\<lparr>nondeterministic_calls := nondeterministic_calls st + (if nondeterministic_boundary raw then 1 else 0),
              supported_file_io_calls := supported_file_io_calls st + (if supported_file_io_boundary raw then 1 else 0),
              unsupported_io_observed := (unsupported_io_observed st
                \<or> \<not> supported_file_io_boundary raw \<and> io_boundary raw),
              in_unavailable := classify_boundary raw (in_unavailable st)\<rparr>
      else if kind_name raw = ''INPUT''
      then (if (case value_str raw ''kind'' of Some k \<Rightarrow> starts_with k ''io.file.'' | None \<Rightarrow> False)
            then st\<lparr>recorded_file_inputs := recorded_file_inputs st + 1\<rparr>
            else st\<lparr>deterministic_inputs := deterministic_inputs st + 1\<rparr>)
      else st)"

definition observe_memory :: "json \<Rightarrow> ingest_state \<Rightarrow> ingest_state" where
  "observe_memory raw st =
     (let k = kind_name raw in
      st\<lparr>field_reads := (field_reads st \<or> k = ''READ'' \<and> value_str raw ''targetKind'' = Some ''field''),
         array_writes := (array_writes st \<or> k = ''WRITE'' \<and> value_str raw ''targetKind'' = Some ''array''),
         monitor_order := (monitor_order st \<or> k = ''MONITOR''),
         volatile_access := (volatile_access st \<or> (k = ''READ'' \<or> k = ''WRITE'')
           \<and> (get_bool raw ''volatile'' = Some True
              \<or> Option.bind (json_get raw ''values'') (\<lambda>v. get_bool v ''volatile'') = Some True))\<rparr>)"

definition observe_capability :: "json \<Rightarrow> ingest_state \<Rightarrow> ingest_state" where
  "observe_capability raw st =
     (if kind_name raw = ''CAPABILITY'' \<and> get_bool raw ''available'' = Some False
      then st\<lparr>in_unavailable := bt_insert (unwrap_or (get_str raw ''capability'') ''unknown'')
             (unwrap_or (get_str raw ''reason'') ''worker reported an unavailable capability'') (in_unavailable st)\<rparr>
      else st)"

definition note_event :: "ingest_env \<Rightarrow> event \<Rightarrow> json \<Rightarrow> ingest_state \<Rightarrow> ingest_state" where
  "note_event env e raw st =
     (let st1 = observe_event env e (public_test_id raw) (observe_threads raw st) in
      st1\<lparr>in_last_event := bt_insert (public_test_id raw) (ev_id e) (in_last_event st1),
          event_count := event_count st1 + 1\<rparr>)"

definition ingest_record :: "ingest_env \<Rightarrow> json \<Rightarrow> ingest_state \<Rightarrow> store \<Rightarrow> ingest_state act" where
  "ingest_record env raw st s =
     (let seq = event_count st; e = event_of_raw env seq raw in
      abind (store_call s (append_event (ie_codec env) s (ie_run_id env) (public_test_id raw) e)) (\<lambda>s1 _.
      abind (observe_test env seq raw (note_event env e raw st) s1) (\<lambda>s2 st2.
        (s2, Inr (observe_capability raw (observe_memory raw
           (observe_boundary raw (observe_coverage env raw st2))))))))"

section \<open>The whole stream\<close>

definition is_ascii_whitespace :: "char \<Rightarrow> bool" where
  "is_ascii_whitespace c = (byte_of c \<in> {9, 10, 12, 13, 32})"

lemma read_bounded_line_progress:
  "read_bounded_line maxb out chunks = Inr (l, rest) \<Longrightarrow> length l + length (concat rest) = length out + length (concat chunks)"
proof (induction maxb out chunks rule: read_bounded_line.induct)
  case (2 maxb out available chunks)
  let ?nl = "position (\<lambda>b. b = LF) available"
  let ?n = "case ?nl of Some i \<Rightarrow> i + 1 | None \<Rightarrow> length available"
  have n: "?n \<le> length available"
    by (auto split: option.splits simp: position_Some)
  show ?case
  proof (cases "available = [] \<or> maxb < sat_add (length out) ?n")
    case False
    then show ?thesis
      using 2 n by (cases ?nl) (auto simp: Let_def consume_def)
  next
    case True
    then show ?thesis using 2(2) by (cases "available = []") (simp_all add: Let_def)
  qed
qed simp

lemma read_bounded_line_shorter:
  assumes "read_bounded_line maxb [] chunks = Inr (l, rest)" "l \<noteq> []"
  shows "length (concat rest) < length (concat chunks)"
  using read_bounded_line_progress [OF assms(1)] assms(2) by (cases l) simp_all

text \<open>The loop of \<^verbatim>\<open>ingest_events\<close>; \<open>n\<close> counts the lines read so far.\<close>

function ingest_loop :: "ingest_env \<Rightarrow> nat \<Rightarrow> string list \<Rightarrow> ingest_state \<Rightarrow> store \<Rightarrow> ingest_state act" where
  "ingest_loop env n chunks st s =
     (case read_bounded_line MAX_EVENT_LINE_BYTES [] chunks of
        Inl e \<Rightarrow> (s, Inl e)
      | Inr (line, rest) \<Rightarrow>
          if line = [] then (s, Inr st)
          else if ie_cancelled env n then (s, Inl VerificationCancelled)
          else if list_all is_ascii_whitespace line then ingest_loop env (n + 1) rest st s
          else if MAX_EVENTS_PER_RUN \<le> event_count st
          then (s, Inl (VIo ''JVM event stream exceeded one million events''))
          else (case ie_parse_json env line of
              None \<Rightarrow> (s, Inl VJson)
            | Some raw \<Rightarrow> (case ingest_record env raw st s of
                (s', Inl e) \<Rightarrow> (s', Inl e)
              | (s', Inr st') \<Rightarrow> ingest_loop env (n + 1) rest st' s')))"
  by pat_completeness auto
termination
  by (relation "measure (\<lambda>(_, _, chunks, _, _). length (concat chunks))")
     (auto intro: read_bounded_line_shorter)

declare ingest_loop.simps [simp del]

section \<open>What the stream establishes\<close>

text \<open>Tests, their coverage and dependencies are written to the store after the stream.\<close>

fun save_tests :: "ingest_state \<Rightarrow> (string \<times> string option) list \<Rightarrow> store \<Rightarrow> unit act" where
  "save_tests st [] s = (s, Inr ())"
| "save_tests st ((test_id, stat) # ts) s =
     (let s1 = upsert_test s \<lparr>tr_id = test_id, display_name = test_id,
            tr_module = unwrap_or (bt_get (in_modules st) test_id) '':'',
            last_status = stat, last_failure_id = None\<rparr>
      in abind (store_call s1 (replace_coverage s1 test_id
           (map (\<lambda>(p, l, sym). \<lparr>cr_test_id = test_id, cr_path = p, cr_line = l, cr_symbol = sym\<rparr>)
             (unwrap_or (bt_get (in_coverage st) test_id) [])))) (\<lambda>s2 _.
         abind (store_call s2 (replace_dependencies s2 test_id
           (map (\<lambda>(subj, k). \<lparr>subject = subj, dep_kind = k\<rparr>)
             (unwrap_or (bt_get (in_dependencies st) test_id) [])))) (\<lambda>s3 _.
         save_tests st ts s3)))"

definition distinct_thread_keys :: "ingest_state \<Rightarrow> string list" where
  "distinct_thread_keys st = bs_extend [] (map snd (in_thread_keys st))"

definition scheduled_threads :: "ingest_state \<Rightarrow> bool" where
  "scheduled_threads st =
     (1 < length (in_threads st) \<and> \<not> thread_identity_conflict st
      \<and> length (in_thread_keys st) = length (in_threads st)
      \<and> length (distinct_thread_keys st) = length (in_threads st)
      \<and> list_all (\<lambda>k. \<not> ends_with k '':<unnamed>'') (distinct_thread_keys st))"

definition final_unavailable :: "ingest_state \<Rightarrow> (string, string) btree" where
  "final_unavailable st =
     (let un1 = (if 1 < length (in_threads st) \<and> \<not> scheduled_threads st
            then bt_insert ''threads'' (show_nat (length (in_threads st))
              @ '' JVM threads emitted events but lacked unique stable names'') (in_unavailable st)
            else in_unavailable st);
          un2 = (if 0 < nondeterministic_calls st \<and> deterministic_inputs st = nondeterministic_calls st
            then bt_remove ''nondeterminism'' un1 else un1)
      in if 0 < supported_file_io_calls st \<and> recorded_file_inputs st = supported_file_io_calls st
            \<and> \<not> unsupported_io_observed st
         then bt_remove ''io'' un2 else un2)"

definition flag :: "bool \<Rightarrow> string list \<Rightarrow> string list" where
  "flag b xs = (if b then xs else [])"

definition capabilities_of :: "ingest_state \<Rightarrow> capability_manifest" where
  "capabilities_of st =
     (let un = final_unavailable st; sched = scheduled_threads st in
      \<lparr>cap_backend = ''jvm'',
       completeness = (if un = [] then Complete else PartiallyComplete),
       supported = [''line'', ''call'', ''write'']
         @ [if length (in_tests st) \<le> 1 then ''singleTest'' else ''multipleTests'']
         @ flag (length (in_threads st) \<le> 1) [''singleThread'']
         @ flag sched ([''threads'', ''threadSchedule''] @ flag (coroutine_observed st) [''coroutineSchedule''])
         @ flag (virtual_thread_observed st) [''virtualThreads'']
         @ flag (un = []) [''pureJvm'']
         @ flag (0 < deterministic_inputs st \<and> deterministic_inputs st = nondeterministic_calls st)
             [''deterministicInputs'']
         @ flag (0 < recorded_file_inputs st \<and> recorded_file_inputs st = supported_file_io_calls st
             \<and> \<not> unsupported_io_observed st) [''fileInputs'']
         @ flag (field_reads st) [''fieldReads'']
         @ flag (array_writes st) [''arrayWrites'']
         @ flag (monitor_order st) [''monitorOrder'']
         @ flag (volatile_access st) [''volatileAccess'']
         @ flag ((field_reads st \<or> array_writes st \<or> monitor_order st \<or> volatile_access st) \<and> sched)
             [''memorySchedule''],
       unavailable = un\<rparr>)"

definition ingested_of :: "ingest_state \<Rightarrow> ingested" where
  "ingested_of st =
     \<lparr>ig_tests = map fst (in_tests st),
      ig_test_statuses = List.map_filter (\<lambda>(t, stat). map_option (Pair t) stat) (in_tests st),
      ig_failures = in_failures st, ig_event_count = event_count st,
      ig_value_hints = in_value_hints st, ig_capabilities = capabilities_of st\<rparr>"

text \<open>\<open>None\<close> is an event file that is not there.\<close>

definition ingest_events :: "ingest_env \<Rightarrow> string list option \<Rightarrow> store \<Rightarrow> ingested act" where
  "ingest_events env event_file s =
     (case event_file of
        None \<Rightarrow> (s, Inr ingested_default)
      | Some chunks \<Rightarrow>
          abind (ingest_loop env 0 chunks ingest_start s) (\<lambda>s1 st.
          abind (save_tests st (in_tests st) s1) (\<lambda>s2 _. (s2, Inr (ingested_of st)))))"

section \<open>Lines of the stream\<close>

text \<open>The reference: the bytes up to and including the first newline, and what follows.\<close>

fun next_line :: "string \<Rightarrow> string \<times> string" where
  "next_line [] = ([], [])"
| "next_line (c # s) = (if c = LF then ([c], s) else (c # fst (next_line s), snd (next_line s)))"

lemma next_line_append:
  "next_line (xs @ ys) = (case position (\<lambda>b. b = LF) xs of
      Some i \<Rightarrow> (take (i + 1) xs, drop (i + 1) xs @ ys)
    | None \<Rightarrow> (xs @ fst (next_line ys), snd (next_line ys)))"
  by (induction xs) (auto split: option.splits)

text \<open>The unread chunks as one string.\<close>

definition join_rest :: "verifier_error + (string \<times> string list) \<Rightarrow> verifier_error + (string \<times> string)" where
  "join_rest r = (case r of Inl e \<Rightarrow> Inl e | Inr (l, rest) \<Rightarrow> Inr (l, concat rest))"

lemma join_rest_simps [simp]: "join_rest (Inl e) = Inl e" "join_rest (Inr (l, rest)) = Inr (l, concat rest)"
  by (simp_all add: join_rest_def)

lemma concat_consume: "n \<le> length chunk \<Longrightarrow> concat (consume n chunk rest) = drop n chunk @ concat rest"
  by (auto simp: consume_def)

lemma read_bounded_line_from:
  assumes "list_all (\<lambda>c. c \<noteq> []) chunks" "maxb < usize_max" "length out \<le> maxb"
  shows "join_rest (read_bounded_line maxb out chunks) =
    (if maxb < length out + length (fst (next_line (concat chunks)))
     then Inl (VIo ''JVM event line exceeds limit'')
     else Inr (out @ fst (next_line (concat chunks)), snd (next_line (concat chunks))))"
  using assms
proof (induction maxb out chunks rule: read_bounded_line.induct)
  case (2 maxb out chunk chunks)
  let ?nl = "position (\<lambda>b. b = LF) chunk"
  let ?n = "case ?nl of Some i \<Rightarrow> i + 1 | None \<Rightarrow> length chunk"
  have n: "?n \<le> length chunk" by (auto split: option.splits simp: position_Some)
  have chunk: "chunk \<noteq> []" using 2(2) by simp
  have over: "maxb < sat_add (length out) ?n \<longleftrightarrow> maxb < length out + ?n"
    using 2(3) by (auto simp: sat_add_def)
  show ?case
  proof (cases "?nl = None \<and> \<not> maxb < length out + length chunk")
    case True
    then have step: "\<not> maxb < sat_add (length out) ?n" "take ?n chunk = chunk"
      "read_bounded_line maxb out (chunk # chunks) = read_bounded_line maxb (out @ chunk) chunks"
      using chunk over by (simp_all add: Let_def)
    from 2(1) [OF chunk refl refl step(1)] 2(2-4) True
    have "join_rest (read_bounded_line maxb (out @ chunk) chunks) =
      (if maxb < length (out @ chunk) + length (fst (next_line (concat chunks)))
       then Inl (VIo ''JVM event line exceeds limit'')
       else Inr ((out @ chunk) @ fst (next_line (concat chunks)), snd (next_line (concat chunks))))"
      unfolding step(2) by simp
    with True step(3) show ?thesis by (simp add: next_line_append add.assoc)
  next
    case False
    with chunk over n show ?thesis
      by (cases ?nl) (auto simp: Let_def next_line_append concat_consume)
  qed
qed simp

text \<open>\<^bold>\<open>C40\<close> However the file arrives in chunks, reading a line returns the bytes up to and
  including the next newline and leaves exactly the bytes after it, and it fails exactly when
  that line is longer than the limit.\<close>

theorem read_bounded_line_is_next_line:
  assumes "list_all (\<lambda>c. c \<noteq> []) chunks" "maxb < usize_max"
  shows "join_rest (read_bounded_line maxb [] chunks) =
    (if maxb < length (fst (next_line (concat chunks))) then Inl (VIo ''JVM event line exceeds limit'')
     else Inr (next_line (concat chunks)))"
  using read_bounded_line_from [OF assms, of "[]"] by simp

theorem read_bounded_line_is_next_line_witness:
  "join_rest (read_bounded_line 8 [] [''ab'', ''c'' @ [LF] @ ''d'', ''e'']) =
     Inr (''abc'' @ [LF], ''de'')
   \<and> join_rest (read_bounded_line 3 [] [''ab'', ''c'' @ [LF] @ ''d'', ''e'']) =
     Inl (VIo ''JVM event line exceeds limit'')"
  using read_bounded_line_is_next_line [of "[''ab'', ''c'' @ [LF] @ ''d'', ''e'']" 8]
    read_bounded_line_is_next_line [of "[''ab'', ''c'' @ [LF] @ ''d'', ''e'']" 3]
  by (simp add: usize_max_def)

section \<open>Redaction\<close>

lemma sensitive_placeholder_cases:
  "unwrap_or (sensitive_placeholder m) ''<redacted>'' = ''<redacted>''
   \<or> (\<exists>n \<le> MAX_EVENT_LINE_BYTES. unwrap_or (sensitive_placeholder m) ''<redacted>'' = file_placeholder n)"
  by (auto simp: sensitive_placeholder_def not_less split: Option.bind_splits)

section \<open>The records of a stream\<close>

text \<open>The JSON records of the stream, in order; blank lines are skipped, and a line that cannot
  be read or parsed ends the list.\<close>

function stream_records :: "ingest_env \<Rightarrow> string list \<Rightarrow> json list" where
  "stream_records env chunks =
     (case read_bounded_line MAX_EVENT_LINE_BYTES [] chunks of
        Inl e \<Rightarrow> []
      | Inr (line, rest) \<Rightarrow>
          if line = [] then []
          else if list_all is_ascii_whitespace line then stream_records env rest
          else (case ie_parse_json env line of
              None \<Rightarrow> []
            | Some raw \<Rightarrow> raw # stream_records env rest))"
  by pat_completeness auto
termination
  by (relation "measure (\<lambda>(_, chunks). length (concat chunks))") (auto intro: read_bounded_line_shorter)

declare stream_records.simps [simp del]

fun ingest_records :: "ingest_env \<Rightarrow> json list \<Rightarrow> ingest_state \<Rightarrow> store \<Rightarrow> ingest_state act" where
  "ingest_records env [] st s = (s, Inr st)"
| "ingest_records env (raw # raws) st s =
     abind (ingest_record env raw st s) (\<lambda>s' st'. ingest_records env raws st' s')"

lemma abind_simps [simp]: "abind (s, Inl e) f = (s, Inl e)" "abind (s, Inr x) f = f s x"
  by (simp_all add: abind_def)

lemma abind_Inr: "abind r f = (s', Inr y) \<longleftrightarrow> (\<exists>s x. r = (s, Inr x) \<and> f s x = (s', Inr y))"
  by (auto simp: abind_def split: prod.splits sum.splits)

lemma store_call_Inr: "store_call s r = (s', Inr u) \<longleftrightarrow> r = Inr s'"
  by (auto simp: store_call_def split: sum.splits)

lemma ingest_loop_records:
  "ingest_loop env n chunks st s = (s', Inr st') \<Longrightarrow>
     ingest_records env (stream_records env chunks) st s = (s', Inr st')"
proof (induction env n chunks st s rule: ingest_loop.induct)
  case (1 env n chunks st s)
  show ?case
  proof (cases "read_bounded_line MAX_EVENT_LINE_BYTES [] chunks")
    case (Inl e)
    with "1.prems" show ?thesis by (simp add: ingest_loop.simps [of env n chunks])
  next
    case (Inr lr)
    obtain line rest where lr: "lr = (line, rest)" by force
    note now = Inr [unfolded lr]
    consider "line = []" | "line \<noteq> []" "list_all is_ascii_whitespace line"
      | "line \<noteq> []" "\<not> list_all is_ascii_whitespace line" by blast
    then show ?thesis
    proof cases
      case 1
      with "1.prems" now show ?thesis
        by (simp add: ingest_loop.simps [of env n chunks] stream_records.simps [of env chunks])
    next
      case 2
      with "1.prems" now have "\<not> ie_cancelled env n" "ingest_loop env (n + 1) rest st s = (s', Inr st')"
        by (auto simp: ingest_loop.simps [of env n chunks] split: if_splits)
      with 2 now "1.IH"(1) [OF now refl] show ?thesis
        by (simp add: stream_records.simps [of env chunks])
    next
      case 3
      with "1.prems" now obtain raw s1 st1 where
        nc: "\<not> ie_cancelled env n" "\<not> MAX_EVENTS_PER_RUN \<le> event_count st"
        and raw: "ie_parse_json env line = Some raw" and rec: "ingest_record env raw st s = (s1, Inr st1)"
        and loop: "ingest_loop env (n + 1) rest st1 s1 = (s', Inr st')"
        by (auto simp: ingest_loop.simps [of env n chunks] split: if_splits option.splits prod.splits sum.splits)
      have "ingest_records env (stream_records env rest) st1 s1 = (s', Inr st')"
        by (rule "1.IH"(2) [OF now refl 3(1) nc(1) 3(2) nc(2) raw rec [symmetric] refl loop])
      with 3 now raw rec show ?thesis
        by (simp add: stream_records.simps [of env chunks])
    qed
  qed
qed

section \<open>What one record adds\<close>

definition unavailable_step :: "json \<Rightarrow> (string, string) btree \<Rightarrow> (string, string) btree" where
  "unavailable_step raw un =
     (if kind_name raw = ''CALL'' then classify_boundary raw un
      else if kind_name raw = ''CAPABILITY'' \<and> get_bool raw ''available'' = Some False
      then bt_insert (unwrap_or (get_str raw ''capability'') ''unknown'')
        (unwrap_or (get_str raw ''reason'') ''worker reported an unavailable capability'') un
      else un)"

definition nondeterministic_call :: "json \<Rightarrow> bool" where
  "nondeterministic_call raw = (kind_name raw = ''CALL'' \<and> nondeterministic_boundary raw)"

definition file_call :: "json \<Rightarrow> bool" where
  "file_call raw = (kind_name raw = ''CALL'' \<and> supported_file_io_boundary raw)"

definition unsupported_io :: "json \<Rightarrow> bool" where
  "unsupported_io raw = (kind_name raw = ''CALL'' \<and> \<not> supported_file_io_boundary raw \<and> io_boundary raw)"

definition file_input :: "json \<Rightarrow> bool" where
  "file_input raw = (kind_name raw = ''INPUT''
     \<and> (case value_str raw ''kind'' of Some k \<Rightarrow> starts_with k ''io.file.'' | None \<Rightarrow> False))"

definition other_input :: "json \<Rightarrow> bool" where
  "other_input raw = (kind_name raw = ''INPUT'' \<and> \<not> file_input raw)"

lemmas record_kinds = nondeterministic_call_def file_call_def unsupported_io_def file_input_def other_input_def

lemma observe_test_state:
  "observe_test env seq raw st s = (s', Inr st') \<Longrightarrow> \<exists>t f. st' = st\<lparr>in_tests := t, in_failures := f\<rparr>"
  by (cases st) (auto simp: observe_test_def Let_def abind_Inr split: if_splits)

lemma ingest_record_effect:
  assumes "ingest_record env raw st s = (s', Inr st')"
  shows "in_unavailable st' = unavailable_step raw (in_unavailable st)"
    "nondeterministic_calls st' = nondeterministic_calls st + of_bool (nondeterministic_call raw)"
    "deterministic_inputs st' = deterministic_inputs st + of_bool (other_input raw)"
    "supported_file_io_calls st' = supported_file_io_calls st + of_bool (file_call raw)"
    "recorded_file_inputs st' = recorded_file_inputs st + of_bool (file_input raw)"
    "unsupported_io_observed st' \<longleftrightarrow> unsupported_io_observed st \<or> unsupported_io raw"
    "event_count st' = Suc (event_count st)"
proof -
  from assms obtain s1 e st2 where
    t: "observe_test env (event_count st) raw (note_event env e raw st) s1 = (s', Inr st2)"
    and st': "st' = observe_capability raw (observe_memory raw (observe_boundary raw (observe_coverage env raw st2)))"
    by (auto simp: ingest_record_def Let_def abind_Inr)
  have st1: "in_unavailable (note_event env e raw st) = in_unavailable st"
    "nondeterministic_calls (note_event env e raw st) = nondeterministic_calls st"
    "deterministic_inputs (note_event env e raw st) = deterministic_inputs st"
    "supported_file_io_calls (note_event env e raw st) = supported_file_io_calls st"
    "recorded_file_inputs (note_event env e raw st) = recorded_file_inputs st"
    "unsupported_io_observed (note_event env e raw st) = unsupported_io_observed st"
    "event_count (note_event env e raw st) = Suc (event_count st)"
    by (simp_all add: note_event_def observe_event_def observe_threads_def Let_def)
  from observe_test_state [OF t] obtain ts f
    where st2: "st2 = (note_event env e raw st)\<lparr>in_tests := ts, in_failures := f\<rparr>" by blast
  have cov: "in_unavailable (observe_coverage env raw x) = in_unavailable x"
    "nondeterministic_calls (observe_coverage env raw x) = nondeterministic_calls x"
    "deterministic_inputs (observe_coverage env raw x) = deterministic_inputs x"
    "supported_file_io_calls (observe_coverage env raw x) = supported_file_io_calls x"
    "recorded_file_inputs (observe_coverage env raw x) = recorded_file_inputs x"
    "unsupported_io_observed (observe_coverage env raw x) = unsupported_io_observed x"
    "event_count (observe_coverage env raw x) = event_count x" for x
    by (simp_all add: observe_coverage_def split: option.split)
  note defs = st' st2 st1 cov observe_capability_def observe_memory_def observe_boundary_def Let_def
  show "in_unavailable st' = unavailable_step raw (in_unavailable st)"
    by (simp add: defs unavailable_step_def)
  show "nondeterministic_calls st' = nondeterministic_calls st + of_bool (nondeterministic_call raw)"
    by (simp add: defs record_kinds)
  show "deterministic_inputs st' = deterministic_inputs st + of_bool (other_input raw)"
    by (simp add: defs record_kinds)
  show "supported_file_io_calls st' = supported_file_io_calls st + of_bool (file_call raw)"
    by (simp add: defs record_kinds)
  show "recorded_file_inputs st' = recorded_file_inputs st + of_bool (file_input raw)"
    by (simp add: defs record_kinds)
  show "unsupported_io_observed st' \<longleftrightarrow> unsupported_io_observed st \<or> unsupported_io raw"
    by (auto simp: defs record_kinds)
  show "event_count st' = Suc (event_count st)"
    by (simp add: defs)
qed

section \<open>Unrecorded boundaries\<close>

text \<open>Calls the recorder cannot replay at all.\<close>

definition hard_boundary :: "json \<Rightarrow> bool" where
  "hard_boundary raw = (kind_name raw = ''CALL''
     \<and> (let owner = target_owner raw; mth = target_method raw in
        owner = ''java/lang/ProcessBuilder''
        \<or> owner = ''java/lang/Runtime'' \<and> mth \<in> {''exec'', ''load'', ''loadLibrary''}
        \<or> owner = ''java/lang/System'' \<and> mth \<in> {''getenv'', ''getProperty'', ''load'', ''loadLibrary''}))"

abbreviation keys :: "('k \<times> 'v) list \<Rightarrow> 'k set" where
  "keys m \<equiv> fst ` set m"

lemma cond_insert_wf: "bt_wf m \<Longrightarrow> bt_wf (if b then bt_insert k v m else m)"
  by (simp add: bt_wf_insert)

lemma cond_insert_keys:
  "bt_wf m \<Longrightarrow> keys (if b then bt_insert k v m else m) = (if b then {k} else {}) \<union> keys m"
  by (simp add: fst_set_bt_insert)

lemma classify_boundary_keys:
  assumes "bt_wf un"
  shows "bt_wf (classify_boundary raw un)" and
    "keys (classify_boundary raw un) = keys un
      \<union> (let owner = target_owner raw; mth = target_method raw in
         (if external_owner owner then {''io''} else {})
         \<union> (if owner = ''java/lang/ProcessBuilder'' \<or> owner = ''java/lang/Runtime'' \<and> mth = ''exec'' then {''subprocess''} else {})
         \<union> (if owner = ''java/lang/System'' \<and> mth = ''getenv'' then {''environment''} else {})
         \<union> (if owner = ''java/lang/System'' \<and> mth = ''getProperty'' then {''systemProperties''} else {})
         \<union> (if nondeterministic_boundary raw then {''nondeterminism''} else {})
         \<union> (if (owner = ''java/lang/System'' \<and> (mth = ''load'' \<or> mth = ''loadLibrary''))
              \<or> (owner = ''java/lang/Runtime'' \<and> (mth = ''load'' \<or> mth = ''loadLibrary'')) then {''native''} else {}))"
  unfolding classify_boundary_def Let_def
  by (simp_all only: cond_insert_wf cond_insert_keys assms Un_ac)

lemma file_boundary_is_external: "supported_file_io_boundary raw \<or> io_boundary raw \<Longrightarrow> external_owner (target_owner raw)"
  by (auto simp: supported_file_io_boundary_def io_boundary_def target_owner_def external_owner_def
      starts_with_def split: option.splits)

lemma unavailable_step_keys:
  assumes "bt_wf un"
  shows "bt_wf (unavailable_step raw un)" "keys un \<subseteq> keys (unavailable_step raw un)"
    "hard_boundary raw \<Longrightarrow> \<not> keys (unavailable_step raw un) \<subseteq> {''io'', ''nondeterminism''}"
    "nondeterministic_call raw \<Longrightarrow> ''nondeterminism'' \<in> keys (unavailable_step raw un)"
    "file_call raw \<or> unsupported_io raw \<Longrightarrow> ''io'' \<in> keys (unavailable_step raw un)"
proof -
  note keys = classify_boundary_keys [OF assms]
  show "bt_wf (unavailable_step raw un)" "keys un \<subseteq> keys (unavailable_step raw un)"
    using assms keys by (auto simp: unavailable_step_def bt_wf_insert fst_set_bt_insert)
  show "hard_boundary raw \<Longrightarrow> \<not> keys (unavailable_step raw un) \<subseteq> {''io'', ''nondeterminism''}"
    by (auto simp: hard_boundary_def unavailable_step_def keys(2) Let_def)
  show "nondeterministic_call raw \<Longrightarrow> ''nondeterminism'' \<in> keys (unavailable_step raw un)"
    by (simp add: nondeterministic_call_def unavailable_step_def keys(2) Let_def)
  show "''io'' \<in> keys (unavailable_step raw un)" if "file_call raw \<or> unsupported_io raw"
  proof -
    have "kind_name raw = ''CALL''" "external_owner (target_owner raw)"
      using that file_boundary_is_external by (auto simp: record_kinds)
    then show ?thesis by (simp add: unavailable_step_def keys(2) Let_def)
  qed
qed

lemma ingest_records_counts:
  "ingest_records env raws st s = (s', Inr st') \<Longrightarrow>
     nondeterministic_calls st' = nondeterministic_calls st + length (filter nondeterministic_call raws)
     \<and> deterministic_inputs st' = deterministic_inputs st + length (filter other_input raws)
     \<and> supported_file_io_calls st' = supported_file_io_calls st + length (filter file_call raws)
     \<and> recorded_file_inputs st' = recorded_file_inputs st + length (filter file_input raws)
     \<and> (unsupported_io_observed st' \<longleftrightarrow> unsupported_io_observed st \<or> list_ex unsupported_io raws)
     \<and> event_count st' = event_count st + length raws"
proof (induction raws arbitrary: st s)
  case (Cons raw raws)
  then obtain s1 st1 where "ingest_record env raw st s = (s1, Inr st1)"
    "ingest_records env raws st1 s1 = (s', Inr st')" by (auto simp: abind_Inr)
  with Cons.IH [OF this(2)] ingest_record_effect [OF this(1)] show ?case by simp
qed simp

lemma ingest_records_keys:
  assumes "ingest_records env raws st s = (s', Inr st')" "bt_wf (in_unavailable st)"
  shows "bt_wf (in_unavailable st') \<and> keys (in_unavailable st) \<subseteq> keys (in_unavailable st')
    \<and> (list_ex hard_boundary raws \<longrightarrow> \<not> keys (in_unavailable st') \<subseteq> {''io'', ''nondeterminism''})
    \<and> (list_ex nondeterministic_call raws \<longrightarrow> ''nondeterminism'' \<in> keys (in_unavailable st'))
    \<and> (list_ex file_call raws \<or> list_ex unsupported_io raws \<longrightarrow> ''io'' \<in> keys (in_unavailable st'))"
  using assms
proof (induction raws arbitrary: st s)
  case (Cons raw raws)
  then obtain s1 st1 where rec: "ingest_record env raw st s = (s1, Inr st1)"
    and recs: "ingest_records env raws st1 s1 = (s', Inr st')" by (auto simp: abind_Inr)
  have un: "in_unavailable st1 = unavailable_step raw (in_unavailable st)"
    by (rule ingest_record_effect [OF rec])
  note ks = unavailable_step_keys [OF Cons.prems(2), of raw, folded un]
  note IH = Cons.IH [OF recs ks(1)]
  have sub: "keys (in_unavailable st1) \<subseteq> keys (in_unavailable st')" using IH by blast
  show ?case
  proof (intro conjI impI)
    show "bt_wf (in_unavailable st')" using IH by blast
    show "keys (in_unavailable st) \<subseteq> keys (in_unavailable st')" using ks(2) sub by (rule subset_trans)
    show "\<not> keys (in_unavailable st') \<subseteq> {''io'', ''nondeterminism''}" if "list_ex hard_boundary (raw # raws)"
    proof (cases "hard_boundary raw")
      case True then show ?thesis using ks(3) sub by blast
    next
      case False then show ?thesis using IH that by simp
    qed
    show "''nondeterminism'' \<in> keys (in_unavailable st')" if "list_ex nondeterministic_call (raw # raws)"
    proof (cases "nondeterministic_call raw")
      case True then show ?thesis using ks(4) sub by blast
    next
      case False then show ?thesis using IH that by simp
    qed
    show "''io'' \<in> keys (in_unavailable st')"
      if "list_ex file_call (raw # raws) \<or> list_ex unsupported_io (raw # raws)"
    proof (cases "file_call raw \<or> unsupported_io raw")
      case True then show ?thesis using ks(5) sub by blast
    next
      case False
      then have "list_ex file_call raws \<or> list_ex unsupported_io raws" using that by simp
      then show ?thesis using IH by blast
    qed
  qed
qed simp

section \<open>The manifest of a recording\<close>

lemma keys_remove: "keys (bt_remove k m) = keys m - {k}"
  by (auto simp: bt_remove_def image_iff)

lemma cleared_set:
  assumes "a \<noteq> b" "a \<noteq> c" "b \<noteq> c"
  shows "((if t then {a} else {}) \<union> K - (if n then {b} else {})) - (if i then {c} else {}) = {} \<longleftrightarrow>
    \<not> t \<and> K \<subseteq> {c, b} \<and> (b \<in> K \<longrightarrow> n) \<and> (c \<in> K \<longrightarrow> i)"
  using assms by (cases t; cases n; cases i) auto

lemma final_unavailable_empty:
  assumes "bt_wf (in_unavailable st)"
  shows "final_unavailable st = [] \<longleftrightarrow>
    (length (in_threads st) \<le> 1 \<or> scheduled_threads st)
    \<and> keys (in_unavailable st) \<subseteq> {''io'', ''nondeterminism''}
    \<and> (''nondeterminism'' \<in> keys (in_unavailable st) \<longrightarrow>
         0 < nondeterministic_calls st \<and> deterministic_inputs st = nondeterministic_calls st)
    \<and> (''io'' \<in> keys (in_unavailable st) \<longrightarrow>
         0 < supported_file_io_calls st \<and> recorded_file_inputs st = supported_file_io_calls st
         \<and> \<not> unsupported_io_observed st)"
proof -
  have keys: "keys (final_unavailable st) =
    ((if 1 < length (in_threads st) \<and> \<not> scheduled_threads st then {''threads''} else {}) \<union> keys (in_unavailable st)
      - (if 0 < nondeterministic_calls st \<and> deterministic_inputs st = nondeterministic_calls st then {''nondeterminism''} else {}))
      - (if 0 < supported_file_io_calls st \<and> recorded_file_inputs st = supported_file_io_calls st
            \<and> \<not> unsupported_io_observed st then {''io''} else {})"
    unfolding final_unavailable_def Let_def
    by (simp add: keys_remove cond_insert_keys fst_set_bt_insert assms)
  have "final_unavailable st = [] \<longleftrightarrow> keys (final_unavailable st) = {}" by simp
  also have "\<dots> \<longleftrightarrow> (length (in_threads st) \<le> 1 \<or> scheduled_threads st)
    \<and> keys (in_unavailable st) \<subseteq> {''io'', ''nondeterminism''}
    \<and> (''nondeterminism'' \<in> keys (in_unavailable st) \<longrightarrow>
         0 < nondeterministic_calls st \<and> deterministic_inputs st = nondeterministic_calls st)
    \<and> (''io'' \<in> keys (in_unavailable st) \<longrightarrow>
         0 < supported_file_io_calls st \<and> recorded_file_inputs st = supported_file_io_calls st
         \<and> \<not> unsupported_io_observed st)"
    unfolding keys by (subst cleared_set) (simp_all add: not_less)
  finally show ?thesis .
qed

lemma validate_capabilities_of:
  assumes "bt_wf (in_unavailable st)"
  shows "validate_capabilities (capabilities_of st) = Inr () \<longleftrightarrow> completeness (capabilities_of st) = Complete"
proof (cases "final_unavailable st = []")
  case True
  then have "length (in_threads st) \<le> 1 \<or> scheduled_threads st"
    using final_unavailable_empty [OF assms] by blast
  with True show ?thesis by (auto simp: validate_capabilities_def capabilities_of_def Let_def flag_def)
next
  case False
  then show ?thesis by (auto simp: validate_capabilities_def capabilities_of_def Let_def split: list.splits)
qed

lemma ingest_events_state:
  assumes "ingest_events env (Some chunks) s = (s', Inr ig)"
  obtains s1 st where "ingest_records env (stream_records env chunks) ingest_start s = (s1, Inr st)"
    "ig = ingested_of st"
  using assms ingest_loop_records by (fastforce simp: ingest_events_def abind_Inr)

text \<open>\<^bold>\<open>C34\<close> A recording is reported complete only if its stream has no unrecorded boundary: no
  subprocess, native, environment or property call and no unsupported I/O, one recorded input
  for each nondeterministic call and one recorded file input for each file read.  Replay then
  accepts its capabilities.\<close>

theorem complete_recording_has_no_unrecorded_boundary:
  assumes "ingest_events env (Some chunks) s = (s', Inr ig)" "completeness (ig_capabilities ig) = Complete"
  shows "validate_capabilities (ig_capabilities ig) = Inr ()
    \<and> (let recs = stream_records env chunks in
        list_all (\<lambda>r. \<not> hard_boundary r \<and> \<not> unsupported_io r) recs
        \<and> (list_ex nondeterministic_call recs \<longrightarrow>
             length (filter other_input recs) = length (filter nondeterministic_call recs))
        \<and> (list_ex file_call recs \<longrightarrow> length (filter file_input recs) = length (filter file_call recs)))"
proof -
  let ?recs = "stream_records env chunks"
  obtain s1 st where recs: "ingest_records env ?recs ingest_start s = (s1, Inr st)" and ig: "ig = ingested_of st"
    using assms(1) by (rule ingest_events_state)
  have wf0: "bt_wf (in_unavailable ingest_start)" by (simp add: ingest_start_def)
  note ks = ingest_records_keys [OF recs wf0] and counts = ingest_records_counts [OF recs]
  have zero: "nondeterministic_calls ingest_start = 0" "deterministic_inputs ingest_start = 0"
    "supported_file_io_calls ingest_start = 0" "recorded_file_inputs ingest_start = 0"
    "\<not> unsupported_io_observed ingest_start" by (simp_all add: ingest_start_def)
  have "final_unavailable st = []"
    using assms(2) by (simp add: ig ingested_of_def capabilities_of_def Let_def split: if_splits)
  then have empty: "keys (in_unavailable st) \<subseteq> {''io'', ''nondeterminism''}"
    "''nondeterminism'' \<in> keys (in_unavailable st) \<longrightarrow> deterministic_inputs st = nondeterministic_calls st"
    "''io'' \<in> keys (in_unavailable st) \<longrightarrow>
       recorded_file_inputs st = supported_file_io_calls st \<and> \<not> unsupported_io_observed st"
    using final_unavailable_empty ks by blast+
  have "\<not> list_ex hard_boundary ?recs" using ks empty(1) by blast
  moreover have "\<not> list_ex unsupported_io ?recs" using ks empty(3) counts by blast
  ultimately have "list_all (\<lambda>r. \<not> hard_boundary r \<and> \<not> unsupported_io r) ?recs"
    by (auto simp: list_all_iff list_ex_iff)
  moreover have "list_ex nondeterministic_call ?recs \<longrightarrow>
      length (filter other_input ?recs) = length (filter nondeterministic_call ?recs)"
    using ks empty(2) counts zero by simp
  moreover have "list_ex file_call ?recs \<longrightarrow> length (filter file_input ?recs) = length (filter file_call ?recs)"
    using ks empty(3) counts zero by simp
  moreover have "validate_capabilities (ig_capabilities ig) = Inr ()"
    using assms(2) validate_capabilities_of ks by (simp add: ig ingested_of_def)
  ultimately show ?thesis by (simp add: Let_def)
qed

definition sample_call :: json where
  "sample_call = JObject [(''targetMethod'', JString ''nanoTime''), (''targetOwner'', JString ''java/lang/System''),
     (''type'', JString ''CALL'')]"

definition sample_input_record :: json where
  "sample_input_record = JObject [(''type'', JString ''INPUT'')]"

definition plain_codec :: codec where
  "plain_codec = \<lparr>event_to_json = (\<lambda>_. Some []), event_from_json = (\<lambda>_. None),
     recording_to_json = (\<lambda>_. Some []), recording_from_json = (\<lambda>_. None),
     manifest_to_json = (\<lambda>_. Some []), manifest_from_json = (\<lambda>_. None),
     frames_to_json = (\<lambda>_. Some []), frames_from_json = (\<lambda>_. None),
     zstd_encode = (\<lambda>_ x. Some x), zstd_decode = (\<lambda>x. Some x),
     to_rfc3339 = (\<lambda>t. show_int t), parse_rfc3339 = (\<lambda>_. None)\<rparr>"

definition sample_env :: ingest_env where
  "sample_env = \<lparr>ie_hashes = \<lparr>sha256 = rev, hex = id\<rparr>, ie_codec = plain_codec,
     ie_parse_json = (\<lambda>l. if l = [CHR ''c'', LF] then Some sample_call else Some sample_input_record),
     ie_json_len = (\<lambda>_. Some 0), ie_run_id = ''r'', ie_revision = ''v'', ie_is_file = (\<lambda>_. False),
     ie_src = FsFile, ie_root = ''/w'', ie_cancelled = (\<lambda>_. False)\<rparr>"

definition sample_store :: store where
  "sample_store = (empty_store default_retention)\<lparr>runs := [\<lparr>run_pk = ''r'', run_revision = ''v'',
     run_source_digest = ''v'', run_status = ''running'', run_started_at = [], run_finished_at = None\<rparr>]\<rparr>"

definition sample_chunks :: "string list" where
  "sample_chunks = [[CHR ''c'', LF, CHR ''i''], [LF]]"

lemma sample_lines:
  "read_bounded_line MAX_EVENT_LINE_BYTES [] sample_chunks = Inr ([CHR ''c'', LF], [''i'', [LF]])"
  "read_bounded_line MAX_EVENT_LINE_BYTES [] [''i'', [LF]] = Inr ([CHR ''i'', LF], [])"
  by (simp_all add: sample_chunks_def MAX_EVENT_LINE_BYTES_def sat_add_def usize_max_def consume_def)

lemmas sample_simps = is_ascii_whitespace_def byte_of_def MAX_EVENT_LINE_BYTES_def sat_add_def usize_max_def
  consume_def

lemma sample_env_sel [simp]:
  "ie_parse_json sample_env = (\<lambda>l. if l = [CHR ''c'', LF] then Some sample_call else Some sample_input_record)"
  "ie_cancelled sample_env = (\<lambda>_. False)" "ie_codec sample_env = plain_codec" "ie_run_id sample_env = ''r''"
  "ie_json_len sample_env = (\<lambda>_. Some 0)" "ie_hashes sample_env = \<lparr>sha256 = rev, hex = id\<rparr>"
  "ie_revision sample_env = ''v''"
  by (simp_all add: sample_env_def)

lemma sample_records: "stream_records sample_env sample_chunks = [sample_call, sample_input_record]"
proof -
  have "stream_records sample_env [] = []" by (simp add: stream_records.simps)
  then have "stream_records sample_env [''i'', [LF]] = [sample_input_record]"
    by (simp add: stream_records.simps [of _ "[''i'', [LF]]"] sample_lines sample_simps)
  then show ?thesis
    by (simp add: stream_records.simps [of _ sample_chunks, unfolded sample_chunks_def] sample_chunks_def sample_simps)
qed

lemma sample_loop:
  assumes "ingest_records sample_env [sample_call, sample_input_record] ingest_start s = (s', Inr st)"
  shows "ingest_loop sample_env 0 sample_chunks ingest_start s = (s', Inr st)"
proof -
  from assms obtain s1 st1 where
    r1: "ingest_record sample_env sample_call ingest_start s = (s1, Inr st1)"
    and r2: "ingest_record sample_env sample_input_record st1 s1 = (s', Inr st)"
    by (auto simp: abind_Inr)
  have "event_count st1 = 1" using ingest_record_effect(7) [OF r1] by (simp add: ingest_start_def)
  then have "ingest_loop sample_env 1 [''i'', [LF]] st1 s1 = (s', Inr st)"
    using r2 by (simp add: ingest_loop.simps [of _ _ "[''i'', [LF]]"] ingest_loop.simps [of _ _ "[]"]
        sample_lines sample_simps MAX_EVENTS_PER_RUN_def)
  moreover have "event_count ingest_start = 0" by (simp add: ingest_start_def)
  ultimately show ?thesis
    using r1 by (simp add: ingest_loop.simps [of _ _ sample_chunks, unfolded sample_chunks_def] sample_chunks_def sample_simps MAX_EVENTS_PER_RUN_def)
qed

lemma sample_kinds [simp]: "kind_name sample_call = ''CALL''" "kind_name sample_input_record = ''INPUT''"
  by (simp_all add: kind_name_def sample_call_def sample_input_record_def json_access)

lemma sample_call_append:
  "\<exists>s1. append_event plain_codec sample_store ''r'' t (event_of_raw sample_env 0 sample_call) = Inr s1
     \<and> (\<exists>s2. append_event plain_codec s1 ''r'' t (event_of_raw sample_env 1 sample_input_record) = Inr s2)"
  by (simp add: append_event_def plain_codec_def sqlite_i64_def i64_max_def sample_store_def empty_store_def
      run_exists_def event_of_raw_def event_id_new_def short_sha256_def event_canonical_def show_nat_small show_nat_small(2) [unfolded One_nat_def]
      public_test_id_def sample_call_def sample_input_record_def json_access raw_thread_id_def split_once_def
      split_nth1_def starts_with_def)

lemmas sample_state = observe_capability_def observe_memory_def observe_boundary_def observe_coverage_def
  note_event_def observe_event_def observe_threads_def ingest_start_def raw_thread_id_def raw_path_def
  kind_name_def classify_boundary_def external_owner_def nondeterministic_boundary_def target_owner_def
  target_method_def supported_file_io_boundary_def io_boundary_def value_str_def Let_def bs_insert_def
  event_of_raw_def live_value_hint_of_def starts_with_def

lemma sample_ingested:
  "\<exists>s' ig. ingest_events sample_env (Some sample_chunks) sample_store = (s', Inr ig)
     \<and> completeness (ig_capabilities ig) = Complete"
proof -
  have ids: "public_test_id sample_call = ''unknown-test''" "public_test_id sample_input_record = ''unknown-test''"
    by (simp_all add: public_test_id_def sample_call_def sample_input_record_def json_access split_once_def
        split_nth1_def starts_with_def)
  obtain s1 s2 where app:
    "append_event plain_codec sample_store ''r'' ''unknown-test'' (event_of_raw sample_env 0 sample_call) = Inr s1"
    "append_event plain_codec s1 ''r'' ''unknown-test'' (event_of_raw sample_env 1 sample_input_record) = Inr s2"
    using sample_call_append by blast
  obtain st1 where r1: "ingest_record sample_env sample_call ingest_start sample_store = (s1, Inr st1)"
    using app(1) ids by (simp add: ingest_record_def observe_test_def store_call_def Let_def ingest_start_def)
  have ec: "event_count st1 = 1" using ingest_record_effect(7) [OF r1] by (simp add: ingest_start_def)
  obtain st where r2: "ingest_record sample_env sample_input_record st1 s1 = (s2, Inr st)"
    using app(2) ids by (simp add: ingest_record_def observe_test_def store_call_def Let_def ec)
  have "ingest_records sample_env [sample_call, sample_input_record] ingest_start sample_store = (s2, Inr st)"
    using r1 r2 by simp
  note loop = sample_loop [OF this]
  have st1: "st1 = observe_capability sample_call (observe_memory sample_call (observe_boundary sample_call
      (observe_coverage sample_env sample_call
        (note_event sample_env (event_of_raw sample_env 0 sample_call) sample_call ingest_start))))"
    using r1 app(1) ids by (simp add: ingest_record_def observe_test_def store_call_def Let_def ingest_start_def)
  have st: "st = observe_capability sample_input_record (observe_memory sample_input_record
      (observe_boundary sample_input_record (observe_coverage sample_env sample_input_record
        (note_event sample_env (event_of_raw sample_env 1 sample_input_record) sample_input_record st1))))"
    using r2 app(2) ids ec by (simp add: ingest_record_def observe_test_def store_call_def Let_def)
  have threads: "in_threads st = [0]" "in_tests st = []"
    by (simp_all add: st st1 sample_state sample_call_def sample_input_record_def json_access)
  have nondet: "nondeterministic_calls st = 1" "deterministic_inputs st = 1"
    by (simp_all add: st st1 sample_state sample_call_def sample_input_record_def json_access)
  have "in_unavailable st = [(''nondeterminism'', ''unrecorded nondeterministic input java/lang/System#nanoTime'')]"
    by (simp add: st st1 sample_state sample_call_def sample_input_record_def json_access)
  then have "final_unavailable st = []"
    using nondet threads by (simp add: final_unavailable_def Let_def bt_remove_def)
  then show ?thesis
    using loop threads by (simp add: ingest_events_def ingested_of_def capabilities_of_def Let_def)
qed

theorem complete_recording_has_no_unrecorded_boundary_witness:
  "\<exists>s' ig. ingest_events sample_env (Some sample_chunks) sample_store = (s', Inr ig)
     \<and> validate_capabilities (ig_capabilities ig) = Inr ()
     \<and> stream_records sample_env sample_chunks = [sample_call, sample_input_record]"
proof -
  obtain s' ig where "ingest_events sample_env (Some sample_chunks) sample_store = (s', Inr ig)"
    "completeness (ig_capabilities ig) = Complete" using sample_ingested by blast
  with complete_recording_has_no_unrecorded_boundary [OF this] sample_records show ?thesis by blast
qed

end
