(* ===== verification/Verifier_Run.thy ===== *)
theory Verifier_Run
  imports Verifier_Ingest Verifier_Problems
begin

text \<open>
  \<^verbatim>\<open>crates/walaru-daemon/src/verifier.rs\<close>, one verification: the command line of the build
  worker, its supervision, the selection of impacted tests, the cache, the decision whether a
  run passed, recordings and replays.

  The worker process, \<^verbatim>\<open>git\<close>, the clock and the directory trees are parameters.  Creating
  and writing the private files of a run succeeds.
\<close>

section \<open>The worker's command line\<close>

record worker_files =
  wf_event :: string
  wf_input :: string
  replay_inputs :: bool
  replay_schedule :: "string option"
  model_directory :: string
  wf_log :: string

definition has_gradle_wrapper :: "host \<Rightarrow> string \<Rightarrow> bool" where
  "has_gradle_wrapper w r = (is_file w (path_join r ''gradlew'') \<or> is_file w (path_join r ''gradlew.bat''))"

definition build_tool_executable :: "host \<Rightarrow> string \<Rightarrow> string \<Rightarrow> string \<Rightarrow> string \<Rightarrow> string" where
  "build_tool_executable w r unix_wrapper windows_wrapper fallback =
     (if is_file w (path_join r unix_wrapper) then path_join r unix_wrapper
      else if is_file w (path_join r windows_wrapper) then path_join r windows_wrapper
      else fallback)"

definition input_property :: "verification_request \<Rightarrow> worker_files \<Rightarrow> string list" where
  "input_property q f =
     (if mode q = Full
      then [''-D'' @ (if replay_inputs f then ''walaru.replayInputFile'' else ''walaru.inputFile'') @ ''='' @ wf_input f]
      else [])"

definition schedule_property :: "worker_files \<Rightarrow> string list" where
  "schedule_property f = (case replay_schedule f of
      Some p \<Rightarrow> [''-Dwalaru.replayScheduleFile='' @ p] | None \<Rightarrow> [])"

definition capture_property :: "verification_request \<Rightarrow> string list" where
  "capture_property q = (if capture_file_io q then [''-Dwalaru.captureFileIo=true''] else [])"

definition gradle_argv ::
  "runtime_artifacts \<Rightarrow> verification_request \<Rightarrow> worker_files \<Rightarrow> string \<Rightarrow> string list" where
  "gradle_argv a q f r =
     (if overlay q = None \<or> mode q = Full then [''--no-daemon''] else [])
     @ [''--configuration-cache'', ''--init-script'', init_script a, ''walaruVerify'',
        ''-Dwalaru.adapterJar='' @ adapter_jar a,
        ''-Dwalaru.agentJar='' @ agent_jar a,
        ''-Dwalaru.workspaceRoot='' @ r,
        ''-Dwalaru.eventFile='' @ wf_event f,
        ''-Dwalaru.mode='' @ mode_as_str (mode q),
        ''-Dwalaru.modelDirectory='' @ model_directory f]
     @ capture_property q @ input_property q f @ schedule_property f
     @ (if selected_tests q \<noteq> []
        then [''-Dwalaru.tests='' @ join '','' (map (replace_char (CHR ''#'') (CHR ''.'')) (selected_tests q))]
        else [])"

text \<open>A public test identity without its module, \<^verbatim>\<open>split_once("::")\<close>.\<close>

definition maven_selector :: "string \<Rightarrow> string" where
  "maven_selector t = (case split_once t ''::'' of Some (_, i) \<Rightarrow> i | None \<Rightarrow> t)"

definition maven_argv ::
  "runtime_artifacts \<Rightarrow> verification_request \<Rightarrow> worker_files \<Rightarrow> string \<Rightarrow> string list" where
  "maven_argv a q f r =
     (let fork_arguments =
        [''-javaagent:'' @ agent_jar a, ''-Dwalaru.eventFile='' @ wf_event f,
         ''-Dwalaru.mode='' @ mode_as_str (mode q), ''-Dwalaru.classRoots='' @ r,
         ''-Dwalaru.projectPath=:'']
        @ capture_property q @ input_property q f @ schedule_property f
      in [''--batch-mode'', ''--no-transfer-progress'', ''test'',
          ''-DargLine='' @ join '' '' fork_arguments,
          ''-Dmaven.test.additionalClasspath='' @ agent_jar a,
          ''-Dwalaru.eventFile='' @ wf_event f,
          ''-Dwalaru.mode='' @ mode_as_str (mode q),
          ''-Dsurefire.useModulePath=false'', ''-Dsurefire.failIfNoSpecifiedTests=false'', ''-DforkCount=1'']
         @ capture_property q @ input_property q f @ schedule_property f
         @ (if selected_tests q \<noteq> []
            then [''-Dtest='' @ join '','' (map maven_selector (selected_tests q))] else []))"

section \<open>Supervision\<close>

record process_outcome =
  success :: bool

text \<open>One round of the loop: whether the token is set, what \<^verbatim>\<open>try_wait\<close> returns (\<open>Inl\<close> an I/O
  error, \<open>Inr None\<close> still running), and by how many milliseconds the sleep overran.\<close>

record poll =
  poll_cancelled :: bool
  poll_exit :: "unit + bool option"
  poll_late :: nat

text \<open>\<open>elapsed\<close> is the time since the start in milliseconds; a sleep takes at least the 20
  milliseconds asked for.  The flag of the result says that the process tree was terminated.\<close>

function supervise ::
  "nat \<Rightarrow> (nat \<Rightarrow> poll) \<Rightarrow> nat \<Rightarrow> nat \<Rightarrow> (verifier_error + process_outcome) \<times> bool" where
  "supervise timeout polls k elapsed =
     (if poll_cancelled (polls k) then (Inl VerificationCancelled, True)
      else (case poll_exit (polls k) of
          Inl _ \<Rightarrow> (Inl (VIo ''try_wait''), False)
        | Inr (Some ok) \<Rightarrow> (Inr \<lparr>success = ok\<rparr>, False)
        | Inr None \<Rightarrow>
            if timeout \<le> elapsed then (Inl (Timeout timeout), True)
            else supervise timeout polls (k + 1) (elapsed + 20 + poll_late (polls k))))"
  by pat_completeness auto
termination
  by (relation "measure (\<lambda>(timeout, _, _, elapsed). timeout - elapsed)") auto

declare supervise.simps [simp del]

text \<open>The log is cut to its tail after supervision, whatever that found; \<open>None\<close> is a log that cannot be read
  or cut, whose error comes before the outcome.\<close>

definition supervise_logged ::
  "nat \<Rightarrow> (nat \<Rightarrow> poll) \<Rightarrow> string option \<Rightarrow> (verifier_error + process_outcome) \<times> string option" where
  "supervise_logged timeout polls contents =
     (case contents of
        None \<Rightarrow> (Inl (VIo ''log''), None)
      | Some l \<Rightarrow> (fst (supervise timeout polls 0 0), Some (truncate_file_tail l MAX_WORKER_LOG_BYTES)))"

text \<open>What a spawned worker does: whether it starts, how supervision sees it, and the files it
  leaves.\<close>

record worker_output =
  wo_spawned :: bool
  wo_polls :: "nat \<Rightarrow> poll"
  wo_events :: "string list option"
  wo_copied :: bool
  wo_log :: "string option"

text \<open>\<open>run_gradle\<close> or \<open>run_maven\<close>, with the log cut to its tail.\<close>

definition run_worker ::
  "host \<Rightarrow> runtime_artifacts \<Rightarrow> nat \<Rightarrow> (string \<Rightarrow> string list \<Rightarrow> worker_output) \<Rightarrow> verification_request
     \<Rightarrow> worker_files \<Rightarrow> string \<Rightarrow> (verifier_error + process_outcome) \<times> worker_output" where
  "run_worker w a timeout worker q f r =
     (let out = (if is_file w (path_join r ''pom.xml'') \<and> \<not> has_gradle_wrapper w r
            then worker (build_tool_executable w r ''mvnw'' ''mvnw.cmd'' ''mvn'') (maven_argv a q f r)
            else worker (build_tool_executable w r ''gradlew'' ''gradlew.bat'' ''gradle'') (gradle_argv a q f r))
      in if \<not> wo_spawned out then (Inl (VIo ''spawn''), out)
         else (case supervise_logged timeout (wo_polls out) (wo_log out) of (result, l) \<Rightarrow> (result, out\<lparr>wo_log := l\<rparr>)))"

section \<open>Impact\<close>

text \<open>The loop over the changed paths; \<open>None\<close> is the conservative answer.\<close>

fun impact_loop ::
  "store \<Rightarrow> revision_manifest \<Rightarrow> revision_snapshot \<Rightarrow> string list \<Rightarrow> string list \<Rightarrow> string list option" where
  "impact_loop s base current [] chosen = Some chosen"
| "impact_loop s base current (p # ps) chosen =
     (if \<not> implementation_source p
         \<or> \<not> (bt_contains (m_file_digests base) p \<and> bt_contains (file_digests current) p)
         \<or> bt_get (m_surface_digests base) p \<noteq> bt_get (surface_digests current) p
      then None
      else (case select_impact s p (module_for_path p) of
          Exact ts \<Rightarrow> impact_loop s base current ps (bs_extend chosen ts)
        | ModuleAll _ _ \<Rightarrow> None))"

definition nonempty :: "'a list \<Rightarrow> 'a list option" where
  "nonempty xs = (if xs = [] then None else Some xs)"

definition changed_paths :: "revision_manifest \<Rightarrow> revision_snapshot \<Rightarrow> string list" where
  "changed_paths base current =
     filter (\<lambda>p. bt_get (m_file_digests base) p \<noteq> bt_get (file_digests current) p)
       (bs_extend [] (map fst (m_file_digests base) @ map fst (file_digests current)))"

definition impacted_tests ::
  "codec \<Rightarrow> store \<Rightarrow> revision_snapshot \<Rightarrow> string option \<Rightarrow> verifier_error + string list option" where
  "impacted_tests c s current requested =
     (case (case requested of Some r \<Rightarrow> Some r | None \<Rightarrow> latest_cached_revision s) of
        None \<Rightarrow> Inr None
      | Some base_rev \<Rightarrow>
          if base_rev = revision current then Inr None
          else (case revision_manifest_of c s base_rev of
              Inl e \<Rightarrow> Inl (VStore e)
            | Inr None \<Rightarrow> Inr None
            | Inr (Some base) \<Rightarrow>
                Inr (Option.bind (impact_loop s base current (changed_paths base current) []) nonempty)))"

definition git_reference_ok :: "string \<Rightarrow> bool" where
  "git_reference_ok r = (r \<noteq> [] \<and> length r \<le> 256 \<and> \<not> starts_with r ''-''
     \<and> list_all (\<lambda>c. is_ascii_alphanumeric c \<or> c \<in> set ''._/-'') r)"

fun pairs :: "'a list \<Rightarrow> ('a \<times> 'a) list \<times> 'a list" where
  "pairs (a # b # xs) = (let (ps, r) = pairs xs in ((a, b) # ps, r))"
| "pairs xs = ([], xs)"

text \<open>\<open>git argv\<close> is the result of one \<^verbatim>\<open>git\<close> call: \<open>None\<close> if it cannot be started, otherwise
  whether it succeeded and its output.\<close>

type_synonym git = "string list \<Rightarrow> (bool \<times> string) option"

fun git_loop ::
  "hashes \<Rightarrow> git \<Rightarrow> string \<Rightarrow> string \<Rightarrow> store \<Rightarrow> revision_snapshot \<Rightarrow> (string \<times> string) list \<Rightarrow> string list
     \<Rightarrow> verifier_error + string list option" where
  "git_loop h git r reference s current [] chosen = Inr (Some chosen)"
| "git_loop h git r reference s current ((stat0, path0) # es) chosen =
     (let stat = from_utf8_lossy stat0;
          path = replace_char BACKSLASH SLASH (from_utf8_lossy path0)
      in if stat \<noteq> ''M'' \<or> \<not> implementation_source path then Inr None
         else (case bt_get (surface_digests current) path of
             None \<Rightarrow> Inr None
           | Some surface \<Rightarrow>
               (case git [''-C'', r, ''show'', reference @ '':'' @ path] of
                  None \<Rightarrow> Inl (VIo ''git'')
                | Some (ok, old) \<Rightarrow>
                    if \<not> ok \<or> source_surface_digest h path old \<noteq> surface then Inr None
                    else (case select_impact s path (module_for_path path) of
                        Exact ts \<Rightarrow> git_loop h git r reference s current es (bs_extend chosen ts)
                      | ModuleAll _ _ \<Rightarrow> Inr None))))"

definition untracked_input :: "runtime_artifacts \<Rightarrow> string \<Rightarrow> string \<Rightarrow> bool" where
  "untracked_input a r raw =
     (let path = replace_char BACKSLASH SLASH (from_utf8_lossy raw); absolute = path_join r path in
      raw \<noteq> [] \<and> absolute \<noteq> adapter_jar a \<and> absolute \<noteq> agent_jar a \<and> absolute \<noteq> init_script a
      \<and> (source_input path \<or> build_input path))"

definition impacted_tests_since_git ::
  "hashes \<Rightarrow> git \<Rightarrow> runtime_artifacts \<Rightarrow> string \<Rightarrow> store \<Rightarrow> revision_snapshot \<Rightarrow> string
     \<Rightarrow> verifier_error + string list option" where
  "impacted_tests_since_git h git a r s current reference =
     (if \<not> git_reference_ok reference then Inr None
      else (case git [''-C'', r, ''diff'', ''--no-ext-diff'', ''--name-status'', ''-z'', reference, ''--''] of
          None \<Rightarrow> Inl (VIo ''git'')
        | Some (ok1, diff) \<Rightarrow>
            if \<not> ok1 then Inr None
            else (case git [''-C'', r, ''ls-files'', ''--others'', ''--exclude-standard'', ''-z'', ''--''] of
                None \<Rightarrow> Inl (VIo ''git'')
              | Some (ok2, untracked) \<Rightarrow>
                  if \<not> ok2 then Inr None
                  else if list_ex (untracked_input a r) (split_char NUL untracked) then Inr None
                  else (let (ps, remainder) = pairs (filter (\<lambda>f. f \<noteq> []) (split_char NUL diff)) in
                    if remainder \<noteq> [] then Inr None
                    else rbind (git_loop h git r reference s current ps [])
                      (\<lambda>x. Inr (Option.bind x nonempty))))))"

section \<open>A verification\<close>

text \<open>What a verification is given.  \<open>ve_cancelled k\<close> is the token at the \<open>k\<close>-th check;
  \<open>ve_prepare\<close> materializes an overlay and returns the root to execute in; \<open>ve_before\<close>,
  \<open>ve_again\<close> and \<open>ve_after\<close> are the trees at the three captures; \<open>ve_tape\<close> is the input tape
  the worker leaves in the run directory.\<close>

record verify_env =
  ve_host :: host
  ve_hashes :: hashes
  ve_codec :: codec
  ve_parse_json :: "string \<Rightarrow> json option"
  ve_json_len :: "json \<Rightarrow> nat option"
  ve_outcome_to_json :: "verification_outcome \<Rightarrow> string option"
  ve_outcome_from_json :: "string \<Rightarrow> verification_outcome option"
  ve_layout :: workspace_layout
  ve_artifacts :: runtime_artifacts
  ve_timeout :: nat
  ve_cancelled :: "nat \<Rightarrow> bool"
  ve_line_cancelled :: "nat \<Rightarrow> bool"
  ve_prepare :: "overlay_request \<Rightarrow> overlay_error + string"
  ve_before :: node
  ve_again :: node
  ve_after :: node
  ve_src :: fs_view
  ve_git :: git
  ve_run_id :: string
  ve_now :: "nat \<Rightarrow> int"
  ve_worker :: "string \<Rightarrow> string list \<Rightarrow> worker_output"
  ve_tape :: "string option"

definition check_cancellation :: "verify_env \<Rightarrow> nat \<Rightarrow> verifier_error + unit" where
  "check_cancellation env k = (if ve_cancelled env k then Inl VerificationCancelled else Inr ())"

definition capture_at :: "verify_env \<Rightarrow> node \<Rightarrow> verifier_error + revision_snapshot" where
  "capture_at env tree = (case capture (ve_hashes env) tree of
      Inl e \<Rightarrow> Inl (VWorkspace e) | Inr snap \<Rightarrow> Inr snap)"

definition prepare_overlay :: "verify_env \<Rightarrow> verification_request \<Rightarrow> verifier_error + string" where
  "prepare_overlay env q = (case overlay q of
      None \<Rightarrow> Inr (root (ve_layout env))
    | Some ov \<Rightarrow> (case ve_prepare env ov of
        Inl Cancelled \<Rightarrow> Inl VerificationCancelled
      | Inl e \<Rightarrow> Inl (VOverlay e)
      | Inr r \<Rightarrow> Inr r))"

definition cacheable :: "verification_request \<Rightarrow> recording option \<Rightarrow> bool" where
  "cacheable q replay = (replay = None \<and> mode q = Fast \<and> selected_tests q = [] \<and> \<not> full q \<and> since q = None)"

definition impactable :: "verification_request \<Rightarrow> bool" where
  "impactable q = (mode q = Fast \<and> selected_tests q = [] \<and> \<not> full q)"

definition acceptable_cache :: "revision_snapshot \<Rightarrow> verification_outcome \<Rightarrow> bool" where
  "acceptable_cache before out =
     (vo_status out = Passed \<and> vo_exit_code out = 0
      \<and> evidence_format_version out = VERIFICATION_EVIDENCE_FORMAT_VERSION
      \<and> vo_revision out = revision before \<and> 0 < vo_events out \<and> vo_tests out \<noteq> [])"

text \<open>The cached result of exactly this revision, if it still is the revision.\<close>

definition try_cache ::
  "verify_env \<Rightarrow> verification_request \<Rightarrow> recording option \<Rightarrow> revision_snapshot \<Rightarrow> store
     \<Rightarrow> verification_outcome option act" where
  "try_cache env q replay before s =
     (if \<not> cacheable q replay then (s, Inr None)
      else (case verification_cache (ve_codec env) s (revision before) of
          Inl e \<Rightarrow> (s, Inl (VStore e))
        | Inr None \<Rightarrow> (s, Inr None)
        | Inr (Some payload) \<Rightarrow>
            (case capture_at env (ve_again env) of
               Inl e \<Rightarrow> (s, Inl e)
             | Inr again \<Rightarrow>
                 if revision again \<noteq> revision before then (s, Inr None)
                 else (case ve_outcome_from_json env payload of
                     None \<Rightarrow> (s, Inl VJson)
                   | Some out \<Rightarrow>
                       if \<not> acceptable_cache before out then (s, Inr None)
                       else (case check_cancellation env 3 of
                           Inl e \<Rightarrow> (s, Inl e)
                         | Inr _ \<Rightarrow>
                             (let statuses = (if vo_test_statuses out = []
                                    then bt_collect (map (\<lambda>t. (t, ''passed'')) (vo_tests out))
                                    else vo_test_statuses out);
                                  out' = out\<lparr>cached := True, selection := ''cached'',
                                    vo_overlay_versions := overlay_versions q, vo_test_statuses := statuses\<rparr>
                              in (update_test_statuses s statuses, Inr (Some out'))))))))"

text \<open>The effective selection: the request's own, or the impacted tests.\<close>

definition choose_tests ::
  "verify_env \<Rightarrow> verification_request \<Rightarrow> revision_snapshot \<Rightarrow> store \<Rightarrow> verifier_error + (verification_request \<times> string)" where
  "choose_tests env q before s =
     (let base = (if selected_tests q \<noteq> [] then ''explicit'' else if full q then ''full'' else ''moduleAll'') in
      if \<not> impactable q then Inr (q, base)
      else rbind (case since q of
            Some reference \<Rightarrow>
              if \<not> starts_with reference ''rev-''
              then impacted_tests_since_git (ve_hashes env) (ve_git env) (ve_artifacts env)
                (root (ve_layout env)) s before reference
              else impacted_tests (ve_codec env) s before (Some reference)
          | None \<Rightarrow> impacted_tests (ve_codec env) s before None)
        (\<lambda>impacted. case impacted of
            Some ts \<Rightarrow> Inr (q\<lparr>selected_tests := ts\<rparr>, ''impact'')
          | None \<Rightarrow> Inr (q, base)))"

definition run_directory :: "verify_env \<Rightarrow> string" where
  "run_directory env = path_join (path_join (state_dir (ve_layout env)) ''runs'') (ve_run_id env)"

definition files_of :: "verify_env \<Rightarrow> verification_request \<Rightarrow> bool \<Rightarrow> bool \<Rightarrow> worker_files" where
  "files_of env q replaying has_schedule =
     (let dir = run_directory env;
          worker_dir = (case overlay q of
              Some ov \<Rightarrow> path_join (path_join (path_join (state_dir (ve_layout env)) ''live'') (overlay_session_id ov)) ''worker''
            | None \<Rightarrow> dir)
      in \<lparr>wf_event = path_join worker_dir ''events.jsonl'', wf_input = path_join dir ''inputs.tape'',
          replay_inputs = replaying,
          replay_schedule = (if has_schedule then Some (path_join dir ''schedule.tape'') else None),
          model_directory = path_join worker_dir ''model'', wf_log = path_join dir ''worker.log''\<rparr>)"

definition write_tapes :: "verify_env \<Rightarrow> recording option \<Rightarrow> verifier_error + bool" where
  "write_tapes env replay = (case replay of
      None \<Rightarrow> Inr False
    | Some r \<Rightarrow> rbind (write_replay_inputs r) (\<lambda>_. Inr (snd (write_replay_schedule (ve_hashes env) r))))"

text \<open>\<^verbatim>\<open>let _ = self.store.finish_run(.., RunStatus::Error, ..)\<close> before an early return.\<close>

definition abort_run :: "verify_env \<Rightarrow> revision_snapshot \<Rightarrow> store \<Rightarrow> verifier_error \<Rightarrow> 'a act" where
  "abort_run env before s e =
     (case finish_run (ve_codec env) s (ve_run_id env) RunError (revision before) (ve_now env 1) of
        Inl _ \<Rightarrow> (s, Inl e)
      | Inr (s', _) \<Rightarrow> (s', Inl e))"

definition ingest_env_of :: "verify_env \<Rightarrow> revision_snapshot \<Rightarrow> string \<Rightarrow> ingest_env" where
  "ingest_env_of env before r =
     \<lparr>ie_hashes = ve_hashes env, ie_codec = ve_codec env, ie_parse_json = ve_parse_json env,
      ie_json_len = ve_json_len env, ie_run_id = ve_run_id env, ie_revision = revision before,
      ie_is_file = is_file (ve_host env), ie_src = ve_src env, ie_root = r,
      ie_cancelled = ve_line_cancelled env\<rparr>"

text \<open>From the started run to the evidence and the revision after it; every failure closes the
  run as an error.\<close>

definition execute ::
  "verify_env \<Rightarrow> verification_request \<Rightarrow> worker_files \<Rightarrow> string \<Rightarrow> revision_snapshot \<Rightarrow> store
     \<Rightarrow> (process_outcome \<times> worker_output \<times> ingested \<times> revision_snapshot) act" where
  "execute env q f r before s =
     (case run_worker (ve_host env) (ve_artifacts env) (ve_timeout env) (ve_worker env) q f r of
        (Inl e, _) \<Rightarrow> abort_run env before s e
      | (Inr process, out) \<Rightarrow>
          (case check_cancellation env 5 of
             Inl e \<Rightarrow> abort_run env before s e
           | Inr _ \<Rightarrow>
               if overlay q \<noteq> None \<and> \<not> wo_copied out then abort_run env before s (VIo ''copy'')
               else (case ingest_events (ingest_env_of env before r) (wo_events out) s of
                   (s1, Inl e) \<Rightarrow> abort_run env before s1 e
                 | (s1, Inr ing) \<Rightarrow>
                     (case capture_at env (ve_after env) of
                        Inl e \<Rightarrow> abort_run env before s1 e
                      | Inr after \<Rightarrow> (s1, Inr (process, out, ing, after))))))"

definition fresh_evidence_missing :: "process_outcome \<Rightarrow> ingested \<Rightarrow> string list \<Rightarrow> bool" where
  "fresh_evidence_missing process ing wanted =
     (success process
      \<and> (list_all (\<lambda>e. snd e \<noteq> ''passed'') (ig_test_statuses ing)
         \<or> length (ig_test_statuses ing) \<noteq> length (ig_tests ing)
         \<or> list_ex (\<lambda>t. bt_get (ig_test_statuses ing) t \<noteq> Some ''passed'') wanted))"

definition desired_status :: "process_outcome \<Rightarrow> ingested \<Rightarrow> string list \<Rightarrow> run_status" where
  "desired_status process ing wanted =
     (if fresh_evidence_missing process ing wanted then RunError
      else if success process then Passed else Failed)"

definition exit_code_of :: "run_status \<Rightarrow> int" where
  "exit_code_of st = (case st of Passed \<Rightarrow> 0 | Failed \<Rightarrow> 1 | RunStale \<Rightarrow> 4 | RunError \<Rightarrow> 3 | Running \<Rightarrow> 3)"

text \<open>The outcome is cached with its manifest when it may be reused.\<close>

definition save_outcome ::
  "verify_env \<Rightarrow> verification_request \<Rightarrow> recording option \<Rightarrow> revision_snapshot \<Rightarrow> verification_outcome
     \<Rightarrow> store \<Rightarrow> unit act" where
  "save_outcome env q replay before out s =
     (if cacheable q replay \<and> vo_status out = Passed
      then (case ve_outcome_to_json env out of
          None \<Rightarrow> (s, Inl VJson)
        | Some payload \<Rightarrow>
            abind (store_call s (save_verification_cache (ve_codec env) s (vo_revision out) (vo_run_id out)
              payload (ve_now env 3))) (\<lambda>s1 _.
            store_call s1 (save_revision_manifest (ve_codec env) s1 (vo_revision out)
              \<lparr>m_file_digests = file_digests before, m_surface_digests = surface_digests before\<rparr> (ve_now env 4))))
      else (s, Inr ()))"

definition outcome_of ::
  "verify_env \<Rightarrow> verification_request \<Rightarrow> string \<Rightarrow> revision_snapshot \<Rightarrow> verification_request \<Rightarrow> string
     \<Rightarrow> worker_output \<Rightarrow> ingested \<Rightarrow> run_status \<Rightarrow> verification_outcome" where
  "outcome_of env q r before eff sel out ing st =
     \<lparr>evidence_format_version = VERIFICATION_EVIDENCE_FORMAT_VERSION,
      vo_run_id = ve_run_id env, vo_revision = revision before, vo_status = st,
      vo_exit_code = exit_code_of st, vo_tests = ig_tests ing,
      vo_test_statuses = ig_test_statuses ing, vo_failures = ig_failures ing,
      vo_events = ig_event_count ing, vo_capabilities = ig_capabilities ing,
      vo_log_file = path_join (run_directory env) ''worker.log'', cached = False,
      selection = sel, vo_selected_tests = selected_tests eff,
      vo_overlay_versions = overlay_versions q,
      problems = worker_problems (wo_log out) r, vo_value_hints = ig_value_hints ing\<rparr>"

text \<open>Closing the run, saving the outcome and pruning.\<close>

definition conclude ::
  "verify_env \<Rightarrow> verification_request \<Rightarrow> recording option \<Rightarrow> string \<Rightarrow> revision_snapshot
     \<Rightarrow> verification_request \<Rightarrow> string \<Rightarrow> process_outcome \<times> worker_output \<times> ingested \<times> revision_snapshot
     \<Rightarrow> store \<Rightarrow> verification_outcome act" where
  "conclude env q replay r before eff sel finished s =
     (case finished of (process, out, ing, after) \<Rightarrow>
      (case finish_run (ve_codec env) s (ve_run_id env)
          (desired_status process ing (selected_tests eff)) (revision after) (ve_now env 2) of
         Inl e \<Rightarrow> (s, Inl (VStore e))
       | Inr (s1, st) \<Rightarrow>
           (let res = outcome_of env q r before eff sel out ing st in
            abind (save_outcome env q replay before res s1) (\<lambda>s2 _.
              (fst (prune (ve_codec env) s2 (ve_now env 5)), Inr res)))))"

definition run_verification ::
  "verify_env \<Rightarrow> verification_request \<Rightarrow> recording option \<Rightarrow> string \<Rightarrow> revision_snapshot \<Rightarrow> store
     \<Rightarrow> verification_outcome act" where
  "run_verification env q replay r before s =
     (case choose_tests env q before s of
        Inl e \<Rightarrow> (s, Inl e)
      | Inr (eff, sel) \<Rightarrow>
          (case rbind (check_cancellation env 4) (\<lambda>_. write_tapes env replay) of
             Inl e \<Rightarrow> (s, Inl e)
           | Inr has_schedule \<Rightarrow>
               abind (store_call s (begin_run (ve_codec env) s
                 \<lparr>nr_id = ve_run_id env, nr_revision = revision before,
                  nr_source_digest = revision before, nr_started_at = ve_now env 0\<rparr>)) (\<lambda>s1 _.
               abind (execute env eff (files_of env q (replay \<noteq> None) has_schedule) r before s1)
                 (\<lambda>s2 finished. conclude env q replay r before eff sel finished s2))))"

definition verify_internal ::
  "verify_env \<Rightarrow> verification_request \<Rightarrow> recording option \<Rightarrow> store \<Rightarrow> verification_outcome act" where
  "verify_internal env q replay s =
     (case rbind (check_cancellation env 0) (\<lambda>_.
           rbind (validate_artifacts (ve_host env) (ve_artifacts env)) (\<lambda>_.
           rbind (prepare_overlay env q) (\<lambda>r.
           rbind (check_cancellation env 1) (\<lambda>_.
           rbind (capture_at env (ve_before env)) (\<lambda>before.
           rbind (check_cancellation env 2) (\<lambda>_. Inr (r, before))))))) of
        Inl e \<Rightarrow> (s, Inl e)
      | Inr (r, before) \<Rightarrow>
          abind (try_cache env q replay before s) (\<lambda>s1 hit. case hit of
              Some out \<Rightarrow> (s1, Inr out)
            | None \<Rightarrow> run_verification env q replay r before s1))"

definition verify :: "verify_env \<Rightarrow> verification_request \<Rightarrow> store \<Rightarrow> verification_outcome act" where
  "verify env q s = verify_internal env q None s"

section \<open>Recordings and replays\<close>

definition full_request :: "string \<Rightarrow> bool \<Rightarrow> verification_request" where
  "full_request test_id capture_io =
     \<lparr>mode = Full, selected_tests = [test_id], full = False, since = None,
      capture_file_io = capture_io, overlay = None\<rparr>"

definition store_read :: "store \<Rightarrow> store_error + 'a \<Rightarrow> 'a act" where
  "store_read s r = (case r of Inl e \<Rightarrow> (s, Inl (VStore e)) | Inr x \<Rightarrow> (s, Inr x))"

definition recording_id :: "hashes \<Rightarrow> string \<Rightarrow> string \<Rightarrow> event list \<Rightarrow> string" where
  "recording_id h revn test_id es =
     ''rec-'' @ short_hash h (''recording-v1'' @ [NUL] @ revn @ [NUL] @ test_id @ [NUL]
       @ (if es = [] then ''none'' else state_hash (last es)))"

definition recording_built ::
  "verify_env \<Rightarrow> string \<Rightarrow> verification_outcome \<Rightarrow> recorded_input list \<Rightarrow> event list \<Rightarrow> recording" where
  "recording_built env test_id out is es =
     (let cps = replay_checkpoints es; caps = vo_capabilities out in
      \<lparr>rec_id = recording_id (ve_hashes env) (vo_revision out) test_id es,
       rec_revision = vo_revision out, rec_test_id = test_id, rec_backend = ''jvm'',
       rec_capabilities = (if cps \<noteq> []
         then caps\<lparr>supported := supported caps @ [''replayCheckpoints'']\<rparr> else caps),
       inputs = is, linux_process = None, rec_events = es, checkpoints = cps\<rparr>)"

definition record_with_options :: "verify_env \<Rightarrow> string \<Rightarrow> bool \<Rightarrow> store \<Rightarrow> recording act" where
  "record_with_options env test_id capture_io s =
     abind (verify env (full_request test_id capture_io) s) (\<lambda>s1 out.
       if vo_status out = RunStale then (s1, Inl StaleRecording)
       else abind (store_read s1 (events (ve_codec env) s1 (vo_run_id out) None 100000 (64 * 1024 * 1024))) (\<lambda>s2 pg.
         (case recorded_inputs (ve_tape env) of
            Inl e \<Rightarrow> (s2, Inl e)
          | Inr is \<Rightarrow>
              (let r = recording_built env test_id out is (items pg) in
               abind (store_call s2 (save_recording (ve_codec env) s2 r (ve_now env 6))) (\<lambda>s3 _.
                 (fst (prune (ve_codec env) s3 (ve_now env 7)), Inr r))))))"

definition verify_replay_event :: "verify_env \<Rightarrow> node \<Rightarrow> recording \<Rightarrow> string \<Rightarrow> store \<Rightarrow> string act" where
  "verify_replay_event env tree r event_id s =
     (case capture_at env tree of
        Inl e \<Rightarrow> (s, Inl e)
      | Inr current \<Rightarrow>
          if revision current \<noteq> rec_revision r then (s, Inl (ReplayRevision (rec_revision r) (revision current)))
          else abind (verify_internal env
              (full_request (rec_test_id r) (list_ex (\<lambda>i. starts_with (input_kind i) ''io.file.'') (inputs r)))
              (Some r) s) (\<lambda>s1 out.
            if vo_status out = RunStale then (s1, Inl StaleRecording)
            else abind (store_read s1 (events (ve_codec env) s1 (vo_run_id out) None 100000 (64 * 1024 * 1024))) (\<lambda>s2 pg.
              (case verify_replayed_prefix r (items pg) event_id of
                 Inl e \<Rightarrow> (s2, Inl (VReplay e))
               | Inr _ \<Rightarrow> (s2, Inr (vo_run_id out))))))"

section \<open>What every verification keeps of the store\<close>

text \<open>A property of the store that the writes of an ingestion keep, for the events that satisfy
  \<open>ok\<close>.\<close>

locale evidence_invariant =
  fixes c :: codec and ok :: "event \<Rightarrow> bool" and P :: "store \<Rightarrow> bool"
  assumes append_event_keeps: "\<lbrakk>P s; ok e; append_event c s i t e = Inr s'\<rbrakk> \<Longrightarrow> P s'"
    and save_failure_keeps: "\<lbrakk>P s; save_failure c s f = Inr s'\<rbrakk> \<Longrightarrow> P s'"
    and upsert_test_keeps: "P s \<Longrightarrow> P (upsert_test s test)"
    and replace_coverage_keeps: "\<lbrakk>P s; replace_coverage s t cov = Inr s'\<rbrakk> \<Longrightarrow> P s'"
    and replace_dependencies_keeps: "\<lbrakk>P s; replace_dependencies s t deps = Inr s'\<rbrakk> \<Longrightarrow> P s'"
begin

lemma abind_keeps:
  "\<lbrakk>P (fst r); \<And>s x. r = (s, Inr x) \<Longrightarrow> P s \<Longrightarrow> P (fst (f s x))\<rbrakk> \<Longrightarrow> P (fst (abind r f))"
  by (cases r; cases "snd r") (auto simp: abind_def)

lemma store_call_keeps: "\<lbrakk>P s; \<And>s'. r = Inr s' \<Longrightarrow> P s'\<rbrakk> \<Longrightarrow> P (fst (store_call s r))"
  by (simp add: store_call_def split: sum.splits)

lemma observe_test_keeps:
  assumes "ie_codec env = c" "P s" shows "P (fst (observe_test env seq raw st s))"
  unfolding observe_test_def Let_def using assms
  by (auto intro!: abind_keeps store_call_keeps intro: save_failure_keeps)

lemma ingest_record_keeps:
  assumes "ie_codec env = c" "\<And>seq. ok (event_of_raw env seq raw)" "P s"
  shows "P (fst (ingest_record env raw st s))"
  unfolding ingest_record_def Let_def assms(1)
proof (rule abind_keeps [OF store_call_keeps [OF assms(3)]])
  fix s' assume "append_event c s (ie_run_id env) (public_test_id raw) (event_of_raw env (event_count st) raw) = Inr s'"
  then show "P s'" by (rule append_event_keeps [OF assms(3) assms(2)])
next
  fix s1 x assume "P s1"
  then show "P (fst (abind (observe_test env (event_count st) raw
      (note_event env (event_of_raw env (event_count st) raw) raw st) s1)
      (\<lambda>s2 st2. (s2, Inr (observe_capability raw (observe_memory raw
         (observe_boundary raw (observe_coverage env raw st2))))))))"
    by (auto intro!: abind_keeps observe_test_keeps assms(1))
qed

lemma ingest_loop_keeps:
  assumes "ie_codec env = c" "\<And>seq line raw. ie_parse_json env line = Some raw \<Longrightarrow> ok (event_of_raw env seq raw)"
    "P s"
  shows "P (fst (ingest_loop env n chunks st s))"
  using assms
proof (induction env n chunks st s rule: ingest_loop.induct)
  case (1 env n chunks st s)
  show ?case
  proof (cases "read_bounded_line MAX_EVENT_LINE_BYTES [] chunks")
    case (Inl e)
    with "1.prems"(3) show ?thesis by (simp add: ingest_loop.simps [of env n chunks])
  next
    case (Inr lr)
    obtain line rest where lr: "lr = (line, rest)" by force
    note now = Inr [unfolded lr]
    show ?thesis
    proof (cases "line = [] \<or> ie_cancelled env n \<or> list_all is_ascii_whitespace line
        \<or> MAX_EVENTS_PER_RUN \<le> event_count st \<or> ie_parse_json env line = None")
      case True
      with now "1.prems"(3) "1.IH"(1) [OF now refl _ _ _ "1.prems"(1) "1.prems"(2) "1.prems"(3)]
      show ?thesis by (auto simp: ingest_loop.simps [of env n chunks])
    next
      case False
      then obtain raw where raw: "ie_parse_json env line = Some raw" by blast
      obtain s1 r1 where rec: "ingest_record env raw st s = (s1, r1)" by force
      have "P s1" using ingest_record_keeps [OF "1.prems"(1) "1.prems"(2) [OF raw] "1.prems"(3), of st] rec by simp
      with False now raw rec "1.prems"(1,2)
        "1.IH"(2) [OF now refl _ _ _ _ raw rec [symmetric]]
      show ?thesis by (cases r1) (auto simp: ingest_loop.simps [of env n chunks])
    qed
  qed
qed

lemma save_tests_keeps: "P s \<Longrightarrow> P (fst (save_tests st ts s))"
proof (induction st ts s rule: save_tests.induct)
  case (2 st test_id stat ts s)
  show ?case
    unfolding save_tests.simps Let_def
  proof (rule abind_keeps [OF store_call_keeps], goal_cases)
    case 1 show ?case by (rule upsert_test_keeps [OF "2.prems"])
  next
    case (2 s') then show ?case by (rule replace_coverage_keeps [OF upsert_test_keeps [OF "2.prems"]])
  next
    case (3 s2 x)
    show ?case
    proof (rule abind_keeps [OF store_call_keeps [OF 3(2)]])
      fix s' assume "replace_dependencies s2 test_id (map (\<lambda>(subj, k). \<lparr>subject = subj, dep_kind = k\<rparr>)
          (unwrap_or (bt_get (in_dependencies st) test_id) [])) = Inr s'"
      then show "P s'" by (rule replace_dependencies_keeps [OF 3(2)])
    qed (rule "2.IH" [OF refl])
  qed
qed simp

lemma ingest_events_keeps:
  assumes "ie_codec env = c" "\<And>seq line raw. ie_parse_json env line = Some raw \<Longrightarrow> ok (event_of_raw env seq raw)"
    "P s"
  shows "P (fst (ingest_events env ev s))"
  using assms by (auto simp: ingest_events_def split: option.split intro!: abind_keeps ingest_loop_keeps save_tests_keeps)

end

text \<open>Ingestion never touches the table of runs.\<close>

interpretation runs_kept: evidence_invariant c "\<lambda>_. True" "\<lambda>s. runs s = R" for c R
proof
  show "\<lbrakk>runs s = R; True; append_event c s i t e = Inr s'\<rbrakk> \<Longrightarrow> runs s' = R" for s e i t s'
    by (auto simp: append_event_def rbind_iffs split: if_splits)
  show "\<lbrakk>runs s = R; save_failure c s f = Inr s'\<rbrakk> \<Longrightarrow> runs s' = R" for s f s'
    by (auto simp: save_failure_def rbind_iffs split: if_splits)
  show "runs s = R \<Longrightarrow> runs (upsert_test s test) = R" for s test
    by (simp add: upsert_test_def Let_def)
qed (simp_all add: runs_replace_coverage runs_replace_dependencies)

text \<open>Every event made of a record of the stream satisfies \<open>ok\<close>.\<close>

definition events_ok :: "(event \<Rightarrow> bool) \<Rightarrow> verify_env \<Rightarrow> bool" where
  "events_ok ok env = (\<forall>line raw before r seq. ve_parse_json env line = Some raw \<longrightarrow>
     ok (event_of_raw (ingest_env_of env before r) seq raw))"

text \<open>A property that also the other writes of a verification keep.\<close>

locale verification_invariant = evidence_invariant +
  assumes begin_run_keeps: "\<lbrakk>P s; begin_run c s r = Inr s'\<rbrakk> \<Longrightarrow> P s'"
    and finish_run_keeps: "\<lbrakk>P s; finish_run c s i d rv now = Inr (s', st)\<rbrakk> \<Longrightarrow> P s'"
    and update_test_statuses_keeps: "P s \<Longrightarrow> P (update_test_statuses s m)"
    and save_cache_keeps: "\<lbrakk>P s; save_verification_cache c s rv i pl now = Inr s'\<rbrakk> \<Longrightarrow> P s'"
    and save_manifest_keeps: "\<lbrakk>P s; save_revision_manifest c s rv mf now = Inr s'\<rbrakk> \<Longrightarrow> P s'"
    and save_recording_keeps: "\<lbrakk>P s; save_recording c s rc now = Inr s'\<rbrakk> \<Longrightarrow> P s'"
    and prune_keeps: "P s \<Longrightarrow> P (fst (prune c s now))"
begin

lemma try_cache_keeps: "P s \<Longrightarrow> P (fst (try_cache env q replay before s))"
  by (simp add: try_cache_def Let_def update_test_statuses_keeps split: sum.split option.split)

lemma abort_run_keeps: "ve_codec env = c \<Longrightarrow> P s \<Longrightarrow> P (fst (abort_run env before s e))"
  by (auto simp: abort_run_def split: sum.split intro: finish_run_keeps)

lemma execute_keeps:
  assumes "ve_codec env = c" "events_ok ok env" "P s"
  shows "P (fst (execute env q f r before s))"
proof -
  have ing: "P (fst (ingest_events (ingest_env_of env before r) ev s))" for ev
    by (rule ingest_events_keeps) (use assms in \<open>auto simp: ingest_env_of_def events_ok_def\<close>)
  note abort = abort_run_keeps [OF assms(1)]
  show ?thesis
    using assms(3) ing
    by (auto simp: execute_def intro!: abort split: prod.split sum.split) (metis fst_conv)+
qed

lemma save_outcome_keeps:
  assumes "ve_codec env = c" "P s" shows "P (fst (save_outcome env q replay before out s))"
proof (cases "ve_outcome_to_json env out")
  case (Some payload)
  have "P (fst (abind (store_call s (save_verification_cache c s (vo_revision out) (vo_run_id out) payload (ve_now env 3)))
      (\<lambda>s1 _. store_call s1 (save_revision_manifest c s1 (vo_revision out)
        \<lparr>m_file_digests = file_digests before, m_surface_digests = surface_digests before\<rparr> (ve_now env 4)))))"
    by (rule abind_keeps [OF store_call_keeps [OF assms(2)]])
       (auto intro: store_call_keeps save_cache_keeps [OF assms(2)] save_manifest_keeps)
  with Some assms show ?thesis by (simp add: save_outcome_def)
qed (use assms in \<open>simp add: save_outcome_def\<close>)

lemma run_verification_keeps:
  assumes "ve_codec env = c" "events_ok ok env" "P s"
  shows "P (fst (run_verification env q replay r before s))"
proof -
  have finished: "P (fst (conclude env q replay r before eff sel x s2))" if "P s2" for eff sel x s2
    using that unfolding conclude_def assms(1) Let_def
    by (auto split: sum.split prod.split
        intro!: abind_keeps save_outcome_keeps [OF assms(1)] prune_keeps intro: finish_run_keeps)
  have run: "P (fst (abind (store_call s (begin_run c s nr)) (\<lambda>s1 _. abind (execute env eff f r before s1) g)))"
    if "\<And>s2 x. P s2 \<Longrightarrow> P (fst (g s2 x))" for nr eff f g
    by (rule abind_keeps [OF store_call_keeps [OF assms(3)]])
       (auto intro!: abind_keeps execute_keeps assms(1,2) that intro: begin_run_keeps [OF assms(3)])
  show ?thesis
    unfolding run_verification_def assms(1) Let_def
    by (auto split: sum.split prod.split intro!: run finished assms(3))
qed

lemma verify_internal_keeps:
  assumes "ve_codec env = c" "events_ok ok env" "P s"
  shows "P (fst (verify_internal env q replay s))"
  unfolding verify_internal_def
  by (auto split: sum.split prod.split option.split
      intro!: abind_keeps try_cache_keeps run_verification_keeps assms)

end

section \<open>What a passed verification means\<close>

lemma abort_run_not_Inr [simp]: "abort_run env before s e \<noteq> (s', Inr x)"
  by (auto simp: abort_run_def split: sum.splits)

lemma execute_Inr:
  assumes "execute env q f r before s = (s', Inr (process, out, ing, after))"
  shows "run_worker (ve_host env) (ve_artifacts env) (ve_timeout env) (ve_worker env) q f r = (Inr process, out)"
    and "capture_at env (ve_after env) = Inr after" and "runs s' = runs s"
    and "ingest_events (ingest_env_of env before r) (wo_events out) s = (s', Inr ing)"
proof -
  have kept: "runs (fst (ingest_events (ingest_env_of env before r) ev s)) = runs s" for ev
    by (rule runs_kept.ingest_events_keeps) simp_all
  show "run_worker (ve_host env) (ve_artifacts env) (ve_timeout env) (ve_worker env) q f r = (Inr process, out)"
    "capture_at env (ve_after env) = Inr after"
    "ingest_events (ingest_env_of env before r) (wo_events out) s = (s', Inr ing)"
    using assms by (auto simp: execute_def split: prod.splits sum.splits if_splits)
  then show "runs s' = runs s" using kept [of "wo_events out"] by simp
qed

lemma find_append_fresh:
  "\<not> list_ex P xs \<Longrightarrow> P x \<Longrightarrow> List.find P (xs @ [x]) = Some x"
  by (induction xs) auto

lemma begin_then_finish:
  assumes "begin_run c s nr = Inr s1" "runs s2 = runs s1"
    and "finish_run c s2 (nr_id nr) d rv now = Inr (s3, st)"
  shows "st = (if nr_revision nr = rv then d else RunStale)"
proof -
  let ?row = "\<lparr>run_pk = nr_id nr, run_revision = nr_revision nr, run_source_digest = nr_source_digest nr,
    run_status = as_db Running, run_started_at = to_rfc3339 c (nr_started_at nr), run_finished_at = None\<rparr>"
  from assms(1) have fresh: "\<not> list_ex (\<lambda>r. run_pk r = nr_id nr) (runs s)" and "runs s1 = runs s @ [?row]"
    by (auto simp: begin_run_def run_exists_def split: if_splits)
  then have "List.find (\<lambda>r. run_pk r = nr_id nr) (runs s2) = Some ?row"
    using assms(2) find_append_fresh [OF fresh, of ?row] by simp
  with assms(3) show ?thesis by (auto simp: finish_run_def Let_def)
qed

text \<open>The parts of a verification that ran the worker.\<close>

lemma run_verification_Inr:
  assumes "run_verification env q replay r before s = (s', Inr res)"
  obtains eff sel f process out ing after s1 s2 where
    "choose_tests env q before s = Inr (eff, sel)"
    "run_worker (ve_host env) (ve_artifacts env) (ve_timeout env) (ve_worker env) eff f r = (Inr process, out)"
    "ingest_events (ingest_env_of env before r) (wo_events out) s1 = (s2, Inr ing)"
    "capture_at env (ve_after env) = Inr after"
    "vo_status res = (if revision before = revision after
       then desired_status process ing (selected_tests eff) else RunStale)"
    "vo_exit_code res = exit_code_of (vo_status res)" "\<not> cached res" "vo_revision res = revision before"
    "vo_selected_tests res = selected_tests eff" "vo_test_statuses res = ig_test_statuses ing"
    "vo_tests res = ig_tests ing" "vo_capabilities res = ig_capabilities ing" "vo_run_id res = ve_run_id env"
    "vo_value_hints res = ig_value_hints ing"
proof -
  let ?nr = "\<lparr>nr_id = ve_run_id env, nr_revision = revision before, nr_source_digest = revision before,
    nr_started_at = ve_now env 0\<rparr>"
  from assms obtain eff sel where ch: "choose_tests env q before s = Inr (eff, sel)"
    by (auto simp: run_verification_def split: sum.splits)
  with assms obtain sched where
    "rbind (check_cancellation env 4) (\<lambda>_. write_tapes env replay) = Inr sched"
    by (cases "rbind (check_cancellation env 4) (\<lambda>_. write_tapes env replay)") (simp_all add: run_verification_def)
  note unfolded = assms [unfolded run_verification_def ch this sum.case prod.case]
  from unfolded obtain s1 s2 process out ing after where
    b: "begin_run (ve_codec env) s ?nr = Inr s1"
    and e: "execute env eff (files_of env q (replay \<noteq> None) sched) r before s1 = (s2, Inr (process, out, ing, after))"
    and c: "conclude env q replay r before eff sel (process, out, ing, after) s2 = (s', Inr res)"
    by (auto simp: abind_Inr store_call_Inr)
  from c obtain s3 st where
    f: "finish_run (ve_codec env) s2 (ve_run_id env) (desired_status process ing (selected_tests eff))
      (revision after) (ve_now env 2) = Inr (s3, st)"
    and res: "res = outcome_of env q r before eff sel out ing st"
    by (auto simp: conclude_def abind_Inr Let_def split: sum.splits)
  note ex = execute_Inr [OF e]
  have "st = (if revision before = revision after then desired_status process ing (selected_tests eff) else RunStale)"
    using begin_then_finish [OF b ex(3), of _ "revision after"] f by simp
  then show thesis
    by (intro that [OF ch ex(1) ex(4) ex(2)]) (use res in \<open>simp_all add: outcome_of_def\<close>)
qed

lemma try_cache_cached:
  assumes "try_cache env q replay before s = (s', Inr (Some out))"
  shows "cached out" "vo_status out = Passed" "vo_exit_code out = 0" "vo_revision out = revision before"
    "\<exists>again. capture_at env (ve_again env) = Inr again \<and> revision again = revision before"
    "0 < vo_events out" "vo_tests out \<noteq> []"
  using assms
  by (auto simp: try_cache_def acceptable_cache_def Let_def split: if_splits sum.splits option.splits)

lemma verify_internal_Inr:
  assumes "verify_internal env q replay s = (s', Inr out)"
  obtains r before s1 where "capture_at env (ve_before env) = Inr before"
    "try_cache env q replay before s = (s', Inr (Some out))
     \<or> run_verification env q replay r before s1 = (s', Inr out)"
proof -
  let ?pre = "rbind (check_cancellation env 0) (\<lambda>_.
    rbind (validate_artifacts (ve_host env) (ve_artifacts env)) (\<lambda>_.
    rbind (prepare_overlay env q) (\<lambda>r.
    rbind (check_cancellation env 1) (\<lambda>_.
    rbind (capture_at env (ve_before env)) (\<lambda>before.
    rbind (check_cancellation env 2) (\<lambda>_. Inr (r, before)))))))"
  from assms obtain r before where pre: "?pre = Inr (r, before)"
    by (cases ?pre) (auto simp: verify_internal_def)
  then have "capture_at env (ve_before env) = Inr before"
    by (auto simp: rbind_iffs)
  moreover have "try_cache env q replay before s = (s', Inr (Some out))
      \<or> (\<exists>s1. run_verification env q replay r before s1 = (s', Inr out))"
    using assms [unfolded verify_internal_def pre sum.case prod.case]
    by (auto simp: abind_Inr split: option.splits)
  ultimately show thesis using that by blast
qed

lemma desired_status_Passed:
  assumes "desired_status process ing wanted = Passed"
  shows "success process" "list_all (\<lambda>t. bt_get (ig_test_statuses ing) t = Some ''passed'') wanted"
    "list_ex (\<lambda>e. snd e = ''passed'') (ig_test_statuses ing)"
    "length (ig_test_statuses ing) = length (ig_tests ing)"
  using assms
  by (auto simp: desired_status_def fresh_evidence_missing_def list_all_iff list_ex_iff split: if_splits)

lemma choose_tests_explicit:
  "choose_tests env q before s = Inr (eff, sel) \<Longrightarrow> selected_tests q \<noteq> [] \<Longrightarrow> selected_tests eff = selected_tests q"
  by (simp add: choose_tests_def impactable_def)

text \<open>\<^bold>\<open>C2\<close> A verification that is reported as passed without the cache is backed by fresh
  evidence for the revision it names: the worker exited successfully, every selected test is
  recorded as passed in this run, at least one test passed, no started test is left unfinished,
  and the worktree had the named revision both before and after the run.\<close>

theorem passed_means_fresh_evidence:
  assumes "verify_internal env q replay s = (s', Inr out)" "vo_status out = Passed" "\<not> cached out"
  shows "\<exists>before after eff f r w.
      capture_at env (ve_before env) = Inr before \<and> capture_at env (ve_after env) = Inr after
      \<and> revision after = revision before \<and> vo_revision out = revision before
      \<and> run_worker (ve_host env) (ve_artifacts env) (ve_timeout env) (ve_worker env) eff f r = (Inr \<lparr>success = True\<rparr>, w)
      \<and> selected_tests eff = vo_selected_tests out
      \<and> (selected_tests q \<noteq> [] \<longrightarrow> vo_selected_tests out = selected_tests q)
      \<and> list_all (\<lambda>t. bt_get (vo_test_statuses out) t = Some ''passed'') (vo_selected_tests out)
      \<and> list_ex (\<lambda>e. snd e = ''passed'') (vo_test_statuses out)
      \<and> length (vo_test_statuses out) = length (vo_tests out)
      \<and> vo_exit_code out = 0"
proof -
  from assms(1) obtain r before s1 where b: "capture_at env (ve_before env) = Inr before"
    and alt: "try_cache env q replay before s = (s', Inr (Some out))
      \<or> run_verification env q replay r before s1 = (s', Inr out)"
    by (rule verify_internal_Inr)
  with try_cache_cached(1) assms(3) have "run_verification env q replay r before s1 = (s', Inr out)" by blast
  then show ?thesis
  proof (rule run_verification_Inr)
    fix eff sel f process w ing after s2 s3
    assume ch: "choose_tests env q before s1 = Inr (eff, sel)"
      and wk: "run_worker (ve_host env) (ve_artifacts env) (ve_timeout env) (ve_worker env) eff f r = (Inr process, w)"
      and a: "capture_at env (ve_after env) = Inr after"
      and st: "vo_status out = (if revision before = revision after
        then desired_status process ing (selected_tests eff) else RunStale)"
      and res: "vo_exit_code out = exit_code_of (vo_status out)" "vo_revision out = revision before"
        "vo_selected_tests out = selected_tests eff" "vo_test_statuses out = ig_test_statuses ing"
        "vo_tests out = ig_tests ing"
    from st assms(2) have rv: "revision after = revision before"
      and d: "desired_status process ing (selected_tests eff) = Passed" by (auto split: if_splits)
    have "process = \<lparr>success = True\<rparr>" using desired_status_Passed(1) [OF d] by simp
    with b a rv wk res desired_status_Passed [OF d] choose_tests_explicit [OF ch] assms(2)
    show ?thesis
      by (intro exI [of _ before] exI [of _ after] exI [of _ eff] exI [of _ f] exI [of _ r] exI [of _ w])
         (simp add: exit_code_of_def)
  qed
qed

text \<open>The exit code of a finished verification is zero exactly when the result is passed,
  and a result taken from the cache is a passed one of exactly the revision the worktree had
  at both captures, with events and tests.\<close>

theorem exit_code_is_truthful:
  assumes "verify_internal env q replay s = (s', Inr out)"
  shows "(vo_exit_code out = 0 \<longleftrightarrow> vo_status out = Passed)
    \<and> (cached out \<longrightarrow> vo_status out = Passed \<and> 0 < vo_events out \<and> vo_tests out \<noteq> []
        \<and> (\<exists>before again. capture_at env (ve_before env) = Inr before \<and> capture_at env (ve_again env) = Inr again
             \<and> revision again = revision before \<and> vo_revision out = revision before))"
proof -
  from assms obtain r before s1 where b: "capture_at env (ve_before env) = Inr before"
    and alt: "try_cache env q replay before s = (s', Inr (Some out))
      \<or> run_verification env q replay r before s1 = (s', Inr out)"
    by (rule verify_internal_Inr)
  from alt show ?thesis
  proof
    assume "try_cache env q replay before s = (s', Inr (Some out))"
    from try_cache_cached [OF this] b show ?thesis by auto
  next
    assume "run_verification env q replay r before s1 = (s', Inr out)"
    then have "vo_exit_code out = exit_code_of (vo_status out)" "\<not> cached out"
      by (auto elim: run_verification_Inr)
    then show ?thesis by (cases "vo_status out") (simp_all add: exit_code_of_def)
  qed
qed

section \<open>A verification that passes\<close>

definition sample_finish :: json where
  "sample_finish = JObject [(''status'', JString ''successful''), (''testName'', JString ''A#b''),
     (''type'', JString ''TEST_FINISH'')]"

definition sample_worker :: worker_output where
  "sample_worker = \<lparr>wo_spawned = True,
     wo_polls = (\<lambda>_. \<lparr>poll_cancelled = False, poll_exit = Inr (Some True), poll_late = 0\<rparr>),
     wo_events = Some [[CHR ''x'', LF]], wo_copied = True, wo_log = Some []\<rparr>"

definition sample_host :: host where
  "sample_host = \<lparr>var_os = (\<lambda>_. None), is_file = (\<lambda>_. True), development_root = ''/d'', current_exe_ok = True,
     install_root = None, package_version = ''1''\<rparr>"

definition sample_venv :: verify_env where
  "sample_venv = \<lparr>ve_host = sample_host, ve_hashes = \<lparr>sha256 = rev, hex = id\<rparr>, ve_codec = plain_codec,
     ve_parse_json = (\<lambda>_. Some sample_finish), ve_json_len = (\<lambda>_. Some 0),
     ve_outcome_to_json = (\<lambda>_. None), ve_outcome_from_json = (\<lambda>_. None),
     ve_layout = layout_new \<lparr>sha256 = rev, hex = id\<rparr> ''/w'',
     ve_artifacts = \<lparr>adapter_jar = ''/a'', agent_jar = ''/b'', init_script = ''/c''\<rparr>, ve_timeout = 300000,
     ve_cancelled = (\<lambda>_. False), ve_line_cancelled = (\<lambda>_. False), ve_prepare = (\<lambda>_. Inl Session),
     ve_before = Directory (Some []), ve_again = Directory (Some []), ve_after = Directory (Some []),
     ve_src = FsFile, ve_git = (\<lambda>_. None), ve_run_id = ''r'', ve_now = (\<lambda>_. 0),
     ve_worker = (\<lambda>_ _. sample_worker), ve_tape = None\<rparr>"

definition sample_request :: verification_request where
  "sample_request = fast_request\<lparr>selected_tests := [''A#b'']\<rparr>"

definition sample_started :: store where
  "sample_started = (empty_store default_retention)\<lparr>runs := [\<lparr>run_pk = ''r'',
     run_revision = revision (snapshot_of \<lparr>sha256 = rev, hex = id\<rparr> []),
     run_source_digest = revision (snapshot_of \<lparr>sha256 = rev, hex = id\<rparr> []), run_status = as_db Running,
     run_started_at = show_int 0, run_finished_at = None\<rparr>]\<rparr>"

abbreviation "sample_before \<equiv> snapshot_of \<lparr>sha256 = rev, hex = id\<rparr> []"

lemma sample_venv_sel [simp]:
  "ve_host sample_venv = sample_host" "ve_codec sample_venv = plain_codec" "ve_parse_json sample_venv = (\<lambda>_. Some sample_finish)"
  "ve_json_len sample_venv = (\<lambda>_. Some 0)" "ve_cancelled sample_venv = (\<lambda>_. False)"
  "ve_line_cancelled sample_venv = (\<lambda>_. False)" "ve_run_id sample_venv = ''r''" "ve_now sample_venv = (\<lambda>_. 0)"
  "ve_worker sample_venv = (\<lambda>_ _. sample_worker)" "ve_timeout sample_venv = 300000"
  "ve_hashes sample_venv = \<lparr>sha256 = rev, hex = id\<rparr>"
  by (simp_all add: sample_venv_def)

lemma sample_captures:
  "capture_at sample_venv (ve_before sample_venv) = Inr sample_before"
  "capture_at sample_venv (ve_after sample_venv) = Inr sample_before"
  by (simp_all add: capture_at_def capture_def sample_venv_def)

lemma sample_worker_runs:
  "\<exists>w. run_worker sample_host (ve_artifacts sample_venv) 300000 (\<lambda>_ _. sample_worker) q f r = (Inr \<lparr>success = True\<rparr>, w)
     \<and> wo_events w = Some [[CHR ''x'', LF]] \<and> wo_copied w"
  by (simp add: run_worker_def supervise_logged_def sample_worker_def sample_host_def has_gradle_wrapper_def Let_def
      supervise.simps [of _ _ 0])

lemma sample_begin:
  "begin_run plain_codec (empty_store default_retention) \<lparr>nr_id = ''r'', nr_revision = revision sample_before,
     nr_source_digest = revision sample_before, nr_started_at = 0\<rparr> = Inr sample_started"
  by (simp add: begin_run_def sample_started_def empty_store_def run_exists_def plain_codec_def)

lemma sample_finish_fields:
  "kind_name sample_finish = ''TEST_FINISH''" "public_test_id sample_finish = ''A#b''"
  "finish_status sample_finish = ''passed''"
  by (simp_all add: sample_finish_def kind_name_def public_test_id_def finish_status_def json_access Let_def)

lemma sample_ingestion:
  "\<exists>s2 ing. ingest_events (ingest_env_of sample_venv sample_before r) (Some [[CHR ''x'', LF]]) sample_started = (s2, Inr ing)
     \<and> ig_tests ing = [''A#b''] \<and> ig_test_statuses ing = [(''A#b'', ''passed'')]"
proof -
  let ?env = "ingest_env_of sample_venv sample_before r"
  have env: "ie_codec ?env = plain_codec" "ie_run_id ?env = ''r''" "ie_cancelled ?env = (\<lambda>_. False)"
    "ie_parse_json ?env = (\<lambda>_. Some sample_finish)" by (simp_all add: ingest_env_of_def)
  obtain s1 where app: "append_event plain_codec sample_started ''r'' ''A#b'' (event_of_raw ?env 0 sample_finish) = Inr s1"
    by (simp add: append_event_def plain_codec_def sqlite_i64_def i64_max_def sample_started_def empty_store_def
        run_exists_def event_of_raw_def)
  have rec: "ingest_record ?env sample_finish ingest_start sample_started = (s1, Inr (observe_capability sample_finish
      (observe_memory sample_finish (observe_boundary sample_finish (observe_coverage ?env sample_finish
        ((note_event ?env (event_of_raw ?env 0 sample_finish) sample_finish ingest_start)
          \<lparr>in_tests := [(''A#b'', Some ''passed'')]\<rparr>))))))" (is "_ = (s1, Inr ?st)")
    using app env sample_finish_fields
    by (simp add: ingest_record_def observe_test_def store_call_def Let_def ingest_start_def note_event_def
        observe_event_def observe_threads_def)
  have st: "in_tests ?st = [(''A#b'', Some ''passed'')]" "in_coverage ?st = []" "in_dependencies ?st = []"
    by (simp_all add: sample_finish_def json_access kind_name_def observe_capability_def observe_memory_def
        observe_boundary_def observe_coverage_def note_event_def observe_event_def observe_threads_def raw_path_def
        ingest_start_def Let_def)
  have loop: "ingest_loop ?env 0 [[CHR ''x'', LF]] ingest_start sample_started = (s1, Inr ?st)"
    using rec by (simp add: ingest_loop.simps [of _ _ "[[CHR ''x'', LF]]"] ingest_loop.simps [of _ _ "[]"] env
        sample_simps MAX_EVENTS_PER_RUN_def ingest_start_def)
  show ?thesis
    using loop st by (simp add: ingest_events_def abind_def store_call_def replace_coverage_def
        replace_dependencies_def ingested_of_def Let_def List.map_filter_simps)
qed

lemma sample_passes:
  "\<exists>s' out. verify_internal sample_venv sample_request None (empty_store default_retention) = (s', Inr out)
     \<and> vo_status out = Passed \<and> \<not> cached out \<and> vo_selected_tests out = [''A#b'']"
proof -
  let ?s = "empty_store default_retention"
  let ?r = "root (ve_layout sample_venv)"
  let ?f = "files_of sample_venv sample_request False False"
  have q: "overlay sample_request = None" "selected_tests sample_request = [''A#b'']" "mode sample_request = Fast"
    by (simp_all add: sample_request_def fast_request_def)
  obtain w where w: "run_worker sample_host (ve_artifacts sample_venv) 300000 (\<lambda>_ _. sample_worker) sample_request ?f ?r
      = (Inr \<lparr>success = True\<rparr>, w)" "wo_events w = Some [[CHR ''x'', LF]]" "wo_copied w"
    using sample_worker_runs by blast
  obtain s2 ing where ing: "ingest_events (ingest_env_of sample_venv sample_before ?r) (Some [[CHR ''x'', LF]]) sample_started = (s2, Inr ing)"
    "ig_tests ing = [''A#b'']" "ig_test_statuses ing = [(''A#b'', ''passed'')]"
    using sample_ingestion by blast
  have ex: "execute sample_venv sample_request ?f ?r sample_before sample_started
      = (s2, Inr (\<lparr>success = True\<rparr>, w, ing, sample_before))"
    using w ing q sample_captures by (simp add: execute_def check_cancellation_def)
  have runs2: "runs s2 = runs sample_started" by (rule execute_Inr(3) [OF ex])
  have "desired_status \<lparr>success = True\<rparr> ing [''A#b''] = Passed"
    by (simp add: desired_status_def fresh_evidence_missing_def ing bt_get_def)
  then obtain s3 where fin: "finish_run plain_codec s2 ''r'' (desired_status \<lparr>success = True\<rparr> ing [''A#b''])
      (revision sample_before) 0 = Inr (s3, Passed)"
    by (simp add: finish_run_def runs2 sample_started_def Let_def)
  have run: "\<exists>s' out. run_verification sample_venv sample_request None ?r sample_before ?s = (s', Inr out)
     \<and> vo_status out = Passed \<and> \<not> cached out \<and> vo_selected_tests out = [''A#b'']"
    using sample_begin ex fin q
    by (simp add: run_verification_def choose_tests_def impactable_def check_cancellation_def write_tapes_def
        store_call_def conclude_def save_outcome_def cacheable_def outcome_of_def Let_def)
  have "validate_artifacts sample_host (ve_artifacts sample_venv) = Inr ()"
    by (simp add: validate_artifacts_def sample_host_def)
  then show ?thesis
    using run q sample_captures
    by (simp add: verify_internal_def check_cancellation_def prepare_overlay_def try_cache_def cacheable_def)
qed

theorem passed_means_fresh_evidence_witness:
  "\<exists>s' out. verify_internal sample_venv sample_request None (empty_store default_retention) = (s', Inr out)
     \<and> vo_revision out = revision sample_before
     \<and> list_all (\<lambda>t. bt_get (vo_test_statuses out) t = Some ''passed'') [''A#b'']"
proof -
  obtain s' out where v: "verify_internal sample_venv sample_request None (empty_store default_retention) = (s', Inr out)"
    "vo_status out = Passed" "\<not> cached out" and sel: "vo_selected_tests out = [''A#b'']"
    using sample_passes by blast
  from passed_means_fresh_evidence [OF v] have
    "list_all (\<lambda>t. bt_get (vo_test_statuses out) t = Some ''passed'') (vo_selected_tests out)"
    "\<exists>before. capture_at sample_venv (ve_before sample_venv) = Inr before \<and> vo_revision out = revision before"
    by blast+
  with v sel sample_captures show ?thesis by auto
qed

theorem exit_code_is_truthful_witness:
  "\<exists>s' out. verify_internal sample_venv sample_request None (empty_store default_retention) = (s', Inr out)
     \<and> vo_exit_code out = 0 \<and> vo_status out = Passed"
proof -
  obtain s' out where v: "verify_internal sample_venv sample_request None (empty_store default_retention) = (s', Inr out)"
    "vo_status out = Passed" using sample_passes by blast
  from exit_code_is_truthful [OF v(1)] v show ?thesis by blast
qed

section \<open>Supervision ends\<close>

definition still_running :: "poll \<Rightarrow> bool" where
  "still_running p = (\<not> poll_cancelled p \<and> poll_exit p = Inr None)"

definition verdict :: "nat \<Rightarrow> poll \<Rightarrow> (verifier_error + process_outcome) \<times> bool" where
  "verdict timeout p =
     (if poll_cancelled p then (Inl VerificationCancelled, True)
      else (case poll_exit p of
          Inl _ \<Rightarrow> (Inl (VIo ''try_wait''), False)
        | Inr (Some ok) \<Rightarrow> (Inr \<lparr>success = ok\<rparr>, False)
        | Inr None \<Rightarrow> (Inl (Timeout timeout), True)))"

text \<open>The milliseconds that have passed when a poll is made.\<close>

definition elapsed_at :: "(nat \<Rightarrow> poll) \<Rightarrow> nat \<Rightarrow> nat" where
  "elapsed_at polls n = (\<Sum>i<n. 20 + poll_late (polls i))"

lemma elapsed_at_simps [simp]:
  "elapsed_at polls 0 = 0" "elapsed_at polls (Suc n) = elapsed_at polls n + (20 + poll_late (polls n))"
  by (simp_all add: elapsed_at_def)

lemma elapsed_at_least: "20 * n \<le> elapsed_at polls n"
  by (induction n) simp_all

lemma supervise_decides:
  assumes "elapsed = elapsed_at polls k"
  shows "\<exists>n \<ge> k. (\<forall>i. k \<le> i \<and> i < n \<longrightarrow> still_running (polls i) \<and> elapsed_at polls i < timeout)
    \<and> (still_running (polls n) \<longrightarrow> timeout \<le> elapsed_at polls n)
    \<and> supervise timeout polls k elapsed = verdict timeout (polls n)"
  using assms
proof (induction timeout polls k elapsed rule: supervise.induct)
  case (1 timeout polls k elapsed)
  show ?case
  proof (cases "still_running (polls k) \<and> elapsed < timeout")
    case True
    then have step: "supervise timeout polls k elapsed = supervise timeout polls (k + 1) (elapsed + 20 + poll_late (polls k))"
      by (simp add: still_running_def supervise.simps [of timeout polls k])
    have "\<exists>n \<ge> k + 1. (\<forall>i. k + 1 \<le> i \<and> i < n \<longrightarrow> still_running (polls i) \<and> elapsed_at polls i < timeout)
      \<and> (still_running (polls n) \<longrightarrow> timeout \<le> elapsed_at polls n)
      \<and> supervise timeout polls (k + 1) (elapsed + 20 + poll_late (polls k)) = verdict timeout (polls n)"
      using True "1.prems" by (intro "1.IH") (auto simp: still_running_def)
    then obtain n where n: "k + 1 \<le> n" "\<forall>i. k + 1 \<le> i \<and> i < n \<longrightarrow> still_running (polls i) \<and> elapsed_at polls i < timeout"
      "still_running (polls n) \<longrightarrow> timeout \<le> elapsed_at polls n"
      "supervise timeout polls k elapsed = verdict timeout (polls n)" using step by auto
    have "still_running (polls i) \<and> elapsed_at polls i < timeout" if "k \<le> i" "i < n" for i
      using that n(2) True "1.prems" by (cases "i = k") auto
    with n show ?thesis by (intro exI [of _ n]) auto
  next
    case False
    then have "supervise timeout polls k elapsed = verdict timeout (polls k)"
      by (auto simp: still_running_def verdict_def supervise.simps [of timeout polls k] split: sum.split option.split)
    with False "1.prems" show ?thesis by (intro exI [of _ k]) auto
  qed
qed

text \<open>\<^bold>\<open>C38\<close> Supervision of a worker always ends, and it kills exactly when it has to: it waits
  while the worker is running, nobody has cancelled and the time is not over, and decides on the first
  poll where one of these fails, which comes within one poll per 20 milliseconds of the timeout.  A worker
  that is still running then is out of time, and is reported as a timeout; the process tree is
  terminated exactly when the verdict is a cancellation or a timeout.\<close>

theorem supervise_ends_within_timeout:
  "\<exists>n. 20 * n < timeout + 20
     \<and> (\<forall>i < n. still_running (polls i) \<and> elapsed_at polls i < timeout)
     \<and> (still_running (polls n) \<longrightarrow> timeout \<le> elapsed_at polls n)
     \<and> supervise timeout polls 0 0 = verdict timeout (polls n)
     \<and> snd (supervise timeout polls 0 0) =
        (fst (supervise timeout polls 0 0) \<in> {Inl VerificationCancelled, Inl (Timeout timeout)})"
proof -
  obtain n where n: "\<forall>i < n. still_running (polls i) \<and> elapsed_at polls i < timeout"
    "still_running (polls n) \<longrightarrow> timeout \<le> elapsed_at polls n"
    "supervise timeout polls 0 0 = verdict timeout (polls n)"
    using supervise_decides [of 0 polls 0 timeout] by auto
  moreover have "20 * n < timeout + 20"
  proof (cases n)
    case (Suc k)
    then have "elapsed_at polls k < timeout" using n(1) by simp
    then show ?thesis using elapsed_at_least [of k polls] Suc by linarith
  qed simp
  moreover have "snd (verdict timeout p) = (fst (verdict timeout p) \<in> {Inl VerificationCancelled, Inl (Timeout timeout)})" for p
    by (auto simp: verdict_def split: sum.split option.split)
  ultimately show ?thesis by (intro exI [of _ n]) simp
qed

text \<open>A worker that never ends is killed at the third poll of a timeout of 40 milliseconds.\<close>

theorem supervise_ends_within_timeout_witness:
  "supervise 40 (\<lambda>_. \<lparr>poll_cancelled = False, poll_exit = Inr None, poll_late = 0\<rparr>) 0 0 = (Inl (Timeout 40), True)"
proof -
  let ?p = "\<lparr>poll_cancelled = False, poll_exit = Inr None, poll_late = 0\<rparr>"
  have "verdict 40 ?p = (Inl (Timeout 40), True)" by (simp add: verdict_def)
  then show ?thesis using supervise_ends_within_timeout [of 40 "\<lambda>_. ?p"] by metis
qed

section \<open>Impact selection\<close>

definition dependents :: "store \<Rightarrow> string \<Rightarrow> string set" where
  "dependents s p = dep_test_id ` {r \<in> set (dependencies s). dep_subject r = p}"

lemma select_impact_Exact: "select_impact s p m = Exact ts \<Longrightarrow> set ts = dependents s p \<and> ts \<noteq> []"
  by (auto simp: select_impact_def dependents_def Let_def split: if_splits)

definition body_edit :: "revision_manifest \<Rightarrow> revision_snapshot \<Rightarrow> string \<Rightarrow> bool" where
  "body_edit base current p =
     (implementation_source p \<and> bt_contains (m_file_digests base) p \<and> bt_contains (file_digests current) p
      \<and> bt_get (m_surface_digests base) p = bt_get (surface_digests current) p)"

lemma impact_loop_Some:
  assumes "impact_loop s base current ps chosen = Some ts" "sorted_wrt (<) chosen"
  shows "list_all (\<lambda>p. body_edit base current p \<and> dependents s p \<noteq> {}) ps
    \<and> set ts = set chosen \<union> (\<Union>p \<in> set ps. dependents s p)"
  using assms
proof (induction ps arbitrary: chosen)
  case (Cons p ps)
  from Cons.prems(1) obtain us where body: "body_edit base current p"
    and us: "select_impact s p (module_for_path p) = Exact us"
    and rest: "impact_loop s base current ps (bs_extend chosen us) = Some ts"
    by (auto simp: body_edit_def split: if_splits impact_selection.splits)
  have "set us = dependents s p" "us \<noteq> []" using select_impact_Exact [OF us] by auto
  moreover note Cons.IH [OF rest bs_sorted_extend [OF Cons.prems(2)]] set_bs_extend [OF Cons.prems(2), of us]
  ultimately show ?case using body by auto
qed simp

text \<open>Which paths are implementation sources, and which paths differ between two revisions.\<close>

definition main_source :: "string \<Rightarrow> bool" where
  "main_source p = (let q = map (\<lambda>c. if c = BACKSLASH then SLASH else c) p in
     (\<exists>s t. q = s @ ''src/main/'' @ t \<and> (s = [] \<or> last s = SLASH)) \<and> extension q \<in> {Some ''java'', Some ''kt''})"

definition differing_paths :: "revision_manifest \<Rightarrow> revision_snapshot \<Rightarrow> string set" where
  "differing_paths base current = {p. bt_get (m_file_digests base) p \<noteq> bt_get (file_digests current) p}"

lemma implementation_main_source: "implementation_source p \<longleftrightarrow> main_source p"
proof -
  have "starts_with q ''src/main/'' \<or> contains_sub q ''/src/main/'' \<longleftrightarrow> (\<exists>s t. q = s @ ''src/main/'' @ t \<and> (s = [] \<or> last s = SLASH))"
    (is "?l \<longleftrightarrow> ?r") for q
  proof
    assume ?l
    then show ?r
    proof
      assume "contains_sub q ''/src/main/''"
      then obtain s t where "q = s @ ''/src/main/'' @ t" unfolding contains_sub_iff by blast
      then show ?r by (intro exI [of _ "s @ ''/''"] exI [of _ t]) simp
    qed (metis append_Nil starts_with_iff)
  next
    assume ?r
    then obtain s t where q: "q = s @ ''src/main/'' @ t" "s = [] \<or> last s = SLASH" by blast
    show ?l
    proof (cases s rule: rev_cases)
      case Nil
      then show ?thesis using q by (simp add: starts_with_iff)
    next
      case (snoc s' x)
      then have "q = s' @ ''/src/main/'' @ t" using q by simp
      then show ?thesis unfolding contains_sub_iff by blast
    qed
  qed
  then show ?thesis
    by (auto simp: implementation_source_def main_source_def replace_char_def Let_def split: option.splits)
qed

lemma set_changed_paths: "set (changed_paths base current) = differing_paths base current"
proof -
  have "p \<in> fst ` set m" if "bt_get m p = Some d" for m :: "(string, string) btree" and p d
    using that by (auto simp: bt_get_def dest!: map_of_SomeD) force
  then show ?thesis by (auto simp: changed_paths_def differing_paths_def set_bs_extend) (metis not_None_eq)+
qed

text \<open>\<^bold>\<open>C37\<close> When a verification narrows to impacted tests against a stored manifest, the narrowing is
  sound: every path whose file digest differs between that manifest and the worktree, added and removed
  files included, is a Java or Kotlin file below \<open>src/main\<close> that exists in both, has the same
  surface digest in both and has at least one recorded dependent test; and the selection is exactly the
  non-empty set of the tests recorded as dependents of one of these paths.\<close>

theorem impact_selection_sound:
  assumes "impacted_tests c s current requested = Inr (Some ts)"
  shows "\<exists>base_rev base. (case requested of Some r \<Rightarrow> base_rev = r | None \<Rightarrow> latest_cached_revision s = Some base_rev)
    \<and> revision_manifest_of c s base_rev = Inr (Some base) \<and> base_rev \<noteq> revision current
    \<and> (\<forall>p. bt_get (m_file_digests base) p \<noteq> bt_get (file_digests current) p \<longrightarrow>
         main_source p \<and> bt_get (m_file_digests base) p \<noteq> None \<and> bt_get (file_digests current) p \<noteq> None
         \<and> bt_get (m_surface_digests base) p = bt_get (surface_digests current) p
         \<and> (\<exists>r \<in> set (dependencies s). dep_subject r = p))
    \<and> set ts = {dep_test_id r |r. r \<in> set (dependencies s)
         \<and> bt_get (m_file_digests base) (dep_subject r) \<noteq> bt_get (file_digests current) (dep_subject r)}
    \<and> ts \<noteq> []"
proof -
  from assms obtain base_rev base where b: "base_rev \<noteq> revision current"
    "case requested of Some r \<Rightarrow> base_rev = r | None \<Rightarrow> latest_cached_revision s = Some base_rev"
    "revision_manifest_of c s base_rev = Inr (Some base)"
    "Option.bind (impact_loop s base current (changed_paths base current) []) nonempty = Some ts"
    by (auto simp: impacted_tests_def split: option.splits if_splits sum.splits)
  then have "impact_loop s base current (changed_paths base current) [] = Some ts" "ts \<noteq> []"
    by (auto simp: bind_eq_Some_conv nonempty_def split: if_splits)
  note loop = impact_loop_Some [OF this(1)]
  have "set ts = (\<Union>p \<in> differing_paths base current. dependents s p)" using loop by (simp add: set_changed_paths)
  then have "set ts = {dep_test_id r |r. r \<in> set (dependencies s)
      \<and> bt_get (m_file_digests base) (dep_subject r) \<noteq> bt_get (file_digests current) (dep_subject r)}"
    by (auto simp: dependents_def differing_paths_def)
  moreover have "body_edit base current p \<and> dependents s p \<noteq> {}" if "p \<in> differing_paths base current" for p
    using loop that by (simp add: list_all_iff set_changed_paths)
  then have "main_source p \<and> bt_get (m_file_digests base) p \<noteq> None \<and> bt_get (file_digests current) p \<noteq> None
      \<and> bt_get (m_surface_digests base) p = bt_get (surface_digests current) p
      \<and> (\<exists>r \<in> set (dependencies s). dep_subject r = p)"
    if "bt_get (m_file_digests base) p \<noteq> bt_get (file_digests current) p" for p
    using that unfolding body_edit_def implementation_main_source differing_paths_def bt_contains_def dependents_def by blast
  ultimately show ?thesis using b(1-3) \<open>ts \<noteq> []\<close> by blast
qed

definition sample_manifest :: revision_manifest where
  "sample_manifest = \<lparr>m_file_digests = [(''src/main/A.java'', ''1'')], m_surface_digests = [(''src/main/A.java'', ''s'')]\<rparr>"

definition sample_impact_store :: store where
  "sample_impact_store = (empty_store default_retention)\<lparr>
     dependencies := [\<lparr>dep_test_id = ''A#b'', dep_subject = ''src/main/A.java'', dep_row_kind = ''method''\<rparr>],
     revision_manifests := [\<lparr>manifest_pk = ''rev-1'', manifest_created_at = [], manifest_payload = []\<rparr>]\<rparr>"

definition sample_current :: revision_snapshot where
  "sample_current = \<lparr>revision = ''rev-2'', files = [''src/main/A.java''],
     file_digests = [(''src/main/A.java'', ''2'')], surface_digests = [(''src/main/A.java'', ''s'')]\<rparr>"

theorem impact_selection_sound_witness:
  "set [''A#b''] = {dep_test_id r |r. r \<in> set (dependencies sample_impact_store)
     \<and> bt_get (m_file_digests sample_manifest) (dep_subject r) \<noteq> bt_get (file_digests sample_current) (dep_subject r)}"
proof -
  let ?c = "table_codec [] [] [sample_manifest] []"
  have "changed_paths sample_manifest sample_current = [''src/main/A.java'']" by code_simp
  moreover have "implementation_source ''src/main/A.java''" by code_simp
  moreover have "select_impact sample_impact_store ''src/main/A.java'' (module_for_path ''src/main/A.java'') = Exact [''A#b'']"
    by (simp add: select_impact_def sample_impact_store_def)
  ultimately have "impacted_tests ?c sample_impact_store sample_current (Some ''rev-1'') = Inr (Some [''A#b''])"
    by (simp add: impacted_tests_def revision_manifest_of_def sample_impact_store_def table_codec_def table_from_def
        bt_contains_def sample_manifest_def sample_current_def bt_get_def bs_insert_def bs_extend_def nonempty_def)
  from impact_selection_sound [OF this] show ?thesis
    by (auto simp: revision_manifest_of_def sample_impact_store_def table_codec_def table_from_def split: if_splits)
qed

end
