(* ===== verification/Verifier_Redaction.thy ===== *)
theory Verifier_Redaction
  imports Verifier_Run
begin

text \<open>
  Redaction over a whole ingestion of \<^verbatim>\<open>crates/walaru-daemon/src/verifier.rs\<close>: what the events
  that an ingestion stores hold of the values the worker sent.
\<close>

section \<open>What may be stored of the values of a record\<close>

definition marked_private :: "(string, json) btree \<Rightarrow> bool" where
  "marked_private m = (bt_get m ''redacted'' = Some (JBool True) \<or> bt_get m ''sensitive'' = Some (JBool True))"

definition redaction_mark :: "string \<Rightarrow> bool" where
  "redaction_mark t = (t = ''<redacted>''
     \<or> (\<exists>n \<le> 1024 * 1024. t = ''<redacted:file-input '' @ show_nat n @ '' bytes>''))"

text \<open>Values marked private keep their other members; all other values are stored as they were sent.\<close>

definition stored_values :: "json option \<Rightarrow> json \<Rightarrow> bool" where
  "stored_values sent stored = (case sent of
      Some (JObject m) \<Rightarrow>
        if marked_private m
        then (\<exists>out t. stored = JObject out \<and> redaction_mark t \<and> bt_get out ''value'' = Some (JString t)
               \<and> bt_get out ''encoded'' = None
               \<and> (\<forall>k. k \<noteq> ''value'' \<and> k \<noteq> ''encoded'' \<longrightarrow> bt_get out k = bt_get m k))
        else stored = JObject m
    | Some v \<Rightarrow> stored = v
    | None \<Rightarrow> stored = JObject [])"

text \<open>The row a record was stored as: its payload is the compressed text of an event of that record.\<close>

definition stored_as :: "ingest_env \<Rightarrow> json \<Rightarrow> event_row \<Rightarrow> bool" where
  "stored_as env raw row = (\<exists>e json. event_run_id row = ie_run_id env \<and> event_test_id row = public_test_id raw
     \<and> event_to_json (ie_codec env) e = Some json \<and> zstd_encode (ie_codec env) 3 json = Some (event_payload row)
     \<and> event_pk row = ev_id e \<and> stored_values (json_get raw ''values'') (ev_values e))"

lemma flagged_marked: "flagged m \<longleftrightarrow> marked_private m"
proof -
  have "unwrap_or (Option.bind v as_bool) False \<longleftrightarrow> v = Some (JBool True)" for v
    by (auto simp: as_bool_def split: Option.bind_splits option.splits json.splits)
  then show ?thesis by (simp add: flagged_def marked_private_def)
qed

lemma public_values_stored:
  assumes "\<forall>m. sent = Some (JObject m) \<longrightarrow> bt_wf m"
  shows "stored_values sent (public_event_values sent)"
proof (cases "\<exists>m. sent = Some (JObject m) \<and> marked_private m")
  case True
  then obtain m where m: "sent = Some (JObject m)" "marked_private m" "bt_wf m" using assms by blast
  define t where "t = unwrap_or (sensitive_placeholder m) ''<redacted>''"
  have "redaction_mark t"
    using sensitive_placeholder_cases [of m]
    by (auto simp: redaction_mark_def t_def file_placeholder_def MAX_EVENT_LINE_BYTES_def)
  moreover have "public_event_values sent = JObject (bt_remove ''encoded'' (bt_insert ''value'' (JString t) m))"
    using m by (simp add: public_event_values_def flagged_marked t_def)
  ultimately show ?thesis
    using m by (simp add: stored_values_def bt_get_remove bt_get_insert bt_wf_insert)
next
  case False
  then show ?thesis
    by (auto simp: stored_values_def public_event_values_def flagged_marked empty_object_def marked_private_def bt_get_def
        split: option.split json.split)
qed

lemma event_of_raw_stored:
  assumes "json_wf raw"
  shows "stored_values (json_get raw ''values'') (ev_values (event_of_raw env seq raw))"
proof -
  have "bt_wf m" if "json_get raw ''values'' = Some (JObject m)" for m
  proof -
    have "\<exists>o'. raw = JObject o' \<and> bt_get o' ''values'' = Some (JObject m)"
      using that by (cases raw) (simp_all add: json_get_def)
    then show ?thesis using assms by (fastforce simp: bt_get_def dest!: map_of_SomeD)
  qed
  then show ?thesis by (simp add: event_of_raw_def public_values_stored)
qed

section \<open>The rows an ingestion adds\<close>

text \<open>Nothing but an appended event changes the stored events.\<close>

lemma insert_all_events:
  "\<lbrakk>\<And>s x s'. ins s x = Inr s' \<Longrightarrow> events_table s' = events_table s; insert_all ins s xs = Inr s'\<rbrakk>
     \<Longrightarrow> events_table s' = events_table s"
  by (induction xs arbitrary: s) (auto simp: rbind_eq_Inr)

interpretation events_kept: evidence_invariant c "\<lambda>_. False" "\<lambda>s. events_table s = es" for c es
proof (unfold_locales)
  fix s s' t cov assume "events_table s = es" "replace_coverage s t cov = Inr s'"
  then show "events_table s' = es"
    unfolding replace_coverage_def by (auto dest!: insert_all_events [rotated] simp: insert_coverage_def split: if_splits)
next
  fix s s' t deps assume "events_table s = es" "replace_dependencies s t deps = Inr s'"
  then show "events_table s' = es"
    unfolding replace_dependencies_def by (auto dest!: insert_all_events [rotated] simp: insert_dependency_def Let_def split: if_splits)
qed (auto simp: save_failure_def upsert_test_def rbind_eq_Inr Let_def split: if_splits)

lemma ingest_record_row:
  assumes "ingest_record env raw st s = (s', r)" "json_wf raw"
  shows "(\<exists>row. events_table s' = events_table s @ [row] \<and> stored_as env raw row)
    \<or> events_table s' = events_table s \<and> (\<exists>e. r = Inl e)"
proof (cases "append_event (ie_codec env) s (ie_run_id env) (public_test_id raw) (event_of_raw env (event_count st) raw)")
  case (Inl e)
  then show ?thesis using assms(1) by (auto simp: ingest_record_def Let_def store_call_def abind_def)
next
  case (Inr s1)
  let ?e = "event_of_raw env (event_count st) raw"
  obtain json z where json: "event_to_json (ie_codec env) ?e = Some json" "zstd_encode (ie_codec env) 3 json = Some z"
    and s1: "events_table s1 = events_table s @ [\<lparr>event_pk = ev_id ?e, event_run_id = ie_run_id env,
      event_test_id = public_test_id raw, event_sequence = int (sequence ?e), event_payload = z\<rparr>]"
    by (rule append_event_ok [OF Inr]) (auto intro: that)
  have "fst (observe_test env q raw st' s1) = fst (ingest_record env raw st s)"
    if "q = event_count st" "st' = note_event env ?e raw st" for q st'
    using that Inr by (simp add: ingest_record_def Let_def store_call_def abind_def split: prod.splits sum.splits)
  then have "events_table s' = events_table s1"
    using events_kept.observe_test_keeps [of env "ie_codec env" s1 "events_table s1"] assms(1) by (metis fst_conv)
  moreover have "stored_values (json_get raw ''values'') (ev_values ?e)" by (rule event_of_raw_stored [OF assms(2)])
  ultimately show ?thesis using json s1 unfolding stored_as_def by fastforce
qed

lemma ingest_loop_rows:
  assumes "\<forall>line raw. ie_parse_json env line = Some raw \<longrightarrow> json_wf raw"
    and "ingest_loop env n chunks st s = (s', r)"
  shows "\<exists>rows. events_table s' = events_table s @ rows \<and> length rows \<le> length (stream_records env chunks)
    \<and> ((\<exists>x. r = Inr x) \<longrightarrow> length rows = length (stream_records env chunks))
    \<and> list_all2 (stored_as env) (take (length rows) (stream_records env chunks)) rows"
  using assms
proof (induction env n chunks st s rule: ingest_loop.induct)
  case (1 env n chunks st s)
  note parsed = "1.prems"(1)
  show ?case
  proof (cases "read_bounded_line MAX_EVENT_LINE_BYTES [] chunks")
    case (Inl e)
    with "1.prems"(2) show ?thesis by (auto simp: ingest_loop.simps [of env n chunks])
  next
    case (Inr lr)
    obtain line rest where lr: "lr = (line, rest)" by force
    note now = Inr [unfolded lr]
    consider "line = []" | "line \<noteq> []" "ie_cancelled env n"
      | "line \<noteq> []" "\<not> ie_cancelled env n" "list_all is_ascii_whitespace line"
      | "line \<noteq> []" "\<not> ie_cancelled env n" "\<not> list_all is_ascii_whitespace line"
        "MAX_EVENTS_PER_RUN \<le> event_count st \<or> ie_parse_json env line = None"
      | raw where "line \<noteq> []" "\<not> ie_cancelled env n" "\<not> list_all is_ascii_whitespace line"
        "\<not> MAX_EVENTS_PER_RUN \<le> event_count st" "ie_parse_json env line = Some raw" by blast
    then show ?thesis
    proof cases
      case 3
      then have "ingest_loop env (n + 1) rest st s = (s', r)" "stream_records env chunks = stream_records env rest"
        using "1.prems"(2) now by (simp_all add: ingest_loop.simps [of env n chunks] stream_records.simps [of env chunks])
      with "1.IH"(1) [OF now refl 3(1, 2, 3) parsed] show ?thesis by simp
    next
      case (5 raw)
      have recs: "stream_records env chunks = raw # stream_records env rest"
        using 5 now by (simp add: stream_records.simps [of env chunks])
      obtain s1 r1 where rec: "ingest_record env raw st s = (s1, r1)" by force
      note row = ingest_record_row [OF rec parsed [rule_format, OF 5(5)]]
      show ?thesis
      proof (cases r1)
        case (Inl e)
        with 5 now rec "1.prems"(2) have "s' = s1" "r = Inl e" by (simp_all add: ingest_loop.simps [of env n chunks])
        with row Inl recs show ?thesis by (elim disjE exE conjE) (rule exI, auto)+
      next
        case (Inr st1)
        then have loop: "ingest_loop env (n + 1) rest st1 s1 = (s', r)"
          using 5 now rec "1.prems"(2) by (simp add: ingest_loop.simps [of env n chunks])
        obtain row where row1: "events_table s1 = events_table s @ [row]" "stored_as env raw row" using row Inr by blast
        obtain rows where rows: "events_table s' = events_table s1 @ rows" "length rows \<le> length (stream_records env rest)"
          "(\<exists>x. r = Inr x) \<longrightarrow> length rows = length (stream_records env rest)"
          "list_all2 (stored_as env) (take (length rows) (stream_records env rest)) rows"
          using "1.IH"(2) [OF now refl 5(1, 2, 3, 4, 5) rec [symmetric] Inr parsed loop] by blast
        show ?thesis using row1 rows recs by (intro exI [of _ "row # rows"]) simp
      qed
    qed (use "1.prems"(2) now in \<open>auto simp: ingest_loop.simps [of env n chunks] stream_records.simps [of env chunks] split: option.splits if_splits intro!: exI [of _ "[]"]\<close>)
  qed
qed

section \<open>Properties\<close>

text \<open>\<^bold>\<open>C36\<close> A value the worker marks as redacted or sensitive never reaches the stored values of an
  event.  An ingestion, whatever its result, only adds events to the store, one for each record of a prefix
  of the stream and, if it succeeds, one for every record; the values of a record marked private are
  stored without their encoded form and with a fixed mark or the byte count of a file as the value,
  every other member as it was sent; the values of the other records are stored as they were sent.\<close>

theorem flagged_values_are_redacted:
  assumes "\<forall>line raw. ie_parse_json env line = Some raw \<longrightarrow> json_wf raw"
    and "ingest_events env (Some chunks) s = (s', r)"
  shows "\<exists>rows. events_table s' = events_table s @ rows \<and> length rows \<le> length (stream_records env chunks)
    \<and> ((\<exists>x. r = Inr x) \<longrightarrow> length rows = length (stream_records env chunks))
    \<and> list_all2 (stored_as env) (take (length rows) (stream_records env chunks)) rows"
proof -
  obtain s1 r1 where loop: "ingest_loop env 0 chunks ingest_start s = (s1, r1)" by force
  have "events_table s' = events_table s1 \<and> ((\<exists>x. r = Inr x) \<longrightarrow> (\<exists>x. r1 = Inr x))"
    using assms(2) loop events_kept.save_tests_keeps [of s1 "events_table s1"]
    by (cases r1) (auto simp: ingest_events_def abind_def split: prod.splits sum.splits, (metis fst_conv)+)
  with ingest_loop_rows [OF assms(1) loop] show ?thesis by auto
qed

text \<open>A record with a marked value, stored without it.\<close>

definition private_record :: json where
  "private_record = JObject [(''type'', JString ''CAPTURE''),
     (''values'', JObject [(''encoded'', JString ''c2VjcmV0''), (''name'', JString ''password''),
        (''redacted'', JBool True), (''value'', JString ''secret'')])]"

definition private_codec :: codec where
  "private_codec = plain_codec\<lparr>event_to_json := (\<lambda>e. Some (unwrap_or (get_str (ev_values e) ''value'') []))\<rparr>"

definition private_env :: ingest_env where
  "private_env = sample_env\<lparr>ie_parse_json := (\<lambda>_. Some private_record), ie_codec := private_codec\<rparr>"

lemma private_stream: "stream_records private_env [[CHR ''c'', LF]] = [private_record]"
proof -
  have "read_bounded_line MAX_EVENT_LINE_BYTES [] [[CHR ''c'', LF]] = Inr ([CHR ''c'', LF], [])"
    by (simp add: MAX_EVENT_LINE_BYTES_def sat_add_def usize_max_def consume_def)
  moreover have "stream_records private_env [] = []" by (simp add: stream_records.simps)
  ultimately show ?thesis
    by (simp add: stream_records.simps [of _ "[[CHR ''c'', LF]]"] is_ascii_whitespace_def byte_of_def private_env_def)
qed

lemma private_ingested:
  "\<exists>s' ig. ingest_events private_env (Some [[CHR ''c'', LF]]) sample_store = (s', Inr ig)"
proof -
  have kind: "kind_name private_record = ''CAPTURE''" by (simp add: kind_name_def private_record_def json_access)
  obtain s1 where "append_event (ie_codec private_env) sample_store ''r'' (public_test_id private_record)
      (event_of_raw private_env 0 private_record) = Inr s1"
    by (simp add: append_event_def private_env_def private_codec_def plain_codec_def sqlite_i64_def i64_max_def
        sample_store_def empty_store_def run_exists_def event_of_raw_def)
  then obtain st where rec: "ingest_record private_env private_record ingest_start sample_store = (s1, Inr st)"
    and tests: "in_tests st = []"
    by (simp add: ingest_record_def observe_test_def store_call_def Let_def kind ingest_start_def private_env_def
        sample_env_def note_event_def observe_event_def observe_threads_def observe_capability_def observe_memory_def
        observe_boundary_def observe_coverage_def split: option.split)
  have line: "read_bounded_line MAX_EVENT_LINE_BYTES [] [[CHR ''c'', LF]] = Inr ([CHR ''c'', LF], [])"
    by (simp add: MAX_EVENT_LINE_BYTES_def sat_add_def usize_max_def consume_def)
  have "ie_cancelled private_env = (\<lambda>_. False)" "ie_parse_json private_env = (\<lambda>_. Some private_record)"
    "event_count ingest_start = 0"
    by (simp_all add: private_env_def ingest_start_def)
  then have "ingest_loop private_env 0 [[CHR ''c'', LF]] ingest_start sample_store = (s1, Inr st)"
    using rec by (simp add: ingest_loop.simps [of _ _ "[[CHR ''c'', LF]]"] ingest_loop.simps [of _ _ "[]"] line
        is_ascii_whitespace_def byte_of_def MAX_EVENTS_PER_RUN_def del: read_bounded_line.simps(2))
  then show ?thesis using tests by (simp add: ingest_events_def)
qed

theorem flagged_values_are_redacted_witness:
  "\<exists>s' ig row. ingest_events private_env (Some [[CHR ''c'', LF]]) sample_store = (s', Inr ig)
     \<and> events_table s' = [row] \<and> redaction_mark (event_payload row)"
proof -
  obtain s' ig where run: "ingest_events private_env (Some [[CHR ''c'', LF]]) sample_store = (s', Inr ig)"
    using private_ingested by blast
  have parsed: "\<forall>line raw. ie_parse_json private_env line = Some raw \<longrightarrow> json_wf raw"
    by (auto simp: private_env_def private_record_def bt_wf_def)
  have "events_table sample_store = []" by (simp add: sample_store_def empty_store_def)
  then obtain row where row: "events_table s' = [row]" "stored_as private_env private_record row"
    using flagged_values_are_redacted [OF parsed run] private_stream by (auto simp: length_Suc_conv)
  then obtain e json where e: "event_to_json private_codec e = Some json" "zstd_encode private_codec 3 json = Some (event_payload row)"
    "stored_values (json_get private_record ''values'') (ev_values e)" by (auto simp: stored_as_def private_env_def)
  have "json_get private_record ''values'' = Some (JObject [(''encoded'', JString ''c2VjcmV0''),
      (''name'', JString ''password''), (''redacted'', JBool True), (''value'', JString ''secret'')])"
    by (simp add: private_record_def json_access)
  then obtain out t where "ev_values e = JObject out" "redaction_mark t" "bt_get out ''value'' = Some (JString t)"
    using e(3) by (auto simp: stored_values_def marked_private_def bt_get_def)
  then have "redaction_mark (event_payload row)"
    using e(1, 2) by (auto simp: private_codec_def plain_codec_def get_str_def json_get_def as_str_def)
  with run row show ?thesis by blast
qed

end
