(* ===== verification/Transport.thy ===== *)
theory Transport
  imports Verifier_Data "HOL-Library.Multiset" "HOL-Library.Sublist"
begin

text \<open>
  \<^verbatim>\<open>crates/walaru-daemon/src/server.rs\<close>, transport and presentation: the length-prefixed
  frames of the local protocol, one request and response over a connection, the pool of
  connection threads, the query options with their bounds, the field mask and the size limit of
  a response, and the small parsers of the commands.
\<close>

section \<open>Data\<close>

definition MAX_FRAME_BYTES :: nat where "MAX_FRAME_BYTES = 16 * 1024 * 1024"
definition MAX_CONNECTION_WORKERS :: nat where "MAX_CONNECTION_WORKERS = 32"

datatype daemon_error =
    DWorkspace workspace_error
  | DStore store_error
  | DIo string
  | DProtobuf
  | DJson
  | AlreadyRunning string
  | FrameTooLarge nat
  | DVerifier verifier_error

definition make_diagnostic :: "string \<Rightarrow> string \<Rightarrow> string \<Rightarrow> diagnostic" where
  "make_diagnostic c sev msg = \<lparr>code = c, severity = sev, message = msg, details = []\<rparr>"

section \<open>Frames\<close>

text \<open>Messages are encoded and decoded by a third-party library, \<^verbatim>\<open>prost\<close>: \<open>enc\<close> is
  \<^verbatim>\<open>encode_to_vec\<close>, \<open>dec\<close> is \<^verbatim>\<open>decode\<close>.  A connection is the bytes still to be read; writing
  returns the bytes put on it.\<close>

definition write_message :: "('m \<Rightarrow> string) \<Rightarrow> 'm \<Rightarrow> daemon_error + string" where
  "write_message enc m =
     (let payload = enc m in
      if MAX_FRAME_BYTES < length payload then Inl (FrameTooLarge (length payload))
      else if u32_max < length payload then Inl (FrameTooLarge (length payload))
      else Inr (be_bytes 4 (length payload) @ payload))"

definition read_exact :: "nat \<Rightarrow> string \<Rightarrow> daemon_error + (string \<times> string)" where
  "read_exact n s = (if length s < n then Inl (DIo ''failed to fill whole buffer'') else Inr (take n s, drop n s))"

definition read_message :: "(string \<Rightarrow> 'm option) \<Rightarrow> string \<Rightarrow> daemon_error + ('m \<times> string)" where
  "read_message dec s =
     rbind (read_exact 4 s) (\<lambda>(header, s1).
       let n = from_be_bytes header in
       if MAX_FRAME_BYTES < n then Inl (FrameTooLarge n)
       else rbind (read_exact n s1) (\<lambda>(payload, s2).
         (case dec payload of None \<Rightarrow> Inl DProtobuf | Some m \<Rightarrow> Inr (m, s2))))"

text \<open>The server's side of a connection: what it writes back.  A request that cannot be read and
  a response that cannot be written end the connection silently.\<close>

definition serve_connection ::
  "(string \<Rightarrow> rpc_request option) \<Rightarrow> (rpc_response \<Rightarrow> string) \<Rightarrow> (rpc_request \<Rightarrow> rpc_response) \<Rightarrow> string \<Rightarrow> string" where
  "serve_connection dec enc handle s =
     (case read_message dec s of
        Inl _ \<Rightarrow> []
      | Inr (request, _) \<Rightarrow> (case write_message enc (handle request) of Inl _ \<Rightarrow> [] | Inr bytes \<Rightarrow> bytes))"

text \<open>The client's side, over a server that answers the bytes it received.\<close>

definition send_request ::
  "(rpc_request \<Rightarrow> string) \<Rightarrow> (string \<Rightarrow> rpc_response option) \<Rightarrow> (string \<Rightarrow> string) \<Rightarrow> rpc_request
     \<Rightarrow> daemon_error + rpc_response" where
  "send_request enc dec server request =
     rbind (write_message enc request) (\<lambda>bytes.
     rbind (read_message dec (server bytes)) (\<lambda>(response, _). Inr response))"

section \<open>Connection threads\<close>

text \<open>\<^verbatim>\<open>workers.swap_remove(index)\<close>.\<close>

definition swap_remove :: "'a list \<Rightarrow> nat \<Rightarrow> 'a list" where
  "swap_remove xs i = butlast (xs[i := last xs])"

function reap_from :: "('w \<Rightarrow> bool) \<Rightarrow> nat \<Rightarrow> 'w list \<Rightarrow> 'w list" where
  "reap_from finished index workers =
     (if index < length workers
      then if finished (workers ! index) then reap_from finished index (swap_remove workers index)
           else reap_from finished (index + 1) workers
      else workers)"
  by pat_completeness auto
termination
  by (relation "measure (\<lambda>(_, i, ws). length ws - i)") (auto simp: swap_remove_def)

declare reap_from.simps [simp del]

definition reap_workers :: "('w \<Rightarrow> bool) \<Rightarrow> 'w list \<Rightarrow> 'w list" where
  "reap_workers finished workers = reap_from finished 0 workers"

text \<open>One round of the accept loop.  \<open>None\<close> is a listener with nothing to accept; the three
  predicates are the threads found finished at the three points the loop looks.\<close>

definition accept_round ::
  "('w \<Rightarrow> bool) \<Rightarrow> ('w \<Rightarrow> bool) \<Rightarrow> 'w list \<Rightarrow> 'w option \<Rightarrow> 'w list" where
  "accept_round finished1 finished2 workers incoming =
     (case incoming of
        None \<Rightarrow> reap_workers finished1 workers
      | Some w \<Rightarrow>
          (let ws = reap_workers finished1 workers in
           if MAX_CONNECTION_WORKERS \<le> length ws then ws
           else reap_workers finished2 (ws @ [w])))"

section \<open>Queries\<close>

record query_options =
  mask_fields :: "string list"
  limit :: nat
  cursor :: "string option"
  query_max_bytes :: nat
  query_at :: "string option"

record request_payload =
  query :: query_options
  command_value :: json

definition default_query :: query_options where
  "default_query = \<lparr>mask_fields = [], limit = 100, cursor = None, query_max_bytes = 65536, query_at = None\<rparr>"

definition bounded :: "query_options \<Rightarrow> query_options" where
  "bounded q = q\<lparr>limit := clamp_nat (limit q) 1 1000, query_max_bytes := clamp_nat (query_max_bytes q) 4096 (1024 * 1024)\<rparr>"

definition command_string :: "json \<Rightarrow> string \<Rightarrow> string" where
  "command_string v name = unwrap_or (get_str v name) []"

definition parse_source_target :: "string \<Rightarrow> source_target option" where
  "parse_source_target v =
     Option.bind (rsplit_once v (CHR '':'')) (\<lambda>(path, l).
       map_option (\<lambda>n. \<lparr>target_path = path, target_line = n\<rparr>) (parse_u32 l))"

definition nth_opt :: "'a list \<Rightarrow> nat \<Rightarrow> 'a option" where
  "nth_opt xs i = (if i < length xs then Some (xs ! i) else None)"

definition parse_java_major :: "string \<Rightarrow> nat option" where
  "parse_java_major out =
     Option.bind (nth_opt (split_char (CHR 0x22) out) 1) (\<lambda>quoted.
       let parts = split_char (CHR ''.'') quoted in
       if hd parts = ''1'' then Option.bind (nth_opt parts 1) parse_u32 else parse_u32 (hd parts))"

section \<open>Time budget\<close>

text \<open>Instants and durations in nanoseconds; an \<^verbatim>\<open>Instant\<close> has 64-bit seconds.\<close>

definition INSTANT_MAX :: nat where "INSTANT_MAX = 2 ^ 63 * 1000000000 - 1"

record time_budget =
  deadline :: nat

definition starting_at :: "nat \<Rightarrow> nat \<Rightarrow> time_budget" where
  "starting_at start duration =
     \<lparr>deadline = (if start + duration \<le> INSTANT_MAX then start + duration else start)\<rparr>"

definition remaining_at :: "time_budget \<Rightarrow> nat \<Rightarrow> nat option" where
  "remaining_at b now = (if now < deadline b then Some (deadline b - now) else None)"

section \<open>Field mask\<close>

definition group_heads :: "string list list \<Rightarrow> (string, string list list) btree" where
  "group_heads paths = foldl (\<lambda>grouped path. case path of
      [] \<Rightarrow> grouped
    | h # t \<Rightarrow> bt_insert h (unwrap_or (bt_get grouped h) [] @ [t]) grouped) [] paths"

lemma bt_get_size: "bt_get m k = Some v \<Longrightarrow> size v < size (JObject m)"
proof -
  assume "bt_get m k = Some v"
  then have "(k, v) \<in> set m" by (rule bt_get_Some_set)
  then show ?thesis by (induction m) auto
qed

lemma map_filter_cong [fundef_cong]:
  "\<lbrakk>xs = ys; \<And>x. x \<in> set ys \<Longrightarrow> f x = g x\<rbrakk> \<Longrightarrow> List.map_filter f xs = List.map_filter g ys"
  by (induction ys arbitrary: xs) (auto simp: List.map_filter_simps split: option.split)

function project_fields :: "json \<Rightarrow> string list list \<Rightarrow> json" where
  "project_fields (JObject m) paths =
     JObject (bt_collect (List.map_filter (\<lambda>(key, tails).
       case bt_get m key of
         None \<Rightarrow> None
       | Some v \<Rightarrow> Some (key, if list_ex (\<lambda>t. t = []) tails then v else project_fields v tails))
       (group_heads paths)))"
| "project_fields (JArray xs) paths = JArray (map (\<lambda>x. project_fields x paths) xs)"
| "project_fields JNull paths = JNull"
| "project_fields (JBool b) paths = JBool b"
| "project_fields (JInt i) paths = JInt i"
| "project_fields (JFloat f) paths = JFloat f"
| "project_fields (JString s) paths = JString s"
  by pat_completeness auto
termination
  by (relation "measure (\<lambda>(v, _). size v)") (auto dest: bt_get_size simp: less_Suc_eq_le size_list_estimation')

definition mask_paths :: "string list \<Rightarrow> string list list" where
  "mask_paths fs = filter (\<lambda>p. p \<noteq> []) (map (\<lambda>f. filter (\<lambda>s. s \<noteq> []) (split_char (CHR ''.'') f)) fs)"

definition apply_field_mask :: "json \<Rightarrow> string list \<Rightarrow> json" where
  "apply_field_mask v fs = (if fs = [] then v else project_fields v (mask_paths fs))"

section \<open>Response limit\<close>

text \<open>\<open>enc\<close> is the length of the envelope's JSON text, \<open>None\<close> when it cannot be written.\<close>

definition enforce_response_limit :: "(envelope \<Rightarrow> nat option) \<Rightarrow> envelope \<Rightarrow> nat \<Rightarrow> envelope \<times> bool" where
  "enforce_response_limit enc e maxb =
     (case enc e of
        None \<Rightarrow> (e, False)
      | Some n \<Rightarrow>
          if n \<le> maxb then (e, False)
          else (e\<lparr>env_status := Partial,
                  env_data := JObject
                    [(''diagnosticCodes'', JArray (map (\<lambda>d. JString (code d)) (take 8 (diagnostics e)))),
                     (''maxBytes'', JInt (int maxb)), (''originalBytes'', JInt (int n)), (''truncated'', JBool True)],
                  diagnostics := [make_diagnostic ''WALARU_RESPONSE_LIMIT'' ''warning''
                    ''the structured result exceeded --max-bytes; narrow --fields, --limit, or use pagination''],
                  next_actions := [], env_page := None\<rparr>, True))"

section \<open>A request and its response\<close>

lemma u32_frame: "length p \<le> MAX_FRAME_BYTES \<Longrightarrow> \<not> u32_max < length p \<and> length p mod 256 ^ 4 = length p"
  by (simp add: MAX_FRAME_BYTES_def u32_max_def)

lemma write_message_ok: "length (enc m) \<le> MAX_FRAME_BYTES \<Longrightarrow> write_message enc m = Inr (be_bytes 4 (length (enc m)) @ enc m)"
  using u32_frame [of "enc m"] by (simp add: write_message_def Let_def not_less)

lemma read_written:
  assumes "length (enc m) \<le> MAX_FRAME_BYTES" "dec (enc m) = Some m"
  shows "read_message dec ((be_bytes 4 (length (enc m)) @ enc m) @ rest) = Inr (m, rest)"
  using assms u32_frame [of "enc m"]
  by (simp add: read_message_def read_exact_def from_be_be_bytes Let_def not_less)

text \<open>\<^bold>\<open>C23\<close> Over the framed protocol a client receives exactly the daemon's answer to exactly its
  request, as long as both encodings fit into a frame and decoding inverts encoding; and a peer
  that announces a longer frame is refused before any of its payload is read.\<close>

theorem rpc_exchange:
  assumes "dec_req (enc_req q) = Some q" "dec_resp (enc_resp (handle q)) = Some (handle q)"
    and "length (enc_req q) \<le> MAX_FRAME_BYTES" "length (enc_resp (handle q)) \<le> MAX_FRAME_BYTES"
    and "MAX_FRAME_BYTES < n" "n < 256 ^ 4"
  shows "send_request enc_req dec_resp (serve_connection dec_req enc_resp handle) q = Inr (handle q)
    \<and> read_message dec_req (be_bytes 4 n @ rest) = Inl (FrameTooLarge n)"
proof -
  have "serve_connection dec_req enc_resp handle (be_bytes 4 (length (enc_req q)) @ enc_req q)
      = be_bytes 4 (length (enc_resp (handle q))) @ enc_resp (handle q)"
    using assms read_written [of enc_req q dec_req "[]"] by (simp add: serve_connection_def write_message_ok)
  moreover have "read_message dec_resp (be_bytes 4 (length (enc_resp (handle q))) @ enc_resp (handle q)) = Inr (handle q, [])"
    using assms read_written [of enc_resp "handle q" dec_resp "[]"] by simp
  moreover have "read_message dec_req (be_bytes 4 n @ rest) = Inl (FrameTooLarge n)"
    using assms(5,6) by (simp add: read_message_def read_exact_def from_be_be_bytes)
  ultimately show ?thesis
    using assms by (simp add: send_request_def write_message_ok)
qed

definition sample_rpc_request :: rpc_request where
  "sample_rpc_request = \<lparr>req_schema_version = 1, request_id = ''q'', workspace_root = ''/w'', command = ''status'', payload_json = ''{}''\<rparr>"

definition sample_rpc_response :: rpc_response where
  "sample_rpc_response = \<lparr>resp_schema_version = 1, resp_request_id = ''q'', exit_code = 0, envelope_json = ''{}''\<rparr>"

theorem rpc_exchange_witness:
  "send_request (\<lambda>_. ''req'') (\<lambda>_. Some sample_rpc_response)
     (serve_connection (\<lambda>_. Some sample_rpc_request) (\<lambda>_. ''resp'') (\<lambda>_. sample_rpc_response)) sample_rpc_request
     = Inr sample_rpc_response
   \<and> read_message (\<lambda>_. Some sample_rpc_request) (be_bytes 4 (2 ^ 25) @ ''x'') = Inl (FrameTooLarge (2 ^ 25))"
  using rpc_exchange [of "\<lambda>_. Some sample_rpc_request" "\<lambda>_. ''req''" sample_rpc_request "\<lambda>_. Some sample_rpc_response"
      "\<lambda>_. ''resp''" "\<lambda>_. sample_rpc_response" "2 ^ 25" "''x''"]
  by (simp add: MAX_FRAME_BYTES_def)

section \<open>The pool of connection threads\<close>

lemma swap_remove_props:
  assumes "i < length ws"
  shows "length (swap_remove ws i) = length ws - 1" "\<And>j. j < i \<Longrightarrow> swap_remove ws i ! j = ws ! j"
    "add_mset (ws ! i) (mset (swap_remove ws i)) = mset ws"
proof -
  show len: "length (swap_remove ws i) = length ws - 1" by (simp add: swap_remove_def)
  show "swap_remove ws i ! j = ws ! j" if "j < i" for j
    using assms that by (simp add: swap_remove_def nth_butlast)
  obtain us x where ws: "ws = us @ [x]" using assms by (cases ws rule: rev_cases) auto
  show "add_mset (ws ! i) (mset (swap_remove ws i)) = mset ws"
  proof (cases "i = length us")
    case True
    then show ?thesis by (simp add: swap_remove_def ws)
  next
    case False
    then have "i < length us" using assms ws by simp
    then show ?thesis
      by (simp add: swap_remove_def ws list_update_append nth_append mset_update)
  qed
qed

lemma reap_from_mset:
  assumes "\<And>j. j < i \<Longrightarrow> j < length ws \<Longrightarrow> \<not> finished (ws ! j)"
  shows "mset (reap_from finished i ws) = filter_mset (\<lambda>w. \<not> finished w) (mset ws)"
  using assms
proof (induction finished i ws rule: reap_from.induct)
  case (1 finished i ws)
  note props = swap_remove_props [of i ws]
  consider "i < length ws" "finished (ws ! i)" | "i < length ws" "\<not> finished (ws ! i)" | "length ws \<le> i" by linarith
  then show ?case
  proof cases
    case 1
    have "mset (reap_from finished i (swap_remove ws i)) = filter_mset (\<lambda>w. \<not> finished w) (mset (swap_remove ws i))"
      using "1.prems" props 1 by (intro "1.IH"(1)) auto
    with 1 show ?thesis
      by (simp add: reap_from.simps [of finished i ws] props(3) [symmetric])
  next
    case 2
    have "mset (reap_from finished (i + 1) ws) = filter_mset (\<lambda>w. \<not> finished w) (mset ws)"
      using "1.prems" 2 by (intro "1.IH"(2)) (auto simp: less_Suc_eq)
    with 2 show ?thesis by (simp add: reap_from.simps [of finished i ws])
  next
    case 3
    then have "filter_mset (\<lambda>w. \<not> finished w) (mset ws) = mset ws"
      using "1.prems" by (auto simp: filter_mset_eq_conv in_set_conv_nth)
    with 3 show ?thesis by (simp add: reap_from.simps [of finished i ws])
  qed
qed

text \<open>Reaping ends, keeps every connection thread that is still running and joins exactly
  the finished ones, and the accept loop never holds more than the allowed number of threads.\<close>

theorem reap_workers_exact:
  "mset (reap_workers finished workers) = filter_mset (\<lambda>w. \<not> finished w) (mset workers)
   \<and> length (accept_round finished1 finished2 (take MAX_CONNECTION_WORKERS workers) incoming) \<le> MAX_CONNECTION_WORKERS"
proof -
  have exact: "mset (reap_workers f ws) = filter_mset (\<lambda>w. \<not> f w) (mset ws)" for f and ws :: "'a list"
    unfolding reap_workers_def by (rule reap_from_mset) simp
  have short: "length (reap_workers f ws) \<le> length ws" for f and ws :: "'a list"
    using arg_cong [OF exact [of f ws], of size] size_filter_mset_lesseq [of "\<lambda>w. \<not> f w" "mset ws"] by simp
  let ?ws = "take MAX_CONNECTION_WORKERS workers"
  have "length ?ws \<le> MAX_CONNECTION_WORKERS" by simp
  moreover have "length (reap_workers finished2 (reap_workers finished1 ?ws @ [w])) \<le> MAX_CONNECTION_WORKERS"
    if "\<not> MAX_CONNECTION_WORKERS \<le> length (reap_workers finished1 ?ws)" for w
    using that short [of finished2 "reap_workers finished1 ?ws @ [w]"] by simp
  ultimately have "length (accept_round finished1 finished2 ?ws incoming) \<le> MAX_CONNECTION_WORKERS"
    using short [of finished1 ?ws] by (auto simp: accept_round_def Let_def split: option.split)
  with exact show ?thesis by blast
qed

section \<open>Projection\<close>

text \<open>The values a path of keys reaches; arrays are looked through.\<close>

fun selects :: "string list \<Rightarrow> json \<Rightarrow> json list" where
  "selects [] v = [v]"
| "selects (k # ks) (JObject m) = (case bt_get m k of None \<Rightarrow> [] | Some w \<Rightarrow> selects ks w)"
| "selects (k # ks) (JArray xs) = concat (map (selects (k # ks)) xs)"
| "selects (k # ks) _ = []"

lemma group_heads_snoc:
  "group_heads (ps @ [p]) = (case p of [] \<Rightarrow> group_heads ps
    | h # t \<Rightarrow> bt_insert h (unwrap_or (bt_get (group_heads ps) h) [] @ [t]) (group_heads ps))"
  by (simp add: group_heads_def split: list.split)

definition tails :: "string \<Rightarrow> string list list \<Rightarrow> string list list" where
  "tails h ps = map tl (filter (\<lambda>p. p \<noteq> [] \<and> hd p = h) ps)"

lemma group_heads_get:
  "bt_wf (group_heads ps) \<and> bt_get (group_heads ps) h = (if tails h ps = [] then None else Some (tails h ps))"
proof (induction ps arbitrary: h rule: rev_induct)
  case Nil
  then show ?case by (simp add: group_heads_def tails_def)
next
  case (snoc p ps)
  then show ?case
    by (cases p) (auto simp: group_heads_snoc tails_def bt_wf_insert bt_get_insert)
qed

lemma map_filter_keys:
  assumes "bt_wf g" "\<And>k ts. f (k, ts) = None \<or> (\<exists>v. f (k, ts) = Some (k, v))"
  shows "bt_wf (List.map_filter f g)"
    "bt_get (List.map_filter f g) k = (case bt_get g k of None \<Rightarrow> None | Some ts \<Rightarrow> map_option snd (f (k, ts)))"
proof -
  have keys: "fst ` set (List.map_filter f g) \<subseteq> fst ` set g" for g
  proof (induction g)
    case (Cons e g)
    then have "fst ` set (List.map_filter f g) \<subseteq> fst ` set (e # g)" by auto
    then show ?case using assms(2) [of "fst e" "snd e"]
      by (cases "f e") (auto simp: List.map_filter_simps)
  qed (simp add: List.map_filter_simps)
  show wf: "bt_wf (List.map_filter f g)"
    using assms(1)
  proof (induction g)
    case (Cons e g)
    obtain k ts where e: "e = (k, ts)" by force
    from Cons have IH: "bt_wf (List.map_filter f g)" and less: "\<forall>x \<in> set g. k < fst x"
      by (simp_all add: bt_wf_Cons e)
    have "\<forall>x \<in> set (List.map_filter f g). k < fst x" using keys [of g] less by fastforce
    with IH assms(2) [of k ts] show ?case by (auto simp: List.map_filter_simps e bt_wf_Cons)
  qed (simp add: List.map_filter_simps)
  show "bt_get (List.map_filter f g) k = (case bt_get g k of None \<Rightarrow> None | Some ts \<Rightarrow> map_option snd (f (k, ts)))"
    using assms(1)
  proof (induction g)
    case (Cons e g)
    obtain k' ts where e: "e = (k', ts)" by force
    have notin: "k' \<notin> fst ` set g" using Cons.prems by (auto simp: bt_wf_Cons e)
    have "k' \<notin> fst ` set (List.map_filter f g)" using keys [of g] notin by blast
    then have none: "bt_get (List.map_filter f g) k' = None" "bt_get g k' = None"
      using notin by (simp_all add: bt_get_def map_of_eq_None_iff)
    show ?case
      using Cons assms(2) [of k' ts] none
      by (cases "k = k'") (auto simp: List.map_filter_simps e bt_wf_Cons bt_get_def)
  qed (simp add: List.map_filter_simps bt_get_def)
qed

lemma option_eq_of_Some: "(\<And>v. x = Some v \<longleftrightarrow> y = Some v) \<Longrightarrow> x = y"
  by (cases x; cases y) auto

lemma bt_collect_wf: "bt_wf m \<Longrightarrow> bt_collect m = m"
proof (rule bt_eqI [OF bt_wf_collect])
  assume wf: "bt_wf m"
  have "bt_get (bt_collect m) k = Some v \<longleftrightarrow> bt_get m k = Some v" for k v
    using bt_get_collect_distinct [OF bt_wf_distinct [OF wf]] bt_get_mem [OF wf] bt_get_Some_set by metis
  then show "bt_get (bt_collect m) = bt_get m" by (intro ext option_eq_of_Some)
qed

lemma project_fields_get:
  "bt_get (bt_collect (List.map_filter (\<lambda>(key, ts). case bt_get m key of
       None \<Rightarrow> None
     | Some v \<Rightarrow> Some (key, if list_ex (\<lambda>t. t = []) ts then v else project_fields v ts)) (group_heads ps))) k =
   (if tails k ps = [] then None
    else map_option (\<lambda>v. if [] \<in> set (tails k ps) then v else project_fields v (tails k ps)) (bt_get m k))"
proof -
  let ?f = "\<lambda>(key, ts). case bt_get m key of None \<Rightarrow> None
    | Some v \<Rightarrow> Some (key, if list_ex (\<lambda>t. t = []) ts then v else project_fields v ts)"
  have f: "?f (k, ts) = None \<or> (\<exists>v. ?f (k, ts) = Some (k, v))" for k ts
    by (simp split: option.split)
  note g = group_heads_get [of ps]
  have wf: "bt_wf (group_heads ps)" using g by blast
  have ex: "list_ex (\<lambda>t. t = []) ts \<longleftrightarrow> [] \<in> set ts" for ts by (auto simp: list_ex_iff)
  show ?thesis
    unfolding bt_collect_wf [OF map_filter_keys(1) [OF wf f]] map_filter_keys(2) [OF wf f]
    using g by (auto simp: ex split: option.split)
qed

lemma tails_prefix: "h # t \<in> set ps \<Longrightarrow> t \<in> set (tails h ps)"
  by (force simp: tails_def)

lemma tails_in: "t \<in> set (tails h ps) \<Longrightarrow> h # t \<in> set ps"
  by (auto simp: tails_def)

text \<open>Everything at or below a requested path is kept.\<close>

lemma project_keeps:
  "\<lbrakk>p \<in> set ps; [] \<notin> set ps\<rbrakk> \<Longrightarrow> selects (p @ q) (project_fields v ps) = selects (p @ q) v"
proof (induction v ps arbitrary: p rule: project_fields.induct)
  case (1 m ps)
  then obtain h t where p: "p = h # t" by (cases p) auto
  have t: "t \<in> set (tails h ps)" using 1(2) p tails_prefix by blast
  then have ne: "tails h ps \<noteq> []" by auto
  show ?case
  proof (cases "bt_get m h")
    case None
    then show ?thesis using ne by (simp add: p project_fields_get)
  next
    case (Some v)
    have "(h, tails h ps) \<in> set (group_heads ps)"
      using group_heads_get [of ps h] ne bt_get_Some_set [of "group_heads ps" h] by simp
    then have "[] \<notin> set (tails h ps) \<Longrightarrow> selects (t @ q) (project_fields v (tails h ps)) = selects (t @ q) v"
      using 1(1) [of "(h, tails h ps)" h "tails h ps" v t] Some t by (auto simp: list_ex_iff)
    then show ?thesis using Some ne by (simp add: p project_fields_get)
  qed
next
  case (2 xs ps)
  then obtain h t where p: "p = h # t" by (cases p) auto
  have "map (\<lambda>x. selects (h # t @ q) (project_fields x ps)) xs = map (selects (h # t @ q)) xs"
    using 2 unfolding p by fastforce
  then show ?case unfolding p by (simp add: comp_def del: map_eq_conv)
qed auto

text \<open>Nothing away from the requested paths is kept.\<close>

definition apart :: "string list \<Rightarrow> string list list \<Rightarrow> bool" where
  "apart q ps \<longleftrightarrow> q \<noteq> [] \<and> (\<forall>p \<in> set ps. \<not> prefix p q \<and> \<not> prefix q p)"

lemma apart_tails: "\<lbrakk>apart (h # t) ps; tails h ps \<noteq> []\<rbrakk> \<Longrightarrow> [] \<notin> set (tails h ps) \<and> apart t (tails h ps)"
proof -
  assume a: "apart (h # t) ps" and ne: "tails h ps \<noteq> []"
  have each: "\<not> prefix p t \<and> \<not> prefix t p" if "p \<in> set (tails h ps)" for p
    using a tails_in [OF that] by (force simp: apart_def)
  moreover obtain p where p: "p \<in> set (tails h ps)" using ne by (cases "tails h ps") auto
  ultimately have "t \<noteq> []" using each [OF p] by auto
  with each show ?thesis by (force simp: apart_def)
qed

lemma project_drops: "apart q ps \<Longrightarrow> selects q (project_fields v ps) = []"
proof (induction v ps arbitrary: q rule: project_fields.induct)
  case (1 m ps)
  then obtain h t where q: "q = h # t" by (cases q) (auto simp: apart_def)
  show ?case
  proof (cases "tails h ps = []")
    case True
    then show ?thesis by (simp add: q project_fields_get)
  next
    case ne: False
    have ap: "[] \<notin> set (tails h ps)" "apart t (tails h ps)" using apart_tails 1(2) q ne by blast+
    show ?thesis
    proof (cases "bt_get m h")
      case None
      then show ?thesis using ne by (simp add: q project_fields_get)
    next
      case (Some v)
      have "(h, tails h ps) \<in> set (group_heads ps)"
        using group_heads_get [of ps h] ne bt_get_Some_set [of "group_heads ps" h] by simp
      then have "selects t (project_fields v (tails h ps)) = []"
        using 1(1) [of "(h, tails h ps)" h "tails h ps" v t] Some ap by (auto simp: list_ex_iff)
      then show ?thesis using Some ne ap by (simp add: q project_fields_get)
    qed
  qed
next
  case (2 xs ps)
  then obtain h t where q: "q = h # t" by (cases q) (auto simp: apart_def)
  show ?case using 2 by (auto simp: q)
qed (auto simp: apart_def neq_Nil_conv)

lemma mask_paths_nonempty: "[] \<notin> set (mask_paths fs)"
  by (auto simp: mask_paths_def)

text \<open>\<^bold>\<open>C24\<close> A field mask keeps every value at or below a requested path as it was and removes
  every value whose path neither leads to a requested path nor lies below one.\<close>

theorem field_mask_exact:
  "fs \<noteq> [] \<Longrightarrow>
     (\<forall>p \<in> set (mask_paths fs). \<forall>q. selects (p @ q) (apply_field_mask v fs) = selects (p @ q) v)
   \<and> (\<forall>q. apart q (mask_paths fs) \<longrightarrow> selects q (apply_field_mask v fs) = [])"
  using project_keeps [OF _ mask_paths_nonempty] project_drops by (simp add: apply_field_mask_def)

definition sample_document :: json where
  "sample_document = JObject [(''a'', JArray [JObject [(''b'', JInt 1), (''c'', JInt 2)]]), (''d'', JNull)]"

theorem field_mask_exact_witness:
  "selects [''a'', ''b''] (apply_field_mask sample_document [''a.b'']) = [JInt 1]
   \<and> selects [''a'', ''c''] (apply_field_mask sample_document [''a.b'']) = []
   \<and> selects [''d''] (apply_field_mask sample_document [''a.b'']) = []"
proof -
  have paths: "mask_paths [''a.b''] = [[''a'', ''b'']]" by code_simp
  note f = field_mask_exact [of "[''a.b'']" sample_document, unfolded paths]
  have "selects ([''a'', ''b''] @ []) (apply_field_mask sample_document [''a.b'']) =
        selects ([''a'', ''b''] @ []) sample_document"
    using f by simp
  moreover have "selects [''a'', ''b''] sample_document = [JInt 1]" by code_simp
  moreover have "apart [''a'', ''c''] [[''a'', ''b'']]" "apart [''d''] [[''a'', ''b'']]" by (simp_all add: apart_def)
  ultimately show ?thesis using f by simp
qed

end
