(* ===== verification/Verifier_Recording.thy ===== *)
theory Verifier_Recording
  imports Verifier_Run Store_Paging
begin

text \<open>
  What verifications, recordings and replays promise about the store they write to: the store's
  invariant survives every one of them, whatever the worker does, and a recording can be
  replayed exactly when it is complete.
\<close>

section \<open>Events of a stream can be read back\<close>

lemma json_fits_mono: "\<lbrakk>json_fits d v; d \<le> d'\<rbrakk> \<Longrightarrow> json_fits d' v"
proof (induction d v arbitrary: d' rule: json_fits.induct)
  case (2 d xs)
  then show ?case by (auto simp: diff_le_mono)
next
  case (3 d m)
  then show ?case by (auto simp: diff_le_mono)
qed simp_all

text \<open>A member nests one level less.\<close>

lemma json_fits_get: "\<lbrakk>json_fits (Suc d) v; json_get v k = Some w\<rbrakk> \<Longrightarrow> json_fits d w"
  by (cases v) (fastforce simp: json_get_def dest!: bt_get_Some_set)+

lemma json_fits_wf: "json_fits d v \<Longrightarrow> json_wf v"
  by (induction d v rule: json_fits.induct) auto

lemma set_bt_remove: "set (bt_remove k m) \<subseteq> set m"
  by (auto simp: bt_remove_def)

lemma set_bt_insert: "bt_wf m \<Longrightarrow> set (bt_insert k v m) \<subseteq> insert (k, v) (set m)"
  by (auto simp: bt_insert_def dest: set_takeWhileD set_dropWhileD in_set_dropD)

lemma json_fits_public_values:
  assumes "json_fits d v" "0 < d"
  shows "json_fits d (public_event_values (Some v))"
proof (cases v)
  case (JObject m)
  have wf: "bt_wf m" and m: "\<And>e. e \<in> set m \<Longrightarrow> json_fits (d - 1) (snd e)"
    using assms(1) JObject by auto
  let ?m = "\<lambda>p. bt_remove ''encoded'' (bt_insert ''value'' (JString p) m)"
  have obj: "json_fits d (JObject (?m p))" for p
  proof -
    have "\<forall>e \<in> insert (''value'', JString p) (set m). json_fits (d - 1) (snd e)" using m by simp
    then have "\<forall>e \<in> set (?m p). json_fits (d - 1) (snd e)"
      using set_bt_insert [OF wf, of "''value''" "JString p"] set_bt_remove [of "''encoded''"] by blast
    moreover have "bt_wf (?m p)" by (intro bt_wf_remove bt_wf_insert wf)
    ultimately show ?thesis unfolding json_fits.simps using assms(2) by (intro conjI)
  qed
  show ?thesis
  proof (cases "flagged m")
    case True
    then show ?thesis using obj by (simp only: JObject public_event_values_def unwrap_or_simps json.case if_True)
  next
    case False
    then show ?thesis using assms(1) by (simp add: JObject public_event_values_def)
  qed
qed (use assms(1) in \<open>simp_all add: public_event_values_def\<close>)

lemma event_of_raw_fits:
  assumes "json_fits 127 raw"
  shows "event_fits (event_of_raw env seq raw)"
proof -
  have member: "json_fits 126 w" if "json_get raw k = Some w" for k w
    using json_fits_get [of 126 raw k w] assms that by simp
  have empty: "json_fits 126 empty_object" by (simp add: empty_object_def)
  have "json_fits 126 (public_event_values (json_get raw ''values''))"
  proof (cases "json_get raw ''values''")
    case None
    then show ?thesis by (simp add: public_event_values_def empty_object_def flagged_def)
  next
    case (Some v)
    then show ?thesis using json_fits_public_values [OF member] by simp
  qed
  moreover have "json_fits 126 (unwrap_or (json_get raw ''observations'') empty_object)"
    using empty member by (cases "json_get raw ''observations''") simp_all
  ultimately show ?thesis by (simp add: event_fits_def event_of_raw_def)
qed

text \<open>What \<^verbatim>\<open>serde_json::from_slice\<close> returns: ordered objects, integers of 64 bits, and at most 127 levels,
  for its recursion limit is 128.\<close>

definition parser_ok :: "verify_env \<Rightarrow> bool" where
  "parser_ok env = (\<forall>line raw. ve_parse_json env line = Some raw \<longrightarrow> json_fits 127 raw)"

lemma parser_ok_events: "parser_ok env \<Longrightarrow> events_ok event_fits env"
  by (auto simp: parser_ok_def events_ok_def intro: event_of_raw_fits)

section \<open>The invariant of the store\<close>

interpretation wf_kept: verification_invariant c event_fits "\<lambda>s. codec_ok c \<and> store_wf c s" for c
  by unfold_locales (auto intro: store_wf_ops)

context verification_invariant
begin

lemma store_read_keeps: "P s \<Longrightarrow> P (fst (store_read s r))"
  by (simp add: store_read_def split: sum.split)

lemma save_and_prune_keeps:
  assumes "P s"
  shows "P (fst (abind (store_call s (save_recording c s r now)) (\<lambda>s' _. (fst (prune c s' later), Inr x))))"
  by (rule abind_keeps [OF store_call_keeps [OF assms save_recording_keeps [OF assms]]])
     (auto intro: prune_keeps)

lemma record_keeps:
  assumes "ve_codec env = c" "events_ok ok env" "P s"
  shows "P (fst (record_with_options env t io s))"
  unfolding record_with_options_def verify_def assms(1) Let_def
proof (rule abind_keeps [OF verify_internal_keeps [OF assms]])
  fix s1 and out :: verification_outcome assume "P s1"
  have "P (fst (abind (store_read s1 (events c s1 (vo_run_id out) None 100000 (64 * 1024 * 1024))) (\<lambda>s2 pg.
      case recorded_inputs (ve_tape env) of Inl e \<Rightarrow> (s2, Inl e)
      | Inr is \<Rightarrow> abind (store_call s2 (save_recording c s2 (rc pg is) (ve_now env 6)))
          (\<lambda>s3 _. (fst (prune c s3 (ve_now env 7)), Inr (rc pg is))))))" for rc
    by (rule abind_keeps [OF store_read_keeps [OF \<open>P s1\<close>]])
       (simp add: save_and_prune_keeps split: sum.split)
  then show "P (fst (if vo_status out = RunStale then (s1, Inl StaleRecording)
    else abind (store_read s1 (events c s1 (vo_run_id out) None 100000 (64 * 1024 * 1024)))
      (\<lambda>s2 pg. case recorded_inputs (ve_tape env) of Inl e \<Rightarrow> (s2, Inl e)
        | Inr is \<Rightarrow> abind (store_call s2 (save_recording c s2
            (recording_built env t out is (items pg)) (ve_now env 6)))
          (\<lambda>s3 _. (fst (prune c s3 (ve_now env 7)), Inr (recording_built env t out is (items pg)))))))"
    using \<open>P s1\<close> by simp
qed

lemma replay_keeps:
  assumes "ve_codec env = c" "events_ok ok env" "P s"
  shows "P (fst (verify_replay_event env tree r e s))"
  unfolding verify_replay_event_def
  by (auto split: sum.split intro!: abind_keeps verify_internal_keeps assms store_read_keeps)

end

text \<open>The store stays well formed through every verification, recording and replay,
  whether it succeeds, fails or is cancelled at any point, and whatever the worker wrote.\<close>

theorem verification_keeps_store_wf:
  assumes "codec_ok (ve_codec env)" "store_wf (ve_codec env) s" "parser_ok env"
  shows "store_wf (ve_codec env) (fst (verify_internal env q replay s))
    \<and> store_wf (ve_codec env) (fst (record_with_options env test_id io s))
    \<and> store_wf (ve_codec env) (fst (verify_replay_event env tree r event_id s))"
  using wf_kept.verify_internal_keeps [OF refl parser_ok_events [OF assms(3)], of s]
    wf_kept.record_keeps [OF refl parser_ok_events [OF assms(3)], of s]
    wf_kept.replay_keeps [OF refl parser_ok_events [OF assms(3)], of s] assms by simp

section \<open>Recordings\<close>

lemma events_sorted:
  assumes "store_wf c s" "events c s i None 100000 maxb = Inr pg"
  shows "sorted_wrt (<) (map sequence (items pg))"
proof -
  let ?q = "(c, s, i, None :: string option, 100000 :: nat, maxb)"
  have "event_query_ok ?q" using assms(1) by (simp add: event_query_ok_def i64_max_def)
  from event_page [OF this, of None] assms(2)
  obtain n where items: "items pg = map (decoded c) (take n (event_query_rest ?q None))"
    by (auto simp: events_def)
  let ?rows = "take n (event_query_rest ?q None)"
  have rows: "sorted_wrt (\<lambda>a b. event_sequence a < event_sequence b) ?rows"
    "\<And>r. r \<in> set ?rows \<Longrightarrow> readable c r"
    using matching_rows_wf(1) [OF assms(1), of i None] matching_rows_wf(2) [OF assms(1), of _ i None]
    by (auto simp: event_query_rest_def event_query_rows_def sorted_wrt_filter intro!: sorted_wrt_take
        dest: in_set_takeD)
  then have "sorted_wrt (\<lambda>a b. sequence (decoded c a) < sequence (decoded c b)) ?rows"
    by (elim sorted_wrt_mono_rel [rotated]) (metis of_nat_less_iff readable_decoded)
  then show ?thesis by (simp add: items sorted_wrt_map)
qed

lemma ingested_capabilities:
  assumes "ingest_events env ev s = (s', Inr ing)"
  shows "validate_capabilities (ig_capabilities ing) = Inr () \<longleftrightarrow> completeness (ig_capabilities ing) = Complete"
proof (cases ev)
  case None
  with assms show ?thesis
    by (auto simp: ingest_events_def ingested_default_def validate_capabilities_def)
next
  case (Some chunks)
  obtain s1 st where recs: "ingest_records env (stream_records env chunks) ingest_start s = (s1, Inr st)"
    and ing: "ing = ingested_of st"
    using assms [unfolded Some] by (rule ingest_events_state)
  have "bt_wf (in_unavailable st)"
    using ingest_records_keys [OF recs] by (simp add: ingest_start_def)
  then show ?thesis using validate_capabilities_of by (simp add: ing ingested_of_def)
qed

lemma validate_capabilities_more:
  "validate_capabilities (m\<lparr>supported := supported m @ [''replayCheckpoints'']\<rparr>) = Inr ()
     \<longleftrightarrow> validate_capabilities m = Inr ()"
  by (auto simp: validate_capabilities_def split: list.splits)

text \<open>\<^bold>\<open>C35\<close> Every recording the verifier produces can be replayed exactly when it is complete:
  its checkpoints are always consistent with its events, and its capabilities are accepted by
  the replay backend if and only if the manifest says it is complete.\<close>

theorem recording_replayable_iff_complete:
  assumes "codec_ok (ve_codec env)" "store_wf (ve_codec env) s" "parser_ok env"
    and "record_with_options env test_id io s = (s', Inr r)"
  shows "validate_recording r = Inr () \<longleftrightarrow> completeness (rec_capabilities r) = Complete"
proof -
  from assms(4) obtain s1 out pg "is" where
    v: "verify_internal env (full_request test_id io) None s = (s1, Inr out)"
    and ev: "events (ve_codec env) s1 (vo_run_id out) None 100000 (64 * 1024 * 1024) = Inr pg"
    and built: "r = recording_built env test_id out is (items pg)"
    by (auto simp: record_with_options_def verify_def abind_Inr store_read_def store_call_Inr Let_def
        split: if_splits sum.splits)
  have r: "rec_events r = items pg" "checkpoints r = replay_checkpoints (items pg)"
    "rec_capabilities r = (if replay_checkpoints (items pg) \<noteq> []
      then (vo_capabilities out)\<lparr>supported := supported (vo_capabilities out) @ [''replayCheckpoints'']\<rparr>
      else vo_capabilities out)"
    by (simp_all add: built recording_built_def Let_def)
  have "store_wf (ve_codec env) s1"
    using wf_kept.verify_internal_keeps [OF refl parser_ok_events [OF assms(3)], of s] assms(1,2) v
    by (metis fst_conv)
  then have cps: "validate_checkpoints (rec_events r) None (checkpoints r) = Inr ()"
    unfolding r(1,2) by (intro replay_checkpoints_valid events_sorted [OF _ ev])
  have "validate_capabilities (vo_capabilities out) = Inr () \<longleftrightarrow> completeness (vo_capabilities out) = Complete"
  proof -
    obtain rt before s0 where "try_cache env (full_request test_id io) None before s = (s1, Inr (Some out))
      \<or> run_verification env (full_request test_id io) None rt before s0 = (s1, Inr out)"
      using v by (rule verify_internal_Inr)
    then have "run_verification env (full_request test_id io) None rt before s0 = (s1, Inr out)"
      by (auto simp: try_cache_def cacheable_def full_request_def)
    then show ?thesis
      by (rule run_verification_Inr) (simp add: ingested_capabilities)
  qed
  then have "validate_capabilities (rec_capabilities r) = Inr () \<longleftrightarrow> completeness (rec_capabilities r) = Complete"
    unfolding r(3) using validate_capabilities_more [of "vo_capabilities out"] by simp
  with cps show ?thesis by (simp add: validate_recording_def)
qed

section \<open>A recording of a test that did not run\<close>

text \<open>The environment of a worker that exits successfully and writes no event.\<close>

definition idle_recording :: recording where
  "idle_recording = \<lparr>rec_id = recording_id \<lparr>sha256 = rev, hex = id\<rparr> (revision sample_before) ''No#test'' [],
     rec_revision = revision sample_before, rec_test_id = ''No#test'', rec_backend = ''jvm'',
     rec_capabilities = capabilities_of ingest_start, inputs = [], linux_process = None, rec_events = [],
     checkpoints = []\<rparr>"

definition idle_codec :: codec where "idle_codec = table_codec [] [idle_recording] [] []"

definition idle_env :: verify_env where
  "idle_env = sample_venv\<lparr>ve_codec := idle_codec, ve_worker := (\<lambda>_ _. sample_worker\<lparr>wo_events := Some []\<rparr>)\<rparr>"

lemma idle_env_sel [simp]:
  "ve_codec idle_env = idle_codec" "ve_host idle_env = sample_host" "ve_hashes idle_env = \<lparr>sha256 = rev, hex = id\<rparr>"
  "ve_worker idle_env = (\<lambda>_ _. sample_worker\<lparr>wo_events := Some []\<rparr>)" "ve_cancelled idle_env = (\<lambda>_. False)"
  "ve_run_id idle_env = ''r''" "ve_now idle_env = (\<lambda>_. 0)" "ve_timeout idle_env = 300000" "ve_tape idle_env = None"
  "ve_artifacts idle_env = ve_artifacts sample_venv" "ve_layout idle_env = ve_layout sample_venv"
  "ve_parse_json idle_env = (\<lambda>_. Some sample_finish)"
  by (simp_all add: idle_env_def) (simp_all add: sample_venv_def)

lemma idle_captures: "capture_at idle_env (ve_before idle_env) = Inr sample_before"
  "capture_at idle_env (ve_after idle_env) = Inr sample_before"
  by (simp_all add: capture_at_def capture_def idle_env_def sample_venv_def)

definition idle_run :: "string \<Rightarrow> string option \<Rightarrow> store" where
  "idle_run st fin = (empty_store default_retention)\<lparr>runs := [\<lparr>run_pk = ''r'', run_revision = revision sample_before,
     run_source_digest = revision sample_before, run_status = st, run_started_at = [], run_finished_at = fin\<rparr>]\<rparr>"

lemma idle_execute:
  "\<exists>w. execute idle_env (full_request ''No#test'' False) f r sample_before (idle_run ''running'' None)
     = (idle_run ''running'' None, Inr (\<lparr>success = True\<rparr>, w, ingested_of ingest_start, sample_before))"
proof -
  have "ingest_events (ingest_env_of idle_env sample_before r) (Some []) s = (s, Inr (ingested_of ingest_start))" for s
    by (simp add: ingest_events_def ingest_loop.simps) (simp add: ingest_start_def)
  then show ?thesis
    using idle_captures
    by (simp add: execute_def run_worker_def supervise_logged_def sample_worker_def sample_host_def has_gradle_wrapper_def
        check_cancellation_def supervise.simps full_request_def Let_def)
qed

lemmas idle_defs = idle_run_def empty_store_def default_retention_def idle_codec_def table_codec_def

lemma idle_prune: "fst (prune idle_codec (idle_run st fin) 0) = idle_run st fin"
  by (simp add: prune_def prune_loop.simps payload_bytes_def idle_defs delete_defs)

lemma idle_prune_recording:
  "recording_payload row = [] \<Longrightarrow>
     fst (prune idle_codec ((idle_run st fin)\<lparr>recordings := [row]\<rparr>) 0) = (idle_run st fin)\<lparr>recordings := [row]\<rparr>"
  by (simp add: prune_def prune_loop.simps payload_bytes_def idle_defs delete_defs)

lemma idle_verify:
  "\<exists>out. verify_internal idle_env (full_request ''No#test'' False) None (empty_store default_retention)
       = (idle_run ''error'' (Some []), Inr out)
     \<and> vo_status out = RunError \<and> vo_revision out = revision sample_before \<and> vo_run_id out = ''r''
     \<and> vo_capabilities out = capabilities_of ingest_start"
proof -
  let ?q = "full_request ''No#test'' False" and ?r = "root (ve_layout sample_venv)"
  obtain w where ex: "execute idle_env ?q (files_of idle_env ?q False False) ?r sample_before (idle_run ''running'' None)
     = (idle_run ''running'' None, Inr (\<lparr>success = True\<rparr>, w, ingested_of ingest_start, sample_before))"
    using idle_execute by blast
  have start: "begin_run idle_codec (empty_store default_retention) \<lparr>nr_id = ''r'', nr_revision = revision sample_before,
     nr_source_digest = revision sample_before, nr_started_at = 0\<rparr> = Inr (idle_run ''running'' None)"
    by (simp add: begin_run_def idle_run_def empty_store_def run_exists_def idle_codec_def table_codec_def as_db_def)
  have finish: "finish_run idle_codec (idle_run ''running'' None) ''r'' RunError (revision sample_before) 0
      = Inr (idle_run ''error'' (Some []), RunError)"
    by (simp add: finish_run_def idle_run_def idle_codec_def table_codec_def as_db_def Let_def empty_store_def)
  have "desired_status \<lparr>success = True\<rparr> (ingested_of ingest_start) [''No#test''] = RunError"
    by (simp add: desired_status_def fresh_evidence_missing_def ingested_of_def ingest_start_def List.map_filter_simps)
  then have "\<exists>out. conclude idle_env ?q None ?r sample_before ?q ''explicit''
      (\<lparr>success = True\<rparr>, w, ingested_of ingest_start, sample_before) (idle_run ''running'' None)
       = (idle_run ''error'' (Some []), Inr out)
     \<and> vo_status out = RunError \<and> vo_revision out = revision sample_before \<and> vo_run_id out = ''r''
     \<and> vo_capabilities out = capabilities_of ingest_start"
    using finish by (simp add: conclude_def full_request_def save_outcome_def outcome_of_def idle_prune
        cacheable_def ingested_of_def Let_def)
  moreover have "validate_artifacts sample_host (ve_artifacts sample_venv) = Inr ()"
    by (simp add: validate_artifacts_def sample_host_def)
  moreover have "overlay ?q = None" "mode ?q = Full" "selected_tests ?q = [''No#test'']"
    by (simp_all add: full_request_def)
  ultimately show ?thesis
    using start ex idle_captures
    by (simp add: verify_internal_def check_cancellation_def prepare_overlay_def try_cache_def cacheable_def
        run_verification_def choose_tests_def impactable_def write_tapes_def store_call_def)
qed

lemma idle_record:
  "\<exists>s'. record_with_options idle_env ''No#test'' False (empty_store default_retention) = (s', Inr idle_recording)"
proof -
  obtain out where v: "verify_internal idle_env (full_request ''No#test'' False) None (empty_store default_retention)
       = (idle_run ''error'' (Some []), Inr out)"
    and out: "vo_status out = RunError" "vo_revision out = revision sample_before" "vo_run_id out = ''r''"
      "vo_capabilities out = capabilities_of ingest_start"
    using idle_verify by blast
  have built: "recording_built idle_env ''No#test'' out [] [] = idle_recording"
    by (simp add: recording_built_def idle_recording_def out replay_checkpoints_def)
  have ev: "events idle_codec (idle_run ''error'' (Some [])) ''r'' None 100000 (64 * 1024 * 1024)
      = Inr \<lparr>items = [], next_cursor = None\<rparr>"
    by (simp add: events_def events_matching_def matching_rows_def idle_defs fetch_limit_def sat_add_def int_bounds)
  have "save_recording idle_codec (idle_run ''error'' (Some [])) idle_recording 0
      = Inr ((idle_run ''error'' (Some []))\<lparr>recordings := [\<lparr>recording_pk = rec_id idle_recording,
          recording_revision = rec_revision idle_recording, recording_test_id = rec_test_id idle_recording,
          recording_backend = rec_backend idle_recording, recording_created_at = [], recording_payload = []\<rparr>]\<rparr>)"
    by (simp add: save_recording_def idle_codec_def table_codec_def table_to_def idle_run_def empty_store_def)
  with v out ev built show ?thesis
    by (simp add: record_with_options_def verify_def store_read_def store_call_def recorded_inputs_def
        idle_prune_recording)
qed

lemma idle_assumptions:
  "codec_ok idle_codec" "store_wf idle_codec (empty_store default_retention)" "parser_ok idle_env"
  by (simp_all add: idle_codec_def table_codec_ok store_wf_empty parser_ok_def sample_finish_def bt_wf_def)

theorem verification_keeps_store_wf_witness:
  "store_wf idle_codec (fst (verify_internal idle_env sample_request None (empty_store default_retention)))"
  using verification_keeps_store_wf [of idle_env "empty_store default_retention"] idle_assumptions by simp

theorem recording_replayable_iff_complete_witness:
  "validate_recording idle_recording = Inr () \<longleftrightarrow> completeness (rec_capabilities idle_recording) = Complete"
proof -
  obtain s' where "record_with_options idle_env ''No#test'' False (empty_store default_retention) = (s', Inr idle_recording)"
    using idle_record by blast
  with recording_replayable_iff_complete [of idle_env] idle_assumptions show ?thesis by simp
qed

text \<open>A recording is made, saved and marked complete even when the requested test did not
  run: only a stale run is rejected, so a worker that succeeds without running the test gives a
  verification with the status error and yet a complete recording that has no events and that
  replay accepts.\<close>

theorem record_accepts_a_test_that_did_not_run:
  "\<exists>env s out s1 r s'.
     verify_internal env (full_request ''No#test'' False) None s = (s1, Inr out) \<and> vo_status out = RunError
     \<and> record_with_options env ''No#test'' False s = (s', Inr r)
     \<and> rec_events r = [] \<and> completeness (rec_capabilities r) = Complete \<and> validate_recording r = Inr ()"
proof -
  obtain out where v: "verify_internal idle_env (full_request ''No#test'' False) None (empty_store default_retention)
       = (idle_run ''error'' (Some []), Inr out)" "vo_status out = RunError"
    using idle_verify by blast
  obtain s' where r: "record_with_options idle_env ''No#test'' False (empty_store default_retention) = (s', Inr idle_recording)"
    using idle_record by blast
  have "rec_events idle_recording = []" "completeness (rec_capabilities idle_recording) = Complete"
    "validate_recording idle_recording = Inr ()"
    by (simp_all add: idle_recording_def capabilities_of_def final_unavailable_def ingest_start_def validate_recording_def
        validate_capabilities_def flag_def Let_def)
  with v r show ?thesis by (intro exI conjI)
qed

end
