(* ===== verification/Daemon_Verify.thy ===== *)
theory Daemon_Verify
  imports Transport Verifier_Recording "HOL-Library.Word"
begin

text \<open>
  \<^verbatim>\<open>crates/walaru-daemon/src/server.rs\<close>, verification requests: their validation, and the
  protocol by which connection threads share one worktree.  A verification announces a
  generation, waits for the gate, registers a cancellation token, runs, and is reported only if
  no newer request has moved the generation on.  Every access to the shared state is one step
  of a thread, and threads interleave.
\<close>

section \<open>Validation of a request\<close>

text \<open>The first occurrence of every element, in order.\<close>

fun retain_unique :: "string list \<Rightarrow> string list \<Rightarrow> string list" where
  "retain_unique seen [] = []"
| "retain_unique seen (t # ts) =
     (if t \<in> set seen then retain_unique seen ts else t # retain_unique (t # seen) ts)"

definition bounded_text :: "string \<Rightarrow> bool" where
  "bounded_text v = (length v \<le> 1024 \<and> \<not> list_ex is_control (utf8_chars v))"

definition optional_bool :: "json \<Rightarrow> string \<Rightarrow> bool option" where
  "optional_bool v name = (case json_get v name of
      None \<Rightarrow> Some False | Some JNull \<Rightarrow> Some False | Some (JBool b) \<Rightarrow> Some b | Some _ \<Rightarrow> None)"

definition since_of :: "json \<Rightarrow> string option option" where
  "since_of v = (case json_get v ''since'' of
      None \<Rightarrow> Some None | Some JNull \<Rightarrow> Some None
    | Some (JString s) \<Rightarrow> if bounded_text s then Some (Some s) else None
    | Some _ \<Rightarrow> None)"

definition selected_of :: "json \<Rightarrow> string list option" where
  "selected_of v = (case json_get v ''selectedTests'' of
      None \<Rightarrow> Some [] | Some JNull \<Rightarrow> Some []
    | Some (JArray ts) \<Rightarrow>
        if list_all (\<lambda>t. as_str t \<noteq> None) ts then Some (List.map_filter as_str ts) else None
    | Some _ \<Rightarrow> None)"

definition valid_selection :: "string list \<Rightarrow> bool" where
  "valid_selection ts =
     (length ts \<le> 256 \<and> list_all (\<lambda>t. t \<noteq> [] \<and> CHR '','' \<notin> set t \<and> bounded_text t) ts)"

text \<open>\<open>decode\<close> is \<^verbatim>\<open>serde_json::from_value\<close> for an overlay, with its error text; \<open>show_error\<close> is the
  text of an overlay error.  A rejected request is answered with a diagnostic code and text.\<close>

definition verification_request_of ::
  "(json \<Rightarrow> string + overlay_request) \<Rightarrow> (overlay_error \<Rightarrow> string) \<Rightarrow> json
     \<Rightarrow> (string \<times> string) + (verification_request \<times> bool)" where
  "verification_request_of decode show_error v =
     (case optional_bool v ''full'' of None \<Rightarrow> Inl (''WALARU_VERIFY'', ''full must be a boolean'') | Some fl \<Rightarrow>
     (case since_of v of None \<Rightarrow> Inl (''WALARU_VERIFY'', ''since must be a bounded string'') | Some sn \<Rightarrow>
      if fl \<and> sn \<noteq> None then Inl (''WALARU_VERIFY'', ''full and since cannot be used together'') else
     (case selected_of v of
        None \<Rightarrow> Inl (''WALARU_TEST_SELECTION'', ''selectedTests must be an array of strings'')
      | Some given \<Rightarrow>
     (let ts = retain_unique [] given in
     (case (case json_get v ''overlay'' of
              None \<Rightarrow> Inr None | Some JNull \<Rightarrow> Inr None | Some w \<Rightarrow> map_sum id Some (decode w)) of
        Inl e \<Rightarrow> Inl (''WALARU_OVERLAY'', ''invalid overlay payload: '' @ e)
      | Inr ov \<Rightarrow>
      if \<not> valid_selection ts then Inl (''WALARU_TEST_SELECTION'',
        ''selectedTests must contain at most 256 bounded IDs without commas or control characters'') else
     (case (case ov of None \<Rightarrow> Inr () | Some ovr \<Rightarrow> validate ovr) of
        Inl e \<Rightarrow> Inl (''WALARU_OVERLAY'', show_error e)
      | Inr _ \<Rightarrow>
     (case optional_bool v ''supersede'' of
        None \<Rightarrow> Inl (''WALARU_VERIFY'', ''supersede must be a boolean'')
      | Some newer \<Rightarrow>
          Inr (\<lparr>mode = Fast, selected_tests = ts, full = fl, since = sn, capture_file_io = False,
                overlay = ov\<rparr>, newer))))))))"

section \<open>Shared state\<close>

text \<open>The atomics and mutexes of \<^verbatim>\<open>Daemon\<close>.  A cancellation token is shared between threads, so
  tokens live in a heap: a token is an index into \<open>tokens\<close>, its flag tells whether it was
  cancelled.  \<open>gate\<close> is the thread that holds the verification gate.\<close>

record daemon =
  d_layout :: workspace_layout
  d_store :: store
  d_session_id :: string
  should_stop :: bool
  gate :: "nat option"
  active :: "(64 word \<times> nat) option"
  tokens :: "bool list"
  generation :: "64 word"
  next_verification_id :: "64 word"

definition daemon_new :: "workspace_layout \<Rightarrow> store \<Rightarrow> string \<Rightarrow> daemon" where
  "daemon_new l s session =
     \<lparr>d_layout = l, d_store = s, d_session_id = session, should_stop = False, gate = None,
      active = None, tokens = [], generation = 0, next_verification_id = 1\<rparr>"

definition cancel_token :: "nat \<Rightarrow> daemon \<Rightarrow> daemon" where
  "cancel_token t d = d\<lparr>tokens := (tokens d)[t := True]\<rparr>"

definition is_cancelled :: "daemon \<Rightarrow> nat \<Rightarrow> bool" where
  "is_cancelled d t = (t < length (tokens d) \<and> tokens d ! t)"

definition cancel_active_verification :: "daemon \<Rightarrow> daemon \<times> bool" where
  "cancel_active_verification d = (case active d of
      Some (_, t) \<Rightarrow> (cancel_token t d, True)
    | None \<Rightarrow> (d, False))"

definition clear_active_verification :: "64 word \<Rightarrow> daemon \<Rightarrow> daemon" where
  "clear_active_verification vid d = (case active d of
      Some (i, _) \<Rightarrow> if i = vid then d\<lparr>active := None\<rparr> else d
    | None \<Rightarrow> d)"

text \<open>One attempt: the artifacts are looked up, then the verifier runs.\<close>

definition run_once :: "host \<Rightarrow> verify_env \<Rightarrow> verification_request \<Rightarrow> store \<Rightarrow> verification_outcome act" where
  "run_once h env q s = (case discover h of
      Inl e \<Rightarrow> (s, Inl e)
    | Inr a \<Rightarrow> verify (env\<lparr>ve_artifacts := a\<rparr>) q s)"

section \<open>The steps of a verification and of a cancellation\<close>

datatype verify_reply =
    Superseded
  | VerifyFailed verifier_error
  | Verified verification_outcome bool

text \<open>Where a connection thread stands; the generation, the verification id and the token are
  its local variables.  A cancelling thread says whether it also stops the daemon.\<close>

datatype thread =
    Announce verification_request bool
  | CancelOlder verification_request "64 word"
  | AtGate verification_request "64 word"
  | Gated verification_request "64 word"
  | Register verification_request "64 word" "64 word"
  | Registered verification_request "64 word" "64 word" nat
  | Executing verification_request "64 word" "64 word" nat
  | Requeued verification_request "64 word" "64 word" nat
  | Checking "64 word" "64 word" nat verification_outcome bool
  | Clearing "64 word" verify_reply
  | Leaving verify_reply
  | Replied verify_reply
  | CancelBump bool
  | CancelActive bool
  | StoreStop bool
  | CancelReplied bool

definition stale_outcome :: "verifier_error + verification_outcome \<Rightarrow> bool" where
  "stale_outcome r = (case r of Inr out \<Rightarrow> vo_status out = RunStale | Inl _ \<Rightarrow> False)"

text \<open>What follows the second or the only attempt.\<close>

definition after_attempt ::
  "64 word \<Rightarrow> 64 word \<Rightarrow> nat \<Rightarrow> bool \<Rightarrow> verifier_error + verification_outcome \<Rightarrow> thread" where
  "after_attempt g vid t requeued r = (case r of
      Inr out \<Rightarrow> Checking g vid t out requeued
    | Inl VerificationCancelled \<Rightarrow> Clearing vid Superseded
    | Inl e \<Rightarrow> Clearing vid (VerifyFailed e))"

text \<open>The next step of thread \<open>i\<close>; \<open>None\<close> while it waits for the gate and after its reply.\<close>

definition thread_step :: "host \<Rightarrow> verify_env \<Rightarrow> nat \<Rightarrow> daemon \<Rightarrow> thread \<Rightarrow> (daemon \<times> thread) option" where
  "thread_step h env i d th = (case th of
      Announce q newer \<Rightarrow>
        if newer then Some (d\<lparr>generation := generation d + 1\<rparr>, CancelOlder q (generation d + 1))
        else Some (d, AtGate q (generation d))
    | CancelOlder q g \<Rightarrow> Some (fst (cancel_active_verification d), AtGate q g)
    | AtGate q g \<Rightarrow> if gate d = None then Some (d\<lparr>gate := Some i\<rparr>, Gated q g) else None
    | Gated q g \<Rightarrow>
        if g \<noteq> generation d then Some (d, Leaving Superseded)
        else Some (d\<lparr>next_verification_id := next_verification_id d + 1\<rparr>, Register q g (next_verification_id d))
    | Register q g vid \<Rightarrow>
        Some (d\<lparr>tokens := tokens d @ [False], active := Some (vid, length (tokens d))\<rparr>,
          Registered q g vid (length (tokens d)))
    | Registered q g vid t \<Rightarrow>
        Some (if g \<noteq> generation d then cancel_token t d else d, Executing q g vid t)
    | Executing q g vid t \<Rightarrow>
        (case run_once h env q (d_store d) of (s, r) \<Rightarrow>
           Some (d\<lparr>d_store := s\<rparr>,
             if stale_outcome r then Requeued q g vid t else after_attempt g vid t False r))
    | Requeued q g vid t \<Rightarrow>
        (case discover h of
           Inl e \<Rightarrow> Some (d, Leaving (VerifyFailed e))
         | Inr a \<Rightarrow> (case verify (env\<lparr>ve_artifacts := a\<rparr>) q (d_store d) of (s, r) \<Rightarrow>
             Some (d\<lparr>d_store := s\<rparr>, after_attempt g vid t True r)))
    | Checking g vid t out requeued \<Rightarrow>
        Some (d, Clearing vid (if is_cancelled d t \<or> g \<noteq> generation d then Superseded else Verified out requeued))
    | Clearing vid r \<Rightarrow> Some (clear_active_verification vid d, Leaving r)
    | Leaving r \<Rightarrow> Some (d\<lparr>gate := None\<rparr>, Replied r)
    | CancelBump stop \<Rightarrow> Some (d\<lparr>generation := generation d + 1\<rparr>, CancelActive stop)
    | CancelActive stop \<Rightarrow>
        (case cancel_active_verification d of (d', b) \<Rightarrow> Some (d', if stop then StoreStop b else CancelReplied b))
    | StoreStop b \<Rightarrow> Some (d\<lparr>should_stop := True\<rparr>, CancelReplied b)
    | Replied _ \<Rightarrow> None
    | CancelReplied _ \<Rightarrow> None)"

text \<open>Whether the thread's next step moves the generation on.\<close>

definition bumps :: "thread \<Rightarrow> nat" where
  "bumps th = (case th of Announce _ True \<Rightarrow> 1 | CancelBump _ \<Rightarrow> 1 | _ \<Rightarrow> 0)"

section \<open>Interleaving\<close>

text \<open>A thread arrives with a valid request or a cancellation; any thread that can take a step
  may take it.  The host and the environment a step sees are arbitrary: files, workers, the
  clock and the cancellation checks of a verifier may answer differently every time.\<close>

definition arriving :: "thread \<Rightarrow> bool" where
  "arriving th = (case th of Announce _ _ \<Rightarrow> True | CancelBump _ \<Rightarrow> True | _ \<Rightarrow> False)"

inductive sys_step :: "daemon \<times> thread list \<Rightarrow> nat \<Rightarrow> daemon \<times> thread list \<Rightarrow> bool" where
  arrive: "arriving th \<Longrightarrow> sys_step (d, ths) 0 (d, ths @ [th])"
| move: "\<lbrakk>i < length ths; thread_step h env i d (ths ! i) = Some (d', th')\<rbrakk>
    \<Longrightarrow> sys_step (d, ths) (bumps (ths ! i)) (d', ths[i := th'])"

text \<open>A history and how often the generation moved in it.\<close>

inductive sys_run :: "daemon \<times> thread list \<Rightarrow> nat \<Rightarrow> daemon \<times> thread list \<Rightarrow> bool" where
  refl: "sys_run s 0 s"
| snoc: "\<lbrakk>sys_run s n s'; sys_step s' b s''\<rbrakk> \<Longrightarrow> sys_run s (n + b) s''"

inductive_simps sys_step_simps: "sys_step (d, ths) b (d', ths')"

lemmas thread_step_splits = thread.splits if_splits option.splits prod.splits sum.splits

text \<open>The generation a verification still has to confirm.\<close>

definition announced :: "thread \<Rightarrow> 64 word option" where
  "announced th = (case th of
      CancelOlder _ g \<Rightarrow> Some g | AtGate _ g \<Rightarrow> Some g | Gated _ g \<Rightarrow> Some g | Register _ g _ \<Rightarrow> Some g
    | Registered _ g _ _ \<Rightarrow> Some g | Executing _ g _ _ \<Rightarrow> Some g | Requeued _ g _ _ \<Rightarrow> Some g
    | Checking g _ _ _ _ \<Rightarrow> Some g | _ \<Rightarrow> None)"

text \<open>A thread that has decided to report a result, with the result.\<close>

definition reports :: "thread \<Rightarrow> (verification_outcome \<times> bool) option" where
  "reports th = (case th of
      Clearing _ (Verified out r) \<Rightarrow> Some (out, r) | Leaving (Verified out r) \<Rightarrow> Some (out, r)
    | Replied (Verified out r) \<Rightarrow> Some (out, r) | _ \<Rightarrow> None)"

lemma cancel_active_generation [simp]: "generation (fst (cancel_active_verification d)) = generation d"
  by (simp add: cancel_active_verification_def cancel_token_def split: option.split prod.split)

lemma cancel_active_generation_pair: "cancel_active_verification d = (d', b) \<Longrightarrow> generation d' = generation d"
  using cancel_active_generation [of d] by simp

lemma clear_active_generation [simp]: "generation (clear_active_verification v d) = generation d"
  by (simp add: clear_active_verification_def split: option.split prod.split)

lemma thread_step_generation:
  "thread_step h env i d th = Some (d', th') \<Longrightarrow> generation d' = generation d + of_nat (bumps th)"
  by (cases th) (auto simp: thread_step_def bumps_def cancel_token_def dest: cancel_active_generation_pair
      split: thread_step_splits bool.splits)

text \<open>From an announced generation a thread keeps it, reports with the current one or gives up.\<close>

lemma thread_step_announced:
  "\<lbrakk>thread_step h env i d th = Some (d', th'); announced th = Some g\<rbrakk>
     \<Longrightarrow> announced th' = Some g \<or> (announced th' = None \<and> reports th' = None)
       \<or> (announced th' = None \<and> generation d = g)"
  by (cases th) (auto simp: thread_step_def announced_def reports_def after_attempt_def
      split: thread_step_splits verify_reply.splits verifier_error.splits)

lemma thread_step_decided:
  "\<lbrakk>thread_step h env i d th = Some (d', th'); announced th = None; reports th = None; \<not> arriving th\<rbrakk>
     \<Longrightarrow> announced th' = None \<and> reports th' = None \<and> \<not> arriving th'"
  by (cases th) (auto simp: thread_step_def announced_def reports_def arriving_def
      split: thread_step_splits verify_reply.splits)

lemma thread_step_not_arriving: "thread_step h env i d th = Some (d', th') \<Longrightarrow> \<not> arriving th'"
  by (cases th) (auto simp: thread_step_def arriving_def after_attempt_def
      split: thread_step_splits verifier_error.splits)

lemma announced_undecided: "announced th = Some g \<Longrightarrow> reports th = None \<and> \<not> arriving th"
  by (auto simp: announced_def reports_def arriving_def split: thread.splits)

section \<open>Histories\<close>

lemma sys_run_generation:
  "sys_run s n s' \<Longrightarrow> generation (fst s') = generation (fst s) + of_nat n"
proof (induction rule: sys_run.induct)
  case (snoc s n s' b s'')
  from snoc(2) have "generation (fst s'') = generation (fst s') + of_nat b"
    by (cases rule: sys_step.cases) (auto dest: thread_step_generation simp: bumps_def arriving_def)
  with snoc(3) show ?case by (simp add: add.assoc)
qed simp

lemma sys_step_threads: "\<lbrakk>sys_step s b s'; i < length (snd s)\<rbrakk> \<Longrightarrow> i < length (snd s')"
  by (cases rule: sys_step.cases) auto

lemma of_nat_64_neq: "\<lbrakk>0 < n; n < 2 ^ 64\<rbrakk> \<Longrightarrow> (g :: 64 word) + of_nat n \<noteq> g"
  by (auto simp: word_of_nat_eq_0_iff dest: nat_dvd_not_less)

text \<open>A thread whose announced generation is no longer current never reports.\<close>

lemma outdated_never_reports:
  assumes "sys_run s m s'" "i < length (snd s)" "announced (snd s ! i) = Some g"
    "generation (fst s) = g + of_nat n" "0 < n" "n + m < 2 ^ 64"
  shows "i < length (snd s') \<and> reports (snd s' ! i) = None \<and> \<not> arriving (snd s' ! i)
    \<and> (announced (snd s' ! i) = Some g \<or> announced (snd s' ! i) = None)"
  using assms
proof (induction rule: sys_run.induct)
  case (refl s)
  then show ?case using announced_undecided by auto
next
  case (snoc s m s' b s'')
  then have IH: "i < length (snd s')" "reports (snd s' ! i) = None" "\<not> arriving (snd s' ! i)"
    "announced (snd s' ! i) = Some g \<or> announced (snd s' ! i) = None" by auto
  have current: "generation (fst s') = g + of_nat (n + m)"
    using sys_run_generation [OF snoc(1)] snoc.prems by (simp add: add.assoc)
  moreover have "0 < n + m" "n + m < 2 ^ 64" using snoc.prems by auto
  ultimately have outdated: "generation (fst s') \<noteq> g" using of_nat_64_neq by metis
  from snoc(2) show ?case
  proof (cases rule: sys_step.cases)
    case (arrive th d ths)
    with IH show ?thesis by (auto simp: nth_append)
  next
    case (move j ths h env d d' th')
    show ?thesis
    proof (cases "j = i")
      case True
      from IH(4) show ?thesis
      proof
        assume a: "announced (snd s' ! i) = Some g"
        have s': "s' = (d, ths)" and s'': "s'' = (d', ths[i := th'])" and i: "i < length ths"
          using move True by auto
        have "announced th' = Some g \<or> announced th' = None \<and> reports th' = None"
          using thread_step_announced [OF move(5) [unfolded True]] a outdated s' by auto
        then show ?thesis
          using thread_step_not_arriving [OF move(5)] announced_undecided by (auto simp: s'' i)
      next
        assume a: "announced (snd s' ! i) = None"
        from thread_step_decided [OF move(5) [unfolded True]] a move True IH show ?thesis by auto
      qed
    next
      case False
      with IH move show ?thesis by auto
    qed
  qed
qed

text \<open>\<^bold>\<open>C4\<close> A verification whose generation was moved on by a newer request, a cancel or a stop
  before its final check is never reported as a result, however the threads interleave and
  whatever its worker answers: it ends as superseded or as a failure.\<close>

theorem superseded_is_never_reported:
  assumes "sys_run s n s1" "sys_run s1 m s2" "i < length (snd s1)"
    "announced (snd s1 ! i) = Some (generation (fst s))"
    "0 < n" "n + m < 2 ^ 64"
  shows "reports (snd s2 ! i) = None"
proof -
  have "generation (fst s1) = generation (fst s) + of_nat n" by (rule sys_run_generation [OF assms(1)])
  from outdated_never_reports [OF assms(2,3,4) this assms(5,6)] show ?thesis by blast
qed

definition quick :: verification_request where "quick = fast_request"

definition idle_daemon :: daemon where
  "idle_daemon = daemon_new (layout_new \<lparr>sha256 = rev, hex = id\<rparr> ''/w'') (empty_store default_retention) ''s''"

text \<open>One thread waits at the gate, another one cancels.\<close>

lemma cancel_while_waiting:
  "sys_run (idle_daemon, [AtGate quick 0]) 1
     (idle_daemon\<lparr>generation := 1\<rparr>, [AtGate quick 0, CancelActive False])"
proof -
  have "sys_run (idle_daemon, [AtGate quick 0]) (0 + 0) (idle_daemon, [AtGate quick 0] @ [CancelBump False])"
    by (rule sys_run.snoc [OF sys_run.refl sys_step.arrive]) (simp add: arriving_def)
  moreover have "sys_step (idle_daemon, [AtGate quick 0, CancelBump False]) (bumps ([AtGate quick 0, CancelBump False] ! 1))
     (idle_daemon\<lparr>generation := 1\<rparr>, [AtGate quick 0, CancelBump False][1 := CancelActive False])"
    by (rule sys_step.move) (simp_all add: thread_step_def idle_daemon_def daemon_new_def)
  ultimately show ?thesis using sys_run.snoc by (fastforce simp: bumps_def)
qed

text \<open>The waiting thread then passes the gate and gives up.\<close>

lemma run_move:
  "\<lbrakk>sys_run s n (d, ths); i < length ths; thread_step h env i d (ths ! i) = Some (d', th')\<rbrakk>
     \<Longrightarrow> sys_run s (n + bumps (ths ! i)) (d', ths[i := th'])"
  using sys_run.snoc sys_step.move by metis

theorem superseded_is_never_reported_witness:
  "\<exists>s2. sys_run (idle_daemon\<lparr>generation := 1\<rparr>, [AtGate quick 0, CancelActive False]) 0 s2
     \<and> snd s2 ! 0 = Replied Superseded \<and> reports (snd s2 ! 0) = None"
proof -
  let ?d = "idle_daemon\<lparr>generation := 1\<rparr>"
  let ?s2 = "(?d, [Replied Superseded, CancelActive False])"
  have "sys_run (?d, [AtGate quick 0, CancelActive False]) 0 (?d\<lparr>gate := Some 0\<rparr>, [Gated quick 0, CancelActive False])"
    using run_move [OF sys_run.refl, of 0 "[AtGate quick 0, CancelActive False]"]
    by (simp add: thread_step_def bumps_def idle_daemon_def daemon_new_def)
  from run_move [OF this, of 0] have
    "sys_run (?d, [AtGate quick 0, CancelActive False]) 0 (?d\<lparr>gate := Some 0\<rparr>, [Leaving Superseded, CancelActive False])"
    by (simp add: thread_step_def bumps_def)
  from run_move [OF this, of 0] have run: "sys_run (?d, [AtGate quick 0, CancelActive False]) 0 ?s2"
    by (simp add: thread_step_def bumps_def idle_daemon_def daemon_new_def)
  have "reports (snd ?s2 ! 0) = None"
    using superseded_is_never_reported [OF cancel_while_waiting run, of 0]
    by (simp add: announced_def idle_daemon_def daemon_new_def)
  with run show ?thesis by (intro exI [of _ ?s2]) simp
qed

section \<open>The gate and the active verification\<close>

definition inside :: "thread \<Rightarrow> bool" where
  "inside th = (case th of
      Gated _ _ \<Rightarrow> True | Register _ _ _ \<Rightarrow> True | Registered _ _ _ _ \<Rightarrow> True | Executing _ _ _ _ \<Rightarrow> True
    | Requeued _ _ _ _ \<Rightarrow> True | Checking _ _ _ _ _ \<Rightarrow> True | Clearing _ _ \<Rightarrow> True | Leaving _ \<Rightarrow> True
    | _ \<Rightarrow> False)"

text \<open>The id of the verification a thread has registered and not yet cleared, and its token.\<close>

definition holds :: "thread \<Rightarrow> 64 word \<times> nat \<Rightarrow> bool" where
  "holds th a = (case th of
      Registered _ _ v t \<Rightarrow> a = (v, t) | Executing _ _ v t \<Rightarrow> a = (v, t) | Requeued _ _ v t \<Rightarrow> a = (v, t)
    | Checking _ v t _ _ \<Rightarrow> a = (v, t) | Clearing v _ \<Rightarrow> fst a = v | _ \<Rightarrow> False)"

definition holding :: "thread \<Rightarrow> bool" where "holding th = (\<exists>a. holds th a)"

text \<open>A verification that ended because the artifacts could not be found.\<close>

definition lost_artifacts :: "thread \<Rightarrow> bool" where
  "lost_artifacts th = (\<exists>h e. discover h = Inl e \<and> (th = Leaving (VerifyFailed e) \<or> th = Replied (VerifyFailed e)))"

definition sys_inv :: "daemon \<times> thread list \<Rightarrow> bool" where
  "sys_inv s = (case s of (d, ths) \<Rightarrow>
     (\<forall>i. gate d = Some i \<longrightarrow> i < length ths)
   \<and> (\<forall>i < length ths. inside (ths ! i) \<longleftrightarrow> gate d = Some i)
   \<and> (\<forall>i < length ths. holding (ths ! i) \<longrightarrow> (\<exists>a. active d = Some a \<and> holds (ths ! i) a))
   \<and> (active d \<noteq> None \<longrightarrow> (\<exists>th \<in> set ths. holding th \<or> lost_artifacts th)))"

lemma cancel_active_keeps:
  "cancel_active_verification d = (d', b) \<Longrightarrow> active d' = active d \<and> gate d' = gate d"
  by (auto simp: cancel_active_verification_def cancel_token_def split: option.splits)

lemma cancel_active_keeps_fst [simp]:
  "active (fst (cancel_active_verification d)) = active d" "gate (fst (cancel_active_verification d)) = gate d"
  using cancel_active_keeps [of d] by (cases "cancel_active_verification d"; simp)+

lemma clear_active_gate [simp]: "gate (clear_active_verification v d) = gate d"
  by (simp add: clear_active_verification_def split: option.split prod.split)

lemma thread_step_gate:
  "thread_step h env i d th = Some (d', th') \<Longrightarrow>
     (if inside th then gate d' = (if inside th' then gate d else None)
      else if inside th' then gate d = None \<and> gate d' = Some i else gate d' = gate d)"
  by (cases th) (auto simp: thread_step_def inside_def after_attempt_def cancel_token_def
      dest: cancel_active_keeps split: thread_step_splits verifier_error.splits)

lemma thread_step_active_outside:
  "\<lbrakk>thread_step h env i d th = Some (d', th'); \<not> inside th\<rbrakk> \<Longrightarrow> active d' = active d \<and> \<not> holding th'"
  by (cases th) (auto simp: thread_step_def inside_def holding_def holds_def
      dest: cancel_active_keeps split: thread_step_splits)

lemma thread_step_holding:
  "\<lbrakk>thread_step h env i d th = Some (d', th'); inside th; \<forall>a. holds th a \<longrightarrow> active d \<noteq> None \<and> holds th (the (active d));
    holding th \<or> active d = None \<or> L\<rbrakk>
     \<Longrightarrow> (holding th' \<longrightarrow> (\<exists>a. active d' = Some a \<and> holds th' a))
       \<and> (active d' \<noteq> None \<longrightarrow> holding th' \<or> lost_artifacts th' \<or> L)"
  by (cases th) (auto simp: thread_step_def inside_def holding_def holds_def after_attempt_def cancel_token_def
      clear_active_verification_def lost_artifacts_def
      split: thread_step_splits verifier_error.splits)

lemma lost_artifacts_kept:
  "\<lbrakk>thread_step h env i d th = Some (d', th'); lost_artifacts th\<rbrakk> \<Longrightarrow> lost_artifacts th'"
  by (auto simp: thread_step_def lost_artifacts_def split: thread_step_splits)

lemma holding_inside: "holding th \<Longrightarrow> inside th"
  by (cases th) (auto simp: holding_def holds_def inside_def)

lemma bex_update: "i < length xs \<Longrightarrow> (\<exists>y \<in> set (xs[i := x]). P y) \<longleftrightarrow> P x \<or> (\<exists>j < length xs. j \<noteq> i \<and> P (xs ! j))"
proof -
  assume i: "i < length xs"
  have "(\<exists>y \<in> set ys. P y) \<longleftrightarrow> (\<exists>j < length ys. P (ys ! j))" for ys by (metis in_set_conv_nth)
  then have "(\<exists>y \<in> set (xs[i := x]). P y) \<longleftrightarrow> (\<exists>j < length xs. P (xs[i := x] ! j))" by simp
  also have "\<dots> \<longleftrightarrow> P x \<or> (\<exists>j < length xs. j \<noteq> i \<and> P (xs ! j))" using i by (metis nth_list_update)
  finally show ?thesis .
qed

lemma sys_inv_move:
  assumes inv: "sys_inv (d, ths)" and i: "i < length ths" and mv: "thread_step h env i d (ths ! i) = Some (d', th')"
  shows "sys_inv (d', ths[i := th'])"
proof -
  have bound: "\<And>j. gate d = Some j \<Longrightarrow> j < length ths"
    and excl: "\<And>j. j < length ths \<Longrightarrow> inside (ths ! j) \<longleftrightarrow> gate d = Some j"
    and held: "\<And>j. \<lbrakk>j < length ths; holding (ths ! j)\<rbrakk> \<Longrightarrow> \<exists>a. active d = Some a \<and> holds (ths ! j) a"
    and acc: "active d \<noteq> None \<Longrightarrow> \<exists>th \<in> set ths. holding th \<or> lost_artifacts th"
    using inv by (auto simp: sys_inv_def)
  note g = thread_step_gate [OF mv]
  have others: "j < length ths \<Longrightarrow> j \<noteq> i \<Longrightarrow> inside (ths ! i) \<Longrightarrow> \<not> holding (ths ! j)" for j
    using excl i holding_inside by fastforce
  let ?L = "\<exists>j < length ths. j \<noteq> i \<and> lost_artifacts (ths ! j)"
  have gates: "(\<forall>j. gate d' = Some j \<longrightarrow> j < length ths) \<and> (\<forall>j < length ths. inside (ths[i := th'] ! j) \<longleftrightarrow> gate d' = Some j)"
    using g bound excl i by (auto simp: nth_list_update split: if_splits)
  have "(\<forall>j < length ths. holding (ths[i := th'] ! j) \<longrightarrow> (\<exists>a. active d' = Some a \<and> holds (ths[i := th'] ! j) a))
     \<and> (active d' \<noteq> None \<longrightarrow> (\<exists>th \<in> set (ths[i := th']). holding th \<or> lost_artifacts th))"
  proof (cases "inside (ths ! i)")
    case True
    have own: "\<forall>a. holds (ths ! i) a \<longrightarrow> active d \<noteq> None \<and> holds (ths ! i) (the (active d))"
      using held [OF i] by (fastforce simp: holding_def)
    have "holding (ths ! i) \<or> active d = None \<or> lost_artifacts (ths ! i) \<or> ?L"
      using acc others True by (metis in_set_conv_nth)
    moreover have "lost_artifacts (ths ! i) \<Longrightarrow> lost_artifacts th'" by (rule lost_artifacts_kept [OF mv])
    ultimately have
      "(holding th' \<longrightarrow> (\<exists>a. active d' = Some a \<and> holds th' a)) \<and> (active d' \<noteq> None \<longrightarrow> holding th' \<or> lost_artifacts th' \<or> ?L)"
      using thread_step_holding [OF mv True own, of "lost_artifacts th' \<or> ?L"] by blast
    then show ?thesis
      using others [OF _ _ True] i by (auto simp: nth_list_update bex_update)
  next
    case False
    note out = thread_step_active_outside [OF mv False]
    have "\<not> holding (ths ! i)" using False holding_inside by blast
    then have "active d \<noteq> None \<Longrightarrow> lost_artifacts th' \<or> (\<exists>j < length ths. j \<noteq> i \<and> (holding (ths ! j) \<or> lost_artifacts (ths ! j)))"
      using acc lost_artifacts_kept [OF mv] by (metis in_set_conv_nth)
    then show ?thesis using out held i by (auto simp: nth_list_update bex_update)
  qed
  with gates show ?thesis by (simp add: sys_inv_def)
qed

lemma sys_inv_arrive: "\<lbrakk>sys_inv (d, ths); arriving th\<rbrakk> \<Longrightarrow> sys_inv (d, ths @ [th])"
proof -
  assume inv: "sys_inv (d, ths)" and "arriving th"
  then have "\<not> inside th" "\<not> holding th"
    by (auto simp: arriving_def inside_def holding_def holds_def split: thread.splits)
  with inv show ?thesis by (fastforce simp: sys_inv_def nth_append)
qed

lemma sys_inv_run: "\<lbrakk>sys_run s n s'; sys_inv s\<rbrakk> \<Longrightarrow> sys_inv s'"
proof (induction rule: sys_run.induct)
  case (snoc s n s' b s'')
  then have "sys_inv s'" by blast
  with snoc(2) show ?case by (cases rule: sys_step.cases) (auto intro: sys_inv_move sys_inv_arrive)
qed

text \<open>\<^bold>\<open>C8\<close> In every history of the daemon at most one verification is inside the gate; the
  verification that runs is the one a cancel reaches; and a verification is named active only
  while a thread runs it, unless an earlier one ended because its artifacts had disappeared.\<close>

theorem one_active_verification:
  assumes "sys_run (daemon_new l st session, []) n (d, ths)"
  shows "(\<forall>i < length ths. \<forall>j < length ths. inside (ths ! i) \<and> inside (ths ! j) \<longrightarrow> i = j)
    \<and> (\<forall>i < length ths. holding (ths ! i) \<longrightarrow> (\<exists>a. active d = Some a \<and> holds (ths ! i) a))
    \<and> (active d \<noteq> None \<longrightarrow> (\<exists>th \<in> set ths. holding th \<or> lost_artifacts th))"
proof -
  have "sys_inv (daemon_new l st session, [])" by (simp add: sys_inv_def daemon_new_def)
  then have inv: "sys_inv (d, ths)" by (rule sys_inv_run [OF assms])
  then have "\<forall>i < length ths. inside (ths ! i) \<longleftrightarrow> gate d = Some i" by (simp add: sys_inv_def)
  then have "\<forall>i < length ths. \<forall>j < length ths. inside (ths ! i) \<and> inside (ths ! j) \<longrightarrow> i = j"
    by (metis option.inject)
  with inv show ?thesis by (simp add: sys_inv_def)
qed

text \<open>A verification registers and starts while a second one arrives.\<close>

lemma starts_verification:
  "sys_run (idle_daemon, []) 0
     (idle_daemon\<lparr>gate := Some 0, next_verification_id := 2, tokens := [False], active := Some (1, 0)\<rparr>,
      [Executing q 0 1 0])"
proof -
  have "sys_run (idle_daemon, []) (0 + 0) (idle_daemon, [] @ [Announce q False])"
    by (rule sys_run.snoc [OF sys_run.refl sys_step.arrive]) (simp add: arriving_def)
  then have "sys_run (idle_daemon, []) 0 (idle_daemon, [Announce q False])" by simp
  note r = run_move [OF this, of 0]
  from r have "sys_run (idle_daemon, []) 0 (idle_daemon, [AtGate q 0])"
    by (simp add: thread_step_def bumps_def idle_daemon_def daemon_new_def)
  from run_move [OF this, of 0] have "sys_run (idle_daemon, []) 0 (idle_daemon\<lparr>gate := Some 0\<rparr>, [Gated q 0])"
    by (simp add: thread_step_def bumps_def idle_daemon_def daemon_new_def)
  from run_move [OF this, of 0] have
    "sys_run (idle_daemon, []) 0 (idle_daemon\<lparr>gate := Some 0, next_verification_id := 2\<rparr>, [Register q 0 1])"
    by (simp add: thread_step_def bumps_def idle_daemon_def daemon_new_def)
  from run_move [OF this, of 0] have
    "sys_run (idle_daemon, []) 0 (idle_daemon\<lparr>gate := Some 0, next_verification_id := 2, tokens := [False],
        active := Some (1, 0)\<rparr>, [Registered q 0 1 0])"
    by (simp add: thread_step_def bumps_def idle_daemon_def daemon_new_def)
  from run_move [OF this, of 0] show ?thesis
    by (simp add: thread_step_def bumps_def idle_daemon_def daemon_new_def)
qed

theorem one_active_verification_witness:
  "\<exists>d. sys_run (idle_daemon, []) 0 (d, [Executing quick 0 1 0]) \<and> inside (Executing quick 0 1 0)
     \<and> active d = Some (1, 0)"
proof -
  obtain d where r: "sys_run (idle_daemon, []) 0 (d, [Executing quick 0 1 0])" using starts_verification by blast
  have "holding (Executing quick 0 1 0)" by (simp add: holding_def holds_def)
  with one_active_verification [OF r [unfolded idle_daemon_def]] have
    "\<exists>a. active d = Some a \<and> holds (Executing quick 0 1 0) a" by simp
  with r show ?thesis by (auto simp: holds_def inside_def)
qed

section \<open>The handler without interference\<close>

text \<open>\<^verbatim>\<open>Daemon::verify\<close> after validation, when no other thread touches the daemon: \<open>h1\<close> and \<open>env1\<close>
  are what the first attempt sees, \<open>h2\<close> and \<open>env2\<close> what the second one sees.\<close>

definition announce :: "bool \<Rightarrow> daemon \<Rightarrow> daemon" where
  "announce newer d = (if newer then fst (cancel_active_verification (d\<lparr>generation := generation d + 1\<rparr>)) else d)"

definition start_verification :: "daemon \<Rightarrow> daemon \<times> 64 word \<times> nat" where
  "start_verification d =
     (d\<lparr>next_verification_id := next_verification_id d + 1, tokens := tokens d @ [False],
        active := Some (next_verification_id d, length (tokens d))\<rparr>, next_verification_id d, length (tokens d))"

definition conclude_verification ::
  "64 word \<Rightarrow> daemon \<Rightarrow> bool \<Rightarrow> verifier_error + verification_outcome \<Rightarrow> daemon \<times> verify_reply" where
  "conclude_verification vid d requeued r =
     (clear_active_verification vid d, case r of
        Inl VerificationCancelled \<Rightarrow> Superseded
      | Inl e \<Rightarrow> VerifyFailed e
      | Inr out \<Rightarrow> Verified out requeued)"

definition second_attempt ::
  "host \<Rightarrow> verify_env \<Rightarrow> verification_request \<Rightarrow> 64 word \<Rightarrow> daemon \<Rightarrow> daemon \<times> verify_reply" where
  "second_attempt h env q vid d = (case discover h of
      Inl e \<Rightarrow> (d, VerifyFailed e)
    | Inr a \<Rightarrow> (case verify (env\<lparr>ve_artifacts := a\<rparr>) q (d_store d) of (s, r) \<Rightarrow>
        conclude_verification vid (d\<lparr>d_store := s\<rparr>) True r))"

definition verify_alone ::
  "host \<Rightarrow> verify_env \<Rightarrow> host \<Rightarrow> verify_env \<Rightarrow> verification_request \<Rightarrow> bool \<Rightarrow> daemon \<Rightarrow> daemon \<times> verify_reply" where
  "verify_alone h1 env1 h2 env2 q newer d =
     (case start_verification (announce newer d) of (d1, vid, t) \<Rightarrow>
      (case run_once h1 env1 q (d_store d1) of (s, r) \<Rightarrow>
        if stale_outcome r then second_attempt h2 env2 q vid (d1\<lparr>d_store := s\<rparr>)
        else conclude_verification vid (d1\<lparr>d_store := s\<rparr>) False r))"

text \<open>Steps of a lone thread.\<close>

inductive lone_steps :: "nat \<Rightarrow> daemon \<times> thread \<Rightarrow> daemon \<times> thread \<Rightarrow> bool" for i where
  stay: "lone_steps i s s"
| go: "\<lbrakk>thread_step h env i d th = Some s'; lone_steps i s' s''\<rbrakk> \<Longrightarrow> lone_steps i (d, th) s''"

lemma lone_steps_run:
  "\<lbrakk>lone_steps i s s'; i < length ths; ths ! i = snd s; sys_run s0 n (fst s, ths)\<rbrakk>
     \<Longrightarrow> \<exists>m. sys_run s0 m (fst s', ths[i := snd s'])"
proof (induction arbitrary: ths n rule: lone_steps.induct)
  case (stay s)
  then show ?case by (metis list_update_id)
next
  case (go h env d th s' s'')
  have "sys_run s0 (n + bumps (ths ! i)) (fst s', ths[i := snd s'])"
    using run_move [of s0 n d ths i h env "fst s'" "snd s'"] go by simp
  from go(3) [OF _ _ this] show ?case using go(4) by simp
qed

lemma lone_trans: "\<lbrakk>lone_steps i s s'; lone_steps i s' s''\<rbrakk> \<Longrightarrow> lone_steps i s s''"
  by (induction rule: lone_steps.induct) (auto intro: lone_steps.go)

lemma lone_go: "thread_step h env i d th = Some s' \<Longrightarrow> lone_steps i (d, th) s'"
  by (rule lone_steps.go [OF _ lone_steps.stay])

lemma announce_gate [simp]: "gate (announce newer d) = gate d"
  by (simp add: announce_def)

lemma lone_enters:
  assumes "gate d = None"
  shows "lone_steps i (d, Announce q newer)
    ((announce newer d)\<lparr>gate := Some i\<rparr>, Gated q (generation (announce newer d)))"
proof -
  have "lone_steps i (d, Announce q newer) (announce newer d, AtGate q (generation (announce newer d)))"
  proof (cases newer)
    case True
    have "lone_steps i (d, Announce q newer) (d\<lparr>generation := generation d + 1\<rparr>, CancelOlder q (generation d + 1))"
      by (rule lone_go) (simp add: thread_step_def True)
    moreover have "lone_steps i (d\<lparr>generation := generation d + 1\<rparr>, CancelOlder q (generation d + 1))
        (announce newer d, AtGate q (generation (announce newer d)))"
      by (rule lone_go) (simp add: thread_step_def announce_def True)
    ultimately show ?thesis by (rule lone_trans)
  next
    case False
    then show ?thesis by (intro lone_go) (simp add: thread_step_def announce_def)
  qed
  moreover have "lone_steps i (announce newer d, AtGate q (generation (announce newer d)))
      ((announce newer d)\<lparr>gate := Some i\<rparr>, Gated q (generation (announce newer d)))"
    by (rule lone_go) (simp add: thread_step_def assms)
  ultimately show ?thesis by (rule lone_trans)
qed

lemma lone_starts:
  assumes "start_verification d = (d1, vid, t)"
  shows "lone_steps i (d\<lparr>gate := Some i\<rparr>, Gated q (generation d)) (d1\<lparr>gate := Some i\<rparr>, Executing q (generation d1) vid t)"
    "gate d1 = gate d" "is_cancelled d1 t = False"
proof -
  let ?d = "d\<lparr>gate := Some i\<rparr>"
  have d1: "d1 = d\<lparr>next_verification_id := vid + 1, tokens := tokens d @ [False], active := Some (vid, t)\<rparr>"
    and ids: "vid = next_verification_id d" "t = length (tokens d)"
    using assms by (auto simp: start_verification_def)
  have "lone_steps i (?d, Gated q (generation d)) (?d\<lparr>next_verification_id := vid + 1\<rparr>, Register q (generation d) vid)"
    by (rule lone_go) (simp add: thread_step_def ids)
  moreover have "lone_steps i (?d\<lparr>next_verification_id := vid + 1\<rparr>, Register q (generation d) vid)
      (d1\<lparr>gate := Some i\<rparr>, Registered q (generation d) vid t)"
    by (rule lone_go) (simp add: thread_step_def d1 ids)
  moreover have "lone_steps i (d1\<lparr>gate := Some i\<rparr>, Registered q (generation d) vid t)
      (d1\<lparr>gate := Some i\<rparr>, Executing q (generation d1) vid t)"
    by (rule lone_go) (simp add: thread_step_def d1)
  ultimately show "lone_steps i (?d, Gated q (generation d)) (d1\<lparr>gate := Some i\<rparr>, Executing q (generation d1) vid t)"
    by (blast intro: lone_trans)
  show "gate d1 = gate d" "is_cancelled d1 t = False" by (simp_all add: d1 is_cancelled_def ids)
qed

lemma clear_active_update [simp]:
  "clear_active_verification v (d\<lparr>gate := x\<rparr>) = (clear_active_verification v d)\<lparr>gate := x\<rparr>"
  by (simp add: clear_active_verification_def split: option.split prod.split)

lemma gate_reset: "gate d = None \<Longrightarrow> d\<lparr>gate := x, gate := None\<rparr> = d"
  by simp

lemma lone_concludes:
  assumes "gate d = None" "\<not> is_cancelled d t" "conclude_verification vid d b r = (d', reply)"
  shows "lone_steps i (d\<lparr>gate := Some i\<rparr>, after_attempt (generation d) vid t b r) (d', Replied reply)"
proof -
  let ?d = "d\<lparr>gate := Some i\<rparr>"
  have d': "d' = clear_active_verification vid d" using assms(3) by (simp add: conclude_verification_def)
  have clear: "lone_steps i (?d, Clearing vid reply) (d', Replied reply)"
  proof -
    have "lone_steps i (?d, Clearing vid reply) (d'\<lparr>gate := Some i\<rparr>, Leaving reply)"
      by (rule lone_go) (simp add: thread_step_def d')
    moreover have "lone_steps i (d'\<lparr>gate := Some i\<rparr>, Leaving reply) (d'\<lparr>gate := None\<rparr>, Replied reply)"
      by (rule lone_go) (simp add: thread_step_def)
    moreover have "d'\<lparr>gate := None\<rparr> = d'" using assms(1) by (simp add: d')
    ultimately show ?thesis using lone_trans by metis
  qed
  show ?thesis
  proof (cases r)
    case (Inl e)
    then have "after_attempt (generation d) vid t b r = Clearing vid reply"
      using assms(3) by (cases e) (auto simp: after_attempt_def conclude_verification_def)
    with clear show ?thesis by simp
  next
    case (Inr out)
    have "lone_steps i (?d, Checking (generation d) vid t out b) (?d, Clearing vid reply)"
      using assms(2,3) Inr
      by (intro lone_go) (auto simp: thread_step_def conclude_verification_def is_cancelled_def)
    with clear show ?thesis using lone_trans Inr by (auto simp: after_attempt_def)
  qed
qed

lemma store_update_free:
  "\<lbrakk>gate d = None; \<not> is_cancelled d t\<rbrakk>
     \<Longrightarrow> gate (d\<lparr>d_store := s\<rparr>) = None \<and> \<not> is_cancelled (d\<lparr>d_store := s\<rparr>) t"
  by (simp add: is_cancelled_def)

lemma lone_only_attempt:
  assumes "gate d = None" "\<not> is_cancelled d t" "run_once h env q (d_store d) = (s, r)" "\<not> stale_outcome r"
    "conclude_verification vid (d\<lparr>d_store := s\<rparr>) False r = (d', reply)"
  shows "lone_steps i (d\<lparr>gate := Some i\<rparr>, Executing q (generation d) vid t) (d', Replied reply)"
proof -
  have "lone_steps i (d\<lparr>gate := Some i\<rparr>, Executing q (generation d) vid t)
      (d\<lparr>d_store := s, gate := Some i\<rparr>, after_attempt (generation (d\<lparr>d_store := s\<rparr>)) vid t False r)"
    using assms(3,4) by (intro lone_go [of h env]) (simp add: thread_step_def)
  moreover have "lone_steps i (d\<lparr>d_store := s, gate := Some i\<rparr>, after_attempt (generation (d\<lparr>d_store := s\<rparr>)) vid t False r)
      (d', Replied reply)"
    using store_update_free [OF assms(1,2)] assms(5) by (intro lone_concludes) auto
  ultimately show ?thesis by (rule lone_trans)
qed

lemma lone_second_attempt:
  assumes "gate d = None" "\<not> is_cancelled d t" "second_attempt h env q vid d = (d', reply)"
  shows "lone_steps i (d\<lparr>gate := Some i\<rparr>, Requeued q (generation d) vid t) (d', Replied reply)"
proof (cases "discover h")
  case (Inl e)
  then have r: "d' = d" "reply = VerifyFailed e" using assms(3) by (auto simp: second_attempt_def)
  have "lone_steps i (d\<lparr>gate := Some i\<rparr>, Requeued q (generation d) vid t) (d\<lparr>gate := Some i\<rparr>, Leaving reply)"
    using Inl by (intro lone_go [of h]) (simp add: thread_step_def r)
  moreover have "lone_steps i (d\<lparr>gate := Some i\<rparr>, Leaving reply) (d', Replied reply)"
    using assms(1) by (intro lone_go) (simp add: thread_step_def r)
  ultimately show ?thesis by (rule lone_trans)
next
  case (Inr a)
  obtain s r where v: "verify (env\<lparr>ve_artifacts := a\<rparr>) q (d_store d) = (s, r)" by force
  have c: "conclude_verification vid (d\<lparr>d_store := s\<rparr>) True r = (d', reply)"
    using assms(3) Inr v by (simp add: second_attempt_def)
  have "lone_steps i (d\<lparr>gate := Some i\<rparr>, Requeued q (generation d) vid t)
      (d\<lparr>d_store := s, gate := Some i\<rparr>, after_attempt (generation (d\<lparr>d_store := s\<rparr>)) vid t True r)"
    using Inr v by (intro lone_go [of h env]) (simp add: thread_step_def)
  moreover have "lone_steps i (d\<lparr>d_store := s, gate := Some i\<rparr>, after_attempt (generation (d\<lparr>d_store := s\<rparr>)) vid t True r)
      (d', Replied reply)"
    using store_update_free [OF assms(1,2)] c by (intro lone_concludes) auto
  ultimately show ?thesis by (rule lone_trans)
qed

lemma lone_requeues:
  assumes "gate d = None" "\<not> is_cancelled d t" "run_once h env q (d_store d) = (s, r)" "stale_outcome r"
    "second_attempt h2 env2 q vid (d\<lparr>d_store := s\<rparr>) = (d', reply)"
  shows "lone_steps i (d\<lparr>gate := Some i\<rparr>, Executing q (generation d) vid t) (d', Replied reply)"
proof -
  have "lone_steps i (d\<lparr>gate := Some i\<rparr>, Executing q (generation d) vid t)
      (d\<lparr>d_store := s, gate := Some i\<rparr>, Requeued q (generation (d\<lparr>d_store := s\<rparr>)) vid t)"
    using assms(3,4) by (intro lone_go [of h env]) (simp add: thread_step_def)
  moreover have "lone_steps i (d\<lparr>d_store := s, gate := Some i\<rparr>, Requeued q (generation (d\<lparr>d_store := s\<rparr>)) vid t)
      (d', Replied reply)"
    using store_update_free [OF assms(1,2)] assms(5) by (intro lone_second_attempt) auto
  ultimately show ?thesis by (rule lone_trans)
qed

lemma lone_verification:
  assumes "gate d = None" "verify_alone h1 env1 h2 env2 q newer d = (d', reply)"
  shows "lone_steps i (d, Announce q newer) (d', Replied reply)"
proof -
  let ?a = "announce newer d"
  obtain d1 vid t where s: "start_verification ?a = (d1, vid, t)" by (metis prod_cases3)
  obtain s2 r where r: "run_once h1 env1 q (d_store d1) = (s2, r)" by force
  note st = lone_starts [OF s]
  have free: "gate d1 = None" "\<not> is_cancelled d1 t" using st(2,3) assms(1) by simp_all
  have "lone_steps i (d1\<lparr>gate := Some i\<rparr>, Executing q (generation d1) vid t) (d', Replied reply)"
  proof (cases "stale_outcome r")
    case True
    then show ?thesis using assms(2) s r by (intro lone_requeues [OF free r]) (simp_all add: verify_alone_def)
  next
    case False
    then show ?thesis using assms(2) s r by (intro lone_only_attempt [OF free r]) (simp_all add: verify_alone_def)
  qed
  with st(1) have "lone_steps i (?a\<lparr>gate := Some i\<rparr>, Gated q (generation ?a)) (d', Replied reply)"
    by (rule lone_trans)
  with lone_enters [OF assms(1)] show ?thesis by (rule lone_trans)
qed

text \<open>\<^bold>\<open>C14\<close> A verification that finds the gate free and meets no other request always ends, and it
  ends with the reply and the state of the sequential handler: it is never reported as
  superseded unless its own verifier was cancelled.\<close>

theorem undisturbed_verification_replies:
  assumes "gate d = None" "verify_alone h1 env1 h2 env2 q newer d = (d', reply)"
  shows "lone_steps i (d, Announce q newer) (d', Replied reply)"
  by (rule lone_verification [OF assms])

section \<open>A requeued verification that loses its artifacts\<close>

text \<open>The revision changes while the worker runs.\<close>

definition changed_tree :: node where
  "changed_tree = Directory (Some [(''build.gradle'', RegularFile (Some []))])"

definition changing_env :: verify_env where
  "changing_env = idle_env\<lparr>ve_after := changed_tree\<rparr>"

definition no_artifacts :: host where
  "no_artifacts = sample_host\<lparr>is_file := (\<lambda>_. False)\<rparr>"

lemma changed_tree_captured:
  "\<exists>after. capture_at changing_env changed_tree = Inr after \<and> revision after \<noteq> revision sample_before"
proof -
  have "included_file [''build.gradle'']" by code_simp
  then have "capture_at changing_env changed_tree
      = Inr (snapshot_of \<lparr>sha256 = rev, hex = id\<rparr> [([''build.gradle''], [])])"
    by (simp add: capture_at_def capture_def changing_env_def changed_tree_def)
  moreover have "length (revision (snapshot_of \<lparr>sha256 = rev, hex = id\<rparr> [([''build.gradle''], [])]))
      \<noteq> length (revision sample_before)"
    by (simp add: snapshot_of_def revision_from_digest_def revision_stream_def update_frame_def)
  ultimately show ?thesis by metis
qed

lemma changing_env_sel [simp]:
  "ve_codec (changing_env\<lparr>ve_artifacts := a\<rparr>) = idle_codec" "ve_host (changing_env\<lparr>ve_artifacts := a\<rparr>) = sample_host"
  "ve_worker (changing_env\<lparr>ve_artifacts := a\<rparr>) = (\<lambda>_ _. sample_worker\<lparr>wo_events := Some []\<rparr>)"
  "ve_cancelled (changing_env\<lparr>ve_artifacts := a\<rparr>) = (\<lambda>_. False)" "ve_run_id (changing_env\<lparr>ve_artifacts := a\<rparr>) = ''r''"
  "ve_now (changing_env\<lparr>ve_artifacts := a\<rparr>) = (\<lambda>_. 0)" "ve_timeout (changing_env\<lparr>ve_artifacts := a\<rparr>) = 300000"
  "ve_after (changing_env\<lparr>ve_artifacts := a\<rparr>) = changed_tree"
  "capture_at (changing_env\<lparr>ve_artifacts := a\<rparr>) t = capture_at changing_env t"
  by (simp_all add: changing_env_def capture_at_def)

lemma changing_before: "capture_at changing_env (ve_before (changing_env\<lparr>ve_artifacts := a\<rparr>)) = Inr sample_before"
  by (simp add: changing_env_def idle_env_def sample_venv_def capture_at_def capture_def)

lemma changing_execute:
  assumes "overlay q = None"
  shows "\<exists>w after. execute (changing_env\<lparr>ve_artifacts := a\<rparr>) q f r sample_before s
       = (s, Inr (\<lparr>success = True\<rparr>, w, ingested_of ingest_start, after)) \<and> revision after \<noteq> revision sample_before"
proof -
  have "ingest_events (ingest_env_of (changing_env\<lparr>ve_artifacts := a\<rparr>) sample_before r) (Some []) s = (s, Inr (ingested_of ingest_start))" for s
    by (simp add: ingest_events_def ingest_loop.simps) (simp add: ingest_start_def)
  then show ?thesis
    using changed_tree_captured assms
    by (auto simp: execute_def run_worker_def supervise_logged_def sample_worker_def sample_host_def has_gradle_wrapper_def
        check_cancellation_def supervise.simps Let_def)
qed

lemma changing_run:
  "\<exists>s out. run_once sample_host changing_env sample_request (empty_store default_retention) = (s, Inr out)
     \<and> vo_status out = RunStale"
proof -
  obtain a where a: "discover sample_host = Inr a" by (simp add: discover_def sample_host_def artifact_path_def Let_def)
  let ?env = "changing_env\<lparr>ve_artifacts := a\<rparr>" and ?q = sample_request
  let ?r = "root (ve_layout ?env)"
  have q: "overlay ?q = None" "selected_tests ?q = [''A#b'']" "mode ?q = Fast"
    by (simp_all add: sample_request_def fast_request_def)
  obtain w after where ex: "execute ?env ?q (files_of ?env ?q False False) ?r sample_before (idle_run ''running'' None)
     = (idle_run ''running'' None, Inr (\<lparr>success = True\<rparr>, w, ingested_of ingest_start, after))"
    and after: "revision after \<noteq> revision sample_before"
    using changing_execute [OF q(1)] by blast
  have start: "begin_run idle_codec (empty_store default_retention) \<lparr>nr_id = ''r'', nr_revision = revision sample_before,
     nr_source_digest = revision sample_before, nr_started_at = 0\<rparr> = Inr (idle_run ''running'' None)"
    by (simp add: begin_run_def idle_run_def empty_store_def run_exists_def idle_codec_def table_codec_def as_db_def)
  obtain s where "finish_run idle_codec (idle_run ''running'' None) ''r''
      (desired_status \<lparr>success = True\<rparr> (ingested_of ingest_start) (selected_tests ?q)) (revision after) 0 = Inr (s, RunStale)"
    using after by (auto simp: finish_run_def idle_run_def Let_def)
  then have concl: "\<exists>s out. conclude ?env ?q None ?r sample_before ?q ''explicit''
      (\<lparr>success = True\<rparr>, w, ingested_of ingest_start, after) (idle_run ''running'' None) = (s, Inr out) \<and> vo_status out = RunStale"
    using q by (simp add: conclude_def save_outcome_def cacheable_def outcome_of_def Let_def)
  have "validate_artifacts sample_host (ve_artifacts ?env) = Inr ()"
    by (simp add: validate_artifacts_def sample_host_def)
  then have "\<exists>s out. verify ?env ?q (empty_store default_retention) = (s, Inr out) \<and> vo_status out = RunStale"
    using start ex q changing_before concl
    by (simp add: verify_def verify_internal_def check_cancellation_def prepare_overlay_def try_cache_def cacheable_def
        run_verification_def choose_tests_def impactable_def write_tapes_def store_call_def)
  then show ?thesis by (simp add: run_once_def a)
qed

text \<open>When a verification is requeued because the workspace changed and the artifacts cannot
  be found any more, it replies with that error but stays registered: with no verification
  running, a later cancel still answers that it cancelled one.\<close>

theorem requeue_without_artifacts_stays_registered:
  "\<exists>d e m. sys_run (idle_daemon, []) m (d, [Replied (VerifyFailed e)])
     \<and> gate d = None \<and> snd (cancel_active_verification d)"
proof -
  obtain s out where run: "run_once sample_host changing_env sample_request (d_store idle_daemon) = (s, Inr out)"
    and stale: "vo_status out = RunStale"
    using changing_run by (auto simp: idle_daemon_def daemon_new_def)
  obtain e where e: "discover no_artifacts = Inl e"
    by (simp add: discover_def no_artifacts_def sample_host_def artifact_path_def Let_def)
  let ?d = "idle_daemon\<lparr>next_verification_id := 2, tokens := [False], active := Some (1, 0), d_store := s\<rparr>"
  have gate: "gate idle_daemon = None" by (simp add: idle_daemon_def daemon_new_def)
  have "verify_alone sample_host changing_env no_artifacts env2 sample_request False idle_daemon = (?d, VerifyFailed e)" for env2
    using run stale e
    by (simp add: verify_alone_def announce_def start_verification_def second_attempt_def stale_outcome_def
        idle_daemon_def daemon_new_def)
  from lone_verification [OF gate this] have "lone_steps 0 (idle_daemon, Announce sample_request False) (?d, Replied (VerifyFailed e))"
    by blast
  moreover have "sys_run (idle_daemon, []) (0 + 0) (idle_daemon, [] @ [Announce sample_request False])"
    by (rule sys_run.snoc [OF sys_run.refl sys_step.arrive]) (simp add: arriving_def)
  ultimately have "\<exists>m. sys_run (idle_daemon, []) m (?d, [Replied (VerifyFailed e)])"
    using lone_steps_run [of 0 _ _ "[Announce sample_request False]"] by fastforce
  moreover have "gate ?d = None" "snd (cancel_active_verification ?d)"
    using gate by (simp_all add: cancel_active_verification_def)
  ultimately show ?thesis by blast
qed

text \<open>A verification with no artifacts at all ends with the error and nothing registered.\<close>

theorem undisturbed_verification_replies_witness:
  "\<exists>d. lone_steps 0 (idle_daemon, Announce sample_request False)
       (d, Replied (VerifyFailed (MissingArtifact ''WALARU_ADAPTER_JAR''))) \<and> active d = None"
proof -
  let ?d = "idle_daemon\<lparr>next_verification_id := 2, tokens := [False], active := None\<rparr>"
  have "discover no_artifacts = Inl (MissingArtifact ''WALARU_ADAPTER_JAR'')"
    by (simp add: discover_def no_artifacts_def sample_host_def artifact_path_def Let_def)
  then have "verify_alone no_artifacts sample_venv no_artifacts sample_venv sample_request False idle_daemon
      = (?d, VerifyFailed (MissingArtifact ''WALARU_ADAPTER_JAR''))"
    by (simp add: verify_alone_def announce_def start_verification_def run_once_def stale_outcome_def
        conclude_verification_def clear_active_verification_def idle_daemon_def daemon_new_def)
  from undisturbed_verification_replies [OF _ this] show ?thesis
    by (intro exI [of _ ?d]) (simp add: idle_daemon_def daemon_new_def)
qed

end
