(* ===== verification/Wire.thy ===== *)
theory Wire
  imports Verifier_Data Analysis
begin

text \<open>
  What the daemon writes: the \<^verbatim>\<open>Serialize\<close> implementations that \<^verbatim>\<open>serde\<close> derives for the records a
  response quotes, and the literals of \<^verbatim>\<open>json!\<close>.  A field keeps its name in camel case, an option that
  is empty is null unless the field is skipped, a map becomes an object and an enumeration the name of
  its variant.
\<close>

section \<open>Literals\<close>

definition jobj :: "(string \<times> json) list \<Rightarrow> json" where "jobj es = JObject (bt_collect es)"
definition jstr :: "string \<Rightarrow> json" where "jstr s = JString s"
definition jnat :: "nat \<Rightarrow> json" where "jnat n = JInt (int n)"
definition jopt :: "('a \<Rightarrow> json) \<Rightarrow> 'a option \<Rightarrow> json" where
  "jopt f x = (case x of None \<Rightarrow> JNull | Some y \<Rightarrow> f y)"
definition jlist :: "('a \<Rightarrow> json) \<Rightarrow> 'a list \<Rightarrow> json" where "jlist f xs = JArray (map f xs)"
definition jmap :: "('a \<Rightarrow> json) \<Rightarrow> (string, 'a) btree \<Rightarrow> json" where
  "jmap f m = jobj (map (\<lambda>(k, v). (k, f v)) m)"

text \<open>\<^verbatim>\<open>skip_serializing_if\<close>: a member that is left out in the default case.\<close>

definition unless :: "bool \<Rightarrow> string \<times> json \<Rightarrow> (string \<times> json) list" where
  "unless skip member = (if skip then [] else [member])"

section \<open>Records of \<^verbatim>\<open>walaru-core\<close>\<close>

definition completeness_name :: "completeness \<Rightarrow> string" where
  "completeness_name c = (case c of
      Complete \<Rightarrow> ''complete'' | PartiallyComplete \<Rightarrow> ''partial'' | UnsupportedRecording \<Rightarrow> ''unsupported'')"

definition capabilities_json :: "capability_manifest \<Rightarrow> json" where
  "capabilities_json m = jobj
     [(''backend'', jstr (cap_backend m)), (''completeness'', jstr (completeness_name (completeness m))),
      (''supported'', jlist jstr (supported m)), (''unavailable'', jmap jstr (unavailable m))]"

definition location_json :: "source_location \<Rightarrow> json" where
  "location_json l = jobj
     [(''path'', jstr (loc_path l)), (''line'', jnat (loc_line l)), (''column'', jnat (column l)), (''symbol'', jstr (symbol l))]"

definition logical_frame_json :: "logical_frame \<Rightarrow> json" where
  "logical_frame_json f = jobj
     [(''className'', jstr (class_name f)), (''method'', jstr (lf_method f)), (''path'', jstr (lf_path f)), (''line'', jnat (lf_line f))]"

definition event_kind_name :: "event_kind \<Rightarrow> string" where
  "event_kind_name k = (case k of
      TestStart \<Rightarrow> ''testStart'' | Line \<Rightarrow> ''line'' | Call \<Rightarrow> ''call'' | Write \<Rightarrow> ''write'' | Read \<Rightarrow> ''read''
    | Monitor \<Rightarrow> ''monitor'' | TestFinish \<Rightarrow> ''testFinish'' | Output \<Rightarrow> ''output'' | Input \<Rightarrow> ''input''
    | Checkpoint \<Rightarrow> ''checkpoint'' | Capture \<Rightarrow> ''capture'' | Note \<Rightarrow> ''note'' | SpanStart \<Rightarrow> ''spanStart''
    | SpanValue \<Rightarrow> ''spanValue'' | SpanEnd \<Rightarrow> ''spanEnd'')"

definition event_json :: "event \<Rightarrow> json" where
  "event_json e = jobj
     ([(''id'', jstr (ev_id e)), (''sequence'', jnat (sequence e)), (''threadId'', jnat (thread_id e))]
      @ unless (thread_key e = []) (''threadKey'', jstr (thread_key e))
      @ [(''virtualThread'', JBool (virtual_thread e)), (''coroutine'', JBool (coroutine e))]
      @ unless (logical_stack e = []) (''logicalStack'', jlist logical_frame_json (logical_stack e))
      @ [(''kind'', jstr (event_kind_name (kind e))), (''location'', jopt location_json (location e)), (''values'', ev_values e)]
      @ unless (value_is_empty_object (observations e)) (''observations'', observations e)
      @ [(''stateHash'', jstr (state_hash e)), (''outputIndex'', jnat (output_index e))])"

definition test_json :: "test_record \<Rightarrow> json" where
  "test_json t = jobj
     [(''id'', jstr (tr_id t)), (''displayName'', jstr (display_name t)), (''module'', jstr (tr_module t)),
      (''lastStatus'', jopt jstr (last_status t)), (''lastFailureId'', jopt jstr (last_failure_id t))]"

definition failure_json :: "failure_record \<Rightarrow> json" where
  "failure_json f = jobj
     [(''id'', jstr (fr_id f)), (''runId'', jstr (fr_run_id f)), (''testId'', jstr (fr_test_id f)),
      (''exceptionType'', jstr (exception_type f)), (''message'', jstr (fr_message f)),
      (''eventId'', jopt jstr (fr_event_id f)), (''frames'', jlist jstr (frames f))]"

definition coverage_json :: "coverage_record \<Rightarrow> json" where
  "coverage_json c = jobj
     [(''testId'', jstr (cr_test_id c)), (''path'', jstr (cr_path c)), (''line'', jnat (cr_line c)), (''symbol'', jstr (cr_symbol c))]"

definition run_status_name :: "run_status \<Rightarrow> string" where
  "run_status_name st = (case st of
      Running \<Rightarrow> ''running'' | Passed \<Rightarrow> ''passed'' | Failed \<Rightarrow> ''failed'' | RunStale \<Rightarrow> ''stale'' | RunError \<Rightarrow> ''error'')"

definition evidence_json :: "failure_evidence \<Rightarrow> json" where
  "evidence_json x = jobj
     [(''kind'', jstr (fe_kind x)), (''label'', jstr (fe_label x)), (''eventId'', jopt jstr (fe_event_id x)),
      (''location'', jopt location_json (fe_location x)), (''value'', fe_value x)]"

definition analysis_json :: "failure_analysis \<Rightarrow> json" where
  "analysis_json a = jobj
     [(''summary'', jstr (summary a)), (''likelyCause'', jstr (likely_cause a)), (''focus'', jopt location_json (focus a)),
      (''evidence'', jlist evidence_json (evidence a)), (''suggestions'', jlist jstr (suggestions a))]"

section \<open>Records of \<^verbatim>\<open>walaru-daemon\<close>\<close>

definition problem_json :: "worker_problem \<Rightarrow> json" where
  "problem_json p = jobj
     [(''path'', jstr (wp_path p)), (''line'', jnat (wp_line p)), (''column'', jopt jnat (wp_column p)),
      (''severity'', jstr (wp_severity p)), (''message'', jstr (wp_message p))]"

definition hint_json :: "live_value_hint \<Rightarrow> json" where
  "hint_json h = jobj
     [(''testId'', jstr (hint_test_id h)), (''eventId'', jstr (hint_event_id h)), (''path'', jstr (hint_path h)),
      (''line'', jnat (hint_line h)), (''label'', jstr (hint_label h)), (''value'', hint_value h)]"

text \<open>\<open>None\<close> is the error of a log path that is not UTF-8, the only field whose writing can fail.\<close>

definition outcome_json :: "verification_outcome \<Rightarrow> json option" where
  "outcome_json out = (if \<not> utf8_valid (vo_log_file out) then None else Some (jobj
     [(''evidenceFormatVersion'', jnat (evidence_format_version out)), (''runId'', jstr (vo_run_id out)),
      (''revision'', jstr (vo_revision out)), (''status'', jstr (run_status_name (vo_status out))),
      (''exitCode'', JInt (vo_exit_code out)), (''tests'', jlist jstr (vo_tests out)),
      (''testStatuses'', jmap jstr (vo_test_statuses out)), (''failures'', jlist jstr (vo_failures out)),
      (''events'', jnat (vo_events out)), (''capabilities'', capabilities_json (vo_capabilities out)),
      (''logFile'', jstr (vo_log_file out)), (''cached'', JBool (cached out)), (''selection'', jstr (selection out)),
      (''selectedTests'', jlist jstr (vo_selected_tests out)), (''overlayVersions'', jmap JInt (vo_overlay_versions out)),
      (''problems'', jlist problem_json (problems out)), (''valueHints'', jlist hint_json (vo_value_hints out))]))"

section \<open>Ordered values\<close>

lemma set_bt_collect: "set (bt_collect es) \<subseteq> set es"
proof
  fix e assume "e \<in> set (bt_collect es)"
  then have "bt_get (bt_collect es) (fst e) = Some (snd e)" by (intro bt_get_mem [OF bt_wf_collect]) simp
  then show "e \<in> set es" by (auto simp: bt_get_collect dest: map_of_SomeD)
qed

named_theorems typed_json

lemma json_wf_jobj [typed_json]: "list_all (\<lambda>e. json_wf (snd e)) es \<Longrightarrow> json_wf (jobj es)"
  using set_bt_collect [of es] by (auto simp: jobj_def bt_wf_collect list_all_iff)

lemma json_wf_leaf [typed_json]:
  "json_wf (jstr s)" "json_wf (jnat n)" "json_wf (jlist jstr ts)" "json_wf (jopt jstr t)" "json_wf (jopt jnat k)"
  "json_wf (JArray (map JString ts))"
  by (auto simp: jstr_def jnat_def jopt_def jlist_def split: option.split)

lemma json_wf_jopt: "(\<And>x. y = Some x \<Longrightarrow> json_wf (f x)) \<Longrightarrow> json_wf (jopt f y)"
  by (auto simp: jopt_def split: option.split)

lemma json_wf_jlist: "(\<And>x. x \<in> set xs \<Longrightarrow> json_wf (f x)) \<Longrightarrow> json_wf (jlist f xs)"
  by (auto simp: jlist_def)

lemma json_wf_jmap: "(\<And>x. json_wf (f x)) \<Longrightarrow> json_wf (jmap f m)"
  unfolding jmap_def by (rule json_wf_jobj) (auto simp: list_all_iff)

lemma unless_wf [typed_json]: "list_all (\<lambda>e. json_wf (snd e)) (unless b (k, v)) \<longleftrightarrow> b \<or> json_wf v"
  by (simp add: unless_def)

lemma location_json_wf [typed_json]: "json_wf (location_json l)" "json_wf (jopt location_json x)"
  by (auto simp: location_json_def typed_json intro: json_wf_jopt)

lemma capabilities_json_wf [typed_json]: "json_wf (capabilities_json m)"
  by (simp add: capabilities_json_def typed_json json_wf_jmap)

lemma records_json_wf [typed_json]:
  "json_wf (test_json t)" "json_wf (failure_json f)" "json_wf (coverage_json c)" "json_wf (problem_json p)"
  by (simp_all add: test_json_def failure_json_def coverage_json_def problem_json_def typed_json)

definition event_ordered :: "event \<Rightarrow> bool" where
  "event_ordered e = (json_wf (ev_values e) \<and> json_wf (observations e))"

lemma event_json_wf: "event_ordered e \<Longrightarrow> json_wf (event_json e)"
  by (simp add: event_json_def event_ordered_def typed_json logical_frame_json_def json_wf_jlist)

lemma hint_json_wf: "json_wf (hint_value h) \<Longrightarrow> json_wf (hint_json h)"
  by (simp add: hint_json_def typed_json)

lemma analysis_json_wf: "\<forall>x \<in> set (evidence a). json_wf (fe_value x) \<Longrightarrow> json_wf (analysis_json a)"
  by (auto simp: analysis_json_def evidence_json_def typed_json intro!: json_wf_jobj json_wf_jlist)

lemma outcome_json_wf:
  "outcome_json out = Some v \<Longrightarrow> \<forall>h \<in> set (vo_value_hints out). json_wf (hint_value h) \<Longrightarrow>
     json_wf v \<and> as_object v \<noteq> None"
  by (auto simp: outcome_json_def jobj_def as_object_def typed_json json_wf_jmap json_wf_jlist hint_json_wf
      intro!: json_wf_jobj [unfolded jobj_def] split: if_splits)

text \<open>The evidence of an analysis quotes the values of its events.\<close>

lemma evidence_from_event_ordered:
  assumes "evidence_from_event e = Some (k, label, v)" "event_ordered e"
  shows "json_wf v"
proof -
  have part: "json_wf (unwrap_or (json_get (ev_values e) n) JNull)" for n
    using assms(2) json_wf_get by (cases "json_get (ev_values e) n") (auto simp: event_ordered_def)
  from assms show ?thesis
    by (auto simp: evidence_from_event_def event_ordered_def Let_def part split: event_kind.splits if_splits)
qed

lemma collect_evidence_ordered:
  "\<lbrakk>\<forall>x \<in> set acc. json_wf (fe_value x); \<forall>e \<in> set es. event_ordered e\<rbrakk>
     \<Longrightarrow> \<forall>x \<in> set (collect_evidence acc es). json_wf (fe_value x)"
proof (induction acc es rule: collect_evidence.induct)
  case (2 acc e es)
  show ?case
  proof (cases "7 \<le> length acc \<or> evidence_from_event e = None")
    case True
    then show ?thesis using 2 by auto
  next
    case False
    then obtain k label v where x: "evidence_from_event e = Some (k, label, v)" by auto
    then have "json_wf v" using evidence_from_event_ordered "2.prems"(2) by simp
    then have "\<forall>x \<in> set (acc @ [event_evidence e (k, label, v)]). json_wf (fe_value x)"
      using "2.prems"(1) by (auto simp: event_evidence_def)
    then show ?thesis using "2.IH"(2) [OF _ x] "2.prems"(2) False x by simp
  qed
qed simp

lemma analyze_failure_ordered:
  assumes "\<forall>e \<in> set es. event_ordered e"
  shows "\<forall>x \<in> set (evidence (analyze_failure show_json f es)). json_wf (fe_value x)"
proof -
  have "json_wf (JObject (bt_collect [(''expected'', JString p), (''actual'', JString q)]))" for p q
    using json_wf_jobj [unfolded jobj_def, of "[(''expected'', JString p), (''actual'', JString q)]"] by simp
  then have "\<forall>x \<in> set (mismatch_evidence f). json_wf (fe_value x)"
    by (auto simp: mismatch_evidence_def split: option.splits simp del: json_wf.simps)
  from collect_evidence_ordered [OF this, of "rev es"] assms show ?thesis
    by (simp add: analyze_failure_def Let_def split: prod.split)
qed

end
