(* ===== verification/Daemon.thy ===== *)
theory Daemon
  imports Daemon_Verify Wire
begin

text \<open>
  \<^verbatim>\<open>crates/walaru-daemon/src/server.rs\<close>, the command handler: every command of the protocol over
  the store, the verifier and the replay backend, and the total function that answers a request.
  One request is handled without interference from others; the theory of verification requests
  says how they interleave.
\<close>

section \<open>What a request meets outside the program\<close>

text \<open>What the probes of \<^verbatim>\<open>doctor\<close> find: \<open>java_output\<close> is the two streams of \<^verbatim>\<open>java -version\<close>, empty
  when it cannot run; the flags tell whether a program ran and exited successfully.\<close>

record probes =
  java_output :: string
  maven_runs :: bool
  rr_runs :: bool
  criu_runs :: bool
  java_flags :: "(bool \<times> string \<times> string) option"
  os_name :: string
  arch_name :: string

text \<open>\<open>w_tree\<close> is the worktree an envelope captures, \<open>w_query_tree\<close> the one a query revision is compared
  with.  The first and the second attempt of a verification see \<open>w_first\<close> and \<open>w_second\<close>; the
  recording of the \<open>k\<close>-th failure sees \<open>w_recording k\<close>; a record, replay or reverse request sees
  \<open>w_attempt\<close>, and the replay compares the revision of \<open>w_replay_tree\<close>.  \<open>w_clock k\<close> is the \<open>k\<close>-th reading of
  the monotonic clock.  The texts of errors are parameters: they quote the operating system, the
  database and the JSON library.\<close>

record world =
  w_hashes :: hashes
  w_codec :: codec
  w_show_json :: "json \<Rightarrow> string"
  w_error_text :: "daemon_error \<Rightarrow> string"
  w_overlay_text :: "overlay_error \<Rightarrow> string"
  w_replay_text :: "replay_error \<Rightarrow> string"
  w_canonicalize :: "string \<Rightarrow> string option"
  w_payload :: "string \<Rightarrow> request_payload option"
  w_overlay :: "json \<Rightarrow> string + overlay_request"
  w_envelope_len :: "envelope \<Rightarrow> nat option"
  w_envelope_json :: "envelope \<Rightarrow> string option"
  w_pid :: nat
  w_version :: string
  w_tree :: node
  w_query_tree :: node
  w_replay_tree :: node
  w_first :: "host \<times> verify_env"
  w_second :: "host \<times> verify_env"
  w_attempt :: "host \<times> verify_env"
  w_recording :: "nat \<Rightarrow> verify_env"
  w_clock :: "nat \<Rightarrow> nat"
  w_probes :: probes

abbreviation verifier_text :: "world \<Rightarrow> verifier_error \<Rightarrow> string" where
  "verifier_text w e \<equiv> w_error_text w (DVerifier e)"

text \<open>A handler leaves a daemon and either an error or an exit code with an envelope.\<close>

type_synonym response = "int \<times> envelope"
type_synonym handled = "daemon \<times> (daemon_error + response)"

section \<open>Envelopes\<close>

definition make_envelope ::
  "world \<Rightarrow> daemon \<Rightarrow> status \<Rightarrow> string option \<Rightarrow> json \<Rightarrow> diagnostic list \<Rightarrow> envelope" where
  "make_envelope w d st run_id data ds =
     \<lparr>schema_version = SCHEMA_VERSION, workspace_id = layout_workspace_id (d_layout d),
      env_revision = (case capture (w_hashes w) (w_tree w) of
          Inl _ \<Rightarrow> ''rev-'' @ replicate 64 (CHR ''0'') | Inr snap \<Rightarrow> revision snap),
      session_id = d_session_id d, env_run_id = run_id, env_status = st, env_data = data,
      diagnostics = ds, capabilities = jvm_capabilities, next_actions = [], env_page = None\<rparr>"

definition error_envelope :: "world \<Rightarrow> daemon \<Rightarrow> json \<Rightarrow> string \<Rightarrow> string \<Rightarrow> envelope" where
  "error_envelope w d data c msg = make_envelope w d Error None data [make_diagnostic c ''error'' msg]"

definition verification_usage :: "world \<Rightarrow> daemon \<Rightarrow> string \<Rightarrow> string \<Rightarrow> response" where
  "verification_usage w d c msg = (2, error_envelope w d (jobj []) c msg)"

definition superseded_verification :: "world \<Rightarrow> daemon \<Rightarrow> response" where
  "superseded_verification w d =
     (4, make_envelope w d Stale None (jobj [(''cancelled'', JBool True), (''reason'', jstr ''superseded'')])
       [make_diagnostic ''WALARU_SUPERSEDED'' ''info''
         ''verification was cancelled because a newer request replaced it''])"

definition capability_failure :: "world \<Rightarrow> daemon \<Rightarrow> capability_manifest \<Rightarrow> response" where
  "capability_failure w d caps =
     (let reason = (case unavailable caps of [] \<Rightarrow> ''recording is not complete'' | (_, r) # _ \<Rightarrow> r)
      in (4, (make_envelope w d Unsupported None (jobj [])
           [make_diagnostic ''WALARU_REPLAY_CAPABILITY'' ''error'' reason])\<lparr>capabilities := caps\<rparr>))"

definition internal_failure :: "verifier_error \<Rightarrow> bool" where
  "internal_failure e = (case e of VStore _ \<Rightarrow> True | VIo _ \<Rightarrow> True | VJson \<Rightarrow> True | Timeout _ \<Rightarrow> True | _ \<Rightarrow> False)"

definition replay_verification_failure ::
  "world \<Rightarrow> daemon \<Rightarrow> string \<Rightarrow> capability_manifest \<Rightarrow> verifier_error \<Rightarrow> response" where
  "replay_verification_failure w d rid caps e =
     (if internal_failure e then 3 else 4,
      (make_envelope w d (if internal_failure e then Error else Unsupported) None
         (jobj [(''recordingId'', jstr rid), (''verified'', JBool False)])
         [make_diagnostic (if internal_failure e then ''WALARU_REPLAY_WORKER'' else ''WALARU_REPLAY_UNVERIFIED'')
           ''error'' (verifier_text w e)])\<lparr>capabilities := caps\<rparr>)"

definition with_page :: "envelope \<Rightarrow> query_options \<Rightarrow> string option \<Rightarrow> nat \<Rightarrow> envelope" where
  "with_page e q next_one n =
     e\<lparr>env_page := Some \<lparr>page_cursor = cursor q, page_next_cursor = next_one, page_limit = limit q, returned = n\<rparr>\<rparr>"

section \<open>Cancelling and stopping\<close>

definition cancel_verification :: "daemon \<Rightarrow> daemon \<times> bool" where
  "cancel_verification d = cancel_active_verification (d\<lparr>generation := generation d + 1\<rparr>)"

definition stop_response :: "world \<Rightarrow> daemon \<Rightarrow> handled" where
  "stop_response w d =
     (let d' = (fst (cancel_verification d))\<lparr>should_stop := True\<rparr>
      in (d', Inr (0, make_envelope w d' Ok None (jobj [(''stopping'', JBool True)]) [])))"

definition cancel_response :: "world \<Rightarrow> daemon \<Rightarrow> handled" where
  "cancel_response w d =
     (case cancel_verification d of (d', cancelled) \<Rightarrow>
        (d', Inr (0, make_envelope w d' Ok None (jobj [(''cancelled'', JBool cancelled)]) [])))"

section \<open>Queries\<close>

definition dstore :: "store_error + 'a \<Rightarrow> daemon_error + 'a" where
  "dstore r = map_sum DStore id r"

definition ok_envelope :: "world \<Rightarrow> daemon \<Rightarrow> json \<Rightarrow> envelope" where
  "ok_envelope w d data = make_envelope w d Ok None data []"

definition status_response :: "world \<Rightarrow> daemon \<Rightarrow> response" where
  "status_response w d = (0, ok_envelope w d (jobj
     [(''running'', JBool True), (''pid'', jnat (w_pid w)), (''version'', jstr (w_version w)),
      (''stateDirectory'', jstr (state_dir (d_layout d))), (''database'', jstr (database (d_layout d))),
      (''socket'', jstr (socket (d_layout d)))]))"

definition tests_response :: "world \<Rightarrow> daemon \<Rightarrow> query_options \<Rightarrow> daemon_error + response" where
  "tests_response w d q =
     rbind (dstore (tests (d_store d) (cursor q) (limit q))) (\<lambda>pg.
       Inr (0, with_page (ok_envelope w d (jobj [(''tests'', JArray (map test_json (items pg)))]))
         q (next_cursor pg) (length (items pg))))"

definition failure_actions :: "failure_record \<Rightarrow> next_action list" where
  "failure_actions f =
     \<lparr>title = ''Inspect test trace'', argv = [''walaru'', ''trace'', fr_test_id f, ''--format'', ''json'']\<rparr>
     # (case fr_event_id f of
          None \<Rightarrow> []
        | Some e \<Rightarrow> [\<lparr>title = ''Inspect failure values'', argv = [''walaru'', ''values'', e, ''--format'', ''json'']\<rparr>])"

text \<open>The stored failure with the events of its test and their analysis.\<close>

definition analysed :: "world \<Rightarrow> store \<Rightarrow> failure_record \<Rightarrow> daemon_error + failure_analysis" where
  "analysed w s f =
     map_sum id (analyze_failure (w_show_json w) f)
       (dstore (recent_test_events (w_codec w) s (fr_run_id f) (fr_test_id f) 512 (1024 * 1024)))"

definition failure_response :: "world \<Rightarrow> daemon \<Rightarrow> json \<Rightarrow> daemon_error + response" where
  "failure_response w d v =
     rbind (dstore (failure (w_codec w) (d_store d) (command_string v ''id''))) (\<lambda>found.
     rbind (case found of None \<Rightarrow> Inr None | Some f \<Rightarrow> map_sum id Some (analysed w (d_store d) f)) (\<lambda>analysis.
       Inr (0, (ok_envelope w d (jobj [(''failure'', jopt failure_json found),
                  (''analysis'', jopt analysis_json analysis)]))
              \<lparr>next_actions := (case found of None \<Rightarrow> [] | Some f \<Rightarrow> failure_actions f)\<rparr>)))"

definition impact_response :: "world \<Rightarrow> daemon \<Rightarrow> json \<Rightarrow> response" where
  "impact_response w d v =
     (let subj = command_string v ''subject'';
          data = (case select_impact (d_store d) subj '':'' of
              Exact ts \<Rightarrow> jobj [(''subject'', jstr subj), (''selection'', jstr ''exact''), (''tests'', JArray (map JString ts))]
            | ModuleAll ts reason \<Rightarrow> jobj [(''subject'', jstr subj), (''selection'', jstr ''moduleAll''),
                (''tests'', JArray (map JString ts)), (''reason'', jstr reason)])
      in (0, ok_envelope w d data))"

definition coverage_response :: "world \<Rightarrow> daemon \<Rightarrow> json \<Rightarrow> query_options \<Rightarrow> daemon_error + response" where
  "coverage_response w d v q =
     rbind (dstore (coverage (d_store d) (command_string v ''subject'') (cursor q) (limit q))) (\<lambda>pg.
       Inr (0, with_page (ok_envelope w d (jobj [(''coverage'', JArray (map coverage_json (items pg)))]))
         q (next_cursor pg) (length (items pg))))"

text \<open>With a field mask the byte bound applies to the projected response, not to the stored events.\<close>

definition trace_response :: "world \<Rightarrow> daemon \<Rightarrow> json \<Rightarrow> query_options \<Rightarrow> daemon_error + response" where
  "trace_response w d v q =
     rbind (dstore (trace (w_codec w) (d_store d) (command_string v ''subject'') (cursor q) (limit q)
         (if mask_fields q = [] then query_max_bytes q else u64_max))) (\<lambda>pg.
       Inr (0, with_page (ok_envelope w d (jobj [(''events'', JArray (map event_json (items pg)))]))
         q (next_cursor pg) (length (items pg))))"

definition values_response :: "world \<Rightarrow> daemon \<Rightarrow> json \<Rightarrow> daemon_error + response" where
  "values_response w d v =
     (let eid = command_string v ''event'' in
      rbind (dstore (Store.event (w_codec w) (d_store d) eid)) (\<lambda>found.
        Inr (0, ok_envelope w d (case found of
            None \<Rightarrow> jobj [(''eventId'', jstr eid), (''values'', JNull)]
          | Some e \<Rightarrow> jobj [(''eventId'', jstr (ev_id e)), (''location'', jopt location_json (location e)),
              (''values'', ev_values e), (''observations'', observations e), (''stateHash'', jstr (state_hash e))]))))"

section \<open>Doctor\<close>

definition build_tool :: "host \<Rightarrow> string \<Rightarrow> bool \<Rightarrow> string \<times> bool \<times> bool \<times> bool" where
  "build_tool h r maven_path =
     (let has = (\<lambda>f. is_file h (path_join r f));
          gradle_wrapper = (has ''gradlew'' \<or> has ''gradlew.bat'');
          maven_wrapper = (has ''mvnw'' \<or> has ''mvnw.cmd'') in
      if list_ex has [''settings.gradle.kts'', ''settings.gradle'', ''build.gradle.kts'', ''build.gradle'']
      then (''gradle'', True, gradle_wrapper, gradle_wrapper)
      else if has ''pom.xml'' then (''maven'', True, maven_wrapper, maven_wrapper \<or> maven_path)
      else (''unknown'', False, False, False))"

definition platform_supported :: "probes \<Rightarrow> bool" where
  "platform_supported p =
     (os_name p \<in> {''linux'', ''macos'', ''windows''} \<and> arch_name p \<in> {''x86_64'', ''aarch64''})"

definition java_ready :: "probes \<Rightarrow> bool" where
  "java_ready p = (case parse_java_major (java_output p) of None \<Rightarrow> False | Some v \<Rightarrow> 21 \<le> v)"

definition crac_available :: "probes \<Rightarrow> bool" where
  "crac_available p = (case java_flags p of
      None \<Rightarrow> False
    | Some (ok, out, err) \<Rightarrow>
        ok \<and> (contains_sub out ''CRaCCheckpointTo'' \<or> contains_sub err ''CRaCCheckpointTo''))"

definition doctor_diagnostics :: "world \<Rightarrow> host \<Rightarrow> string \<Rightarrow> diagnostic list" where
  "doctor_diagnostics w h r =
     (let p = w_probes w; has = (\<lambda>f. is_file h (path_join r f)); (_, project, _, _) = build_tool h r (maven_runs p);
          gradle = list_ex has [''settings.gradle.kts'', ''settings.gradle'', ''build.gradle.kts'', ''build.gradle''];
          report = (\<lambda>b c sev msg. if b then [make_diagnostic c sev msg] else []) in
      report (\<not> platform_supported p) ''WALARU_PLATFORM'' ''error''
        ''Walaru supports Linux, macOS, and Windows on x86_64/aarch64''
      @ report (\<not> java_ready p) ''WALARU_JDK'' ''error'' ''JDK 21 or newer was not detected''
      @ report (gradle \<and> \<not> (has ''gradlew'' \<or> has ''gradlew.bat'')) ''WALARU_GRADLE_WRAPPER'' ''warning''
        ''target worktree has no Gradle Wrapper; PATH Gradle fallback is non-reproducible''
      @ report (has ''pom.xml'' \<and> \<not> (has ''mvnw'' \<or> has ''mvnw.cmd'') \<and> \<not> maven_runs p) ''WALARU_MAVEN'' ''error''
        ''target worktree has no Maven Wrapper and `mvn` was not detected on PATH''
      @ report (\<not> project) ''WALARU_BUILD_TOOL'' ''error'' ''neither a Gradle nor Maven JVM project was detected''
      @ (case discover h of
           Inl e \<Rightarrow> [make_diagnostic ''WALARU_RUNTIME_ARTIFACTS'' ''error'' (verifier_text w e)] | Inr _ \<Rightarrow> []))"

definition doctor_ready :: "probes \<Rightarrow> host \<Rightarrow> string \<Rightarrow> bool" where
  "doctor_ready p h r =
     (java_ready p \<and> (case build_tool h r (maven_runs p) of (_, _, _, ready) \<Rightarrow> ready)
      \<and> (case discover h of Inl _ \<Rightarrow> False | Inr _ \<Rightarrow> True) \<and> platform_supported p)"

definition doctor :: "world \<Rightarrow> host \<Rightarrow> daemon \<Rightarrow> response" where
  "doctor w h d =
     (let p = w_probes w; r = root (d_layout d); has = (\<lambda>f. is_file h (path_join r f));
          (tool, project, wrapper, ready) = build_tool h r (maven_runs p);
          linux = (os_name p = ''linux'');
          data = jobj
            [(''ready'', JBool (doctor_ready p h r)),
             (''platform'', jobj [(''os'', jstr (os_name p)), (''arch'', jstr (arch_name p)), (''supported'', JBool (platform_supported p))]),
             (''java'', jobj [(''major'', jopt jnat (parse_java_major (java_output p))),
                (''raw'', jstr (case lines (java_output p) of [] \<Rightarrow> [] | l # _ \<Rightarrow> l))]),
             (''buildTool'', jobj [(''kind'', jstr tool), (''project'', JBool project), (''wrapper'', JBool wrapper), (''ready'', JBool ready)]),
             (''gradleWrapper'', jobj [(''present'', JBool (has ''gradlew'' \<or> has ''gradlew.bat'')), (''path'', jstr (path_join r ''gradlew''))]),
             (''maven'', jobj [(''project'', JBool (has ''pom.xml'')), (''wrapper'', JBool (has ''mvnw'' \<or> has ''mvnw.cmd'')),
                (''pathAvailable'', JBool (maven_runs p))]),
             (''runtimeArtifacts'', jobj [(''present'', JBool (case discover h of Inl _ \<Rightarrow> False | Inr _ \<Rightarrow> True))]),
             (''linuxReplay'', jobj [(''rr'', JBool (linux \<and> rr_runs p)), (''criu'', JBool (linux \<and> criu_runs p)),
                (''crac'', JBool (crac_available p)),
                (''checkpointAcceleration'', JBool (linux \<and> criu_runs p \<and> crac_available p)), (''required'', JBool False)])]
      in (0, make_envelope w d (if doctor_ready p h r then Ok else Partial) None data (doctor_diagnostics w h r)))"

section \<open>Verification\<close>

definition outcome_status :: "run_status \<Rightarrow> status" where
  "outcome_status st = (case st of
      Passed \<Rightarrow> Ok | Failed \<Rightarrow> Failure | RunStale \<Rightarrow> Stale | RunError \<Rightarrow> Error | Running \<Rightarrow> Error)"

definition outcome_diagnostics :: "run_status \<Rightarrow> diagnostic list" where
  "outcome_diagnostics st = (case st of
      Failed \<Rightarrow> [make_diagnostic ''WALARU_VERIFICATION_FAILED'' ''error''
        ''compilation or selected tests failed; query failure IDs and trace'']
    | RunStale \<Rightarrow> [make_diagnostic ''WALARU_STALE_REVISION'' ''warning''
        ''workspace changed during verification; the result is not a success'']
    | RunError \<Rightarrow> [make_diagnostic ''WALARU_VERIFICATION_EVIDENCE'' ''error''
        ''the worker completed without fresh passing evidence for the requested tests; inspect the worker log'']
    | _ \<Rightarrow> [])"

definition verified_envelope :: "world \<Rightarrow> daemon \<Rightarrow> verification_outcome \<Rightarrow> json \<Rightarrow> envelope" where
  "verified_envelope w d out data =
     (make_envelope w d (outcome_status (vo_status out)) (Some (vo_run_id out)) data (outcome_diagnostics (vo_status out)))
       \<lparr>env_revision := vo_revision out, capabilities := vo_capabilities out\<rparr>"

definition reply_response :: "world \<Rightarrow> daemon \<Rightarrow> verify_reply \<Rightarrow> daemon_error + response" where
  "reply_response w d reply = (case reply of
      Superseded \<Rightarrow> Inr (superseded_verification w d)
    | VerifyFailed e \<Rightarrow> Inl (DVerifier e)
    | Verified out requeued \<Rightarrow>
        (case outcome_json out of
           None \<Rightarrow> Inl DJson
         | Some v \<Rightarrow>
             (let data = (case v of JObject m \<Rightarrow> JObject (bt_insert ''requeued'' (JBool requeued) m) | _ \<Rightarrow> v)
              in Inr (vo_exit_code out, verified_envelope w d out data))))"

definition verify_response :: "world \<Rightarrow> daemon \<Rightarrow> json \<Rightarrow> handled" where
  "verify_response w d v =
     (case verification_request_of (w_overlay w) (w_overlay_text w) v of
        Inl (c, msg) \<Rightarrow> (d, Inr (verification_usage w d c msg))
      | Inr (q, newer) \<Rightarrow>
          (case verify_alone (fst (w_first w)) (snd (w_first w)) (fst (w_second w)) (snd (w_second w)) q newer d of
             (d', reply) \<Rightarrow> (d', reply_response w d' reply)))"

section \<open>Recording\<close>

definition verifier_env :: "runtime_artifacts \<Rightarrow> verify_env \<Rightarrow> verify_env" where
  "verifier_env a env = env\<lparr>ve_artifacts := a\<rparr>"

definition record_response :: "world \<Rightarrow> daemon \<Rightarrow> json \<Rightarrow> handled" where
  "record_response w d v =
     (case discover (fst (w_attempt w)) of
        Inl e \<Rightarrow> (d, Inl (DVerifier e))
      | Inr a \<Rightarrow>
          (case record_with_options (verifier_env a (snd (w_attempt w))) (command_string v ''testId'')
              (unwrap_or (get_bool v ''captureFileIo'') False) (d_store d) of
             (s, Inl e) \<Rightarrow> (d\<lparr>d_store := s\<rparr>, Inl (DVerifier e))
           | (s, Inr r) \<Rightarrow>
               (let d' = d\<lparr>d_store := s\<rparr>;
                    complete = (completeness (rec_capabilities r) = Complete);
                    data = jobj [(''recordingId'', jstr (rec_id r)), (''testId'', jstr (rec_test_id r)),
                       (''revision'', jstr (rec_revision r)), (''events'', jnat (length (rec_events r)))]
                in (d', Inr (if complete then 0 else 4,
                     (make_envelope w d' (if complete then Ok else Partial) None data
                       (if complete then [] else [make_diagnostic ''WALARU_RECORDING_PARTIAL'' ''warning''
                          ''recording observed an unsupported boundary; inspect capabilities'']))
                       \<lparr>capabilities := rec_capabilities r\<rparr>)))))"

section \<open>Explaining\<close>

definition EXPLAIN_RECORDING_BUDGET :: nat where "EXPLAIN_RECORDING_BUDGET = 120 * 1000000000"

definition recording_summary :: "recording \<Rightarrow> json" where
  "recording_summary r = jobj
     [(''id'', jstr (rec_id r)), (''testId'', jstr (rec_test_id r)), (''revision'', jstr (rec_revision r)),
      (''events'', jnat (length (rec_events r))), (''capabilities'', capabilities_json (rec_capabilities r))]"

definition explanation :: "failure_record \<Rightarrow> failure_analysis \<Rightarrow> json \<Rightarrow> json" where
  "explanation f a recording = jobj
     [(''failure'', failure_json f), (''analysis'', analysis_json a), (''recording'', recording)]"

text \<open>One recording of a failure within the remaining budget, in nanoseconds; the verifier's
  timeout counts milliseconds.\<close>

definition record_failure ::
  "world \<Rightarrow> runtime_artifacts \<Rightarrow> nat \<Rightarrow> nat \<Rightarrow> string \<Rightarrow> store \<Rightarrow> store \<times> json \<times> bool" where
  "record_failure w a k remaining test_id s =
     (case record_with_options ((verifier_env a (w_recording w k))\<lparr>ve_timeout := remaining div 1000000\<rparr>) test_id False s of
        (s', Inr r) \<Rightarrow> (s', recording_summary r, False)
      | (s', Inl e) \<Rightarrow> (s', jobj [(''error'', jstr (verifier_text w e))],
          (case e of Timeout _ \<Rightarrow> True | _ \<Rightarrow> False)))"

text \<open>The explanations of the failures from the \<open>k\<close>-th on, and whether the budget ran out.  The
  clock is read before every failure when the artifacts are there, and again before its recording.\<close>

fun explain_loop ::
  "world \<Rightarrow> (verifier_error + runtime_artifacts) \<Rightarrow> time_budget \<Rightarrow> nat \<Rightarrow> string list \<Rightarrow> bool \<Rightarrow> store
     \<Rightarrow> store \<times> (daemon_error + (json list \<times> bool))" where
  "explain_loop w arts budget k [] exhausted s = (s, Inr ([], exhausted))"
| "explain_loop w arts budget k (i # ids) exhausted s =
     (case arts of
        Inr a \<Rightarrow>
          if remaining_at budget (w_clock w (2 * k + 1)) = None then (s, Inr ([], True))
          else (case dstore (failure (w_codec w) s i) of
              Inl e \<Rightarrow> (s, Inl e)
            | Inr None \<Rightarrow> explain_loop w arts budget (k + 1) ids exhausted s
            | Inr (Some f) \<Rightarrow>
                (case analysed w s f of
                   Inl e \<Rightarrow> (s, Inl e)
                 | Inr an \<Rightarrow>
                     (case remaining_at budget (w_clock w (2 * k + 2)) of
                        None \<Rightarrow> (s, Inr ([], True))
                      | Some remaining \<Rightarrow>
                          (case record_failure w a k remaining (fr_test_id f) s of
                             (s1, recording, late) \<Rightarrow>
                               (case explain_loop w arts budget (k + 1) ids (exhausted \<or> late) s1 of
                                  (s2, r) \<Rightarrow> (s2, map_sum id (map_prod (Cons (explanation f an recording)) id) r))))))
      | Inl e \<Rightarrow>
          (case dstore (failure (w_codec w) s i) of
             Inl e' \<Rightarrow> (s, Inl e')
           | Inr None \<Rightarrow> explain_loop w arts budget (k + 1) ids exhausted s
           | Inr (Some f) \<Rightarrow>
               (case analysed w s f of
                  Inl e' \<Rightarrow> (s, Inl e')
                | Inr an \<Rightarrow>
                    (case explain_loop w arts budget (k + 1) ids exhausted s of
                       (s2, r) \<Rightarrow> (s2, map_sum id
                          (map_prod (Cons (explanation f an (jobj [(''error'', jstr (verifier_text w e))]))) id) r)))))"

definition failure_ids_of :: "json \<Rightarrow> string list" where
  "failure_ids_of v = (case Option.bind (json_get v ''failures'') as_array of
      None \<Rightarrow> [] | Some xs \<Rightarrow> List.map_filter as_str xs)"

definition build_failure :: "json \<Rightarrow> json" where
  "build_failure data = jobj
     [(''summary'', jstr ''The build or test worker failed before a structured test failure was captured.''),
      (''logFile'', unwrap_or (json_get data ''logFile'') JNull),
      (''suggestions'', JArray (map JString
         [''Open the worker log for the compiler, build configuration, or launcher error.'',
          ''Run `walaru doctor` when the log reports a missing runtime or build tool.'']))]"

definition explained_envelope :: "world \<Rightarrow> daemon \<Rightarrow> int \<Rightarrow> envelope \<Rightarrow> nat \<Rightarrow> json list \<Rightarrow> bool \<Rightarrow> envelope" where
  "explained_envelope w d ec e wanted explanations exhausted =
     (make_envelope w d (env_status e) (env_run_id e)
        (jobj [(''verification'', env_data e), (''explanations'', JArray explanations),
           (''omittedFailures'', jnat (wanted - length explanations)),
           (''recordingBudgetExhausted'', JBool exhausted),
           (''buildFailure'', if ec = 1 \<and> explanations = [] then build_failure (env_data e) else JNull)])
        (diagnostics e @ (if exhausted then [make_diagnostic ''WALARU_EXPLAIN_BUDGET'' ''warning''
           ''the bounded recording budget elapsed; omitted failures remain available through failure and record commands'']
           else [])))
       \<lparr>env_revision := env_revision e, capabilities := capabilities e, next_actions := next_actions e\<rparr>"

definition explain_response :: "world \<Rightarrow> daemon \<Rightarrow> json \<Rightarrow> handled" where
  "explain_response w d v =
     (case verify_response w d v of
        (d1, Inl e) \<Rightarrow> (d1, Inl e)
      | (d1, Inr (ec, e)) \<Rightarrow>
          (let ids = failure_ids_of (env_data e);
               maximum = clamp_nat (unwrap_or (get_u64 v ''maxFailures'') 5) 1 20;
               budget = starting_at (w_clock w 0) EXPLAIN_RECORDING_BUDGET in
           (case explain_loop w (discover (fst (w_attempt w))) budget 0 (take maximum ids) False (d_store d1) of
              (s, Inl err) \<Rightarrow> (d1\<lparr>d_store := s\<rparr>, Inl err)
            | (s, Inr (explanations, exhausted)) \<Rightarrow>
                (let d2 = d1\<lparr>d_store := s\<rparr> in
                 (d2, Inr (ec, explained_envelope w d2 ec e (length ids) explanations exhausted))))))"

section \<open>Replaying\<close>

definition recording_missing :: "world \<Rightarrow> daemon \<Rightarrow> string \<Rightarrow> response" where
  "recording_missing w d rid =
     (2, error_envelope w d (jobj [(''recordingId'', jstr rid)]) ''WALARU_RECORDING_NOT_FOUND''
        (''recording `'' @ rid @ ''` was not found''))"

text \<open>The fresh execution that verifies an event, and its response; \<open>extra\<close> are the fields of the
  data beside the run.\<close>

definition replay_response ::
  "world \<Rightarrow> daemon \<Rightarrow> string \<Rightarrow> recording \<Rightarrow> string \<Rightarrow> (string \<times> json) list \<Rightarrow> handled" where
  "replay_response w d rid r event_id extra =
     (case discover (fst (w_attempt w)) of
        Inl e \<Rightarrow> (d, Inr (replay_verification_failure w d rid (rec_capabilities r) e))
      | Inr a \<Rightarrow>
          (case verify_replay_event (verifier_env a (snd (w_attempt w))) (w_replay_tree w) r event_id (d_store d) of
             (s, Inl e) \<Rightarrow>
               (let d' = d\<lparr>d_store := s\<rparr> in (d', Inr (replay_verification_failure w d' rid (rec_capabilities r) e)))
           | (s, Inr run_id) \<Rightarrow>
               (let d' = d\<lparr>d_store := s\<rparr> in
                (d', Inr (0, (make_envelope w d' Ok (Some run_id)
                   (jobj ([(''recordingId'', jstr rid), (''replayRunId'', jstr run_id), (''verified'', JBool True)] @ extra)) [])
                     \<lparr>capabilities := rec_capabilities r\<rparr>)))))"

definition replay_at :: "world \<Rightarrow> daemon \<Rightarrow> json \<Rightarrow> query_options \<Rightarrow> handled" where
  "replay_at w d v q =
     (let rid = command_string v ''recordingId'' in
      case dstore (recording_of (w_codec w) (d_store d) rid) of
        Inl e \<Rightarrow> (d, Inl e)
      | Inr None \<Rightarrow> (d, Inr (recording_missing w d rid))
      | Inr (Some r) \<Rightarrow>
          if completeness (rec_capabilities r) \<noteq> Complete then (d, Inr (capability_failure w d (rec_capabilities r)))
          else (let event_id = unwrap_or (query_at q) [] in
            case List.find (\<lambda>e. ev_id e = event_id) (rec_events r) of
              None \<Rightarrow> (d, Inr (2, error_envelope w d
                (jobj [(''recordingId'', jstr rid), (''eventId'', jstr event_id)]) ''WALARU_EVENT_NOT_FOUND''
                (''event `'' @ event_id @ ''` is not present in `'' @ rid @ ''`'')))
            | Some e \<Rightarrow> replay_response w d rid r (ev_id e) [(''event'', event_json e)]))"

definition step_kind_of :: "string \<Rightarrow> step_kind option" where
  "step_kind_of s =
     (if s = ''line'' then Some StepLine else if s = ''call'' then Some StepCall
      else if s = ''write'' then Some StepWrite else None)"

definition reverse_request_of :: "json \<Rightarrow> reverse_request" where
  "reverse_request_of v =
     \<lparr>from_event_id = command_string v ''from'',
      step = Option.bind (get_str v ''step'') step_kind_of,
      until = Option.bind (get_str v ''until'') parse_source_target,
      watch = get_str v ''watch''\<rparr>"

definition reverse_response :: "world \<Rightarrow> daemon \<Rightarrow> json \<Rightarrow> handled" where
  "reverse_response w d v =
     (let rid = command_string v ''recordingId'' in
      case dstore (recording_of (w_codec w) (d_store d) rid) of
        Inl e \<Rightarrow> (d, Inl e)
      | Inr None \<Rightarrow> (d, Inr (recording_missing w d rid))
      | Inr (Some r) \<Rightarrow>
          (case jvm_reverse r (reverse_request_of v) of
             Inr found \<Rightarrow> replay_response w d rid r (ev_id (out_event found))
               [(''backend'', jstr (out_backend found)), (''event'', event_json (out_event found))]
           | Inl (UnsupportedCapability _ _) \<Rightarrow> (d, Inr (capability_failure w d (rec_capabilities r)))
           | Inl e \<Rightarrow> (d, Inr (4, make_envelope w d Unsupported None (jobj [(''recordingId'', jstr rid)])
               [make_diagnostic ''WALARU_REPLAY_POSITION'' ''error'' (w_replay_text w e)]))))"

section \<open>Dispatch\<close>

definition command_response :: "world \<Rightarrow> daemon \<Rightarrow> string \<Rightarrow> json \<Rightarrow> query_options \<Rightarrow> handled" where
  "command_response w d c v q =
     (if c = ''status'' then (d, Inr (status_response w d))
      else if c = ''stop'' then stop_response w d
      else if c = ''cancel'' then cancel_response w d
      else if c = ''doctor'' then (d, Inr (doctor w (fst (w_attempt w)) d))
      else if c = ''verify'' then verify_response w d v
      else if c = ''explain'' then explain_response w d v
      else if c = ''tests'' then (d, tests_response w d q)
      else if c = ''failure'' then (d, failure_response w d v)
      else if c = ''impact'' then (d, Inr (impact_response w d v))
      else if c = ''coverage'' then (d, coverage_response w d v q)
      else if c = ''trace'' then (d, trace_response w d v q)
      else if c = ''values'' then (d, values_response w d v)
      else if c = ''record'' then record_response w d v
      else if c = ''replay'' then replay_at w d v q
      else if c = ''reverse'' then reverse_response w d v
      else (d, Inr (2, error_envelope w d (jobj [(''command'', jstr c)]) ''WALARU_UNKNOWN_COMMAND''
        (''unknown daemon command `'' @ c @ ''`''))))"

text \<open>The field mask and the size limit of a handled command.\<close>

definition present :: "world \<Rightarrow> query_options \<Rightarrow> response \<Rightarrow> response" where
  "present w q r =
     (case r of (ec, e) \<Rightarrow>
      (case enforce_response_limit (w_envelope_len w) (e\<lparr>env_data := apply_field_mask (env_data e) (mask_fields q)\<rparr>)
          (query_max_bytes q) of
         (e', limited) \<Rightarrow> (if limited then 4 else ec, e')))"

text \<open>A query of a revision that is not the current one.\<close>

definition revision_check :: "world \<Rightarrow> daemon \<Rightarrow> string \<Rightarrow> query_options \<Rightarrow> daemon_error + response option" where
  "revision_check w d c q =
     (case query_at q of
        None \<Rightarrow> Inr None
      | Some wanted \<Rightarrow>
          if c = ''replay'' then Inr None
          else (case capture (w_hashes w) (w_query_tree w) of
              Inl e \<Rightarrow> Inl (DWorkspace e)
            | Inr current \<Rightarrow>
                if wanted = revision current then Inr None
                else Inr (Some (4, make_envelope w d (if starts_with wanted ''rev-'' then Stale else Unsupported) None
                  (jobj [(''requestedAt'', jstr wanted), (''currentRevision'', jstr (revision current))])
                  [make_diagnostic ''WALARU_QUERY_REVISION'' ''error''
                    ''historical query snapshots are unavailable; query the current revision'']))))"

definition dispatch :: "world \<Rightarrow> daemon \<Rightarrow> rpc_request \<Rightarrow> handled" where
  "dispatch w d req =
     (if req_schema_version req \<noteq> 1 then (d, Inr (2, error_envelope w d (jobj [(''supportedSchemaVersion'', jnat 1)])
        ''WALARU_SCHEMA_VERSION'' (''wire schema '' @ show_nat (req_schema_version req) @ '' is unsupported; expected 1'')))
      else (case w_canonicalize w (workspace_root req) of
        None \<Rightarrow> (d, Inl (DIo ''canonicalize''))
      | Some r \<Rightarrow>
          if r \<noteq> root (d_layout d) then (d, Inr (2, error_envelope w d (jobj []) ''WALARU_WORKSPACE_MISMATCH''
            ''request workspace does not match the daemon worktree''))
          else (case w_payload w (payload_json req) of
              None \<Rightarrow> (d, Inl DJson)
            | Some payload \<Rightarrow>
                (let q = bounded (query payload) in
                 case revision_check w d (command req) q of
                   Inl e \<Rightarrow> (d, Inl e)
                 | Inr (Some r) \<Rightarrow> (d, Inr r)
                 | Inr None \<Rightarrow>
                     (case command_response w d (command req) (command_value payload) q of
                        (d', Inl e) \<Rightarrow> (d', Inl e)
                      | (d', Inr r) \<Rightarrow> (d', Inr (present w q r)))))))"

definition handle :: "world \<Rightarrow> daemon \<Rightarrow> rpc_request \<Rightarrow> daemon \<times> rpc_response" where
  "handle w d req =
     (case dispatch w d req of (d', r) \<Rightarrow>
       (let (ec, e) = (case r of
              Inr x \<Rightarrow> x
            | Inl err \<Rightarrow> (3, error_envelope w d' (jobj []) ''WALARU_INTERNAL'' (w_error_text w err)))
        in (d', \<lparr>resp_schema_version = 1, resp_request_id = request_id req, exit_code = ec,
              envelope_json = unwrap_or (w_envelope_json w e) ''{}''\<rparr>)))"

text \<open>\<^verbatim>\<open>Daemon::open\<close>: the store is opened, which closes orphaned runs, and pruned.\<close>

definition daemon_open :: "hashes \<Rightarrow> codec \<Rightarrow> store \<Rightarrow> string \<Rightarrow> string \<Rightarrow> int \<Rightarrow> int \<Rightarrow> daemon" where
  "daemon_open h c s r session opened_at pruned_at =
     daemon_new (layout_new h r) (fst (prune c (store_open c s default_retention opened_at) pruned_at)) session"

end
