(* ===== verification/Daemon_Responses.thy ===== *)
theory Daemon_Responses
  imports Daemon
begin

text \<open>
  What the responses of the daemon guarantee: exit codes and statuses agree for every request, a
  replay is confirmed only after a matching fresh execution, and every request keeps the store
  well formed.
\<close>

section \<open>Exit codes and statuses\<close>

definition agree :: "response \<Rightarrow> bool" where
  "agree r = (case r of (ec, e) \<Rightarrow> (case env_status e of
      Ok \<Rightarrow> ec = 0 | Failure \<Rightarrow> ec = 1 | Error \<Rightarrow> ec = 2 \<or> ec = 3
    | Stale \<Rightarrow> ec = 4 | Unsupported \<Rightarrow> ec = 4 | Partial \<Rightarrow> ec = 0 \<or> ec = 4))"

named_theorems agreeing

lemma make_envelope_status [simp]: "env_status (make_envelope w d st i data ds) = st"
  by (simp add: make_envelope_def)

lemma error_envelope_status [simp]: "env_status (error_envelope w d data c msg) = Error"
  by (simp add: error_envelope_def)

lemma ok_envelope_status [simp]: "env_status (ok_envelope w d data) = Ok"
  by (simp add: ok_envelope_def)

lemma with_page_status [simp]: "env_status (with_page e q n l) = env_status e"
  by (simp add: with_page_def)

lemma agree_simp [simp]: "agree (ec, e) = (case env_status e of
      Ok \<Rightarrow> ec = 0 | Failure \<Rightarrow> ec = 1 | Error \<Rightarrow> ec = 2 \<or> ec = 3
    | Stale \<Rightarrow> ec = 4 | Unsupported \<Rightarrow> ec = 4 | Partial \<Rightarrow> ec = 0 \<or> ec = 4)"
  by (simp add: agree_def)

text \<open>Every response of a handler agrees.\<close>

definition agreeable :: "daemon_error + response \<Rightarrow> bool" where
  "agreeable r = (case r of Inl _ \<Rightarrow> True | Inr x \<Rightarrow> agree x)"

lemma agreeable_simps [simp]: "agreeable (Inl e)" "agreeable (Inr x) = agree x"
  by (simp_all add: agreeable_def)

lemma agreeable_rbind: "(\<And>x. r = Inr x \<Longrightarrow> agreeable (f x)) \<Longrightarrow> agreeable (rbind r f)"
  by (cases r) simp_all

lemma agree_failures [agreeing]:
  "agree (verification_usage w d c msg)" "agree (superseded_verification w d)" "agree (capability_failure w d caps)"
  "agree (replay_verification_failure w d i caps e)" "agree (recording_missing w d i)"
  by (simp_all add: verification_usage_def superseded_verification_def capability_failure_def
      replay_verification_failure_def recording_missing_def split: list.split prod.split)

lemma agree_queries [agreeing]:
  "agree (status_response w d)" "agree (impact_response w d v)" "agree (doctor w h d)"
  "agreeable (tests_response w d q)" "agreeable (failure_response w d v)" "agreeable (coverage_response w d v q)"
  "agreeable (trace_response w d v q)" "agreeable (values_response w d v)"
  by (simp_all add: status_response_def impact_response_def doctor_def tests_response_def failure_response_def
      coverage_response_def trace_response_def values_response_def Let_def agreeable_rbind split: prod.split)

lemma agree_controls [agreeing]:
  "agreeable (snd (stop_response w d))" "agreeable (snd (cancel_response w d))"
  by (simp_all add: stop_response_def cancel_response_def Let_def split: prod.split)

lemma verify_exit_code:
  assumes "verify env q s = (s', Inr out)"
  shows "vo_exit_code out = exit_code_of (vo_status out)"
proof -
  from assms [unfolded verify_def] obtain r before s1 where
    alt: "try_cache env q None before s = (s', Inr (Some out)) \<or> run_verification env q None r before s1 = (s', Inr out)"
    by (rule verify_internal_Inr)
  from alt show ?thesis
  proof
    assume "try_cache env q None before s = (s', Inr (Some out))"
    from try_cache_cached [OF this] show ?thesis by (simp add: exit_code_of_def)
  next
    assume "run_verification env q None r before s1 = (s', Inr out)"
    then show ?thesis by (auto elim: run_verification_Inr)
  qed
qed

lemma conclude_verification_Verified:
  "conclude_verification vid d b r = (d', Verified out rq) \<Longrightarrow> r = Inr out \<and> rq = b"
  by (auto simp: conclude_verification_def split: sum.splits verifier_error.splits)

lemma verify_alone_exit_code:
  assumes "verify_alone h1 e1 h2 e2 q newer d = (d', Verified out rq)"
  shows "vo_exit_code out = exit_code_of (vo_status out)"
  using assms
  by (auto simp: verify_alone_def second_attempt_def run_once_def split: prod.splits if_splits sum.splits
      dest!: conclude_verification_Verified dest: verify_exit_code)

lemma agree_verify [agreeing]: "agreeable (snd (verify_response w d v))"
proof -
  have "agreeable (reply_response w d' reply)"
    if "verify_alone h1 e1 h2 e2 q newer d = (d', reply)" for h1 e1 h2 e2 q newer d' reply
  proof (cases reply)
    case (Verified out rq)
    then have "vo_exit_code out = exit_code_of (vo_status out)" using verify_alone_exit_code that by blast
    then show ?thesis
      using Verified by (simp add: reply_response_def verified_envelope_def outcome_status_def exit_code_of_def Let_def
          split: option.split run_status.split)
  qed (simp_all add: reply_response_def agreeing)
  then show ?thesis
    by (simp add: verify_response_def agreeing split: sum.split prod.split)
qed

lemma agree_explain [agreeing]: "agreeable (snd (explain_response w d v))"
proof -
  obtain d1 r where v: "verify_response w d v = (d1, r)" by force
  have "agreeable r" using agree_verify [of w d v] v by simp
  then show ?thesis
    by (cases r) (auto simp: explain_response_def v explained_envelope_def Let_def split: prod.split sum.split)
qed

lemma agree_record [agreeing]: "agreeable (snd (record_response w d v))"
  by (simp add: record_response_def Let_def split: sum.split prod.split)

lemma agree_replay_response: "agreeable (snd (replay_response w d i r e extra))"
  by (simp add: replay_response_def agreeing Let_def split: sum.split prod.split)

lemma agree_replay [agreeing]:
  "agreeable (snd (replay_at w d v q))" "agreeable (snd (reverse_response w d v))"
  by (simp_all add: replay_at_def reverse_response_def agreeing agree_replay_response Let_def
      split: sum.split option.split replay_error.split)

lemma agree_command: "agreeable (snd (command_response w d c v q))"
  by (simp add: command_response_def agreeing)

lemma agree_present: "agree r \<Longrightarrow> agree (present w q r)"
  by (cases r) (simp add: present_def enforce_response_limit_def split: option.split)

lemma agree_revision_check: "revision_check w d c q = Inr (Some r) \<Longrightarrow> agree r"
  by (auto simp: revision_check_def split: option.splits sum.splits if_splits)

text \<open>How a request comes to a response: it is rejected, refused for its revision, or handled.\<close>

lemma dispatch_cases:
  obtains (rejected) e where "dispatch w d req = (d, Inl e)"
  | (refused) e where "dispatch w d req = (d, Inr (2, e))" "env_status e = Error"
  | (revision) payload :: request_payload and r :: response where "revision_check w d (command req) (bounded (query payload)) = Inr (Some r)"
      "dispatch w d req = (d, Inr r)"
  | (handled) payload d' r where "w_payload w (payload_json req) = Some payload"
      "command_response w d (command req) (command_value payload) (bounded (query payload)) = (d', r)"
      "dispatch w d req = (d', map_sum id (present w (bounded (query payload))) r)"
proof -
  consider "req_schema_version req \<noteq> 1" | "req_schema_version req = 1" "w_canonicalize w (workspace_root req) = None"
    | r where "req_schema_version req = 1" "w_canonicalize w (workspace_root req) = Some r" "r \<noteq> root (d_layout d)"
    | "req_schema_version req = 1" "w_canonicalize w (workspace_root req) = Some (root (d_layout d))"
    by fastforce
  then show thesis
  proof cases
    case 1
    then have "\<exists>e. dispatch w d req = (d, Inr (2, e)) \<and> env_status e = Error" by (simp add: dispatch_def)
    then show thesis using refused by blast
  next
    case 2 then show thesis by (intro rejected) (simp add: dispatch_def)
  next
    case (3 r)
    then have "\<exists>e. dispatch w d req = (d, Inr (2, e)) \<and> env_status e = Error" by (simp add: dispatch_def)
    then show thesis using refused by blast
  next
    case 4
    show thesis
    proof (cases "w_payload w (payload_json req)")
      case None
      then show thesis using 4 by (intro rejected) (simp add: dispatch_def)
    next
      case (Some payload)
      let ?q = "bounded (query payload)"
      note d = dispatch_def [of w d req] 4 Some Let_def
      show thesis
      proof (cases "revision_check w d (command req) ?q")
        case (Inl e)
        then show thesis by (intro rejected) (simp add: d)
      next
        case check: (Inr x)
        show thesis
        proof (cases x)
          case (Some r)
          then show thesis using check by (intro revision) (simp_all add: d)
        next
          case None
          obtain d' r where c: "command_response w d (command req) (command_value payload) ?q = (d', r)" by force
          then show thesis
            using check None by (intro handled [OF Some c]) (simp add: d split: sum.split)
        qed
      qed
    qed
  qed
qed

lemma agree_dispatch: "dispatch w d req = (d', Inr (ec, e)) \<Longrightarrow> agree (ec, e)"
proof -
  assume assm: "dispatch w d req = (d', Inr (ec, e))"
  show "agree (ec, e)"
  proof (cases rule: dispatch_cases [of w d req])
    case (handled payload d1 r)
    then obtain x where "r = Inr x" "(ec, e) = present w (bounded (query payload)) x"
      using assm by (cases r) auto
    then show ?thesis using agree_command handled(2) agree_present by (metis agreeable_simps(2) snd_conv)
  next
    case (revision payload r)
    then show ?thesis using assm agree_revision_check by fastforce
  qed (use assm in auto)
qed

text \<open>The envelope of an answer: the one of the command, or the report of an internal error.\<close>

lemma handle_cases:
  assumes "handle w d req = (d', resp)"
  obtains (answered) ec e where "dispatch w d req = (d', Inr (ec, e))" "exit_code resp = ec"
      "envelope_json resp = unwrap_or (w_envelope_json w e) ''{}''"
  | (internal) err where "dispatch w d req = (d', Inl err)" "exit_code resp = 3"
      "envelope_json resp = unwrap_or (w_envelope_json w
        (error_envelope w d' (jobj []) ''WALARU_INTERNAL'' (w_error_text w err))) ''{}''"
  using assms by (auto simp: handle_def Let_def split: prod.splits sum.splits)

text \<open>\<^bold>\<open>C12\<close> Every request is answered, internal errors included, with an envelope whose status agrees with the
  exit code: zero only with a good or a merely partial result, one only for a failed verification, four
  for everything stale, unsupported or truncated, two and three only for errors, and always three for
  an internal one.  (Should the envelope itself fail to encode, the text is an empty object.)\<close>

theorem exit_codes_and_statuses_agree:
  "case handle w d req of (d', resp) \<Rightarrow>
     resp_request_id resp = request_id req
   \<and> (\<exists>e. envelope_json resp = unwrap_or (w_envelope_json w e) ''{}''
        \<and> (case env_status e of
             Ok \<Rightarrow> exit_code resp = 0 | Failure \<Rightarrow> exit_code resp = 1
           | Error \<Rightarrow> exit_code resp = 2 \<or> exit_code resp = 3
           | Stale \<Rightarrow> exit_code resp = 4 | Unsupported \<Rightarrow> exit_code resp = 4
           | Partial \<Rightarrow> exit_code resp = 0 \<or> exit_code resp = 4)
        \<and> (case snd (dispatch w d req) of Inl err \<Rightarrow> env_status e = Error \<and> exit_code resp = 3
           | Inr (ec, sent) \<Rightarrow> e = sent \<and> exit_code resp = ec))"
proof -
  obtain d' resp where h: "handle w d req = (d', resp)" by fastforce
  have "resp_request_id resp = request_id req"
    using h by (auto simp: handle_def Let_def split: prod.splits sum.splits)
  moreover from h have "\<exists>e. envelope_json resp = unwrap_or (w_envelope_json w e) ''{}'' \<and> agree (exit_code resp, e)
      \<and> (case snd (dispatch w d req) of Inl err \<Rightarrow> env_status e = Error \<and> exit_code resp = 3
         | Inr (ec, sent) \<Rightarrow> e = sent \<and> exit_code resp = ec)"
  proof (cases rule: handle_cases)
    case (answered ec e)
    then show ?thesis using agree_dispatch [OF answered(1)] by auto
  next
    case (internal err)
    then show ?thesis by (intro exI conjI) (assumption, simp_all add: error_envelope_def make_envelope_def)
  qed
  ultimately show ?thesis by (simp add: h)
qed

section \<open>The store across requests\<close>

text \<open>Every verifier a request may start uses the codec of the store and reads events that satisfy
  \<open>ok\<close>.\<close>

definition env_ok :: "codec \<Rightarrow> (event \<Rightarrow> bool) \<Rightarrow> verify_env \<Rightarrow> bool" where
  "env_ok c ok env = (ve_codec env = c \<and> events_ok ok env)"

definition world_ok :: "codec \<Rightarrow> (event \<Rightarrow> bool) \<Rightarrow> world \<Rightarrow> bool" where
  "world_ok c ok w = (env_ok c ok (snd (w_first w)) \<and> env_ok c ok (snd (w_second w))
     \<and> env_ok c ok (snd (w_attempt w)) \<and> (\<forall>k. env_ok c ok (w_recording w k)))"

lemma env_ok_update [simp]:
  "env_ok c ok (env\<lparr>ve_artifacts := a\<rparr>) = env_ok c ok env" "env_ok c ok (env\<lparr>ve_timeout := t\<rparr>) = env_ok c ok env"
  by (simp_all add: env_ok_def events_ok_def ingest_env_of_def)

lemma env_ok_verifier [simp]: "env_ok c ok (verifier_env a env) = env_ok c ok env"
  by (simp add: verifier_env_def)

lemma cancel_active_store: "d_store (fst (cancel_active_verification d)) = d_store d"
  by (simp add: cancel_active_verification_def cancel_token_def split: option.split prod.split)

lemma announce_store [simp]: "d_store (announce newer d) = d_store d"
  by (simp add: announce_def cancel_active_store)

lemma start_verification_store: "start_verification d = (d', vid, t) \<Longrightarrow> d_store d' = d_store d"
  by (auto simp: start_verification_def)

lemma clear_active_store [simp]: "d_store (clear_active_verification v d) = d_store d"
  by (simp add: clear_active_verification_def split: option.split prod.split)

lemma conclude_verification_store [simp]: "d_store (fst (conclude_verification v d b r)) = d_store d"
  by (simp add: conclude_verification_def)

lemma control_store: "d_store (fst (stop_response w d)) = d_store d" "d_store (fst (cancel_response w d)) = d_store d"
  using cancel_active_store [of "d\<lparr>generation := generation d + 1\<rparr>"]
  by (simp_all add: stop_response_def cancel_response_def cancel_verification_def Let_def case_prod_beta)

context verification_invariant
begin

lemma verify_keeps: "\<lbrakk>env_ok c ok env; P s\<rbrakk> \<Longrightarrow> P (fst (verify env q s))"
  unfolding verify_def env_ok_def by (auto intro: verify_internal_keeps)

lemma run_once_keeps: "\<lbrakk>env_ok c ok env; P s\<rbrakk> \<Longrightarrow> P (fst (run_once h env q s))"
  by (auto simp: run_once_def intro: verify_keeps split: sum.split)

lemma second_attempt_keeps: "\<lbrakk>env_ok c ok env; P (d_store d)\<rbrakk> \<Longrightarrow> P (d_store (fst (second_attempt h env q vid d)))"
  using verify_keeps [of "env\<lparr>ve_artifacts := a\<rparr>" "d_store d" q for a]
  by (auto simp: second_attempt_def split: sum.split prod.split) (metis fst_conv)

lemma verify_alone_keeps:
  assumes "env_ok c ok e1" "env_ok c ok e2" "P (d_store d)"
  shows "P (d_store (fst (verify_alone h1 e1 h2 e2 q newer d)))"
proof -
  obtain d1 vid t where s: "start_verification (announce newer d) = (d1, vid, t)" by (metis prod_cases3)
  obtain s2 r where r: "run_once h1 e1 q (d_store d1) = (s2, r)" by force
  have "P s2" using run_once_keeps [OF assms(1), of "d_store d" h1 q] start_verification_store [OF s] assms(3) r by simp
  then show ?thesis
    using second_attempt_keeps [OF assms(2), of "d1\<lparr>d_store := s2\<rparr>" h2 q vid]
    by (simp add: verify_alone_def s r)
qed

lemma verify_response_keeps: "\<lbrakk>world_ok c ok w; P (d_store d)\<rbrakk> \<Longrightarrow> P (d_store (fst (verify_response w d v)))"
  using verify_alone_keeps [of "snd (w_first w)" "snd (w_second w)" d]
  by (auto simp: verify_response_def world_ok_def split: sum.split prod.split) (metis fst_conv)

lemma record_env_keeps: "\<lbrakk>env_ok c ok env; P s\<rbrakk> \<Longrightarrow> P (fst (record_with_options env t io s))"
  unfolding env_ok_def by (auto intro: record_keeps)

lemma record_response_keeps: "\<lbrakk>world_ok c ok w; P (d_store d)\<rbrakk> \<Longrightarrow> P (d_store (fst (record_response w d v)))"
  using record_env_keeps [of "verifier_env a (snd (w_attempt w))" "d_store d" t io for a t io]
  by (auto simp: record_response_def world_ok_def Let_def split: sum.split prod.split) (metis fst_conv)+

lemma record_failure_keeps: "\<lbrakk>world_ok c ok w; P s\<rbrakk> \<Longrightarrow> P (fst (record_failure w a k n t s))"
  using record_env_keeps [of "(verifier_env a (w_recording w k))\<lparr>ve_timeout := n div 1000000\<rparr>" s t False]
  by (auto simp: record_failure_def world_ok_def split: sum.split prod.split)

lemma explain_loop_keeps:
  assumes "world_ok c ok w"
  shows "P s \<Longrightarrow> P (fst (explain_loop w arts budget k ids exhausted s))"
proof (induction ids arbitrary: k exhausted s)
  case (Cons i ids)
  have rec: "P (fst (record_failure w a k n t s))" for a n t
    by (rule record_failure_keeps [OF assms Cons.prems])
  show ?case
    using Cons by (auto simp: case_prod_beta rec split: sum.split option.split)
qed simp

lemma explain_response_keeps:
  assumes "world_ok c ok w" "P (d_store d)"
  shows "P (d_store (fst (explain_response w d v)))"
proof -
  obtain d1 r where v: "verify_response w d v = (d1, r)" by force
  have p1: "P (d_store d1)" using verify_response_keeps [OF assms, of v] v by simp
  show ?thesis
  proof (cases r)
    case (Inr x)
    then show ?thesis
      using explain_loop_keeps [OF assms(1) p1]
      by (auto simp: explain_response_def v Let_def split: prod.split sum.split) (metis fst_conv)+
  qed (simp add: explain_response_def v p1)
qed

lemma replay_response_keeps:
  "\<lbrakk>world_ok c ok w; P (d_store d)\<rbrakk> \<Longrightarrow> P (d_store (fst (replay_response w d i r e extra)))"
proof -
  assume ok: "world_ok c ok w" "P (d_store d)"
  have "P (fst (verify_replay_event (verifier_env a (snd (w_attempt w))) (w_replay_tree w) r e (d_store d)))" for a
    using ok env_ok_verifier [of c ok a "snd (w_attempt w)"]
    by (auto simp: world_ok_def env_ok_def intro: replay_keeps)
  then show ?thesis
    using ok(2) by (auto simp: replay_response_def Let_def split: sum.split prod.split) (metis fst_conv)+
qed

lemma replay_commands_keep:
  assumes "world_ok c ok w" "P (d_store d)"
  shows "P (d_store (fst (replay_at w d v q)))" "P (d_store (fst (reverse_response w d v)))"
  using replay_response_keeps [OF assms] assms(2)
  by (auto simp: replay_at_def reverse_response_def Let_def split: sum.split option.split replay_error.split)

lemma command_response_keeps:
  assumes "world_ok c ok w" "P (d_store d)"
  shows "P (d_store (fst (command_response w d cmd v q)))"
  using assms(2) verify_response_keeps [OF assms] explain_response_keeps [OF assms] record_response_keeps [OF assms]
    replay_commands_keep [OF assms]
  by (simp add: command_response_def control_store)

lemma handle_keeps:
  assumes "world_ok c ok w" "P (d_store d)"
  shows "P (d_store (fst (handle w d req)))"
proof -
  have "P (d_store (fst (dispatch w d req)))"
  proof (cases rule: dispatch_cases [of w d req])
    case (handled payload d1 r)
    then show ?thesis
      using command_response_keeps [OF assms, of "command req" "command_value payload" "bounded (query payload)"] by simp
  qed (simp_all add: assms(2))
  then show ?thesis by (simp add: handle_def Let_def case_prod_beta)
qed

end

text \<open>The requests of a daemon one after the other, each in a world of its own.\<close>

fun serve :: "(world \<times> rpc_request) list \<Rightarrow> daemon \<Rightarrow> daemon" where
  "serve [] d = d"
| "serve ((w, req) # rest) d = serve rest (fst (handle w d req))"

text \<open>Every verifier of a world writes with the codec of the store and reads its stream with a parser that
  respects the limits of the JSON library.\<close>

definition world_reads :: "codec \<Rightarrow> world \<Rightarrow> bool" where
  "world_reads c w = (\<forall>env \<in> {snd (w_first w), snd (w_second w), snd (w_attempt w)} \<union> range (w_recording w).
     ve_codec env = c \<and> parser_ok env)"

lemma world_reads_ok: "world_reads c w \<Longrightarrow> world_ok c event_fits w"
  by (auto simp: world_reads_def world_ok_def env_ok_def intro: parser_ok_events)

text \<open>\<^bold>\<open>C7\<close> A daemon that opened a well formed store keeps it well formed through every sequence of
  requests, whatever they ask and whatever the workers write, floating point numbers included, and
  whatever the clock and the worktree do; of the JSON library it needs that a parsed value is ordered
  and within the recursion limit, and that what is written reads back up to the last digit of floating
  point numbers.\<close>

theorem daemon_keeps_store_wf:
  assumes "codec_ok c" "store_wf c s"
    "list_all (\<lambda>(w, _). world_reads c w) requests"
  shows "store_wf c (d_store (serve requests (daemon_open h c s r session t0 t1)))"
proof -
  have start: "store_wf c (d_store (daemon_open h c s r session t0 t1))"
    using store_wf_prune [OF store_wf_open [OF assms(2)]] assms(1) by (simp add: daemon_open_def daemon_new_def)
  have one: "store_wf c (d_store (fst (handle w d req)))"
    if "world_reads c w" "store_wf c (d_store d)" for w d req
    using wf_kept.handle_keeps [OF world_reads_ok [OF that(1)], of d req] that(2) assms(1) by blast
  have "store_wf c (d_store (serve requests d))" if "store_wf c (d_store d)" for d
    using assms(3) that by (induction requests d rule: serve.induct) (simp_all add: one)
  with start show ?thesis by blast
qed

section \<open>Confirmed replays\<close>

text \<open>The run of a replay is new to the store.\<close>

lemma replay_run_is_new:
  assumes "verify_internal env q (Some r) s = (s', Inr out)"
  shows "vo_run_id out \<notin> run_pk ` set (runs s)"
proof -
  obtain rt before where "run_verification env q (Some r) rt before s = (s', Inr out)"
    using assms by (auto simp: verify_internal_def try_cache_def cacheable_def split: sum.splits prod.splits)
  note run = this
  have "vo_run_id out = ve_run_id env" using run by (rule run_verification_Inr)
  moreover have "\<not> run_exists s (ve_run_id env)"
    using run by (auto simp: run_verification_def abind_Inr store_call_Inr begin_run_def split: sum.splits if_splits)
  ultimately show ?thesis by (simp add: run_exists_iff)
qed

lemma verify_replay_event_Inr:
  assumes "verify_replay_event env tree r event_id s = (s', Inr run_id)"
  obtains current pg where "capture_at env tree = Inr current" "revision current = rec_revision r"
    "events (ve_codec env) s' run_id None 100000 (64 * 1024 * 1024) = Inr pg"
    "verify_replayed_prefix r (items pg) event_id = Inr ()" "run_id \<notin> run_pk ` set (runs s)"
proof -
  obtain current out s1 pg where "capture_at env tree = Inr current" "revision current = rec_revision r"
    and v: "verify_internal env (full_request (rec_test_id r) (list_ex (\<lambda>i. starts_with (input_kind i) ''io.file.'') (inputs r)))
      (Some r) s = (s1, Inr out)"
    and "events (ve_codec env) s1 (vo_run_id out) None 100000 (64 * 1024 * 1024) = Inr pg"
    "verify_replayed_prefix r (items pg) event_id = Inr ()" "s' = s1" "run_id = vo_run_id out"
    using assms by (auto simp: verify_replay_event_def abind_Inr store_read_def split: sum.splits if_splits)
  with replay_run_is_new [OF v] show thesis by (intro that) simp_all
qed

lemma replay_response_confirmed:
  assumes "replay_response w d rid r event_id extra = (d', Inr (0, e))"
  obtains a run_id where "env_run_id e = Some run_id"
    "verify_replay_event (verifier_env a (snd (w_attempt w))) (w_replay_tree w) r event_id (d_store d)
       = (d_store d', Inr run_id)"
  using assms
  by (auto simp: replay_response_def replay_verification_failure_def make_envelope_def Let_def
      split: sum.splits prod.splits if_splits)

lemma present_zero:
  "present w q (ec, e) = (0, e') \<Longrightarrow> ec = 0 \<and> env_run_id e' = env_run_id e"
  by (auto simp: present_def enforce_response_limit_def split: option.splits if_splits)

text \<open>The event a request names: for a replay the recorded event with the queried identity, for a reverse
  request the nearest earlier event that matches it.\<close>

definition text_member :: "json \<Rightarrow> string \<Rightarrow> string" where
  "text_member v k = (case json_get v k of Some (JString x) \<Rightarrow> x | _ \<Rightarrow> [])"

definition wanted_position :: "json \<Rightarrow> reverse_request" where
  "wanted_position v = \<lparr>from_event_id = text_member v ''from'',
     step = map_of [(''line'', StepLine), (''call'', StepCall), (''write'', StepWrite)] (text_member v ''step''),
     until = (case json_get v ''until'' of Some (JString t) \<Rightarrow> parse_source_target t | _ \<Rightarrow> None),
     watch = (case json_get v ''watch'' of Some (JString t) \<Rightarrow> Some t | _ \<Rightarrow> None)\<rparr>"

definition requested_event :: "recording \<Rightarrow> string \<Rightarrow> request_payload \<Rightarrow> event \<Rightarrow> bool" where
  "requested_event r cmd payload x =
     (if cmd = ''replay''
      then x \<in> set (rec_events r) \<and> ev_id x = (case query_at (query payload) of Some i \<Rightarrow> i | None \<Rightarrow> [])
      else (let wanted = wanted_position (command_value payload); here = from_event_id wanted in
        \<exists>before between start after. rec_events r = before @ x # between @ start # after \<and> ev_id start = here
          \<and> list_all (\<lambda>y. ev_id y \<noteq> here) (before @ x # between)
          \<and> matches_request x wanted \<and> list_all (\<lambda>y. \<not> matches_request y wanted) between))"

lemma command_string_text: "command_string v k = text_member v k"
  by (simp add: command_string_def get_str_def text_member_def as_str_def split: option.splits json.splits)

lemma reverse_request_text: "reverse_request_of v = wanted_position v"
  unfolding reverse_request_of_def wanted_position_def command_string_text
  by (simp add: get_str_def text_member_def as_str_def step_kind_of_def split: option.splits json.splits)

lemma requested_by_reverse:
  "jvm_reverse r (reverse_request_of (command_value payload)) = Inr found \<Longrightarrow> cmd \<noteq> ''replay'' \<Longrightarrow>
     requested_event r cmd payload (out_event found)"
proof -
  assume r: "jvm_reverse r (reverse_request_of (command_value payload)) = Inr found" and c: "cmd \<noteq> ''replay''"
  from r have "nearest_match (rec_events r) (wanted_position (command_value payload)) (out_event found)"
    unfolding reverse_request_text by (auto simp: jvm_reverse_ok)
  with c show ?thesis by (simp only: requested_event_def nearest_match_def Let_def if_False)
qed

lemma replay_commands_confirmed:
  assumes "command_response w d cmd (command_value payload) (bounded (query payload)) = (d', Inr (0, e))"
    and "cmd = ''replay'' \<or> cmd = ''reverse''"
  obtains r x extra where "recording_of (w_codec w) (d_store d) (text_member (command_value payload) ''recordingId'') = Inr (Some r)"
    "requested_event r cmd payload x"
    "replay_response w d (text_member (command_value payload) ''recordingId'') r (ev_id x) extra = (d', Inr (0, e))"
proof -
  let ?v = "command_value payload" and ?q = "bounded (query payload)"
  have alt: "cmd = ''replay'' \<and> replay_at w d ?v ?q = (d', Inr (0, e))
      \<or> cmd \<noteq> ''replay'' \<and> reverse_response w d ?v = (d', Inr (0, e))"
    using assms by (auto simp: command_response_def)
  let ?rid = "text_member ?v ''recordingId''"
  have miss: "recording_missing w d ?rid \<noteq> (0, e)" "capability_failure w d caps \<noteq> (0, e)" for caps
    by (simp_all add: recording_missing_def capability_failure_def Let_def)
  obtain r where r: "recording_of (w_codec w) (d_store d) ?rid = Inr (Some r)"
  proof (cases "recording_of (w_codec w) (d_store d) ?rid")
    case (Inl er)
    then show thesis using alt by (simp add: replay_at_def reverse_response_def dstore_def Let_def command_string_text)
  next
    case (Inr found)
    then show thesis using alt miss(1) that
      by (cases found) (auto simp: replay_at_def reverse_response_def dstore_def Let_def command_string_text)
  qed
  have "\<exists>x extra. requested_event r cmd payload x \<and> replay_response w d ?rid r (ev_id x) extra = (d', Inr (0, e))"
    using alt
  proof (elim disjE conjE)
    assume cmd: "cmd = ''replay''" and rep: "replay_at w d ?v ?q = (d', Inr (0, e))"
    let ?i = "unwrap_or (query_at (query payload)) []"
    obtain x extra where x: "find (\<lambda>e. ev_id e = ?i) (rec_events r) = Some x"
      and resp: "replay_response w d ?rid r (ev_id x) extra = (d', Inr (0, e))"
      using rep miss by (auto simp: replay_at_def r dstore_def Let_def command_string_text bounded_def split: if_splits option.splits)
    have "requested_event r cmd payload x"
      using find_Some_in [OF x] cmd by (auto simp: requested_event_def unwrap_or_def split: option.splits)
    with resp show ?thesis by blast
  next
    assume cmd: "cmd \<noteq> ''replay''" and rev: "reverse_response w d ?v = (d', Inr (0, e))"
    obtain found extra where x: "jvm_reverse r (reverse_request_of ?v) = Inr found"
      and resp: "replay_response w d ?rid r (ev_id (out_event found)) extra = (d', Inr (0, e))"
      using rev miss by (auto simp: reverse_response_def r dstore_def Let_def command_string_text split: sum.splits replay_error.splits)
    from requested_by_reverse [OF x cmd] resp show ?thesis by blast
  qed
  with r show thesis using that by blast
qed

text \<open>\<^bold>\<open>C5\<close> A replay or reverse request is answered with success only for the stored recording it names, of
  the current revision, and only after a fresh run, whose stored events observably equal the recording
  up to the very event the request asks for: the queried one of a replay, the nearest earlier match
  of a reverse request.  The answer names that run.\<close>

theorem replay_confirmed_only_when_verified:
  assumes "dispatch w d req = (d', Inr (0, e))" "command req = ''replay'' \<or> command req = ''reverse''"
  shows "\<exists>payload r x t run_id current pg.
     w_payload w (payload_json req) = Some payload
   \<and> recording_of (w_codec w) (d_store d) (text_member (command_value payload) ''recordingId'') = Inr (Some r)
   \<and> requested_event r (command req) payload x
   \<and> capture (ve_hashes (snd (w_attempt w))) (w_replay_tree w) = Inr current \<and> revision current = rec_revision r
   \<and> env_run_id e = Some run_id \<and> run_id \<notin> run_pk ` set (runs (d_store d))
   \<and> events (ve_codec (snd (w_attempt w))) (d_store d') run_id None 100000 (64 * 1024 * 1024) = Inr pg
   \<and> validate_recording r = Inr () \<and> position (\<lambda>y. ev_id y = ev_id x) (rec_events r) = Some t
   \<and> map observable (take (Suc t) (rec_events r)) = map observable (take (Suc t) (items pg))"
proof (cases rule: dispatch_cases [of w d req])
  case (handled payload d1 r)
  then obtain e0 where c: "command_response w d (command req) (command_value payload) (bounded (query payload)) = (d', Inr (0, e0))"
    and e: "env_run_id e = env_run_id e0"
    using assms(1) present_zero by (cases r) (auto, metis present_zero)
  let ?rid = "text_member (command_value payload) ''recordingId''"
  obtain rc x extra where rc: "recording_of (w_codec w) (d_store d) ?rid = Inr (Some rc)" and x: "requested_event rc (command req) payload x"
    and rep: "replay_response w d ?rid rc (ev_id x) extra = (d', Inr (0, e0))"
    using c assms(2) by (rule replay_commands_confirmed)
  obtain a run_id where run: "env_run_id e0 = Some run_id"
    and v: "verify_replay_event (verifier_env a (snd (w_attempt w))) (w_replay_tree w) rc (ev_id x) (d_store d)
       = (d_store d', Inr run_id)"
    using rep by (rule replay_response_confirmed)
  from v obtain current pg where verified: "capture_at (verifier_env a (snd (w_attempt w))) (w_replay_tree w) = Inr current"
    "revision current = rec_revision rc"
    "events (ve_codec (snd (w_attempt w))) (d_store d') run_id None 100000 (64 * 1024 * 1024) = Inr pg"
    "verify_replayed_prefix rc (items pg) (ev_id x) = Inr ()" "run_id \<notin> run_pk ` set (runs (d_store d))"
    by (rule verify_replay_event_Inr) (simp add: verifier_env_def)
  have current: "capture (ve_hashes (snd (w_attempt w))) (w_replay_tree w) = Inr current"
    using verified(1) by (auto simp: capture_at_def verifier_env_def split: sum.splits)
  from verified(4) obtain t where "validate_recording rc = Inr ()" "position (\<lambda>y. ev_id y = ev_id x) (rec_events rc) = Some t"
    "map observable (take (Suc t) (rec_events rc)) = map observable (take (Suc t) (items pg))"
    unfolding verify_replayed_prefix_ok by blast
  with handled(1) rc x current verified(2, 3, 5) run e show ?thesis by metis
next
  case (revision payload r)
  then show ?thesis using assms by (auto simp: revision_check_def split: option.splits sum.splits if_splits)
qed (use assms in auto)

end
