(* ===== verification/Daemon_Samples.thy ===== *)
theory Daemon_Samples
  imports Daemon_Responses
begin

text \<open>
  Concrete requests: a daemon with a stored recording whose replay is confirmed by a fresh
  execution, and the instances of the properties of the daemon it gives.
\<close>

section \<open>A recording and its fresh execution\<close>

definition replayed_event :: event where
  "replayed_event = event_of_raw (ingest_env_of sample_venv sample_before ''/w'') 0 sample_finish"

definition replayed_recording :: recording where
  "replayed_recording = \<lparr>rec_id = ''rec'', rec_revision = revision sample_before, rec_test_id = ''A#b'',
     rec_backend = ''jvm'', rec_capabilities = jvm_capabilities, inputs = [], linux_process = None,
     rec_events = [replayed_event], checkpoints = []\<rparr>"

definition replay_codec :: codec where
  "replay_codec = table_codec [replayed_event] [replayed_recording] [] []"

definition replay_env :: verify_env where
  "replay_env = sample_venv\<lparr>ve_codec := replay_codec\<rparr>"

definition replay_request :: verification_request where
  "replay_request = full_request ''A#b'' False"

text \<open>The store with the recording, the run and the event of its execution.\<close>

definition replay_store :: "run_row list \<Rightarrow> event_row list \<Rightarrow> test_row list \<Rightarrow> store" where
  "replay_store rs es ts = (empty_store default_retention)\<lparr>runs := rs, events_table := es, tests_table := ts,
     recordings := [\<lparr>recording_pk = ''rec'', recording_revision = revision sample_before, recording_test_id = ''A#b'',
       recording_backend = ''jvm'', recording_created_at = [], recording_payload = []\<rparr>]\<rparr>"

definition replay_run :: "run_status \<Rightarrow> string option \<Rightarrow> run_row" where
  "replay_run st fin = \<lparr>run_pk = ''r'', run_revision = revision sample_before,
     run_source_digest = revision sample_before, run_status = as_db st, run_started_at = [], run_finished_at = fin\<rparr>"

definition replay_row :: event_row where
  "replay_row = \<lparr>event_pk = ev_id replayed_event, event_run_id = ''r'', event_test_id = ''A#b'', event_sequence = 0,
     event_payload = []\<rparr>"

definition replay_test :: test_row where
  "replay_test = \<lparr>test_pk = ''A#b'', test_display_name = ''A#b'', test_module = '':'', test_last_status = Some ''passed''\<rparr>"

lemmas replay_stores = replay_store_def empty_store_def default_retention_def

lemma replay_env_sel [simp]:
  "ve_codec (verifier_env a replay_env) = replay_codec" "ve_host (verifier_env a replay_env) = sample_host"
  "ve_hashes (verifier_env a replay_env) = \<lparr>sha256 = rev, hex = id\<rparr>"
  "ve_worker (verifier_env a replay_env) = (\<lambda>_ _. sample_worker)" "ve_cancelled (verifier_env a replay_env) = (\<lambda>_. False)"
  "ve_run_id (verifier_env a replay_env) = ''r''" "ve_now (verifier_env a replay_env) = (\<lambda>_. 0)"
  "ve_timeout (verifier_env a replay_env) = 300000" "ve_layout (verifier_env a replay_env) = ve_layout sample_venv"
  "capture_at (verifier_env a replay_env) t = capture_at sample_venv t"
  "ve_before (verifier_env a replay_env) = ve_before sample_venv" "ve_after (verifier_env a replay_env) = ve_after sample_venv"
  by (simp_all add: verifier_env_def replay_env_def capture_at_def)

lemma replay_root: "root (ve_layout sample_venv) = ''/w''"
  by (simp add: sample_venv_def layout_new_def Let_def)

lemma replay_codec_sel [simp]:
  "event_to_json replay_codec replayed_event = Some []" "event_from_json replay_codec [] = Some replayed_event"
  "recording_from_json replay_codec [] = Some replayed_recording"
  "zstd_encode replay_codec n x = Some x" "zstd_decode replay_codec x = Some x" "to_rfc3339 replay_codec 0 = []"
  by (simp_all add: replay_codec_def table_codec_def table_to_def table_from_def)

lemma replay_event_sel: "sequence replayed_event = 0" "kind replayed_event = TestFinish"
  by (simp_all add: replayed_event_def event_of_raw_def sample_finish_fields event_kind_of_def Let_def)

lemma replay_ingest_env:
  "ie_codec (ingest_env_of (verifier_env a replay_env) b r) = replay_codec"
  "ie_run_id (ingest_env_of (verifier_env a replay_env) b r) = ''r''"
  "ie_cancelled (ingest_env_of (verifier_env a replay_env) b r) = (\<lambda>_. False)"
  "ie_parse_json (ingest_env_of (verifier_env a replay_env) b r) = (\<lambda>_. Some sample_finish)"
  "event_of_raw (ingest_env_of (verifier_env a replay_env) sample_before ''/w'') 0 sample_finish = replayed_event"
  by (simp_all add: ingest_env_of_def verifier_env_def replay_env_def replayed_event_def event_of_raw_def raw_path_def)

lemma replay_ingestion:
  "\<exists>ing. ingest_events (ingest_env_of (verifier_env a replay_env) sample_before ''/w'') (Some [[CHR ''x'', LF]])
       (replay_store [replay_run Running None] [] [])
     = (replay_store [replay_run Running None] [replay_row] [replay_test], Inr ing)
     \<and> ig_tests ing = [''A#b''] \<and> ig_test_statuses ing = [(''A#b'', ''passed'')]"
proof -
  let ?env = "ingest_env_of (verifier_env a replay_env) sample_before ''/w''"
  let ?s = "replay_store [replay_run Running None] [] []"
  let ?s1 = "replay_store [replay_run Running None] [replay_row] []"
  note env = replay_ingest_env
  have app: "append_event replay_codec ?s ''r'' ''A#b'' replayed_event = Inr ?s1"
    by (simp add: append_event_def json_result_def io_result_def sqlite_i64_def i64_max_def replay_event_sel run_exists_def
        replay_row_def replay_run_def replay_stores)
  have rec: "ingest_record ?env sample_finish ingest_start ?s = (?s1, Inr (observe_capability sample_finish
      (observe_memory sample_finish (observe_boundary sample_finish (observe_coverage ?env sample_finish
        ((note_event ?env replayed_event sample_finish ingest_start)
          \<lparr>in_tests := [(''A#b'', Some ''passed'')]\<rparr>))))))" (is "_ = (?s1, Inr ?st)")
    using app env sample_finish_fields
    by (simp add: ingest_record_def observe_test_def store_call_def Let_def ingest_start_def note_event_def
        observe_event_def observe_threads_def)
  have st: "in_tests ?st = [(''A#b'', Some ''passed'')]" "in_coverage ?st = []" "in_dependencies ?st = []"
    by (simp_all add: sample_finish_def json_access kind_name_def observe_capability_def observe_memory_def
        observe_boundary_def observe_coverage_def note_event_def observe_event_def observe_threads_def raw_path_def
        ingest_start_def Let_def)
  have "get_str sample_finish ''module'' = None" "get_str sample_finish ''capability'' = None"
    by (simp_all add: sample_finish_def json_access)
  then have modul: "in_modules ?st = [(''A#b'', '':'')]"
    by (simp add: sample_finish_fields observe_capability_def observe_memory_def observe_boundary_def
        observe_coverage_def note_event_def observe_event_def observe_threads_def ingest_start_def Let_def
        bt_contains_def bt_get_def split: option.split)
  have loop: "ingest_loop ?env 0 [[CHR ''x'', LF]] ingest_start ?s = (?s1, Inr ?st)"
    using rec by (simp add: ingest_loop.simps [of _ _ "[[CHR ''x'', LF]]"] ingest_loop.simps [of _ _ "[]"] env
        sample_simps MAX_EVENTS_PER_RUN_def ingest_start_def)
  show ?thesis
    using loop st modul by (simp add: ingest_events_def abind_def store_call_def replace_coverage_def
        replace_dependencies_def ingested_of_def Let_def List.map_filter_simps upsert_test_def test_exists_def
        bt_get_def replay_stores replay_test_def)
qed

lemma replay_pruned:
  "fst (prune replay_codec (replay_store [replay_run Passed (Some [])] [replay_row] [replay_test]) 0)
     = replay_store [replay_run Passed (Some [])] [replay_row] [replay_test]"
proof -
  have "to_rfc3339 replay_codec t = []" if "t \<le> 0" for t using that by (simp add: replay_codec_def table_codec_def)
  then show ?thesis
    by (simp add: prune_def prune_loop.simps payload_bytes_def replay_stores delete_defs replay_row_def replay_run_def Let_def)
qed

lemma ascii_utf8: "list_all (\<lambda>c. byte_of c < 128) s \<Longrightarrow> utf8_valid s"
  by (induction s rule: utf8_valid.induct) simp_all

lemma ascii_path_join: "list_all (\<lambda>c. byte_of c < 128) p \<Longrightarrow> list_all (\<lambda>c. byte_of c < 128) q \<Longrightarrow> list_all (\<lambda>c. byte_of c < 128) (path_join p q)"
  by (simp add: path_join_def byte_of_def)

lemma replay_log: "utf8_valid (path_join (run_directory (verifier_env a replay_env)) ''worker.log'')"
proof -
  let ?wid = "workspace_id_from_path \<lparr>sha256 = rev, hex = id\<rparr> ''/w''"
  have "list_all (\<lambda>c. byte_of c < 128) ?wid" by code_simp
  moreover have "run_directory (verifier_env a replay_env)
      = path_join (path_join (path_join (path_join (path_join ''/w'' ''.gradle'') ''walaru'') ?wid) ''runs'') ''r''"
    by (simp add: run_directory_def sample_venv_def layout_new_def Let_def)
  moreover have "list_all (\<lambda>c. byte_of c < 128) s" if "s \<in> {''/w'', ''.gradle'', ''walaru'', ''runs'', ''r'', ''worker.log''}" for s
    using that by (auto simp: byte_of_def)
  ultimately show ?thesis by (auto intro!: ascii_utf8 ascii_path_join)
qed

lemma sample_execution:
  assumes q: "overlay q = None" "selected_tests q = [''A#b'']" and tapes: "write_tapes (verifier_env a replay_env) rc = Inr b"
  shows "\<exists>out. verify_internal (verifier_env a replay_env) q rc (replay_store [] [] [])
       = (replay_store [replay_run Passed (Some [])] [replay_row] [replay_test], Inr out)
     \<and> vo_status out = Passed \<and> vo_run_id out = ''r'' \<and> utf8_valid (vo_log_file out)"
proof -
  let ?env = "verifier_env a replay_env" and ?q = q
  let ?s1 = "replay_store [replay_run Running None] [] []"
  let ?s2 = "replay_store [replay_run Running None] [replay_row] [replay_test]"
  let ?s3 = "replay_store [replay_run Passed (Some [])] [replay_row] [replay_test]"
  let ?f = "files_of ?env ?q (rc \<noteq> None) b"
  obtain w where w: "run_worker sample_host (ve_artifacts ?env) 300000 (\<lambda>_ _. sample_worker) ?q ?f ''/w''
      = (Inr \<lparr>success = True\<rparr>, w)" "wo_events w = Some [[CHR ''x'', LF]]" "wo_copied w"
    by (simp add: run_worker_def supervise_logged_def sample_worker_def sample_host_def has_gradle_wrapper_def Let_def
        supervise.simps [of _ _ 0])
  obtain ing where ing: "ingest_events (ingest_env_of ?env sample_before ''/w'') (Some [[CHR ''x'', LF]]) ?s1 = (?s2, Inr ing)"
    "ig_tests ing = [''A#b'']" "ig_test_statuses ing = [(''A#b'', ''passed'')]"
    using replay_ingestion by blast
  have ex: "execute ?env ?q ?f ''/w'' sample_before ?s1 = (?s2, Inr (\<lparr>success = True\<rparr>, w, ing, sample_before))"
    using w ing q sample_captures by (simp add: execute_def check_cancellation_def)
  have "desired_status \<lparr>success = True\<rparr> ing [''A#b''] = Passed"
    by (simp add: desired_status_def fresh_evidence_missing_def ing bt_get_def)
  moreover have "finish_run replay_codec ?s2 ''r'' Passed (revision sample_before) 0 = Inr (?s3, Passed)"
    by (simp add: finish_run_def replay_stores replay_run_def Let_def)
  ultimately have concl: "\<exists>out. conclude ?env ?q rc ''/w'' sample_before ?q ''explicit''
      (\<lparr>success = True\<rparr>, w, ing, sample_before) ?s2 = (?s3, Inr out)
      \<and> vo_status out = Passed \<and> vo_run_id out = ''r'' \<and> utf8_valid (vo_log_file out)"
    using q replay_pruned replay_log by (simp add: conclude_def save_outcome_def cacheable_def outcome_of_def Let_def)
  have start: "begin_run replay_codec (replay_store [] [] []) \<lparr>nr_id = ''r'', nr_revision = revision sample_before,
     nr_source_digest = revision sample_before, nr_started_at = 0\<rparr> = Inr ?s1"
    by (simp add: begin_run_def run_exists_def replay_stores replay_run_def)
  have "validate_artifacts sample_host (ve_artifacts ?env) = Inr ()"
    by (simp add: validate_artifacts_def sample_host_def)
  then show ?thesis
    using start ex q sample_captures concl tapes
    by (simp add: verify_internal_def check_cancellation_def prepare_overlay_def try_cache_def cacheable_def
        run_verification_def choose_tests_def impactable_def store_call_def replay_root)
qed

lemma replay_execution:
  "\<exists>out. verify_internal (verifier_env a replay_env) replay_request (Some replayed_recording) (replay_store [] [] [])
       = (replay_store [replay_run Passed (Some [])] [replay_row] [replay_test], Inr out)
     \<and> vo_status out = Passed \<and> vo_run_id out = ''r''"
proof -
  obtain b where "write_tapes (verifier_env a replay_env) (Some replayed_recording) = Inr b"
    by (simp add: write_tapes_def write_replay_inputs_def replayed_recording_def replay_event_sel)
  from sample_execution [OF _ _ this, of replay_request] show ?thesis by (auto simp: replay_request_def full_request_def)
qed

lemma replay_verified:
  "verify_replay_event (verifier_env a replay_env) (Directory (Some [])) replayed_recording (ev_id replayed_event)
       (replay_store [] [] [])
     = (replay_store [replay_run Passed (Some [])] [replay_row] [replay_test], Inr ''r'')"
proof -
  let ?s3 = "replay_store [replay_run Passed (Some [])] [replay_row] [replay_test]"
  obtain out where v: "verify_internal (verifier_env a replay_env) replay_request (Some replayed_recording) (replay_store [] [] [])
       = (?s3, Inr out)" "vo_status out = Passed" "vo_run_id out = ''r''"
    using replay_execution by blast
  have ev: "events replay_codec ?s3 ''r'' None 100000 (64 * 1024 * 1024) = Inr \<lparr>items = [replayed_event], next_cursor = None\<rparr>"
    by (simp add: events_def events_matching_def matching_rows_def replay_stores replay_row_def io_result_def json_result_def
        fetch_limit_def sat_add_def int_bounds)
  have valid: "validate_recording replayed_recording = Inr ()"
    by (simp add: validate_recording_def validate_capabilities_def jvm_capabilities_def replayed_recording_def)
  have pre: "verify_replayed_prefix replayed_recording [replayed_event] (ev_id replayed_event) = Inr ()"
    by (simp add: verify_replayed_prefix_def valid) (simp add: replayed_recording_def divergence_def)
  have q: "full_request (rec_test_id replayed_recording)
      (list_ex (\<lambda>i. starts_with (input_kind i) ''io.file.'') (inputs replayed_recording)) = replay_request"
    by (simp add: replayed_recording_def replay_request_def)
  have "capture_at sample_venv (Directory (Some [])) = Inr sample_before"
    using sample_captures by (simp add: sample_venv_def)
  moreover have "rec_revision replayed_recording = revision sample_before" by (simp add: replayed_recording_def)
  ultimately show ?thesis using v ev pre q by (simp add: verify_replay_event_def abind_def store_read_def)
qed

section \<open>A request and its confirmation\<close>

definition quiet_probes :: probes where
  "quiet_probes = \<lparr>java_output = [], maven_runs = False, rr_runs = False, criu_runs = False, java_flags = None,
     os_name = ''linux'', arch_name = ''x86_64''\<rparr>"

definition sample_payload :: request_payload where
  "sample_payload = \<lparr>query = default_query\<lparr>query_at := Some (ev_id replayed_event)\<rparr>,
     command_value = JObject [(''recordingId'', JString ''rec'')]\<rparr>"

definition sample_world :: "verify_env \<Rightarrow> world" where
  "sample_world env = \<lparr>w_hashes = \<lparr>sha256 = rev, hex = id\<rparr>, w_codec = ve_codec env,
     w_show_json = (\<lambda>_. []), w_error_text = (\<lambda>_. []), w_overlay_text = (\<lambda>_. []), w_replay_text = (\<lambda>_. []),
     w_canonicalize = Some, w_payload = (\<lambda>_. Some sample_payload), w_overlay = (\<lambda>_. Inl []),
     w_envelope_len = (\<lambda>_. Some 0), w_envelope_json = (\<lambda>_. Some ''{}''), w_pid = 1, w_version = ''1'',
     w_tree = Directory (Some []), w_query_tree = Directory (Some []), w_replay_tree = Directory (Some []),
     w_first = (sample_host, env), w_second = (sample_host, env), w_attempt = (sample_host, env),
     w_recording = (\<lambda>_. env), w_clock = (\<lambda>_. 0), w_probes = quiet_probes\<rparr>"

definition sample_daemon :: "store \<Rightarrow> daemon" where
  "sample_daemon s = daemon_new (layout_new \<lparr>sha256 = rev, hex = id\<rparr> ''/w'') s ''s''"

definition rpc :: "string \<Rightarrow> rpc_request" where
  "rpc c = \<lparr>req_schema_version = 1, request_id = ''1'', workspace_root = ''/w'', command = c, payload_json = []\<rparr>"

lemma sample_daemon_root [simp]: "root (d_layout (sample_daemon s)) = ''/w''"
  by (simp add: sample_daemon_def daemon_new_def layout_new_def Let_def)

lemma sample_dispatch_replay:
  "\<exists>e. dispatch (sample_world replay_env) (sample_daemon (replay_store [] [] [])) (rpc ''replay'')
     = (sample_daemon (replay_store [replay_run Passed (Some [])] [replay_row] [replay_test]), Inr (0, e))"
proof -
  let ?w = "sample_world replay_env" and ?d = "sample_daemon (replay_store [] [] [])"
  let ?d' = "sample_daemon (replay_store [replay_run Passed (Some [])] [replay_row] [replay_test])"
  have store: "d_store ?d = replay_store [] [] []" "?d\<lparr>d_store := d_store ?d'\<rparr> = ?d'"
    by (simp_all add: sample_daemon_def daemon_new_def)
  have attempt: "w_attempt ?w = (sample_host, replay_env)" "w_replay_tree ?w = Directory (Some [])"
    "w_codec ?w = replay_codec"
    by (simp_all add: sample_world_def replay_env_def)
  obtain a where a: "discover sample_host = Inr a" by (simp add: discover_def sample_host_def artifact_path_def Let_def)
  have "\<exists>e. replay_response ?w ?d rid replayed_recording (ev_id replayed_event) extra = (?d', Inr (0, e))" for rid extra
    using a replay_verified [of a] store by (simp add: replay_response_def attempt Let_def)
      (simp add: sample_daemon_def daemon_new_def)
  moreover have "recording_of replay_codec (replay_store [] [] []) ''rec'' = Inr (Some replayed_recording)"
    by (simp add: recording_of_def replay_stores io_result_def json_result_def)
  moreover have "completeness (rec_capabilities replayed_recording) = Complete" "rec_events replayed_recording = [replayed_event]"
    by (simp_all add: replayed_recording_def jvm_capabilities_def)
  moreover have "command_string (JObject [(''recordingId'', JString ''rec'')]) ''recordingId'' = ''rec''"
    by (simp add: command_string_def json_access)
  ultimately have "\<exists>e. replay_at ?w ?d (JObject [(''recordingId'', JString ''rec'')]) (bounded (query sample_payload)) = (?d', Inr (0, e))"
    by (simp add: replay_at_def attempt store dstore_def sample_payload_def bounded_def default_query_def)
  then obtain e where e: "replay_at ?w ?d (JObject [(''recordingId'', JString ''rec'')]) (bounded (query sample_payload)) = (?d', Inr (0, e))"
    by blast
  have "present ?w (bounded (query sample_payload)) (0, e) = (0, e)"
    by (simp add: present_def enforce_response_limit_def sample_world_def apply_field_mask_def sample_payload_def
        bounded_def default_query_def)
  with e show ?thesis
    by (simp add: dispatch_def rpc_def command_response_def revision_check_def sample_world_def sample_payload_def Let_def
        split: option.split)
qed

theorem replay_confirmed_only_when_verified_witness:
  "\<exists>d' e run_id. dispatch (sample_world replay_env) (sample_daemon (replay_store [] [] [])) (rpc ''replay'') = (d', Inr (0, e))
     \<and> env_run_id e = Some run_id"
proof -
  obtain d' e where d: "dispatch (sample_world replay_env) (sample_daemon (replay_store [] [] [])) (rpc ''replay'') = (d', Inr (0, e))"
    using sample_dispatch_replay by blast
  from replay_confirmed_only_when_verified [OF d] d show ?thesis by (auto simp: rpc_def)
qed

theorem daemon_keeps_store_wf_witness:
  "store_wf idle_codec (d_store (serve [(sample_world idle_env, rpc ''verify''), (sample_world idle_env, rpc ''record'')]
     (daemon_open \<lparr>sha256 = rev, hex = id\<rparr> idle_codec (empty_store default_retention) ''/w'' ''s'' 0 0)))"
proof (rule daemon_keeps_store_wf)
  have "world_reads idle_codec (sample_world idle_env)"
    using idle_assumptions by (auto simp: world_reads_def sample_world_def)
  then show "list_all (\<lambda>(w, _). world_reads idle_codec w)
      [(sample_world idle_env, rpc ''verify''), (sample_world idle_env, rpc ''record'')]"
    by simp
qed (use idle_assumptions in auto)

end
