(* ===== verification/Daemon_Types.thy ===== *)
theory Daemon_Types
  imports Daemon_Samples
begin

text \<open>
  The type of what the daemon answers: the data of every response is a JSON object, with ordered
  members at every depth, so that a pointer into it means one thing.
\<close>

section \<open>Objects\<close>

definition json_map :: "json \<Rightarrow> bool" where
  "json_map v = (json_wf v \<and> as_object v \<noteq> None)"

lemma json_map_wf: "json_map v \<Longrightarrow> json_wf v"
  by (simp add: json_map_def)

lemma json_map_jobj [typed_json]: "list_all (\<lambda>e. json_wf (snd e)) es \<Longrightarrow> json_map (jobj es)"
  using set_bt_collect [of es] by (auto simp: json_map_def jobj_def as_object_def bt_wf_collect list_all_iff)

text \<open>A field mask keeps the type.\<close>

lemma json_wf_project: "json_wf v \<Longrightarrow> json_wf (project_fields v ps)"
proof (induction v ps rule: project_fields.induct)
  case (1 m ps)
  let ?f = "\<lambda>(key, tails). case bt_get m key of None \<Rightarrow> None
     | Some v \<Rightarrow> Some (key, if list_ex (\<lambda>t. t = []) tails then v else project_fields v tails)"
  have "json_wf (snd e)" if "e \<in> set (List.map_filter ?f (group_heads ps))" for e
  proof -
    from that obtain key tails v where g: "(key, tails) \<in> set (group_heads ps)" "bt_get m key = Some v"
      and e: "e = (key, if list_ex (\<lambda>t. t = []) tails then v else project_fields v tails)"
      by (auto simp: List.map_filter_def split: option.splits)
    have "json_wf v" using "1.prems" bt_get_Some_set [OF g(2)] by fastforce
    with "1.IH" [OF g(1) HOL.refl g(2)] show ?thesis by (cases "list_ex (\<lambda>t. t = []) tails") (simp_all add: e)
  qed
  then show ?case using set_bt_collect by (fastforce simp: bt_wf_collect)
qed auto

lemma json_map_masked: "json_map v \<Longrightarrow> json_map (apply_field_mask v fs)"
  using json_wf_project [of v "mask_paths fs"]
  by (cases v) (simp_all add: json_map_def as_object_def apply_field_mask_def)

section \<open>Values of the hints\<close>

text \<open>What the decoders of the JSON library yield has its members in order, at every depth: the library keeps
  an object as a sorted map.\<close>

definition hints_ordered :: "verification_outcome \<Rightarrow> bool" where
  "hints_ordered out = (\<forall>h \<in> set (vo_value_hints out). json_wf (hint_value h))"

definition verifier_ordered :: "verify_env \<Rightarrow> bool" where
  "verifier_ordered env = ((\<forall>line raw. ve_parse_json env line = Some raw \<longrightarrow> json_wf raw)
     \<and> (\<forall>x out. ve_outcome_from_json env x = Some out \<longrightarrow> hints_ordered out))"

definition json_library :: "world \<Rightarrow> bool" where
  "json_library w = (verifier_ordered (snd (w_first w)) \<and> verifier_ordered (snd (w_second w))
     \<and> (\<forall>x e. event_from_json (w_codec w) x = Some e \<longrightarrow> event_ordered e)
     \<and> (\<forall>x r. recording_from_json (w_codec w) x = Some r \<longrightarrow> (\<forall>e \<in> set (rec_events r). event_ordered e)))"

lemma event_of_raw_ordered:
  assumes "json_wf raw"
  shows "json_wf (ev_values (event_of_raw env seq raw))"
proof -
  have "json_wf (public_event_values (Some v))" if v: "json_wf v" for v
  proof (cases v)
    case (JObject m)
    have "\<forall>e \<in> set (bt_remove k (bt_insert l (JString t) m)). json_wf (snd e)" for k l t
      using v set_bt_remove by (fastforce simp: JObject bt_insert_def dest: set_takeWhileD set_dropWhileD)
    with v show ?thesis by (simp add: JObject public_event_values_def bt_wf_insert bt_wf_remove)
  qed (use v in \<open>simp_all add: public_event_values_def\<close>)
  moreover have "json_wf (public_event_values None)" by (simp add: public_event_values_def empty_object_def bt_wf_def flagged_def)
  ultimately show ?thesis using assms json_wf_get by (cases "json_get raw ''values''") (auto simp: event_of_raw_def)
qed

lemma hint_ordered:
  assumes "live_value_hint_of json_len e t = Some h" "json_wf (ev_values e)"
  shows "json_wf (hint_value h)"
proof -
  obtain m where m: "as_object (ev_values e) = Some m" and "\<exists>l fallback. hint_payload e m = Some (fallback, hint_value h) \<or> (\<exists>s. hint_value h = JString s)"
    using assms(1) by (auto simp: live_value_hint_of_def Let_def bind_eq_Some_conv split: if_splits option.splits)
  moreover have "json_wf v" if "hint_payload e m = Some (f, v)" for f v
  proof -
    have "json_wf x" if "bt_get m k = Some x" for k x
      using assms(2) m bt_get_Some_set [OF that] by (cases "ev_values e") (auto simp: as_object_def)
    then show ?thesis using that assms(2)
      by (auto simp: hint_payload_def unwrap_or_def split: event_kind.splits option.splits if_splits)
  qed
  ultimately show ?thesis by fastforce
qed

lemma ingest_record_hints:
  assumes "ingest_record env raw st s = (s', Inr st')" "json_wf raw" "\<forall>h \<in> set (in_value_hints st). json_wf (hint_value h)"
  shows "\<forall>h \<in> set (in_value_hints st'). json_wf (hint_value h)"
proof -
  let ?e = "event_of_raw env (event_count st) raw"
  from assms(1) obtain s1 st2 where t: "observe_test env (event_count st) raw (note_event env ?e raw st) s1 = (s', Inr st2)"
    and st': "st' = observe_capability raw (observe_memory raw (observe_boundary raw (observe_coverage env raw st2)))"
    by (auto simp: ingest_record_def Let_def abind_Inr)
  have "in_value_hints st' = in_value_hints st2"
    by (simp add: st' observe_capability_def observe_memory_def observe_boundary_def observe_coverage_def Let_def split: option.split)
  also have "\<dots> = in_value_hints (note_event env ?e raw st)" using observe_test_state [OF t] by auto
  finally have "in_value_hints st' = in_value_hints (note_event env ?e raw st)" .
  moreover have "\<forall>h \<in> set (in_value_hints (note_event env ?e raw st)). json_wf (hint_value h)"
    using assms(3) hint_ordered [OF _ event_of_raw_ordered [OF assms(2)]]
    by (auto simp: note_event_def observe_event_def observe_threads_def Let_def split: option.split)
  ultimately show ?thesis by simp
qed

lemma ingest_records_hints:
  "\<lbrakk>ingest_records env raws st s = (s', Inr st'); \<forall>raw \<in> set raws. json_wf raw; \<forall>h \<in> set (in_value_hints st). json_wf (hint_value h)\<rbrakk>
     \<Longrightarrow> \<forall>h \<in> set (in_value_hints st'). json_wf (hint_value h)"
proof (induction raws arbitrary: st s)
  case (Cons raw raws)
  then obtain s1 st1 where r: "ingest_record env raw st s = (s1, Inr st1)" "ingest_records env raws st1 s1 = (s', Inr st')"
    by (auto simp: abind_Inr)
  have "\<forall>h \<in> set (in_value_hints st1). json_wf (hint_value h)"
    using ingest_record_hints [OF r(1)] Cons.prems(2, 3) by simp
  then show ?case using Cons.IH [OF r(2)] Cons.prems(2) by simp
qed simp

lemma stream_records_parsed:
  assumes "\<forall>line raw. ie_parse_json env line = Some raw \<longrightarrow> json_wf raw"
  shows "\<forall>raw \<in> set (stream_records env chunks). json_wf raw"
  using assms
proof (induction env chunks rule: stream_records.induct)
  case (1 env chunks)
  show ?case
  proof (cases "read_bounded_line MAX_EVENT_LINE_BYTES [] chunks")
    case (Inr lr)
    obtain line rest where lr: "lr = (line, rest)" by force
    note now = Inr [unfolded lr]
    show ?thesis
      using "1.IH"(1) [OF now HOL.refl _ _ "1.prems"] "1.IH"(2) [OF now HOL.refl _ _ _ "1.prems"] "1.prems"
      by (cases "ie_parse_json env line") (auto simp: stream_records.simps [of env chunks] now)
  qed (simp add: stream_records.simps [of env chunks])
qed

lemma ingested_hints_ordered:
  assumes "\<forall>line raw. ie_parse_json env line = Some raw \<longrightarrow> json_wf raw" "ingest_events env ev s = (s', Inr ing)"
  shows "\<forall>h \<in> set (ig_value_hints ing). json_wf (hint_value h)"
proof (cases ev)
  case None
  then show ?thesis using assms(2) by (auto simp: ingest_events_def ingested_default_def)
next
  case (Some chunks)
  obtain s1 st where r: "ingest_records env (stream_records env chunks) ingest_start s = (s1, Inr st)" "ing = ingested_of st"
    using assms(2) unfolding Some by (rule ingest_events_state)
  have "\<forall>h \<in> set (in_value_hints st). json_wf (hint_value h)"
    by (rule ingest_records_hints [OF r(1) stream_records_parsed [OF assms(1)]]) (simp add: ingest_start_def)
  then show ?thesis by (simp add: r(2) ingested_of_def)
qed

lemma verify_hints_ordered:
  assumes "verifier_ordered env" "verify env q s = (s', Inr out)"
  shows "hints_ordered out"
proof -
  have parsed: "\<forall>line raw. ie_parse_json (ingest_env_of env b r) line = Some raw \<longrightarrow> json_wf raw" for b r
    using assms(1) by (simp add: verifier_ordered_def ingest_env_of_def)
  from assms(2) [unfolded verify_def] obtain r before s1 where
    "try_cache env q None before s = (s', Inr (Some out)) \<or> run_verification env q None r before s1 = (s', Inr out)"
    by (rule verify_internal_Inr)
  then show ?thesis
  proof
    assume "try_cache env q None before s = (s', Inr (Some out))"
    then obtain payload stored where "ve_outcome_from_json env payload = Some stored" "vo_value_hints out = vo_value_hints stored"
      by (auto simp: try_cache_def Let_def split: if_splits sum.splits option.splits)
    then show ?thesis using assms(1) by (auto simp: verifier_ordered_def hints_ordered_def)
  next
    assume "run_verification env q None r before s1 = (s', Inr out)"
    then obtain ing b rt ev s2 s3 where "ingest_events (ingest_env_of env b rt) ev s2 = (s3, Inr ing)" "vo_value_hints out = ig_value_hints ing"
      by (rule run_verification_Inr) blast
    then show ?thesis using ingested_hints_ordered [OF parsed] by (simp add: hints_ordered_def)
  qed
qed

lemma verify_alone_hints:
  assumes "verify_alone h1 e1 h2 e2 q newer d = (d', Verified out rq)" "verifier_ordered e1" "verifier_ordered e2"
  shows "hints_ordered out"
proof -
  have any: "verifier_ordered (e\<lparr>ve_artifacts := a\<rparr>) = verifier_ordered e" for e a by (simp add: verifier_ordered_def)
  show ?thesis
    using assms
    by (auto simp: verify_alone_def second_attempt_def run_once_def split: prod.splits if_splits sum.splits
        dest!: conclude_verification_Verified dest: verify_hints_ordered [rotated] simp: any)
qed

section \<open>Responses\<close>

text \<open>The data of the envelope of a response, if there is one.\<close>

definition typed :: "daemon_error + response \<Rightarrow> bool" where
  "typed r = (case r of Inl _ \<Rightarrow> True | Inr (_, e) \<Rightarrow> json_map (env_data e))"

lemma typed_simps [simp]: "typed (Inl err)" "typed (Inr (ec, e)) = json_map (env_data e)"
  by (simp_all add: typed_def)

lemma typed_rbind: "(\<And>x. r = Inr x \<Longrightarrow> typed (f x)) \<Longrightarrow> typed (rbind r f)"
  by (cases r) simp_all

lemma envelope_data [simp]:
  "env_data (make_envelope w d st i data ds) = data" "env_data (error_envelope w d data c msg) = data"
  "env_data (ok_envelope w d data) = data" "env_data (with_page e q next_one n) = env_data e"
  by (simp_all add: make_envelope_def error_envelope_def ok_envelope_def with_page_def)

lemma typed_failures [typed_json]:
  "json_map (env_data (snd (verification_usage w d c msg)))" "json_map (env_data (snd (superseded_verification w d)))"
  "json_map (env_data (snd (capability_failure w d caps)))" "json_map (env_data (snd (replay_verification_failure w d rid caps e)))"
  "json_map (env_data (snd (recording_missing w d rid)))"
  by (simp_all add: verification_usage_def superseded_verification_def capability_failure_def replay_verification_failure_def
      recording_missing_def Let_def typed_json)

lemma typed_response [typed_json]: "typed (Inr r) \<longleftrightarrow> json_map (env_data (snd r))"
  by (cases r) simp

lemma typed_controls [typed_json]:
  "typed (snd (stop_response w d))" "typed (snd (cancel_response w d))" "typed (Inr (status_response w d))"
  "typed (Inr (impact_response w d v))" "typed (Inr (doctor w h d))"
  by (simp_all add: stop_response_def cancel_response_def status_response_def impact_response_def doctor_def Let_def typed_json
      split: prod.split impact_selection.split)

text \<open>Stored events are read by the decoder.\<close>

lemma dstore_Inr [simp]: "dstore r = Inr x \<longleftrightarrow> r = Inr x" "Inr x = dstore r \<longleftrightarrow> r = Inr x"
  by (cases r; auto simp: dstore_def)+

lemma stored_event_ordered:
  assumes "json_library w" "Store.event (w_codec w) s i = Inr (Some e)"
  shows "event_ordered e"
  using assms
  by (auto simp: json_library_def Store.event_def rbind_def io_result_def json_result_def split: option.splits sum.splits)

lemma scan_ordered:
  assumes "\<forall>x e. event_from_json c x = Some e \<longrightarrow> event_ordered e" "\<forall>e \<in> set acc. event_ordered e"
  shows "scan_recent c maxb acc bytes rs = Inr es \<Longrightarrow> \<forall>e \<in> set es. event_ordered e"
    and "scan_page c k maxb acc bytes rs = Inr (es, left) \<Longrightarrow> \<forall>e \<in> set es. event_ordered e"
proof -
  have next_one: "\<forall>e \<in> set (acc @ [e]). event_ordered e" if "json_result (event_from_json c j) = Inr e" "\<forall>e \<in> set acc. event_ordered e" for acc j e
    using that assms(1) by (auto simp: json_result_def split: option.splits)
  show "scan_recent c maxb acc bytes rs = Inr es \<Longrightarrow> \<forall>e \<in> set es. event_ordered e" using assms(2)
  proof (induction rs arbitrary: acc bytes)
    case (Cons r rs)
    from Cons.prems(1) obtain json where
      "acc = es \<or> (\<exists>e. json_result (event_from_json c json) = Inr e
         \<and> scan_recent c maxb (acc @ [e]) (sat_add bytes (length json)) rs = Inr es)"
      by (auto simp: rbind_eq_Inr split: if_splits)
    then show ?case using Cons.IH [OF _ next_one] Cons.prems(2) by blast
  qed simp
  show "scan_page c k maxb acc bytes rs = Inr (es, left) \<Longrightarrow> \<forall>e \<in> set es. event_ordered e" using assms(2)
  proof (induction rs arbitrary: acc bytes)
    case (Cons r rs)
    from Cons.prems(1) obtain json where
      "acc = es \<or> (\<exists>e. json_result (event_from_json c json) = Inr e
         \<and> scan_page c k maxb (acc @ [e]) (sat_add bytes (length json)) rs = Inr (es, left))"
      by (auto simp: rbind_eq_Inr split: if_splits)
    then show ?case using Cons.IH [OF _ next_one] Cons.prems(2) by blast
  qed simp
qed

lemma decoded_events_ordered:
  assumes "json_library w"
  shows "recent_test_events (w_codec w) s i t n b = Inr es \<Longrightarrow> \<forall>e \<in> set es. event_ordered e"
    and "trace (w_codec w) s i cur n b = Inr pg \<Longrightarrow> \<forall>e \<in> set (items pg). event_ordered e"
proof -
  have decoder: "\<forall>x e. event_from_json (w_codec w) x = Some e \<longrightarrow> event_ordered e" using assms by (simp add: json_library_def)
  show "recent_test_events (w_codec w) s i t n b = Inr es \<Longrightarrow> \<forall>e \<in> set es. event_ordered e"
    using scan_ordered(1) [OF decoder, of "[]"] by (auto simp: recent_test_events_def rbind_eq_Inr)
  have "\<forall>e \<in> set (items pg). event_ordered e" if "events_matching (w_codec w) s i t cur n b = Inr pg" for i t pg
    using that scan_ordered(2) [OF decoder, of "[]"] by (auto simp: events_matching_def rbind_eq_Inr Let_def)
  then show "trace (w_codec w) s i cur n b = Inr pg \<Longrightarrow> \<forall>e \<in> set (items pg). event_ordered e"
    by (auto simp: trace_def events_def split: if_splits option.splits)
qed

lemma analysed_ordered:
  assumes "json_library w" "analysed w s f = Inr a"
  shows "json_wf (analysis_json a)"
proof -
  obtain es where "recent_test_events (w_codec w) s (fr_run_id f) (fr_test_id f) 512 (1024 * 1024) = Inr es"
    and "a = analyze_failure (w_show_json w) f es"
    using assms(2) by (cases "recent_test_events (w_codec w) s (fr_run_id f) (fr_test_id f) 512 (1024 * 1024)")
      (auto simp: analysed_def dstore_def)
  then show ?thesis using decoded_events_ordered(1) [OF assms(1)] analyze_failure_ordered by (blast intro: analysis_json_wf)
qed

lemma json_wf_array: "(\<And>x. x \<in> set xs \<Longrightarrow> json_wf (f x)) \<Longrightarrow> json_wf (JArray (map f xs))"
  by auto

lemma typed_queries [typed_json]:
  assumes "json_library w"
  shows "typed (tests_response w d q)" "typed (failure_response w d v)" "typed (coverage_response w d v q)" "typed (trace_response w d v q)"
proof -
  show "typed (tests_response w d q)" "typed (coverage_response w d v q)"
    by (auto simp: tests_response_def coverage_response_def intro!: typed_rbind json_map_jobj json_wf_array typed_json)
  have "json_wf (event_json e)" if "dstore (trace (w_codec w) s i cur n b) = Inr pg" "e \<in> set (items pg)" for s i cur n b pg e
    using that decoded_events_ordered(2) [OF assms, of s i cur n b] event_json_wf
    by (cases "trace (w_codec w) s i cur n b") (auto simp: dstore_def)
  then show "typed (trace_response w d v q)"
    by (auto simp: trace_response_def intro!: typed_rbind json_map_jobj json_wf_array)
  have "json_wf (jopt analysis_json x)"
    if "(case found of None \<Rightarrow> Inr None | Some f \<Rightarrow> map_sum id Some (analysed w s f)) = Inr x" for found s x
  proof (cases found)
    case (Some f)
    then show ?thesis using that analysed_ordered [OF assms]
      by (cases "analysed w s f") (auto intro!: json_wf_jopt)
  qed (use that in \<open>simp add: jopt_def\<close>)
  then show "typed (failure_response w d v)"
    by (auto simp: failure_response_def typed_json intro!: typed_rbind json_map_jobj json_wf_jopt)
qed

lemma typed_values [typed_json]:
  assumes "json_library w"
  shows "typed (values_response w d v)"
proof -
  let ?found = "Store.event (w_codec w) (d_store d) (command_string v ''event'')"
  show ?thesis
  proof (cases ?found)
    case (Inr found)
    show ?thesis
    proof (cases found)
      case (Some e)
      then have "event_ordered e" using stored_event_ordered [OF assms] Inr by simp
      with Inr Some show ?thesis by (simp add: values_response_def Let_def dstore_def typed_json event_ordered_def)
    qed (simp add: values_response_def Let_def dstore_def Inr typed_json)
  qed (simp add: values_response_def Let_def dstore_def)
qed

lemma typed_verify [typed_json]:
  assumes "json_library w"
  shows "typed (snd (verify_response w d v))"
proof -
  have replies: "typed (reply_response w d' reply)" if hints: "\<And>out rq. reply = Verified out rq \<Longrightarrow> hints_ordered out" for d' reply
  proof (cases reply)
    case (Verified out rq)
    show ?thesis
    proof (cases "outcome_json out")
      case (Some j)
      then obtain m where j: "j = JObject m" "json_wf (JObject m)"
        using outcome_json_wf hints [OF Verified] by (cases j) (fastforce simp: as_object_def hints_ordered_def)+
      have "\<forall>e \<in> set (bt_insert k (JBool b) m). json_wf (snd e)" for k b
        using j(2) by (auto simp: bt_insert_def dest: set_takeWhileD set_dropWhileD)
      with j Some Verified show ?thesis
        by (simp add: reply_response_def verified_envelope_def json_map_def as_object_def bt_wf_insert Let_def)
    qed (simp add: reply_response_def Verified)
  qed (simp_all add: reply_response_def typed_json)
  have ordered: "hints_ordered out"
    if "verify_alone (fst (w_first w)) (snd (w_first w)) (fst (w_second w)) (snd (w_second w)) q newer d = (d', Verified out rq)"
    for q newer d' out rq
    using verify_alone_hints [OF that] assms by (simp add: json_library_def)
  have "typed (snd (case verify_alone (fst (w_first w)) (snd (w_first w)) (fst (w_second w)) (snd (w_second w)) q newer d
      of (d', reply) \<Rightarrow> (d', reply_response w d' reply)))" for q newer
    by (cases "verify_alone (fst (w_first w)) (snd (w_first w)) (fst (w_second w)) (snd (w_second w)) q newer d")
      (simp, rule replies, rule ordered, simp)
  then show ?thesis
    by (simp add: verify_response_def typed_json split: sum.split prod.split)
qed

lemma record_failure_typed: "json_wf (fst (snd (record_failure w a k n t s)))"
  by (simp add: record_failure_def recording_summary_def typed_json split: sum.split prod.split)

lemma explanation_typed: "json_wf (analysis_json a) \<Longrightarrow> json_wf r \<Longrightarrow> json_wf (explanation f a r)"
  by (simp add: explanation_def typed_json)

definition typed_list :: "daemon_error + (json list \<times> bool) \<Rightarrow> bool" where
  "typed_list r = (case r of Inl _ \<Rightarrow> True | Inr (xs, _) \<Rightarrow> list_all json_wf xs)"

lemma typed_list_simps [simp]:
  "typed_list (Inl e)" "typed_list (Inr (xs, b)) = list_all json_wf xs"
  "json_wf j \<Longrightarrow> typed_list r \<Longrightarrow> typed_list (map_sum id (map_prod (Cons j) id) r)"
  by (cases r; force simp: typed_list_def)+

lemma explain_loop_typed:
  assumes "json_library w"
  shows "typed_list (snd (explain_loop w arts budget k ids exhausted s))"
proof (induction ids arbitrary: k exhausted s)
  case (Cons i ids)
  have "json_wf (explanation f a (jobj [(''error'', jstr m)]))" "json_wf (explanation f a (fst (snd (record_failure w x n t i s))))"
    if "analysed w s' f = Inr a" for f a m x n t i s s'
    using analysed_ordered [OF assms that] by (simp_all add: explanation_typed record_failure_typed typed_json)
  then show ?case
    using Cons by (auto simp: case_prod_beta split: sum.split option.split)
qed simp

lemma build_failure_typed: "json_wf v \<Longrightarrow> json_wf (build_failure v)"
  by (cases "json_get v ''logFile''") (simp_all add: build_failure_def typed_json json_wf_get)

lemma typed_explain [typed_json]:
  assumes w: "json_library w"
  shows "typed (snd (explain_response w d v))"
proof -
  obtain d1 r where v: "verify_response w d v = (d1, r)" by force
  show ?thesis
  proof (cases r)
    case (Inr x)
    obtain ec e where x: "x = (ec, e)" by force
    have e: "json_wf (env_data e)" using typed_verify [OF w, of d v] by (simp add: v Inr x json_map_def)
    let ?ids = "take (clamp_nat (unwrap_or (get_u64 v ''maxFailures'') 5) 1 20) (failure_ids_of (env_data e))"
    obtain s res where l: "explain_loop w (discover (fst (w_attempt w))) (starting_at (w_clock w 0) EXPLAIN_RECORDING_BUDGET) 0
        ?ids False (d_store d1) = (s, res)" by force
    show ?thesis
    proof (cases res)
      case (Inr y)
      obtain xs ex where y: "y = (xs, ex)" by force
      have "typed_list res" using explain_loop_typed [OF w] l by (metis snd_conv)
      then have "list_all json_wf xs" by (simp add: Inr y)
      then have "json_wf (JArray xs)" by (simp add: list_all_iff)
      then show ?thesis using e
        by (simp add: explain_response_def v \<open>r = Inr x\<close> x l Inr y Let_def explained_envelope_def typed_json build_failure_typed
              del: One_nat_def)
    qed (simp add: explain_response_def v \<open>r = Inr x\<close> x l Let_def del: One_nat_def)
  qed (simp add: explain_response_def v)
qed

lemma typed_record [typed_json]: "typed (snd (record_response w d v))"
  by (simp add: record_response_def Let_def typed_json split: sum.split prod.split)

lemma typed_replay_response: "list_all (\<lambda>e. json_wf (snd e)) extra \<Longrightarrow> typed (snd (replay_response w d i r e extra))"
  by (simp add: replay_response_def Let_def typed_json split: sum.split prod.split)

lemma recorded_ordered:
  assumes "json_library w" "recording_of (w_codec w) s i = Inr (Some r)" "e \<in> set (rec_events r)"
  shows "json_wf (event_json e)"
proof -
  obtain x where "recording_from_json (w_codec w) x = Some r"
    using assms(2) by (auto simp: recording_of_def rbind_eq_Inr json_result_def split: option.splits)
  then show ?thesis using assms(1, 3) event_json_wf by (auto simp: json_library_def)
qed

lemma typed_replays [typed_json]:
  assumes "json_library w"
  shows "typed (snd (replay_at w d v q))" "typed (snd (reverse_response w d v))"
proof -
  obtain found where f: "recording_of (w_codec w) (d_store d) (command_string v ''recordingId'') = found" by simp
  have rec: "json_wf (event_json e)" if "found = Inr (Some r)" "e \<in> set (rec_events r)" for r e
    using recorded_ordered [OF assms] that f by blast
  have query: "json_wf (event_json e)" if "found = Inr (Some r)" "List.find P (rec_events r) = Some e" for r e P
    using rec [OF that(1)] find_Some_in [OF that(2)] by blast
  show "typed (snd (replay_at w d v q))"
    by (auto simp: replay_at_def f typed_json Let_def query intro!: typed_replay_response
        split: sum.split option.split)
  have reached: "json_wf (event_json (out_event x))" if "found = Inr (Some r)" "jvm_reverse r y = Inr x" for r x y
  proof -
    have "out_event x \<in> set (rec_events r)" using that(2) by (auto simp: jvm_reverse_ok nearest_match_def)
    then show ?thesis by (rule rec [OF that(1)])
  qed
  show "typed (snd (reverse_response w d v))"
    by (auto simp: reverse_response_def f typed_json Let_def reached intro!: typed_replay_response
        split: sum.split option.split replay_error.split)
qed

lemma typed_command: "json_library w \<Longrightarrow> typed (snd (command_response w d c v q))"
  by (simp add: command_response_def typed_json typed_controls [unfolded typed_response])

lemma typed_command_data: "json_library w \<Longrightarrow> command_response w d c v q = (d', Inr r) \<Longrightarrow> json_map (env_data (snd r))"
  using typed_command [of w d c v q] by (simp add: typed_response)

lemma typed_present: "json_map (env_data (snd r)) \<Longrightarrow> json_map (env_data (snd (present w q r)))"
  by (cases r) (simp add: present_def enforce_response_limit_def json_map_masked split: option.split,
     simp add: json_map_def as_object_def bt_wf_def)

lemma typed_revision_check: "revision_check w d c q = Inr (Some r) \<Longrightarrow> json_map (env_data (snd r))"
  by (auto simp: revision_check_def typed_json split: option.splits sum.splits if_splits)

section \<open>Properties\<close>

text \<open>\<^bold>\<open>C13\<close> Every response carries data that is a JSON object with ordered members at every depth, whatever
  the command, the field mask and the size limit, and also for an internal error, whose data is the empty
  object: clients may look members up without checking what they were sent.  All that is asked of the
  JSON library is that what it reads is ordered.  (Should the envelope itself fail to encode, the text
  is an empty object.)\<close>

theorem response_data_is_an_object:
  assumes "json_library w"
  shows "\<exists>e. envelope_json (snd (handle w d req)) = unwrap_or (w_envelope_json w e) ''{}''
    \<and> json_wf (env_data e) \<and> (\<exists>members. env_data e = JObject members)
    \<and> (case snd (dispatch w d req) of Inr (ec, sent) \<Rightarrow> e = sent | Inl err \<Rightarrow> env_data e = JObject [])"
proof -
  obtain d' resp where h: "handle w d req = (d', resp)" by fastforce
  have shape: "\<exists>members. v = JObject members" if "json_map v" for v
    using that by (cases v) (simp_all add: json_map_def as_object_def)
  from h show ?thesis
  proof (cases rule: handle_cases)
    case (answered ec e)
    have "typed (snd (dispatch w d req))"
      by (auto simp: dispatch_def Let_def typed_json intro: typed_present typed_command_data [OF assms(1)]
          dest: typed_revision_check split: option.split sum.split prod.split)
    then have "json_map (env_data e)" using answered(1) by simp
    with answered shape h show ?thesis by (intro exI [of _ e]) (auto simp: json_map_wf)
  next
    case (internal err)
    let ?e = "error_envelope w d' (jobj []) ''WALARU_INTERNAL'' (w_error_text w err)"
    have "env_data ?e = JObject []" by (simp add: jobj_def bt_collect_def)
    with internal h show ?thesis by (intro exI [of _ ?e]) (simp add: bt_wf_def)
  qed
qed

lemma sample_json_library: "json_library (sample_world replay_env)"
proof -
  have fits: "json_fits 127 sample_finish" by (simp add: sample_finish_def bt_wf_def)
  then have "event_fits replayed_event" unfolding replayed_event_def by (rule event_of_raw_fits)
  then have "event_ordered replayed_event" using json_fits_wf by (auto simp: event_ordered_def event_fits_def)
  moreover have "json_wf sample_finish" using fits by (rule json_fits_wf)
  ultimately show ?thesis
    by (auto simp: json_library_def verifier_ordered_def sample_world_def replay_env_def replay_codec_def table_codec_def
        table_from_def sample_venv_def replayed_recording_def split: if_splits)
qed

theorem response_data_is_an_object_witness:
  "\<exists>d' e. dispatch (sample_world replay_env) (sample_daemon (replay_store [] [] [])) (rpc ''replay'') = (d', Inr (0, e))
     \<and> (\<exists>members. env_data e = JObject members)"
proof -
  obtain d' e where d: "dispatch (sample_world replay_env) (sample_daemon (replay_store [] [] [])) (rpc ''replay'') = (d', Inr (0, e))"
    using sample_dispatch_replay by blast
  from response_data_is_an_object [OF sample_json_library, of "sample_daemon (replay_store [] [] [])" "rpc ''replay''"] d
  show ?thesis by auto
qed

end
