(* ===== verification/Daemon_Endpoint.thy ===== *)
theory Daemon_Endpoint
  imports Transport
begin

text \<open>
  \<^verbatim>\<open>crates/walaru-daemon/src/server.rs\<close>, the life of a daemon process at the endpoint of its worktree:
  \<^verbatim>\<open>DaemonServer::serve\<close> from the binding of the socket to the guard that removes it.  Every
  access to the file system is a step, and daemon processes interleave.
\<close>

section \<open>Sockets\<close>

text \<open>The kinds of I/O error the code tells apart; \<open>OsOne\<close> is \<^verbatim>\<open>raw_os_error() == Some(1)\<close>.\<close>

datatype io_kind = InvalidInput | UnsupportedInput | PermissionDenied | OsOne | OtherKind

definition tolerate_unsupported_local_timeout :: "io_kind + unit \<Rightarrow> io_kind + unit" where
  "tolerate_unsupported_local_timeout r = (case r of
      Inl k \<Rightarrow> if k = InvalidInput \<or> k = UnsupportedInput then Inr () else Inl k
    | Inr _ \<Rightarrow> Inr ())"

definition set_stream_timeouts :: "io_kind + unit \<Rightarrow> io_kind + unit \<Rightarrow> io_kind + unit" where
  "set_stream_timeouts read_result write_result =
     rbind (tolerate_unsupported_local_timeout read_result) (\<lambda>_. tolerate_unsupported_local_timeout write_result)"

section \<open>One daemon process\<close>

text \<open>A process stands before one of its accesses.  The three last steps are the guard, whose two
  removals ignore their errors, and the listener, dropped after it; they carry the result.\<close>

datatype daemon_pc =
    Absent
  | EnsureState
  | CheckSocket
  | ProbeSocket
  | RemoveSocket
  | CheckMetadata
  | RemoveMetadata
  | BindSocket
  | SetPermissions
  | OpenDaemon
  | WriteMetadata
  | Accepting
  | DropSocket "daemon_error + unit"
  | DropMetadata "daemon_error + unit"
  | CloseListener "daemon_error + unit"
  | Exited "daemon_error + unit"
  | Killed

text \<open>What a step meets outside the program: the outcome of each system call, of \<^verbatim>\<open>Daemon::open\<close>, whether
  a failed write has made the file, whether a stop was served and the error of \<^verbatim>\<open>accept\<close>.\<close>

record process_view =
  pv_state :: "daemon_error + unit"
  pv_remove :: "string + unit"
  pv_bind :: "string + unit"
  pv_permissions :: "io_kind + unit"
  pv_open :: "daemon_error + unit"
  pv_json :: bool
  pv_write :: "string + unit"
  pv_created :: bool
  pv_stop :: bool
  pv_accept :: "string option"

text \<open>The two files of the endpoint, by the process that made them.\<close>

record endpoint =
  socket_file :: "nat option"
  metadata_file :: "nat option"

text \<open>The listener of a process lives from its binding to its drop.\<close>

definition listening :: "daemon_pc \<Rightarrow> bool" where
  "listening pc = (case pc of
      SetPermissions \<Rightarrow> True | OpenDaemon \<Rightarrow> True | WriteMetadata \<Rightarrow> True | Accepting \<Rightarrow> True
    | DropSocket _ \<Rightarrow> True | DropMetadata _ \<Rightarrow> True | CloseListener _ \<Rightarrow> True | _ \<Rightarrow> False)"

text \<open>A connection succeeds when the socket at the path belongs to a process that still listens.\<close>

definition daemon_is_running :: "(nat \<Rightarrow> daemon_pc) \<Rightarrow> endpoint \<Rightarrow> bool" where
  "daemon_is_running pcs e = (case socket_file e of None \<Rightarrow> False | Some p \<Rightarrow> listening (pcs p))"

text \<open>What a client takes for a running daemon, \<^verbatim>\<open>daemon_ready\<close> in \<^verbatim>\<open>crates/walaru-cli/src/main.rs\<close>.\<close>

definition daemon_ready :: "(nat \<Rightarrow> daemon_pc) \<Rightarrow> endpoint \<Rightarrow> bool" where
  "daemon_ready pcs e = (socket_file e \<noteq> None \<and> metadata_file e \<noteq> None \<and> daemon_is_running pcs e)"

text \<open>\<^verbatim>\<open>bind_local_endpoint\<close>; \<open>connects\<close> is whether the socket at the path answers.\<close>

definition bind_steps :: "string \<Rightarrow> process_view \<Rightarrow> bool \<Rightarrow> nat \<Rightarrow> endpoint \<Rightarrow> daemon_pc \<Rightarrow> endpoint \<times> daemon_pc" where
  "bind_steps path v connects me e pc = (case pc of
      CheckSocket \<Rightarrow> (e, if socket_file e \<noteq> None then ProbeSocket else CheckMetadata)
    | ProbeSocket \<Rightarrow> (e, if connects then Exited (Inl (AlreadyRunning path)) else RemoveSocket)
    | RemoveSocket \<Rightarrow>
        if socket_file e = None then (e, Exited (Inl (DIo ''not found'')))
        else (case pv_remove v of Inl err \<Rightarrow> (e, Exited (Inl (DIo err))) | Inr _ \<Rightarrow> (e\<lparr>socket_file := None\<rparr>, CheckMetadata))
    | CheckMetadata \<Rightarrow> (e, if metadata_file e \<noteq> None then RemoveMetadata else BindSocket)
    | RemoveMetadata \<Rightarrow>
        if metadata_file e = None then (e, Exited (Inl (DIo ''not found'')))
        else (case pv_remove v of Inl err \<Rightarrow> (e, Exited (Inl (DIo err))) | Inr _ \<Rightarrow> (e\<lparr>metadata_file := None\<rparr>, BindSocket))
    | BindSocket \<Rightarrow>
        if socket_file e \<noteq> None then (e, Exited (Inl (DIo ''address in use'')))
        else (case pv_bind v of Inl err \<Rightarrow> (e, Exited (Inl (DIo err))) | Inr _ \<Rightarrow> (e\<lparr>socket_file := Some me\<rparr>, SetPermissions))
    | SetPermissions \<Rightarrow> (e, case pv_permissions v of
          Inl k \<Rightarrow> if k \<noteq> PermissionDenied \<and> k \<noteq> OsOne then Exited (Inl (DIo ''permissions'')) else OpenDaemon
        | Inr _ \<Rightarrow> OpenDaemon)
    | _ \<Rightarrow> (e, pc))"

text \<open>The drop of \<^verbatim>\<open>SocketGuard\<close>.\<close>

definition guard_steps :: "process_view \<Rightarrow> endpoint \<Rightarrow> daemon_pc \<Rightarrow> endpoint \<times> daemon_pc" where
  "guard_steps v e pc = (case pc of
      DropSocket r \<Rightarrow> (case pv_remove v of Inl _ \<Rightarrow> (e, DropMetadata r) | Inr _ \<Rightarrow> (e\<lparr>socket_file := None\<rparr>, DropMetadata r))
    | DropMetadata r \<Rightarrow> (case pv_remove v of Inl _ \<Rightarrow> (e, CloseListener r) | Inr _ \<Rightarrow> (e\<lparr>metadata_file := None\<rparr>, CloseListener r))
    | _ \<Rightarrow> (e, pc))"

text \<open>\<^verbatim>\<open>serve\<close>.  The guard exists from \<open>OpenDaemon\<close> on: every later error leaves through it.\<close>

definition serve_step :: "string \<Rightarrow> process_view \<Rightarrow> bool \<Rightarrow> nat \<Rightarrow> endpoint \<Rightarrow> daemon_pc \<Rightarrow> endpoint \<times> daemon_pc" where
  "serve_step path v connects me e pc = (case pc of
      EnsureState \<Rightarrow> (e, case pv_state v of Inl err \<Rightarrow> Exited (Inl err) | Inr _ \<Rightarrow> CheckSocket)
    | OpenDaemon \<Rightarrow> (e, case pv_open v of Inl err \<Rightarrow> DropSocket (Inl err) | Inr _ \<Rightarrow> WriteMetadata)
    | WriteMetadata \<Rightarrow>
        if \<not> pv_json v then (e, DropSocket (Inl DJson))
        else (case pv_write v of
            Inl err \<Rightarrow> (if pv_created v then e\<lparr>metadata_file := Some me\<rparr> else e, DropSocket (Inl (DIo err)))
          | Inr _ \<Rightarrow> (e\<lparr>metadata_file := Some me\<rparr>, Accepting))
    | Accepting \<Rightarrow> (e, if pv_stop v then DropSocket (Inr ())
        else (case pv_accept v of Some err \<Rightarrow> DropSocket (Inl (DIo err)) | None \<Rightarrow> Accepting))
    | DropSocket _ \<Rightarrow> guard_steps v e pc
    | DropMetadata _ \<Rightarrow> guard_steps v e pc
    | CloseListener r \<Rightarrow> (e, Exited r)
    | Absent \<Rightarrow> (e, Absent)
    | Exited r \<Rightarrow> (e, Exited r)
    | Killed \<Rightarrow> (e, Killed)
    | _ \<Rightarrow> bind_steps path v connects me e pc)"

lemmas serve_steps = serve_step_def bind_steps_def guard_steps_def

section \<open>Many processes\<close>

record host_state =
  endpoint_files :: endpoint
  daemons :: "nat \<Rightarrow> daemon_pc"

text \<open>A process that has not yet bound its socket.  Clients start daemons under a lock, so no two
  processes are there at once.\<close>

definition starting_up :: "daemon_pc \<Rightarrow> bool" where
  "starting_up pc = (pc \<in> {EnsureState, CheckSocket, ProbeSocket, RemoveSocket, CheckMetadata, RemoveMetadata, BindSocket})"

inductive endpoint_step :: "host_state \<Rightarrow> host_state \<Rightarrow> bool" where
  daemon_starts: "\<lbrakk>daemons s p = Absent; \<forall>q. \<not> starting_up (daemons s q)\<rbrakk> \<Longrightarrow>
    endpoint_step s (s\<lparr>daemons := (daemons s)(p := EnsureState)\<rparr>)"
| daemon_moves: "serve_step path v (daemon_is_running (daemons s) (endpoint_files s)) p (endpoint_files s) (daemons s p) = (e, pc) \<Longrightarrow>
    endpoint_step s \<lparr>endpoint_files = e, daemons = (daemons s)(p := pc)\<rparr>"
| daemon_killed: "endpoint_step s (s\<lparr>daemons := (daemons s)(p := Killed)\<rparr>)"

inductive endpoint_reachable :: "host_state \<Rightarrow> bool" where
  endpoint_first: "endpoint_reachable \<lparr>endpoint_files = e, daemons = (\<lambda>_. Absent)\<rparr>"
| endpoint_next: "endpoint_reachable s \<Longrightarrow> endpoint_step s s' \<Longrightarrow> endpoint_reachable s'"

text \<open>A process owns the endpoint from its binding until its guard has removed the socket.\<close>

definition owns :: "daemon_pc \<Rightarrow> bool" where
  "owns pc = (case pc of SetPermissions \<Rightarrow> True | OpenDaemon \<Rightarrow> True | WriteMetadata \<Rightarrow> True | Accepting \<Rightarrow> True
    | DropSocket _ \<Rightarrow> True | _ \<Rightarrow> False)"

definition endpoint_ok :: "endpoint \<Rightarrow> (nat \<Rightarrow> daemon_pc) \<Rightarrow> bool" where
  "endpoint_ok e pcs = ((\<forall>p. owns (pcs p) \<longrightarrow> socket_file e = Some p)
     \<and> (\<forall>p q. starting_up (pcs p) \<longrightarrow> starting_up (pcs q) \<longrightarrow> p = q)
     \<and> (\<forall>p q. pcs p = RemoveSocket \<longrightarrow> socket_file e = Some q \<longrightarrow> \<not> listening (pcs q)))"

lemma owns_listening: "owns pc \<Longrightarrow> listening pc" "owns pc \<Longrightarrow> \<not> starting_up pc" "listening pc \<Longrightarrow> \<not> starting_up pc"
  by (cases pc; simp add: owns_def listening_def starting_up_def)+

text \<open>What a step does to the socket: it is kept, removed or made.\<close>

lemma serve_step_cases:
  assumes "serve_step path v connects me e pc = (e', pc')"
  obtains (kept) "socket_file e' = socket_file e" "owns pc' \<Longrightarrow> owns pc" "starting_up pc' \<Longrightarrow> starting_up pc"
      "listening pc' \<Longrightarrow> listening pc" "pc' = RemoveSocket \<Longrightarrow> pc = ProbeSocket \<and> \<not> connects"
  | (stale) "pc = RemoveSocket" "socket_file e' = None" "pc' = CheckMetadata"
  | (bound) "pc = BindSocket" "socket_file e = None" "socket_file e' = Some me" "pc' = SetPermissions"
  | (dropped) r where "pc = DropSocket r" "socket_file e' = None" "pc' = DropMetadata r"
proof (cases pc)
  case RemoveSocket
  then show thesis using assms kept stale
    by (auto simp: serve_steps owns_def starting_up_def listening_def split: if_splits sum.splits)
next
  case BindSocket
  then show thesis using assms kept bound
    by (auto simp: serve_steps owns_def starting_up_def listening_def split: if_splits sum.splits)
next
  case (DropSocket r)
  then show thesis using assms kept dropped
    by (auto simp: serve_steps owns_def starting_up_def listening_def split: if_splits sum.splits)
qed (use assms kept in \<open>auto simp: serve_steps owns_def starting_up_def listening_def split: if_splits sum.splits option.splits\<close>)

lemma endpoint_okD:
  assumes "endpoint_ok e pcs"
  shows "owns (pcs p) \<Longrightarrow> socket_file e = Some p" "starting_up (pcs p) \<Longrightarrow> starting_up (pcs q) \<Longrightarrow> p = q"
    "pcs p = RemoveSocket \<Longrightarrow> socket_file e = Some q \<Longrightarrow> \<not> listening (pcs q)"
  using assms unfolding endpoint_ok_def by blast+

text \<open>Processes that neither bind nor start leave the invariant alone, as long as the socket stays.\<close>

lemma endpoint_ok_same_socket:
  assumes ok: "endpoint_ok e pcs" and same: "socket_file e' = socket_file e"
    and pc: "owns pc \<Longrightarrow> owns (pcs p)" "starting_up pc \<Longrightarrow> (\<forall>q. starting_up (pcs q) \<longrightarrow> q = p)" "listening pc \<Longrightarrow> listening (pcs p)"
      "pc = RemoveSocket \<Longrightarrow> (\<forall>q. socket_file e = Some q \<longrightarrow> \<not> listening (pcs q))"
  shows "endpoint_ok e' (pcs(p := pc))"
  unfolding endpoint_ok_def
proof (intro conjI allI impI)
  fix q r
  show "socket_file e' = Some q" if "owns ((pcs(p := pc)) q)"
    using that pc(1) endpoint_okD(1) [OF ok] same by (cases "q = p") simp_all
  show "q = r" if "starting_up ((pcs(p := pc)) q)" "starting_up ((pcs(p := pc)) r)"
    using that pc(2) endpoint_okD(2) [OF ok, of q r] by (auto split: if_splits)
  show "\<not> listening ((pcs(p := pc)) r)" if "(pcs(p := pc)) q = RemoveSocket" "socket_file e' = Some r"
  proof -
    have "\<not> listening (pcs r)"
      using that same pc(4) endpoint_okD(3) [OF ok, of q r] by (cases "q = p") simp_all
    then show ?thesis using pc(3) by (cases "r = p") auto
  qed
qed

text \<open>Without a socket and without owners nothing is claimed but that one process starts.\<close>

lemma endpoint_ok_new_socket:
  assumes ok: "endpoint_ok e pcs" and alone: "\<And>q. q \<noteq> p \<Longrightarrow> \<not> owns (pcs q)"
    and pc: "owns pc \<Longrightarrow> socket_file e' = Some p" "starting_up pc \<Longrightarrow> starting_up (pcs p)" "pc \<noteq> RemoveSocket"
    and others: "socket_file e' = None \<or> starting_up (pcs p)"
  shows "endpoint_ok e' (pcs(p := pc))"
  unfolding endpoint_ok_def
proof (intro conjI allI impI)
  fix q r
  show "socket_file e' = Some q" if "owns ((pcs(p := pc)) q)"
    using that pc(1) alone by (cases "q = p") auto
  show "q = r" if "starting_up ((pcs(p := pc)) q)" "starting_up ((pcs(p := pc)) r)"
    using that pc(2) endpoint_okD(2) [OF ok] by (auto split: if_splits)
  show "\<not> listening ((pcs(p := pc)) r)" if "(pcs(p := pc)) q = RemoveSocket" "socket_file e' = Some r"
  proof -
    from that(1) pc(3) have "q \<noteq> p" "pcs q = RemoveSocket" by (auto split: if_splits)
    then have "starting_up (pcs q)" by (simp add: starting_up_def)
    with others \<open>q \<noteq> p\<close> that(2) show ?thesis using endpoint_okD(2) [OF ok, of q p] by simp
  qed
qed

lemma endpoint_ok_move:
  assumes ok: "endpoint_ok e pcs" and m: "serve_step path v (daemon_is_running pcs e) p e (pcs p) = (e', pc)"
  shows "endpoint_ok e' (pcs(p := pc))"
  using m
proof (cases rule: serve_step_cases)
  case kept
  have start: "\<forall>q. starting_up (pcs q) \<longrightarrow> q = p" if "starting_up pc"
    using kept(3) [OF that] endpoint_okD(2) [OF ok] by blast
  have remove: "\<forall>q. socket_file e = Some q \<longrightarrow> \<not> listening (pcs q)" if "pc = RemoveSocket"
    using kept(5) [OF that] by (auto simp: daemon_is_running_def)
  show ?thesis by (rule endpoint_ok_same_socket [OF ok kept(1) kept(2) start kept(4) remove])
next
  case stale
  have "\<not> owns (pcs q)" for q
    using endpoint_okD(1, 3) [OF ok] stale(1) owns_listening(1) by metis
  then show ?thesis using stale by (intro endpoint_ok_new_socket [OF ok]) (simp_all add: owns_def starting_up_def)
next
  case bound
  have "\<not> owns (pcs q)" for q using endpoint_okD(1) [OF ok] bound(2) by fastforce
  then show ?thesis using bound by (intro endpoint_ok_new_socket [OF ok]) (simp_all add: starting_up_def)
next
  case (dropped r)
  have "\<not> owns (pcs q)" if "q \<noteq> p" for q
    using endpoint_okD(1) [OF ok, of q] endpoint_okD(1) [OF ok, of p] dropped(1) that by (auto simp: owns_def)
  then show ?thesis using dropped by (intro endpoint_ok_new_socket [OF ok]) (simp_all add: owns_def starting_up_def)
qed

lemma endpoint_reachable_ok: "endpoint_reachable s \<Longrightarrow> endpoint_ok (endpoint_files s) (daemons s)"
proof (induction rule: endpoint_reachable.induct)
  case (endpoint_first e)
  then show ?case by (simp add: endpoint_ok_def owns_def starting_up_def)
next
  case (endpoint_next s s')
  note ok = endpoint_next.IH
  from endpoint_next.hyps(2) show ?case
  proof cases
    case (daemon_starts p)
    have "endpoint_ok (endpoint_files s) ((daemons s)(p := EnsureState))"
      by (rule endpoint_ok_same_socket [OF ok refl]) (use daemon_starts(3) in \<open>simp_all add: owns_def listening_def\<close>)
    then show ?thesis using daemon_starts(1) by (simp add: fun_upd_def)
  next
    case (daemon_moves path v p e pc)
    then show ?thesis using endpoint_ok_move [OF ok daemon_moves(2)] by (simp add: fun_upd_def)
  next
    case (daemon_killed p)
    have "endpoint_ok (endpoint_files s) ((daemons s)(p := Killed))"
      by (rule endpoint_ok_same_socket [OF ok refl]) (simp_all add: owns_def listening_def starting_up_def)
    then show ?thesis using daemon_killed by (simp add: fun_upd_def)
  qed
qed

section \<open>Properties\<close>

text \<open>\<^bold>\<open>C20\<close> As long as no two daemons start at once, and whenever daemons stop, fail or are killed: one
  process at most owns the endpoint, the socket at the path is its own, so that every connection
  reaches the daemon that accepts, and a daemon that has not been stopped is never taken for dead.\<close>

theorem endpoint_has_one_owner:
  assumes "endpoint_reachable s" "owns (daemons s p)"
  shows "socket_file (endpoint_files s) = Some p \<and> (\<forall>q. owns (daemons s q) \<longrightarrow> q = p)
    \<and> daemon_is_running (daemons s) (endpoint_files s)
    \<and> (\<forall>q. daemons s q \<noteq> RemoveSocket)"
proof (intro conjI allI impI)
  have ok: "endpoint_ok (endpoint_files s) (daemons s)" by (rule endpoint_reachable_ok [OF assms(1)])
  show f: "socket_file (endpoint_files s) = Some p" by (rule endpoint_okD(1) [OF ok assms(2)])
  show "daemon_is_running (daemons s) (endpoint_files s)" using f owns_listening(1) [OF assms(2)] by (simp add: daemon_is_running_def)
  show "q = p" if "owns (daemons s q)" for q using endpoint_okD(1) [OF ok that] f by simp
  show "daemons s q \<noteq> RemoveSocket" for q using endpoint_okD(3) [OF ok _ f] owns_listening(1) [OF assms(2)] by blast
qed

text \<open>A run in which every system call succeeds and no stop is served, and one that is stopped.\<close>

definition fair_view :: "bool \<Rightarrow> process_view" where
  "fair_view stopped = \<lparr>pv_state = Inr (), pv_remove = Inr (), pv_bind = Inr (), pv_permissions = Inr (), pv_open = Inr (),
     pv_json = True, pv_write = Inr (), pv_created = False, pv_stop = stopped, pv_accept = None\<rparr>"

fun fair_run :: "bool \<Rightarrow> nat \<Rightarrow> nat \<Rightarrow> host_state \<Rightarrow> host_state" where
  "fair_run stopped p 0 s = s"
| "fair_run stopped p (Suc n) s =
     (case serve_step ''s'' (fair_view stopped) (daemon_is_running (daemons s) (endpoint_files s)) p (endpoint_files s) (daemons s p) of
        (e, pc) \<Rightarrow> fair_run stopped p n \<lparr>endpoint_files = e, daemons = (daemons s)(p := pc)\<rparr>)"

lemma fair_run_reachable: "endpoint_reachable s \<Longrightarrow> endpoint_reachable (fair_run stopped p n s)"
proof (induction n arbitrary: s)
  case (Suc n)
  obtain e pc where m: "serve_step ''s'' (fair_view stopped) (daemon_is_running (daemons s) (endpoint_files s)) p (endpoint_files s) (daemons s p)
      = (e, pc)" by force
  then show ?case using Suc.IH [OF endpoint_next [OF Suc.prems daemon_moves [OF m]]] by simp
qed simp

definition host_of :: "nat option \<Rightarrow> nat option \<Rightarrow> daemon_pc \<Rightarrow> daemon_pc \<Rightarrow> host_state" where
  "host_of f m pc0 pc1 = \<lparr>endpoint_files = \<lparr>socket_file = f, metadata_file = m\<rparr>, daemons = (\<lambda>_. Absent)(0 := pc0, 1 := pc1)\<rparr>"

lemma first_daemon_accepts: "endpoint_reachable (host_of (Some 0) (Some 0) Accepting Absent)"
proof -
  have "endpoint_reachable (host_of None None Absent Absent)"
    using endpoint_first [of "\<lparr>socket_file = None, metadata_file = None\<rparr>"] by (simp add: host_of_def fun_upd_idem)
  then have "endpoint_reachable ((host_of None None Absent Absent)\<lparr>daemons := (daemons (host_of None None Absent Absent))(0 := EnsureState)\<rparr>)"
    by (rule endpoint_next) (rule daemon_starts, simp_all add: host_of_def starting_up_def)
  then have "endpoint_reachable (host_of None None EnsureState Absent)" by (simp add: host_of_def fun_upd_twist)
  then have "endpoint_reachable (fair_run False 0 7 (host_of None None EnsureState Absent))" by (rule fair_run_reachable)
  then show ?thesis
    by (simp add: eval_nat_numeral serve_steps fair_view_def host_of_def fun_upd_twist)
qed

theorem endpoint_has_one_owner_witness:
  "endpoint_reachable (host_of (Some 0) (Some 0) Accepting Absent)
   \<and> daemon_is_running (daemons (host_of (Some 0) (Some 0) Accepting Absent)) (endpoint_files (host_of (Some 0) (Some 0) Accepting Absent))"
  using endpoint_has_one_owner [OF first_daemon_accepts, of 0] first_daemon_accepts by (simp add: host_of_def owns_def)

text \<open>A daemon that is stopped removes its socket and then the metadata of whichever daemon has
  meanwhile started: the successor accepts connections, but no client takes it for running, and
  every further daemon ends because it is.\<close>

theorem stopping_daemon_removes_successors_metadata:
  "\<exists>s. endpoint_reachable s \<and> daemons s 1 = Accepting \<and> daemons s 0 = Exited (Inr ())
     \<and> daemon_is_running (daemons s) (endpoint_files s) \<and> \<not> daemon_ready (daemons s) (endpoint_files s)
     \<and> (\<forall>v p. serve_step ''s'' v (daemon_is_running (daemons s) (endpoint_files s)) p (endpoint_files s) ProbeSocket
          = (endpoint_files s, Exited (Inl (AlreadyRunning ''s''))))"
proof -
  have "endpoint_reachable (fair_run True 0 2 (host_of (Some 0) (Some 0) Accepting Absent))"
    by (rule fair_run_reachable [OF first_daemon_accepts])
  then have dropped: "endpoint_reachable (host_of None (Some 0) (DropMetadata (Inr ())) Absent)"
    by (simp add: eval_nat_numeral serve_steps fair_view_def host_of_def fun_upd_twist)
  let ?d = "host_of None (Some 0) (DropMetadata (Inr ())) Absent"
  have "endpoint_reachable (?d\<lparr>daemons := (daemons ?d)(1 := EnsureState)\<rparr>)"
    using dropped by (rule endpoint_next) (rule daemon_starts, simp_all add: host_of_def starting_up_def)
  then have "endpoint_reachable (host_of None (Some 0) (DropMetadata (Inr ())) EnsureState)"
    by (simp add: host_of_def fun_upd_twist)
  then have "endpoint_reachable (fair_run False 1 8 (host_of None (Some 0) (DropMetadata (Inr ())) EnsureState))"
    by (rule fair_run_reachable)
  then have "endpoint_reachable (host_of (Some 1) (Some 1) (DropMetadata (Inr ())) Accepting)"
    by (simp add: eval_nat_numeral serve_steps fair_view_def host_of_def fun_upd_twist)
  then have "endpoint_reachable (fair_run True 0 2 (host_of (Some 1) (Some 1) (DropMetadata (Inr ())) Accepting))"
    by (rule fair_run_reachable)
  then have "endpoint_reachable (host_of (Some 1) None (Exited (Inr ())) Accepting)"
    by (simp add: eval_nat_numeral serve_steps fair_view_def host_of_def fun_upd_twist)
  then show ?thesis
    by (intro exI [of _ "host_of (Some 1) None (Exited (Inr ())) Accepting"])
      (simp add: host_of_def daemon_is_running_def daemon_ready_def listening_def serve_steps)
qed

end
