(* ===== verification/Human.thy ===== *)
theory Human
  imports Protocol
begin

text \<open>
  \<^verbatim>\<open>crates/walaru-cli/src/human.rs\<close>: the text a person reads, built from the envelope of a
  response.  An output is the bytes written; a write error only cuts it short.  The package version,
  the JSON printers and the Unicode upper case are parameters.
\<close>

section \<open>Text\<close>

record human_env =
  he_version :: string
  he_json :: "json \<Rightarrow> string"
  he_pretty :: "json \<Rightarrow> string"
  he_upper :: "string \<Rightarrow> string"

definition DOT :: string where "DOT = [CHR 0xC2, CHR 0xB7]"
definition DOTS :: string where "DOTS = [CHR 0xE2, CHR 0x80, CHR 0xA6]"

definition writeln :: "string \<Rightarrow> string" where "writeln s = s @ [LF]"

definition pad :: "nat \<Rightarrow> string \<Rightarrow> string" where
  "pad w s = s @ replicate (w - chars_count s) (CHR '' '')"

text \<open>\<^verbatim>\<open>Value::pointer\<close>, for pointers without escapes; the ones below name object members only.\<close>

fun pointer_tokens :: "json \<Rightarrow> string list \<Rightarrow> json option" where
  "pointer_tokens v [] = Some v"
| "pointer_tokens v (t # ts) = (case v of
      JObject m \<Rightarrow> Option.bind (bt_get m t) (\<lambda>w. pointer_tokens w ts)
    | JArray xs \<Rightarrow>
        if starts_with t ''+'' \<or> starts_with t ''0'' \<and> length t \<noteq> 1 then None
        else Option.bind (parse_usize t) (\<lambda>i. if i < length xs then pointer_tokens (xs ! i) ts else None)
    | _ \<Rightarrow> None)"

definition pointer :: "json \<Rightarrow> string \<Rightarrow> json option" where
  "pointer v p = (if p = [] then Some v else if hd p \<noteq> SLASH then None
     else pointer_tokens v (tl (split_char SLASH p)))"

definition string_at :: "json \<Rightarrow> string \<Rightarrow> string" where
  "string_at v p = unwrap_or (Option.bind (pointer v p) as_str) ''-''"

definition display_at :: "human_env \<Rightarrow> json \<Rightarrow> string \<Rightarrow> string" where
  "display_at h v p = (case pointer v p of None \<Rightarrow> ''-'' | Some item \<Rightarrow> unwrap_or (as_str item) (he_json h item))"

definition bool_at :: "json \<Rightarrow> string \<Rightarrow> bool" where
  "bool_at v p = (Option.bind (pointer v p) as_bool = Some True)"

definition status_word :: "status \<Rightarrow> string" where
  "status_word s = (case s of Ok \<Rightarrow> ''ok'' | Failure \<Rightarrow> ''failure'' | Partial \<Rightarrow> ''partial'' | Stale \<Rightarrow> ''stale''
     | Unsupported \<Rightarrow> ''unsupported'' | Error \<Rightarrow> ''error'')"

definition completeness_word :: "envelope \<Rightarrow> string" where
  "completeness_word e = (case completeness (capabilities e) of
      Complete \<Rightarrow> ''complete'' | PartiallyComplete \<Rightarrow> ''partial'' | UnsupportedRecording \<Rightarrow> ''unsupported'')"

definition yes_no :: "bool \<Rightarrow> string" where "yes_no b = (if b then ''yes'' else ''no'')"

definition not_null :: "json option \<Rightarrow> json option" where
  "not_null v = (if v = Some JNull then None else v)"

definition location_text :: "json option \<Rightarrow> string" where
  "location_text v = (case not_null v of
      None \<Rightarrow> ''-''
    | Some w \<Rightarrow> string_at w ''/path'' @ '':'' @ show_nat (unwrap_or (get_u64 w ''line'') 0))"

text \<open>At most \<open>width\<close> characters; the last one stands for what is cut off.\<close>

definition clipped :: "string \<Rightarrow> nat \<Rightarrow> string" where
  "clipped v width = (if width < chars_count v \<and> 1 < width then chars_take (width - 1) (chars_take width v) @ DOTS
     else chars_take width v)"

definition render_json :: "human_env \<Rightarrow> json \<Rightarrow> nat \<Rightarrow> string" where
  "render_json h v indent = concat (map (\<lambda>l. writeln (replicate indent (CHR '' '') @ l)) (lines (he_pretty h v)))"

definition row :: "string \<Rightarrow> bool \<Rightarrow> string \<Rightarrow> string" where
  "row name good what =
     writeln (pad 17 name @ '' '' @ pad 7 (if good then ''ok'' else ''missing'') @ '' '' @ what)"

definition array_at :: "json \<Rightarrow> string \<Rightarrow> json list" where
  "array_at v k = unwrap_or (Option.bind (json_get v k) as_array) []"

definition member :: "json \<Rightarrow> string \<Rightarrow> json" where
  "member v k = unwrap_or (json_get v k) JNull"

section \<open>Commands\<close>

definition render_page :: "envelope \<Rightarrow> string" where
  "render_page e = (case Option.bind (env_page e) page_next_cursor of
      None \<Rightarrow> [] | Some c \<Rightarrow> writeln [] @ writeln (''More results: --cursor '' @ c))"

definition render_status :: "envelope \<Rightarrow> string" where
  "render_status e =
     writeln (''Daemon:   '' @ yes_no (bool_at (env_data e) ''/running''))
     @ writeln (''Revision: '' @ env_revision e)
     @ writeln (''Workspace: '' @ workspace_id e)
     @ (case get_u64 (env_data e) ''pid'' of None \<Rightarrow> [] | Some p \<Rightarrow> writeln (''Process:  '' @ show_nat p))
     @ writeln (''Replay:   '' @ cap_backend (capabilities e) @ '' ('' @ completeness_word e @ '')'')"

definition render_doctor :: "envelope \<Rightarrow> string" where
  "render_doctor e =
     (let d = env_data e in
      writeln (''Ready: '' @ yes_no (bool_at d ''/ready''))
      @ writeln []
      @ writeln ''CHECK             RESULT  DETAILS''
      @ row ''Platform'' (bool_at d ''/platform/supported'') (string_at d ''/platform/os'' @ ''/'' @ string_at d ''/platform/arch'')
      @ row ''JDK 21+'' (case Option.bind (pointer d ''/java/major'') as_u64 of None \<Rightarrow> False | Some major \<Rightarrow> 21 \<le> major)
          (string_at d ''/java/raw'')
      @ row ''Build tool'' (bool_at d ''/buildTool/ready'') (string_at d ''/buildTool/kind'')
      @ row ''Runtime artifacts'' (bool_at d ''/runtimeArtifacts/present'') ''agent and adapter''
      @ row ''Exact Linux replay'' (bool_at d ''/linuxReplay/rr'') ''optional rr backend'')"

definition render_run :: "envelope \<Rightarrow> string" where
  "render_run e = (case env_run_id e of None \<Rightarrow> [] | Some r \<Rightarrow> writeln (''Run:          '' @ r))"

definition render_verify :: "envelope \<Rightarrow> string" where
  "render_verify e =
     (let d = env_data e in
      writeln (''Verification: '' @ string_at d ''/status'')
      @ render_run e
      @ writeln (''Tests:        '' @ show_nat (length (array_at d ''tests'')))
      @ (case get_u64 d ''events'' of None \<Rightarrow> [] | Some n \<Rightarrow> writeln (''Events:       '' @ show_nat n))
      @ (if bool_at d ''/requeued'' then writeln ''Revision changed once; verification was requeued.'' else []))"

definition render_build_failure :: "json \<Rightarrow> string" where
  "render_build_failure b =
     writeln (string_at b ''/summary'')
     @ (case get_str b ''logFile'' of None \<Rightarrow> [] | Some l \<Rightarrow> writeln (''Worker log:    '' @ l))
     @ (case Option.bind (json_get b ''suggestions'') as_array of
          None \<Rightarrow> []
        | Some ss \<Rightarrow> writeln ''Next steps:'' @ concat (map (\<lambda>s. writeln (''  - '' @ unwrap_or (as_str s) ''-'')) ss))"

definition render_evidence :: "human_env \<Rightarrow> string \<Rightarrow> nat \<Rightarrow> json \<Rightarrow> string" where
  "render_evidence h indent width item =
     writeln (indent @ string_at item ''/label'' @ '' = ''
       @ clipped (case json_get item ''value'' of None \<Rightarrow> ''-'' | Some v \<Rightarrow> he_json h v) width)"

definition render_explanation :: "human_env \<Rightarrow> json \<Rightarrow> string" where
  "render_explanation h x =
     (let f = member x ''failure''; a = member x ''analysis''; r = member x ''recording'' in
      writeln []
      @ writeln (string_at f ''/testId'')
      @ writeln (''  '' @ string_at a ''/summary'')
      @ writeln (''  Likely: '' @ string_at a ''/likelyCause'')
      @ (case not_null (json_get a ''focus'') of None \<Rightarrow> [] | Some w \<Rightarrow> writeln (''  Focus:  '' @ location_text (Some w)))
      @ (case get_str r ''id'' of
           Some i \<Rightarrow> writeln (''  Full recording: '' @ i @ '' ('' @ show_nat (unwrap_or (get_u64 r ''events'') 0)
             @ '' events, '' @ string_at r ''/capabilities/completeness'' @ '')'')
         | None \<Rightarrow> (case get_str r ''error'' of
             None \<Rightarrow> [] | Some m \<Rightarrow> writeln (''  Full recording unavailable: '' @ m)))
      @ concat (map (render_evidence h ''    '' 100) (take 5 (array_at a ''evidence''))))"

definition render_omitted :: "json \<Rightarrow> string" where
  "render_omitted d =
     (let omitted = unwrap_or (get_u64 d ''omittedFailures'') 0 in
      if 0 < omitted
      then writeln ([LF] @ show_nat omitted @ '' additional failures were not recorded.'')
        @ (if bool_at d ''/recordingBudgetExhausted''
           then writeln ''The shared recording time budget elapsed; completed analysis is preserved.'' else [])
      else [])"

definition render_explain :: "human_env \<Rightarrow> envelope \<Rightarrow> string" where
  "render_explain h e =
     (let d = env_data e; explanations = array_at d ''explanations'' in
      writeln (''Verification: '' @ string_at (member d ''verification'') ''/status'')
      @ render_run e
      @ (if explanations = []
         then (case not_null (json_get d ''buildFailure'') of
             Some b \<Rightarrow> render_build_failure b
           | None \<Rightarrow> writeln ''No failed test produced explainable evidence.'')
         else concat (map (render_explanation h) explanations) @ render_omitted d))"

definition render_test :: "json \<Rightarrow> string" where
  "render_test t = writeln (pad 9 (clipped (string_at t ''/lastStatus'') 8) @ '' '' @ pad 16 (clipped (string_at t ''/module'') 15)
     @ '' '' @ pad 41 (clipped (string_at t ''/id'') 40) @ '' '' @ clipped (string_at t ''/lastFailureId'') 24)"

definition render_tests :: "envelope \<Rightarrow> string" where
  "render_tests e =
     (let ts = array_at (env_data e) ''tests'' in
      writeln (''Tests: '' @ show_nat (length ts))
      @ writeln []
      @ writeln ''STATUS    MODULE           TEST                                      FAILURE''
      @ concat (map render_test ts)
      @ render_page e)"


definition render_failure_head :: "json \<Rightarrow> string" where
  "render_failure_head f =
     writeln (''Failure: '' @ string_at f ''/id'')
     @ writeln (''Test:    '' @ string_at f ''/testId'')
     @ writeln (''Type:    '' @ string_at f ''/exceptionType'')
     @ writeln (''Message: '' @ string_at f ''/message'')
     @ (case get_str f ''eventId'' of None \<Rightarrow> [] | Some i \<Rightarrow> writeln (''Event:   '' @ i))"

definition render_failure_analysis :: "human_env \<Rightarrow> json \<Rightarrow> string" where
  "render_failure_analysis h a =
     writeln []
     @ writeln ''Why this probably failed''
     @ writeln (''  '' @ string_at a ''/summary'')
     @ writeln (''  Evidence: '' @ string_at a ''/likelyCause'')
     @ (case not_null (json_get a ''focus'') of None \<Rightarrow> [] | Some w \<Rightarrow> writeln (''  Focus:    '' @ location_text (Some w)))
     @ (case Option.bind (json_get a ''evidence'') as_array of
          None \<Rightarrow> []
        | Some es \<Rightarrow> writeln [] @ writeln ''Relevant state:'' @ concat (map (render_evidence h ''  '' 120) (take 7 es)))
     @ (case Option.bind (json_get a ''suggestions'') as_array of
          None \<Rightarrow> []
        | Some ss \<Rightarrow> writeln [] @ writeln ''Try next:''
            @ concat (map (\<lambda>s. writeln (''  - '' @ s)) (take 4 (List.map_filter as_str ss))))"

definition render_frames :: "json list \<Rightarrow> string" where
  "render_frames frames =
     writeln []
     @ writeln ''Top stack frames:''
     @ concat (map (\<lambda>f. writeln (''  '' @ unwrap_or (as_str f) ''?'')) (take 8 frames))
     @ (if 8 < length frames then writeln (''  '' @ DOTS @ '' '' @ show_nat (length frames - 8) @ '' more'') else [])"

definition render_failure :: "human_env \<Rightarrow> envelope \<Rightarrow> string" where
  "render_failure h e = (case not_null (json_get (env_data e) ''failure'') of
      None \<Rightarrow> writeln ''No failure found.''
    | Some f \<Rightarrow>
        render_failure_head f
        @ (case not_null (json_get (env_data e) ''analysis'') of None \<Rightarrow> [] | Some a \<Rightarrow> render_failure_analysis h a)
        @ (case Option.bind (json_get f ''frames'') as_array of None \<Rightarrow> [] | Some fs \<Rightarrow> render_frames fs))"

definition render_impact :: "envelope \<Rightarrow> string" where
  "render_impact e =
     (let d = env_data e in
      writeln (''Subject:   '' @ string_at d ''/subject'')
      @ writeln (''Selection: '' @ string_at d ''/selection'')
      @ (case get_str d ''reason'' of None \<Rightarrow> [] | Some r \<Rightarrow> writeln (''Reason:    '' @ r))
      @ concat (map (\<lambda>t. writeln (''  '' @ unwrap_or (as_str t) ''?'')) (array_at d ''tests'')))"

definition render_covered :: "json \<Rightarrow> string" where
  "render_covered item =
     (let place = string_at item ''/path'' @ '':'' @ show_nat (unwrap_or (get_u64 item ''line'') 0) in
      writeln (pad 40 (clipped place 39) @ '' '' @ pad 30 (clipped (string_at item ''/symbol'') 29) @ '' '' @ string_at item ''/testId''))"

definition render_coverage :: "envelope \<Rightarrow> string" where
  "render_coverage e =
     (let items = array_at (env_data e) ''coverage'' in
      writeln (''Coverage entries: '' @ show_nat (length items))
      @ writeln ''PATH:LINE                                SYMBOL                         TEST''
      @ concat (map render_covered items)
      @ render_page e)"

definition render_trace_event :: "json \<Rightarrow> string" where
  "render_trace_event x =
     writeln (pad 8 (show_nat (unwrap_or (get_u64 x ''sequence'') 0)) @ '' ''
       @ pad 13 (clipped (string_at x ''/kind'') 12) @ '' ''
       @ pad 39 (clipped (location_text (json_get x ''location'')) 38) @ '' ''
       @ show_nat (unwrap_or (get_u64 x ''threadId'') 0))"

definition render_trace :: "envelope \<Rightarrow> string" where
  "render_trace e =
     (let events = array_at (env_data e) ''events'' in
      writeln (''Trace events: '' @ show_nat (length events))
      @ writeln ''SEQ      KIND          SOURCE                                  THREAD''
      @ concat (map render_trace_event events)
      @ render_page e)"

definition render_values :: "human_env \<Rightarrow> envelope \<Rightarrow> string" where
  "render_values h e =
     (let d = env_data e in
      writeln (''Event: '' @ string_at d ''/eventId'')
      @ writeln (''Source: '' @ location_text (json_get d ''location''))
      @ writeln ''Values:''
      @ render_json h (member d ''values'') 2
      @ (case json_get d ''observations'' of
           Some (JObject m) \<Rightarrow> if m = [] then [] else writeln ''Observations:'' @ render_json h (JObject m) 2
         | _ \<Rightarrow> []))"

definition render_record :: "human_env \<Rightarrow> envelope \<Rightarrow> string" where
  "render_record h e =
     writeln (''Recording: '' @ string_at (env_data e) ''/recordingId'')
     @ writeln (''Test:      '' @ string_at (env_data e) ''/testId'')
     @ writeln (''Events:    '' @ display_at h (env_data e) ''/events'')
     @ writeln (''Replay:    '' @ completeness_word e)"

definition render_replay :: "human_env \<Rightarrow> envelope \<Rightarrow> string" where
  "render_replay h e =
     writeln (''Recording: '' @ string_at (env_data e) ''/recordingId'')
     @ writeln (''Verified:  '' @ yes_no (bool_at (env_data e) ''/verified''))
     @ (case json_get (env_data e) ''event'' of
          None \<Rightarrow> []
        | Some x \<Rightarrow> writeln (''Event:     '' @ string_at x ''/id'')
            @ writeln (''Position:  '' @ location_text (json_get x ''location''))
            @ writeln ''Values:''
            @ render_json h (member x ''values'') 2)"

definition render_fallback :: "human_env \<Rightarrow> json \<Rightarrow> string" where
  "render_fallback h d = render_json h d 0"

section \<open>The whole text\<close>

definition diagnostic_line :: "human_env \<Rightarrow> diagnostic \<Rightarrow> string" where
  "diagnostic_line h d = writeln (''  ['' @ he_upper h (severity d) @ ''] '' @ code d @ '': '' @ message d)"

definition render_diagnostics :: "human_env \<Rightarrow> envelope \<Rightarrow> string" where
  "render_diagnostics h e = (if diagnostics e = [] then []
     else writeln [] @ writeln ''Diagnostics:'' @ concat (map (diagnostic_line h) (diagnostics e)))"

definition action_lines :: "next_action \<Rightarrow> string" where
  "action_lines a = writeln (''  '' @ title a) @ writeln (''    argv: '' @ join '' | '' (argv a))"

definition render_actions :: "envelope \<Rightarrow> string" where
  "render_actions e = (if next_actions e = [] then []
     else writeln [] @ writeln ''Next actions:'' @ concat (map action_lines (next_actions e)))"

definition render_body :: "human_env \<Rightarrow> string \<Rightarrow> envelope \<Rightarrow> string" where
  "render_body h cmd e =
     (if cmd = ''status'' then render_status e
      else if cmd = ''stop'' then writeln ''Daemon shutdown requested.''
      else if cmd = ''cancel'' then writeln (''Active verification cancelled: '' @ yes_no (bool_at (env_data e) ''/cancelled''))
      else if cmd = ''doctor'' then render_doctor e
      else if cmd = ''verify'' then render_verify e
      else if cmd = ''explain'' then render_explain h e
      else if cmd = ''tests'' then render_tests e
      else if cmd = ''failure'' then render_failure h e
      else if cmd = ''impact'' then render_impact e
      else if cmd = ''coverage'' then render_coverage e
      else if cmd = ''trace'' then render_trace e
      else if cmd = ''values'' then render_values h e
      else if cmd = ''record'' then render_record h e
      else if cmd \<in> {''replay'', ''reverse''} then render_replay h e
      else render_fallback h (env_data e))"

definition human_render :: "human_env \<Rightarrow> string \<Rightarrow> envelope \<Rightarrow> string" where
  "human_render h cmd e =
     writeln (''Walaru '' @ he_version h @ '' '' @ DOT @ '' '' @ status_word (env_status e))
     @ render_body h cmd e
     @ render_diagnostics h e
     @ render_actions e"

section \<open>Columns\<close>

lemma chars_count_append: "b = [] \<or> \<not> utf8_continuation (hd b) \<Longrightarrow> chars_count (a @ b) = chars_count a + chars_count b"
  by (simp add: chars_count_def utf8_chars_append)

lemma ascii_starts_char: "byte_of c < 128 \<Longrightarrow> \<not> utf8_continuation c"
  by (simp add: utf8_continuation_def)

lemma chars_count_spaces: "chars_count (replicate n (CHR '' '')) = n"
proof -
  have "\<not> utf8_continuation (CHR '' '')" by (simp add: utf8_continuation_def byte_of_def)
  then have "utf8_chars (replicate n (CHR '' '')) = replicate n [CHR '' '']"
  proof (induction n)
    case (Suc n)
    then show ?case by (cases n) simp_all
  qed simp
  then show ?thesis by (simp add: chars_count_def)
qed

lemma chars_count_pad: "chars_count s \<le> n \<Longrightarrow> chars_count (pad n s) = n"
proof -
  assume s: "chars_count s \<le> n"
  have "\<not> utf8_continuation (CHR '' '')" by (simp add: utf8_continuation_def byte_of_def)
  then have "chars_count (pad n s) = chars_count s + (n - chars_count s)"
    unfolding pad_def by (subst chars_count_append) (cases "n - chars_count s", simp_all add: chars_count_spaces)
  with s show ?thesis by simp
qed

lemma clipped_fits: "chars_count (clipped v n) \<le> n"
proof (cases "n < chars_count v \<and> 1 < n")
  case True
  have "utf8_chars DOTS = [DOTS]" "\<not> utf8_continuation (hd DOTS)" by (simp_all add: DOTS_def utf8_continuation_def byte_of_def)
  then have "chars_count (clipped v n) = chars_count (chars_take (n - 1) (chars_take n v)) + 1"
    using True by (simp add: clipped_def chars_count_append) (simp add: chars_count_def)
  also have "\<dots> \<le> (n - 1) + 1" using chars_count_take by (intro add_right_mono)
  finally show ?thesis using True by simp
next
  case False
  then show ?thesis using chars_count_take by (auto simp: clipped_def)
qed

text \<open>The table of tests as a table: four cells in columns that start at characters 0, 10, 27 and 69.\<close>

definition table_row :: "string \<times> string \<times> string \<times> string \<Rightarrow> string" where
  "table_row cells = (case cells of (a, b, c, d) \<Rightarrow> pad 9 a @ '' '' @ pad 16 b @ '' '' @ pad 41 c @ '' '' @ d)"

definition test_cells :: "json \<Rightarrow> string \<times> string \<times> string \<times> string" where
  "test_cells t = (clipped (string_at t ''/lastStatus'') 8, clipped (string_at t ''/module'') 15,
     clipped (string_at t ''/id'') 40, clipped (string_at t ''/lastFailureId'') 24)"

definition cells_fit :: "string \<times> string \<times> string \<times> string \<Rightarrow> bool" where
  "cells_fit cells = (case cells of (a, b, c, d) \<Rightarrow>
     chars_count (pad 9 a) = 9 \<and> chars_count (pad 16 b) = 16 \<and> chars_count (pad 41 c) = 41 \<and> chars_count d \<le> 24)"

lemma test_cells_fit: "cells_fit (test_cells t)"
proof -
  have "chars_count (clipped v n) \<le> m" if "n \<le> m" for v n m using clipped_fits that le_trans by blast
  then show ?thesis by (simp add: cells_fit_def test_cells_def chars_count_pad)
qed

text \<open>\<^bold>\<open>C22\<close> The table of tests is aligned whatever the daemon answers: its rows are the tests in order,
  every row and the heading put their cells into the same columns, counted in characters, and no
  cell overflows its column.\<close>

theorem tests_table_is_aligned:
  "\<exists>rows. render_tests e = writeln (''Tests: '' @ show_nat (length rows)) @ writeln []
       @ concat (map (\<lambda>r. writeln (table_row r)) ((''STATUS'', ''MODULE'', ''TEST'', ''FAILURE'') # rows)) @ render_page e
     \<and> rows = map test_cells (array_at (env_data e) ''tests'')
     \<and> list_all cells_fit ((''STATUS'', ''MODULE'', ''TEST'', ''FAILURE'') # rows)"
proof (intro exI [of _ "map test_cells (array_at (env_data e) ''tests'')"] conjI refl)
  let ?rows = "map test_cells (array_at (env_data e) ''tests'')"
  have head: "table_row (''STATUS'', ''MODULE'', ''TEST'', ''FAILURE'')
      = ''STATUS    MODULE           TEST                                      FAILURE''"
    by code_simp
  have rows: "render_test = (\<lambda>t. writeln (table_row (test_cells t)))"
    by (rule ext) (simp add: render_test_def table_row_def test_cells_def)
  show "render_tests e = writeln (''Tests: '' @ show_nat (length ?rows)) @ writeln []
       @ concat (map (\<lambda>r. writeln (table_row r)) ((''STATUS'', ''MODULE'', ''TEST'', ''FAILURE'') # ?rows)) @ render_page e"
    by (simp add: render_tests_def Let_def head rows comp_def)
  have "cells_fit (''STATUS'', ''MODULE'', ''TEST'', ''FAILURE'')" by code_simp
  then show "list_all cells_fit ((''STATUS'', ''MODULE'', ''TEST'', ''FAILURE'') # ?rows)"
    by (simp add: list_all_iff test_cells_fit)
qed

end
