(* ===== verification/Tui.thy ===== *)
theory Tui
  imports Human "HOL-Library.Product_Lexorder"
begin

text \<open>
  \<^verbatim>\<open>crates/walaru-cli/src/tui.rs\<close>: the dashboard, its keys, its queries and its background
  operations.  What the widgets show is modelled as their text, rows and selection; laying them out
  on the terminal is the work of a library.
\<close>

section \<open>State\<close>

datatype screen = TestsScreen | TraceScreen

datatype long_operation = VerifyOperation | FullVerifyOperation | RecordOperation

definition label :: "long_operation \<Rightarrow> string" where
  "label x = (case x of VerifyOperation \<Rightarrow> ''verify'' | FullVerifyOperation \<Rightarrow> ''full verify'' | RecordOperation \<Rightarrow> ''record'')"

record test_item =
  ti_id :: string
  ti_display_name :: string
  ti_module :: string
  ti_status :: string
  ti_failure_id :: "string option"

record trace_item =
  tr_id :: string
  tr_sequence :: nat
  tr_kind :: string
  tr_location :: string
  tr_thread_id :: nat
  tr_values :: json

record app =
  app_screen :: screen
  app_tests :: "test_item list"
  test_index :: nat
  app_trace :: "trace_item list"
  trace_index :: nat
  failure_detail :: "string option"
  trace_subject :: "string option"
  app_revision :: string
  operation :: "long_operation option"
  notice :: string

definition app_default :: app where
  "app_default = \<lparr>app_screen = TestsScreen, app_tests = [], test_index = 0, app_trace = [], trace_index = 0,
     failure_detail = None, trace_subject = None, app_revision = ''-'', operation = None, notice = ''Ready''\<rparr>"

definition entry_at :: "'a list \<Rightarrow> nat \<Rightarrow> 'a option" where
  "entry_at xs i = (if i < length xs then Some (xs ! i) else None)"

definition selected_test :: "app \<Rightarrow> test_item option" where
  "selected_test a = entry_at (app_tests a) (test_index a)"

definition selected_trace :: "app \<Rightarrow> trace_item option" where
  "selected_trace a = entry_at (app_trace a) (trace_index a)"

definition index_down :: "nat \<Rightarrow> nat \<Rightarrow> nat" where
  "index_down i n = (if 0 < n then min (i + 1) (n - 1) else i)"

definition move_down :: "app \<Rightarrow> app" where
  "move_down a = (case app_screen a of
      TestsScreen \<Rightarrow> a\<lparr>test_index := index_down (test_index a) (length (app_tests a))\<rparr>
    | TraceScreen \<Rightarrow> a\<lparr>trace_index := index_down (trace_index a) (length (app_trace a))\<rparr>)"

definition move_up :: "app \<Rightarrow> app" where
  "move_up a = (case app_screen a of
      TestsScreen \<Rightarrow> a\<lparr>test_index := test_index a - 1\<rparr>
    | TraceScreen \<Rightarrow> a\<lparr>trace_index := trace_index a - 1\<rparr>)"

definition field_text :: "json \<Rightarrow> string \<Rightarrow> string" where
  "field_text v k = unwrap_or (get_str v k) ''-''"

definition failure_rank :: "string \<Rightarrow> nat" where
  "failure_rank s = (if s = ''failed'' then 0 else if s = ''passed'' then 1 else 2)"

definition test_item_of :: "json \<Rightarrow> test_item" where
  "test_item_of v = \<lparr>ti_id = field_text v ''id'', ti_display_name = field_text v ''displayName'',
     ti_module = field_text v ''module'', ti_status = field_text v ''lastStatus'', ti_failure_id = get_str v ''lastFailureId''\<rparr>"

definition test_order :: "test_item \<Rightarrow> nat \<times> string \<times> string" where
  "test_order t = (failure_rank (ti_status t), ti_module t, ti_id t)"

definition apply_tests :: "envelope \<Rightarrow> app \<Rightarrow> app" where
  "apply_tests e a =
     (let chosen = map_option ti_id (selected_test a);
          ts = sort_key test_order (map test_item_of (array_at (env_data e) ''tests'')) in
      a\<lparr>app_revision := env_revision e, app_tests := ts,
        test_index := min (unwrap_or (Option.bind chosen (\<lambda>i. position (\<lambda>t. ti_id t = i) ts)) 0) (length ts - 1)\<rparr>)"

definition source_location_text :: "json option \<Rightarrow> string" where
  "source_location_text v = (case not_null v of
      None \<Rightarrow> ''-''
    | Some w \<Rightarrow> field_text w ''path'' @ '':'' @ show_nat (unwrap_or (get_u64 w ''line'') 0))"

definition trace_item_of :: "json \<Rightarrow> trace_item" where
  "trace_item_of v = \<lparr>tr_id = field_text v ''id'', tr_sequence = unwrap_or (get_u64 v ''sequence'') 0,
     tr_kind = field_text v ''kind'', tr_location = source_location_text (json_get v ''location''),
     tr_thread_id = unwrap_or (get_u64 v ''threadId'') 0, tr_values = member v ''values''\<rparr>"

definition apply_trace :: "envelope \<Rightarrow> string \<Rightarrow> app \<Rightarrow> app" where
  "apply_trace e subj a = a\<lparr>trace_subject := Some subj,
     app_trace := map trace_item_of (array_at (env_data e) ''events''), trace_index := 0, app_screen := TraceScreen\<rparr>"

definition failure_lines :: "json \<Rightarrow> string list" where
  "failure_lines f = [field_text f ''exceptionType'', field_text f ''message'']
     @ (case Option.bind (json_get f ''frames'') as_array of
          None \<Rightarrow> [] | Some frames \<Rightarrow> map (\<lambda>x. ''  '' @ x) (take 5 (List.map_filter as_str frames)))"

definition apply_failure :: "envelope \<Rightarrow> app \<Rightarrow> app" where
  "apply_failure e a = a\<lparr>failure_detail :=
     map_option (\<lambda>f. join [LF] (failure_lines f)) (not_null (json_get (env_data e) ''failure''))\<rparr>"

section \<open>Keys\<close>

datatype key_code = KeyChar string | KeyDown | KeyUp | KeyEnter | KeyEsc | KeyOther

record key_event =
  key_code :: key_code
  key_pressed :: bool

datatype intent = NoIntent | Quit | Refresh | OpenSelected | Start long_operation

definition handle_key :: "key_event \<Rightarrow> app \<Rightarrow> app \<times> intent" where
  "handle_key key a =
     (if \<not> key_pressed key then (a, NoIntent)
      else (case key_code key of
        KeyChar c \<Rightarrow>
          if c = ''q'' then (a, Quit)
          else if c = ''j'' then (move_down a, NoIntent)
          else if c = ''k'' then (move_up a, NoIntent)
          else if c = ''r'' then (a, Refresh)
          else if c = ''v'' then (a, Start VerifyOperation)
          else if c = ''f'' then (a, Start FullVerifyOperation)
          else if c = ''c'' then (a, Start RecordOperation)
          else (a, NoIntent)
      | KeyDown \<Rightarrow> (move_down a, NoIntent)
      | KeyUp \<Rightarrow> (move_up a, NoIntent)
      | KeyEnter \<Rightarrow> if app_screen a = TestsScreen then (a, OpenSelected) else (a, NoIntent)
      | KeyEsc \<Rightarrow> if app_screen a = TraceScreen then (a\<lparr>app_screen := TestsScreen\<rparr>, NoIntent)
          else (a\<lparr>failure_detail := None\<rparr>, NoIntent)
      | KeyOther \<Rightarrow> (a, NoIntent)))"

section \<open>Queries\<close>

record query_config =
  qc_workspace_root :: string
  qc_limit :: nat
  qc_max_bytes :: nat
  qc_at :: "string option"

definition json_object :: "(string \<times> json) list \<Rightarrow> json" where "json_object es = JObject (bt_collect es)"

definition json_option :: "string option \<Rightarrow> json" where
  "json_option x = (case x of None \<Rightarrow> JNull | Some s \<Rightarrow> JString s)"

text \<open>\<open>tw_answer k\<close> is the daemon's answer to the \<open>k\<close>-th request, or the text of an error;
  \<open>tw_request_id k\<close> is the identity made for it from the process and the clock.\<close>

record tui_world =
  tw_encode :: "json \<Rightarrow> string"
  tw_decode :: "string \<Rightarrow> string + envelope"
  tw_request_id :: "nat \<Rightarrow> string"
  tw_answer :: "nat \<Rightarrow> rpc_request \<Rightarrow> string + rpc_response"

definition config_payload :: "query_config \<Rightarrow> json \<Rightarrow> json" where
  "config_payload c p = json_object [(''query'', json_object [(''fields'', JArray []), (''limit'', JInt (int (qc_limit c))),
      (''cursor'', JNull), (''maxBytes'', JInt (int (qc_max_bytes c))), (''at'', json_option (qc_at c))]), (''command'', p)]"

definition config_request :: "tui_world \<Rightarrow> query_config \<Rightarrow> nat \<Rightarrow> string \<Rightarrow> json \<Rightarrow> rpc_request" where
  "config_request w c k cmd p = \<lparr>req_schema_version = 1, request_id = tw_request_id w k,
     workspace_root = qc_workspace_root c, command = cmd, payload_json = tw_encode w (config_payload c p)\<rparr>"

definition rpc :: "tui_world \<Rightarrow> query_config \<Rightarrow> nat \<Rightarrow> string \<Rightarrow> json \<Rightarrow> string + (int \<times> envelope)" where
  "rpc w c k cmd p = rbind (tw_answer w k (config_request w c k cmd p)) (\<lambda>r.
     rbind (tw_decode w (envelope_json r)) (\<lambda>e. Inr (exit_code r, e)))"

section \<open>The running dashboard\<close>

record operation_result =
  or_operation :: long_operation
  or_exit_code :: int
  or_envelope :: envelope
  or_tests :: "envelope option"

type_synonym operation_message = "string + operation_result"

text \<open>The dashboard with the requests made, the operations running in threads, the messages in the
  channel and the time of the last refresh.\<close>

record tui =
  tui_app :: app
  calls :: nat
  running :: "(long_operation \<times> string option) list"
  channel :: "operation_message list"
  refreshed_at :: nat

definition refresh_tests :: "tui_world \<Rightarrow> query_config \<Rightarrow> tui \<Rightarrow> tui \<times> (string + unit)" where
  "refresh_tests w c t =
     (case rpc w c (calls t) ''tests'' (JObject []) of
        Inl e \<Rightarrow> (t\<lparr>calls := calls t + 1\<rparr>, Inl e)
      | Inr (_, env) \<Rightarrow> (t\<lparr>calls := calls t + 1, tui_app := apply_tests env (tui_app t)\<rparr>, Inr ()))"

text \<open>A refresh with its notice, as the loop does it.\<close>

definition noticed_refresh :: "tui_world \<Rightarrow> query_config \<Rightarrow> nat \<Rightarrow> tui \<Rightarrow> tui" where
  "noticed_refresh w c now t =
     (case refresh_tests w c t of (t', r) \<Rightarrow>
        t'\<lparr>refreshed_at := now, tui_app := (tui_app t')\<lparr>notice :=
          (case r of Inr _ \<Rightarrow> ''Refreshed'' | Inl e \<Rightarrow> ''Refresh failed: '' @ e)\<rparr>\<rparr>)"

definition open_failure :: "tui_world \<Rightarrow> query_config \<Rightarrow> test_item \<Rightarrow> tui \<Rightarrow> tui" where
  "open_failure w c item t =
     (case ti_failure_id item of
        None \<Rightarrow> t\<lparr>tui_app := (tui_app t)\<lparr>failure_detail := None\<rparr>\<rparr>
      | Some i \<Rightarrow>
          (case rpc w c (calls t) ''failure'' (json_object [(''id'', JString i)]) of
             Inr (_, env) \<Rightarrow> t\<lparr>calls := calls t + 1, tui_app := apply_failure env (tui_app t)\<rparr>
           | Inl e \<Rightarrow> t\<lparr>calls := calls t + 1, tui_app := (tui_app t)\<lparr>notice := ''Failure query failed: '' @ e\<rparr>\<rparr>))"

definition open_selected :: "tui_world \<Rightarrow> query_config \<Rightarrow> tui \<Rightarrow> tui" where
  "open_selected w c t =
     (case selected_test (tui_app t) of
        None \<Rightarrow> t\<lparr>tui_app := (tui_app t)\<lparr>notice := ''No test selected''\<rparr>\<rparr>
      | Some item \<Rightarrow>
          (let t1 = open_failure w c item t in
           case rpc w c (calls t1) ''trace'' (json_object [(''subject'', JString (ti_id item))]) of
             Inr (_, env) \<Rightarrow> t1\<lparr>calls := calls t1 + 1,
               tui_app := (apply_trace env (ti_id item) (tui_app t1))\<lparr>notice := ''Trace: '' @ ti_id item\<rparr>\<rparr>
           | Inl e \<Rightarrow> t1\<lparr>calls := calls t1 + 1, tui_app := (tui_app t1)\<lparr>notice := ''Trace query failed: '' @ e\<rparr>\<rparr>))"

definition start_operation :: "long_operation \<Rightarrow> tui \<Rightarrow> tui" where
  "start_operation x t =
     (case operation (tui_app t) of
        Some busy \<Rightarrow> t\<lparr>tui_app := (tui_app t)\<lparr>notice := label busy @ '' already in progress''\<rparr>\<rparr>
      | None \<Rightarrow>
          (let test_id = map_option ti_id (selected_test (tui_app t)) in
           if x = RecordOperation \<and> test_id = None
           then t\<lparr>tui_app := (tui_app t)\<lparr>notice := ''Select a test before recording''\<rparr>\<rparr>
           else t\<lparr>tui_app := (tui_app t)\<lparr>operation := Some x, notice := label x @ '' in progress'' @ DOTS\<rparr>,
                  running := running t @ [(x, test_id)]\<rparr>))"

text \<open>The thread of an operation: its request, then the tests.\<close>

definition operation_request :: "long_operation \<Rightarrow> string option \<Rightarrow> string \<times> json" where
  "operation_request x test_id = (case x of
      VerifyOperation \<Rightarrow> (''verify'', json_object [(''full'', JBool False), (''since'', JNull)])
    | FullVerifyOperation \<Rightarrow> (''verify'', json_object [(''full'', JBool True), (''since'', JNull)])
    | RecordOperation \<Rightarrow> (''record'', json_object [(''testId'', JString (the test_id)), (''captureFileIo'', JBool False)]))"

definition operation_message :: "tui_world \<Rightarrow> query_config \<Rightarrow> nat \<Rightarrow> long_operation \<Rightarrow> string option \<Rightarrow> operation_message" where
  "operation_message w c k x test_id =
     (case operation_request x test_id of (cmd, p) \<Rightarrow>
        rbind (rpc w c k cmd p) (\<lambda>(ec, env).
        rbind (rpc w c (k + 1) ''tests'' (JObject [])) (\<lambda>(_, ts).
          Inr \<lparr>or_operation = x, or_exit_code = ec, or_envelope = env, or_tests = Some ts\<rparr>)))"

definition status_debug :: "status \<Rightarrow> string" where
  "status_debug s = (case s of Ok \<Rightarrow> ''Ok'' | Failure \<Rightarrow> ''Failure'' | Partial \<Rightarrow> ''Partial'' | Stale \<Rightarrow> ''Stale''
     | Unsupported \<Rightarrow> ''Unsupported'' | Error \<Rightarrow> ''Error'')"

definition receive_message :: "operation_message \<Rightarrow> app \<Rightarrow> app" where
  "receive_message m a =
     (let a1 = a\<lparr>operation := None\<rparr> in
      case m of
        Inr r \<Rightarrow>
          (let a2 = (case or_tests r of None \<Rightarrow> a1 | Some e \<Rightarrow> apply_tests e a1) in
           a2\<lparr>notice := label (or_operation r) @ '' '' @ (if or_exit_code r = 0 then ''completed'' else ''failed'')
             @ '' (exit '' @ show_int (or_exit_code r) @ '', status '' @ status_debug (env_status (or_envelope r)) @ '')''\<rparr>)
      | Inl e \<Rightarrow> a1\<lparr>notice := ''Operation failed: '' @ e\<rparr>)"

definition receive_operation :: "tui \<Rightarrow> tui" where
  "receive_operation t = (case channel t of
      [] \<Rightarrow> t | m # ms \<Rightarrow> t\<lparr>channel := ms, tui_app := receive_message m (tui_app t)\<rparr>)"


section \<open>The event loop\<close>

datatype polled = PollError | NoEvent | ReadError | NotKey | Key key_event

text \<open>What one round meets: whether the terminal could be drawn, the clock at the refresh check and at
  the two places that set the time of the last refresh, and the event.\<close>

record round_input =
  draw_ok :: bool
  now_check :: nat
  now_refreshed :: nat
  now_key :: nat
  polled :: polled

datatype round_end = Continue | Returned | LoopFailed

definition act :: "tui_world \<Rightarrow> query_config \<Rightarrow> nat \<Rightarrow> key_event \<Rightarrow> tui \<Rightarrow> tui \<times> round_end" where
  "act w c now key t =
     (case handle_key key (tui_app t) of (a, what) \<Rightarrow>
        (let t' = t\<lparr>tui_app := a\<rparr> in
         case what of
           NoIntent \<Rightarrow> (t', Continue)
         | Quit \<Rightarrow> (t', Returned)
         | Refresh \<Rightarrow> (noticed_refresh w c now t', Continue)
         | OpenSelected \<Rightarrow> (open_selected w c t', Continue)
         | Start x \<Rightarrow> (start_operation x t', Continue)))"

definition event_round :: "tui_world \<Rightarrow> query_config \<Rightarrow> nat \<Rightarrow> round_input \<Rightarrow> tui \<Rightarrow> tui \<times> round_end" where
  "event_round w c interval i t =
     (let t1 = receive_operation t in
      if \<not> draw_ok i then (t1, LoopFailed)
      else (let t2 = (if interval \<le> now_check i - refreshed_at t1 \<and> operation (tui_app t1) = None
                      then noticed_refresh w c (now_refreshed i) t1 else t1) in
        case polled i of
          PollError \<Rightarrow> (t2, LoopFailed)
        | NoEvent \<Rightarrow> (t2, Continue)
        | ReadError \<Rightarrow> (t2, LoopFailed)
        | NotKey \<Rightarrow> (t2, Continue)
        | Key key \<Rightarrow> act w c (now_key i) key t2))"

text \<open>A thread finishes: its message enters the channel.\<close>

definition finish_operation :: "tui_world \<Rightarrow> query_config \<Rightarrow> tui \<Rightarrow> tui" where
  "finish_operation w c t = (case running t of
      [] \<Rightarrow> t
    | (x, test_id) # others \<Rightarrow> t\<lparr>running := others, calls := calls t + 2,
        channel := channel t @ [operation_message w c (calls t) x test_id]\<rparr>)"

datatype loop_event = ThreadFinished | Round round_input

text \<open>The loop over everything that happens; it returns whether it ended without an error.\<close>

partial_function (option) event_loop ::
  "tui_world \<Rightarrow> query_config \<Rightarrow> nat \<Rightarrow> (nat \<Rightarrow> loop_event) \<Rightarrow> nat \<Rightarrow> tui \<Rightarrow> (tui \<times> bool) option" where
  "event_loop w c interval events k t =
     (case events k of
        ThreadFinished \<Rightarrow> event_loop w c interval events (k + 1) (finish_operation w c t)
      | Round i \<Rightarrow> (case event_round w c interval i t of
            (t', Continue) \<Rightarrow> event_loop w c interval events (k + 1) t'
          | (t', Returned) \<Rightarrow> Some (t', True)
          | (t', LoopFailed) \<Rightarrow> Some (t', False)))"

section \<open>Frames\<close>

definition MIN_WIDTH :: nat where "MIN_WIDTH = 48"
definition MIN_HEIGHT :: nat where "MIN_HEIGHT = 12"
definition SNAPSHOT_WIDTH :: nat where "SNAPSHOT_WIDTH = 100"
definition SNAPSHOT_HEIGHT :: nat where "SNAPSHOT_HEIGHT = 24"

definition TIMES :: string where "TIMES = [CHR 0xC3, CHR 0x97]"

datatype color = Plain | Red | Green

record table_view =
  tv_header :: "string list"
  tv_widths :: "nat option list"
  tv_rows :: "(string list \<times> color) list"
  tv_title :: string
  tv_selected :: "nat option"

datatype frame_view =
    TooSmall string
  | Dashboard string string table_view string string string

definition shortened :: "string \<Rightarrow> nat \<Rightarrow> string" where
  "shortened v width = (if chars_count v \<le> width then v else chars_take (width - 1) v @ DOTS)"

text \<open>The bold title and the text after it.\<close>

definition tui_header :: "app \<Rightarrow> string \<times> string" where
  "tui_header a =
     (''Walaru dashboard'',
      ''  daemon: running  revision '' @ shortened (app_revision a) 16 @ ''  tests '' @ show_nat (length (app_tests a))
      @ ''  failures '' @ show_nat (length (filter (\<lambda>t. ti_status t = ''failed'') (app_tests a))) @ ''  ''
      @ (case operation a of None \<Rightarrow> ''idle'' | Some x \<Rightarrow> label x @ DOTS))"

definition tui_tests :: "app \<Rightarrow> table_view" where
  "tui_tests a = \<lparr>tv_header = [''Status'', ''Module'', ''Test''], tv_widths = [Some 10, Some 18, None],
     tv_rows = map (\<lambda>t. ([ti_status t, ti_module t, ti_id t],
       if ti_status t = ''failed'' then Red else if ti_status t = ''passed'' then Green else Plain)) (app_tests a),
     tv_title = ''Tests '' @ DOT @ '' Enter opens trace'',
     tv_selected = (if app_tests a = [] then None else Some (test_index a))\<rparr>"

definition tui_trace :: "app \<Rightarrow> table_view" where
  "tui_trace a = \<lparr>tv_header = [''Seq'', ''Kind'', ''Source'', ''Thread''], tv_widths = [Some 8, Some 14, None, Some 9],
     tv_rows = map (\<lambda>x. ([show_nat (tr_sequence x), tr_kind x, tr_location x, show_nat (tr_thread_id x)], Plain)) (app_trace a),
     tv_title = ''Trace '' @ DOT @ '' '' @ unwrap_or (trace_subject a) ''-'' @ '' '' @ DOT @ '' Esc returns'',
     tv_selected = (if app_trace a = [] then None else Some (trace_index a))\<rparr>"

text \<open>The title and the text of the detail pane; \<open>pretty\<close> prints a JSON value.\<close>

definition tui_detail :: "(json \<Rightarrow> string) \<Rightarrow> app \<Rightarrow> string \<times> string" where
  "tui_detail pretty a = (case app_screen a of
      TestsScreen \<Rightarrow>
        ((case selected_test a of None \<Rightarrow> ''Failure detail''
          | Some t \<Rightarrow> ''Failure detail '' @ DOT @ '' '' @ ti_display_name t),
         (case failure_detail a of
            Some d \<Rightarrow> d
          | None \<Rightarrow> (case selected_test a of
              None \<Rightarrow> ''No test selected.''
            | Some t \<Rightarrow> (case ti_failure_id t of
                None \<Rightarrow> ''No recorded failure. Press Enter to inspect its trace.''
              | Some i \<Rightarrow> ''Failure '' @ i @ ''. Press Enter to load details and trace.''))))
    | TraceScreen \<Rightarrow>
        ((case selected_trace a of None \<Rightarrow> ''Values'' | Some x \<Rightarrow> ''Values '' @ DOT @ '' '' @ tr_id x),
         (case selected_trace a of None \<Rightarrow> ''No trace events.'' | Some x \<Rightarrow> pretty (tr_values x))))"

definition tui_footer :: "app \<Rightarrow> string" where
  "tui_footer a =
     [CHR 0xE2, CHR 0x86, CHR 0x91] @ ''/'' @ [CHR 0xE2, CHR 0x86, CHR 0x93] @ '' j/k move '' @ DOT @ '' Enter open '' @ DOT
     @ '' Esc back '' @ DOT @ '' r refresh '' @ DOT @ '' v verify '' @ DOT @ '' f full '' @ DOT @ '' c record '' @ DOT
     @ '' q quit'' @ [LF] @ notice a"

definition tui_frame :: "(json \<Rightarrow> string) \<Rightarrow> nat \<Rightarrow> nat \<Rightarrow> app \<Rightarrow> frame_view" where
  "tui_frame pretty width height a =
     (if width < MIN_WIDTH \<or> height < MIN_HEIGHT
      then TooSmall (''Walaru'' @ [LF] @ ''Terminal too small: '' @ show_nat width @ TIMES @ show_nat height @ [LF]
        @ ''Need at least '' @ show_nat MIN_WIDTH @ TIMES @ show_nat MIN_HEIGHT)
      else (case tui_header a of (bold, plain) \<Rightarrow> case tui_detail pretty a of (t, d) \<Rightarrow>
        Dashboard bold plain (case app_screen a of TestsScreen \<Rightarrow> tui_tests a | TraceScreen \<Rightarrow> tui_trace a) t d (tui_footer a)))"

text \<open>A run: the tests are read first; \<^verbatim>\<open>--once\<close> draws one frame.  \<open>draw\<close> is the drawing of a frame by
  the terminal library as lines of text.\<close>

definition config_of :: "string \<Rightarrow> nat \<Rightarrow> nat \<Rightarrow> string option \<Rightarrow> query_config" where
  "config_of r items_max bytes snapshot = \<lparr>qc_workspace_root = r, qc_limit = items_max, qc_max_bytes = bytes, qc_at = snapshot\<rparr>"

definition tui_start :: "nat \<Rightarrow> tui" where
  "tui_start now = \<lparr>tui_app = app_default, calls = 0, running = [], channel = [], refreshed_at = now\<rparr>"

definition render_once :: "(frame_view \<Rightarrow> string list) \<Rightarrow> (json \<Rightarrow> string) \<Rightarrow> app \<Rightarrow> string" where
  "render_once draw pretty a =
     concat (map (\<lambda>l. writeln (trim_end l)) (draw (tui_frame pretty SNAPSHOT_WIDTH SNAPSHOT_HEIGHT a)))"

text \<open>The outcome of a run: the printed text and the exit code, or an error; \<open>None\<close> when it never ends.\<close>

definition tui_run ::
  "tui_world \<Rightarrow> query_config \<Rightarrow> nat \<Rightarrow> bool \<Rightarrow> (frame_view \<Rightarrow> string list) \<Rightarrow> (json \<Rightarrow> string) \<Rightarrow> bool
     \<Rightarrow> (nat \<Rightarrow> loop_event) \<Rightarrow> nat \<Rightarrow> (string + string \<times> int) option" where
  "tui_run w c interval_ms once draw pretty terminal_ok events now =
     (case refresh_tests w c (tui_start now) of
        (_, Inl e) \<Rightarrow> Some (Inl e)
      | (t, Inr _) \<Rightarrow>
          if once then Some (Inr (render_once draw pretty (tui_app t), 0))
          else if \<not> terminal_ok then Some (Inl ''terminal'')
          else map_option (\<lambda>(_, fine). if fine then Inr ([], 0) else Inl ''terminal'')
            (event_loop w c (max interval_ms 100) events 0 t))"

end
