(* ===== verification/Tui_Invariant.thy ===== *)
theory Tui_Invariant
  imports Tui "HOL-Library.Multiset"
begin

text \<open>
  The dashboard in every state it can reach: one background operation at most, selections inside
  their lists, tests in order.  And a defect: the detail of one failure shown under another test.
\<close>

section \<open>The invariant\<close>

definition selection_ok :: "nat \<Rightarrow> 'a list \<Rightarrow> bool" where
  "selection_ok i xs = (i < length xs \<or> xs = [] \<and> i = 0)"

definition app_ok :: "app \<Rightarrow> bool" where
  "app_ok a = (selection_ok (test_index a) (app_tests a) \<and> selection_ok (trace_index a) (app_trace a)
     \<and> sorted (map test_order (app_tests a)))"

text \<open>The operation shown is the one that runs or whose message waits, and there is no other.  A
  recording knows its test.\<close>

definition operation_ok :: "tui \<Rightarrow> bool" where
  "operation_ok t = (length (running t) + length (channel t) = (if operation (tui_app t) = None then 0 else 1)
     \<and> (\<forall>(x, test_id) \<in> set (running t). operation (tui_app t) = Some x \<and> (x = RecordOperation \<longrightarrow> test_id \<noteq> None))
     \<and> (\<forall>m \<in> set (channel t). \<forall>r. m = Inr r \<longrightarrow> operation (tui_app t) = Some (or_operation r)))"

definition tui_ok :: "tui \<Rightarrow> bool" where
  "tui_ok t = (app_ok (tui_app t) \<and> operation_ok t)"

lemma selection_down: "selection_ok i xs \<Longrightarrow> selection_ok (index_down i (length xs)) xs"
  by (auto simp: selection_ok_def index_down_def)

lemma selection_up: "selection_ok i xs \<Longrightarrow> selection_ok (i - Suc 0) xs"
  by (auto simp: selection_ok_def)

lemma app_ok_move: "app_ok a \<Longrightarrow> app_ok (move_down a)" "app_ok a \<Longrightarrow> app_ok (move_up a)"
  by (auto simp: app_ok_def move_down_def move_up_def selection_down selection_up split: screen.splits)

lemma operation_move [simp]: "operation (move_down a) = operation a" "operation (move_up a) = operation a"
  by (simp_all add: move_down_def move_up_def split: screen.splits)

lemma app_ok_tests: "app_ok a \<Longrightarrow> app_ok (apply_tests e a)"
proof -
  assume ok: "app_ok a"
  define ts where "ts = sort_key test_order (map test_item_of (array_at (env_data e) ''tests''))"
  have "sorted (map test_order ts)" unfolding ts_def by (rule sorted_sort_key)
  moreover have "selection_ok (min i (length ts - 1)) ts" for i by (cases ts) (auto simp: selection_ok_def)
  ultimately show ?thesis using ok by (simp add: app_ok_def apply_tests_def Let_def ts_def [symmetric])
qed

lemma app_ok_others:
  "app_ok (a\<lparr>notice := n\<rparr>) = app_ok a" "app_ok (a\<lparr>operation := x\<rparr>) = app_ok a" "app_ok (a\<lparr>failure_detail := d\<rparr>) = app_ok a"
  "app_ok (a\<lparr>app_screen := s\<rparr>) = app_ok a" "app_ok (apply_failure e a) = app_ok a"
  "app_ok a \<Longrightarrow> app_ok (apply_trace e i a)"
  by (auto simp: app_ok_def apply_failure_def apply_trace_def selection_ok_def)

lemma operation_others [simp]:
  "operation (apply_tests e a) = operation a" "operation (apply_failure e a) = operation a" "operation (apply_trace e i a) = operation a"
  by (simp_all add: apply_tests_def apply_failure_def apply_trace_def Let_def)

lemma refresh_ok:
  assumes "refresh_tests w c t = (t', r)"
  shows "app_ok (tui_app t) \<Longrightarrow> app_ok (tui_app t')"
    and "operation (tui_app t') = operation (tui_app t)" "running t' = running t" "channel t' = channel t"
  using assms by (auto simp: refresh_tests_def app_ok_tests split: sum.splits)

lemma noticed_refresh_ok: "tui_ok t \<Longrightarrow> tui_ok (noticed_refresh w c now t)"
proof -
  assume ok: "tui_ok t"
  obtain t' r where r: "refresh_tests w c t = (t', r)" by fastforce
  show ?thesis
    using ok refresh_ok [OF r] by (simp add: noticed_refresh_def r tui_ok_def app_ok_others operation_ok_def)
qed

lemma handle_key_ok:
  assumes "handle_key key a = (a', what)"
  shows "app_ok a \<Longrightarrow> app_ok a'" and "operation a' = operation a"
  using assms
  by (auto simp: handle_key_def app_ok_move app_ok_others split: if_splits key_code.splits)

lemma open_failure_ok:
  "app_ok (tui_app (open_failure w c i t)) = app_ok (tui_app t)"
  "operation (tui_app (open_failure w c i t)) = operation (tui_app t)"
  "running (open_failure w c i t) = running t" "channel (open_failure w c i t) = channel t"
  by (auto simp: open_failure_def app_ok_others split: option.splits sum.splits)

lemma open_selected_ok: "tui_ok t \<Longrightarrow> tui_ok (open_selected w c t)"
  by (auto simp: open_selected_def tui_ok_def operation_ok_def app_ok_others open_failure_ok Let_def
      split: option.splits sum.splits)

lemma start_operation_ok: "tui_ok t \<Longrightarrow> tui_ok (start_operation x t)"
  by (auto simp: start_operation_def tui_ok_def operation_ok_def app_ok_others Let_def split: option.splits)

lemma receive_operation_ok: "tui_ok t \<Longrightarrow> tui_ok (receive_operation t)"
proof (cases "channel t")
  case (Cons m ms)
  assume ok: "tui_ok t"
  have "app_ok (receive_message m (tui_app t))" "operation (receive_message m (tui_app t)) = None"
    using ok by (auto simp: receive_message_def tui_ok_def app_ok_others app_ok_tests Let_def split: sum.splits option.splits)
  then show ?thesis using ok Cons
    by (auto simp: receive_operation_def tui_ok_def operation_ok_def split: if_splits)
qed (simp add: receive_operation_def)

lemma operation_message_label: "operation_message w c k x i = Inr r \<Longrightarrow> or_operation r = x"
  by (auto simp: operation_message_def rbind_def split: prod.splits sum.splits)

lemma finish_operation_ok: "tui_ok t \<Longrightarrow> tui_ok (finish_operation w c t)"
  by (auto simp: finish_operation_def tui_ok_def operation_ok_def dest: operation_message_label split: list.splits if_splits)

lemma act_ok: "act w c now key t = (t', e) \<Longrightarrow> tui_ok t \<Longrightarrow> tui_ok t'"
proof -
  assume a: "act w c now key t = (t', e)" and ok: "tui_ok t"
  obtain a1 what where h: "handle_key key (tui_app t) = (a1, what)" by fastforce
  have "tui_ok (t\<lparr>tui_app := a1\<rparr>)"
    using ok handle_key_ok [OF h] by (simp add: tui_ok_def operation_ok_def)
  then show ?thesis
    using a h by (auto simp: act_def Let_def noticed_refresh_ok open_selected_ok start_operation_ok split: intent.splits)
qed

lemma event_round_ok: "event_round w c interval i t = (t', e) \<Longrightarrow> tui_ok t \<Longrightarrow> tui_ok t'"
  using receive_operation_ok [of t] noticed_refresh_ok [of "receive_operation t" w c "now_refreshed i"]
  by (auto simp: event_round_def Let_def split: if_splits polled.splits intro: act_ok)

text \<open>Everything that can happen to a dashboard after its first refresh.\<close>

inductive tui_reachable :: "tui_world \<Rightarrow> query_config \<Rightarrow> nat \<Rightarrow> tui \<Rightarrow> bool" for w c interval where
  tui_first: "refresh_tests w c (tui_start now) = (t, Inr u) \<Longrightarrow> tui_reachable w c interval t"
| tui_round: "tui_reachable w c interval t \<Longrightarrow> event_round w c interval i t = (t', e) \<Longrightarrow> tui_reachable w c interval t'"
| tui_finish: "tui_reachable w c interval t \<Longrightarrow> tui_reachable w c interval (finish_operation w c t)"

lemma tui_start_ok: "tui_ok (tui_start now)"
  by (simp add: tui_ok_def tui_start_def app_ok_def app_default_def selection_ok_def operation_ok_def)

lemma tui_reachable_ok: "tui_reachable w c interval t \<Longrightarrow> tui_ok t"
proof (induction rule: tui_reachable.induct)
  case (tui_first now t u)
  then show ?case
    using refresh_ok [OF tui_first] tui_start_ok [of now] by (simp add: tui_ok_def operation_ok_def)
next
  case (tui_round t i t' e)
  then show ?case using event_round_ok by blast
next
  case (tui_finish t)
  then show ?case by (simp add: finish_operation_ok)
qed


section \<open>Properties\<close>

text \<open>\<^bold>\<open>C21\<close> Whatever keys are pressed, whatever the daemon answers and whenever a background
  operation ends, the dashboard has at most one operation under way, and it is the one that is shown;
  a recording was started with a test; both selections lie inside their lists; and the tests are
  listed with failures first.\<close>

theorem dashboard_invariant:
  assumes "tui_reachable w c interval t"
  shows "length (running t) + length (channel t) = (if operation (tui_app t) = None then 0 else 1)
    \<and> (\<forall>(x, test_id) \<in> set (running t). operation (tui_app t) = Some x \<and> (x = RecordOperation \<longrightarrow> test_id \<noteq> None))
    \<and> (test_index (tui_app t) < length (app_tests (tui_app t)) \<or> app_tests (tui_app t) = [])
    \<and> (trace_index (tui_app t) < length (app_trace (tui_app t)) \<or> app_trace (tui_app t) = [])
    \<and> sorted (map (failure_rank \<circ> ti_status) (app_tests (tui_app t)))"
proof -
  have ok: "tui_ok t" by (rule tui_reachable_ok [OF assms])
  have "sorted (map (failure_rank \<circ> ti_status) ts)" if "sorted (map test_order ts)" for ts
    using that by (induction ts) (auto simp: test_order_def less_eq_prod_def)
  then show ?thesis
    using ok by (auto simp: tui_ok_def app_ok_def operation_ok_def selection_ok_def)
qed

definition sample_tui_envelope :: envelope where
  "sample_tui_envelope = \<lparr>schema_version = ''1'', workspace_id = ''ws'', env_revision = ''rev'', session_id = ''s'', env_run_id = None,
     env_status = Ok, env_data = json_object [(''tests'', JArray
       [json_object [(''id'', JString ''a''), (''lastStatus'', JString ''passed'')],
        json_object [(''id'', JString ''b''), (''lastStatus'', JString ''failed''), (''lastFailureId'', JString ''f'')]])],
     diagnostics = [], capabilities = query_only, next_actions = [], env_page = None\<rparr>"

definition sample_tui_world :: tui_world where
  "sample_tui_world = \<lparr>tw_encode = (\<lambda>_. ''p''), tw_decode = (\<lambda>_. Inr sample_tui_envelope), tw_request_id = (\<lambda>_. ''r''),
     tw_answer = (\<lambda>_ q. Inr \<lparr>resp_schema_version = 1, resp_request_id = request_id q, exit_code = 0, envelope_json = ''e''\<rparr>)\<rparr>"

definition sample_tui :: tui where
  "sample_tui = start_operation VerifyOperation
     (fst (refresh_tests sample_tui_world (config_of ''/w'' 100 65536 None) (tui_start 0)))"

theorem dashboard_invariant_witness:
  "length (running sample_tui) + length (channel sample_tui) = 1
    \<and> sorted (map (failure_rank \<circ> ti_status) (app_tests (tui_app sample_tui)))"
proof -
  let ?c = "config_of ''/w'' 100 65536 None"
  let ?i = "\<lparr>draw_ok = True, now_check = 0, now_refreshed = 0, now_key = 0,
      polled = Key \<lparr>key_code = KeyChar ''v'', key_pressed = True\<rparr>\<rparr>"
  obtain t u where f: "refresh_tests sample_tui_world ?c (tui_start 0) = (t, Inr u)"
    by (simp add: refresh_tests_def rpc_def rbind_def sample_tui_world_def)
  have "event_round sample_tui_world ?c 500 ?i t = (sample_tui, Continue)"
    using f refresh_ok [OF f]
    by (simp add: event_round_def receive_operation_def act_def handle_key_def sample_tui_def tui_start_def
      refresh_tests_def rpc_def rbind_def sample_tui_world_def)
  from tui_round [OF tui_first [OF f] this] have r: "tui_reachable sample_tui_world ?c 500 sample_tui" .
  have "operation (tui_app sample_tui) \<noteq> None"
    using refresh_ok(2) [OF f] f by (simp add: sample_tui_def start_operation_def tui_start_def app_default_def Let_def)
  then show ?thesis using dashboard_invariant [OF r] by simp
qed

lemma position_exists: "x \<in> set xs \<Longrightarrow> P x \<Longrightarrow> \<exists>i. position P xs = Some i"
  by (induction xs) auto

text \<open>A refresh lists exactly the tests of the answer, in order, and keeps the selected test
  selected as long as the answer still has it, wherever it moved.\<close>

theorem refresh_keeps_selected_test:
  "mset (app_tests (apply_tests e a)) = mset (map test_item_of (array_at (env_data e) ''tests''))
   \<and> sorted (map test_order (app_tests (apply_tests e a)))
   \<and> (case selected_test a of
        None \<Rightarrow> True
      | Some old \<Rightarrow> ti_id old \<notin> ti_id ` set (app_tests (apply_tests e a))
          \<or> map_option ti_id (selected_test (apply_tests e a)) = Some (ti_id old))"
proof -
  define ts where "ts = sort_key test_order (map test_item_of (array_at (env_data e) ''tests''))"
  have ts: "app_tests (apply_tests e a) = ts" by (simp add: apply_tests_def Let_def ts_def)
  have "map_option ti_id (selected_test (apply_tests e a)) = Some (ti_id old)"
    if old: "selected_test a = Some old" and mem: "ti_id old \<in> ti_id ` set ts" for old
  proof -
    obtain i where p: "position (\<lambda>t. ti_id t = ti_id old) ts = Some i"
      using mem position_exists [of _ ts "\<lambda>t. ti_id t = ti_id old"] by fastforce
    have i: "i < length ts" "ti_id (ts ! i) = ti_id old" using p by (auto simp: position_Some)
    have "test_index (apply_tests e a) = i"
      using old p i by (simp add: apply_tests_def Let_def ts_def [symmetric])
    then show ?thesis using i by (simp add: selected_test_def entry_at_def ts)
  qed
  then show ?thesis unfolding ts by (auto simp: ts_def mset_sort split: option.splits)
qed

text \<open>The detail of a failure that was opened stays when the selection moves: the pane then
  names the next test and shows the failure of another one.\<close>

theorem detail_of_another_test:
  assumes "app_screen a = TestsScreen" "failure_detail a = Some d" "Suc (test_index a) < length (app_tests a)"
  shows "tui_detail pretty (fst (handle_key \<lparr>key_code = KeyDown, key_pressed = True\<rparr> a))
    = (''Failure detail '' @ DOT @ '' '' @ ti_display_name (app_tests a ! Suc (test_index a)), d)"
proof -
  have "index_down (test_index a) (length (app_tests a)) = Suc (test_index a)"
    using assms(3) by (auto simp: index_down_def)
  then show ?thesis
    using assms by (simp add: handle_key_def move_down_def tui_detail_def selected_test_def entry_at_def)
qed

theorem detail_of_another_test_witness:
  "tui_detail pretty (fst (handle_key \<lparr>key_code = KeyDown, key_pressed = True\<rparr>
      (app_default\<lparr>app_tests := [\<lparr>ti_id = ''a'', ti_display_name = ''a'', ti_module = '':m'', ti_status = ''failed'', ti_failure_id = Some ''f''\<rparr>,
         \<lparr>ti_id = ''b'', ti_display_name = ''b'', ti_module = '':m'', ti_status = ''passed'', ti_failure_id = None\<rparr>],
       failure_detail := Some ''why a failed''\<rparr>)))
    = (''Failure detail '' @ DOT @ '' b'', ''why a failed'')"
  by (subst detail_of_another_test) (simp_all add: app_default_def)

end
