(* ===== verification/Cli.thy ===== *)
theory Cli
  imports Daemon Tui
begin

text \<open>
  \<^verbatim>\<open>crates/walaru-cli/src/main.rs\<close>: the arguments, the request each command becomes, the
  startup of the daemon, and the run of the client from its arguments to its exit code.
\<close>

section \<open>Arguments\<close>

datatype output_format = AutoFormat | HumanFormat | JsonFormat | NdjsonFormat

datatype reverse_step = LineStep | CallStep | WriteStep

record watch_args =
  watch_interval_ms :: nat
  watch_once :: bool

record tui_args =
  tui_interval_ms :: nat
  tui_once :: bool

record verify_args =
  va_full :: bool
  va_since :: "string option"
  va_selected_tests :: "string list"
  va_overlay_manifest :: "string option"
  va_supersede :: bool

record explain_args =
  ea_full :: bool
  ea_since :: "string option"
  ea_max_failures :: nat

record reverse_args =
  ra_recording_id :: string
  ra_from :: string
  ra_step :: "reverse_step option"
  ra_until :: "string option"
  ra_watch :: "string option"

datatype public_command =
    StatusCommand
  | WatchCommand watch_args
  | TuiCommand tui_args
  | StopCommand
  | CancelCommand
  | DoctorCommand
  | VerifyCommand verify_args
  | ExplainCommand explain_args
  | TestsCommand
  | FailureCommand string
  | ImpactCommand string
  | CoverageCommand string
  | TraceCommand string
  | ValuesCommand string
  | RecordCommand string bool
  | ReplayCommand string
  | ReverseCommand reverse_args
  | InternalDaemon

record cli =
  cli_workspace :: string
  cli_format :: output_format
  cli_fields :: "string list"
  cli_limit :: nat
  cli_cursor :: "string option"
  cli_max_bytes :: nat
  cli_at :: "string option"
  cli_command :: public_command

text \<open>What the argument parser lets through: the ranges, conflicts and requirements declared on the
  arguments.\<close>

definition accepts_command :: "public_command \<Rightarrow> bool" where
  "accepts_command c = (case c of
      VerifyCommand v \<Rightarrow> \<not> (va_full v \<and> va_since v \<noteq> None)
    | ExplainCommand e \<Rightarrow> \<not> (ea_full e \<and> ea_since e \<noteq> None) \<and> 1 \<le> ea_max_failures e \<and> ea_max_failures e \<le> 20
    | ReverseCommand r \<Rightarrow> (ra_step r = None) \<noteq> (ra_until r = None) \<and> (ra_watch r \<noteq> None \<longrightarrow> ra_step r \<noteq> None)
    | _ \<Rightarrow> True)"

section \<open>Requests\<close>

definition step_word :: "reverse_step \<Rightarrow> string" where
  "step_word s = (case s of LineStep \<Rightarrow> ''line'' | CallStep \<Rightarrow> ''call'' | WriteStep \<Rightarrow> ''write'')"

text \<open>\<open>None\<close> is the panic of \<^verbatim>\<open>unreachable!()\<close>.\<close>

definition command_payload :: "public_command \<Rightarrow> (string \<times> json) option" where
  "command_payload c = (case c of
      StatusCommand \<Rightarrow> Some (''status'', JObject [])
    | StopCommand \<Rightarrow> Some (''stop'', JObject [])
    | CancelCommand \<Rightarrow> Some (''cancel'', JObject [])
    | DoctorCommand \<Rightarrow> Some (''doctor'', JObject [])
    | VerifyCommand v \<Rightarrow> Some (''verify'', json_object [(''full'', JBool (va_full v)), (''since'', json_option (va_since v)),
        (''selectedTests'', JArray (map JString (va_selected_tests v))), (''supersede'', JBool (va_supersede v))])
    | ExplainCommand e \<Rightarrow> Some (''explain'', json_object [(''full'', JBool (ea_full e)), (''since'', json_option (ea_since e)),
        (''maxFailures'', JInt (int (ea_max_failures e)))])
    | TestsCommand \<Rightarrow> Some (''tests'', JObject [])
    | FailureCommand i \<Rightarrow> Some (''failure'', json_object [(''id'', JString i)])
    | ImpactCommand x \<Rightarrow> Some (''impact'', json_object [(''subject'', JString x)])
    | CoverageCommand x \<Rightarrow> Some (''coverage'', json_object [(''subject'', JString x)])
    | TraceCommand x \<Rightarrow> Some (''trace'', json_object [(''subject'', JString x)])
    | ValuesCommand x \<Rightarrow> Some (''values'', json_object [(''event'', JString x)])
    | RecordCommand t capture_io \<Rightarrow> Some (''record'', json_object [(''testId'', JString t), (''captureFileIo'', JBool capture_io)])
    | ReplayCommand r \<Rightarrow> Some (''replay'', json_object [(''recordingId'', JString r)])
    | ReverseCommand r \<Rightarrow> Some (''reverse'', json_object [(''recordingId'', JString (ra_recording_id r)), (''from'', JString (ra_from r)),
        (''step'', json_option (map_option step_word (ra_step r))), (''until'', json_option (ra_until r)),
        (''watch'', json_option (ra_watch r))])
    | WatchCommand _ \<Rightarrow> None
    | TuiCommand _ \<Rightarrow> None
    | InternalDaemon \<Rightarrow> None)"

definition cli_payload :: "cli \<Rightarrow> json \<Rightarrow> json" where
  "cli_payload c p = json_object [(''query'', json_object [(''fields'', JArray (map JString (cli_fields c))),
      (''limit'', JInt (int (cli_limit c))), (''cursor'', json_option (cli_cursor c)),
      (''maxBytes'', JInt (int (cli_max_bytes c))), (''at'', json_option (cli_at c))]), (''command'', p)]"

definition cli_request :: "(json \<Rightarrow> string) \<Rightarrow> string \<Rightarrow> cli \<Rightarrow> string \<Rightarrow> string \<Rightarrow> json \<Rightarrow> rpc_request" where
  "cli_request encode rid c r cmd p = \<lparr>req_schema_version = 1, request_id = rid, workspace_root = r,
     command = cmd, payload_json = encode (cli_payload c p)\<rparr>"

text \<open>\<open>file path\<close> is the length in the metadata and then the contents read, \<open>decode\<close> the JSON parser.\<close>

definition MANIFEST_OVERHEAD_BYTES :: nat where "MANIFEST_OVERHEAD_BYTES = 256 * 1024"

definition read_overlay_manifest ::
  "(string \<Rightarrow> string + nat \<times> (string + string)) \<Rightarrow> (string \<Rightarrow> string + overlay_manifest) \<Rightarrow> (overlay_error \<Rightarrow> string)
     \<Rightarrow> string \<Rightarrow> string + overlay_request" where
  "read_overlay_manifest file decode show_error path =
     (let maximum = MAX_OVERLAY_BYTES + MANIFEST_OVERHEAD_BYTES;
          too_long = ''overlay manifest exceeds '' @ show_nat maximum @ '' bytes'' in
      rbind (file path) (\<lambda>(len, found).
        if maximum < len then Inl too_long
        else rbind found (\<lambda>contents.
          if maximum < length contents then Inl too_long
          else rbind (decode contents) (\<lambda>m. map_sum show_error id (into_request m)))))"

section \<open>Starting the daemon\<close>

text \<open>A client on its way to a running daemon.\<close>

datatype startup_pc =
    FirstCheck
  | Prepare
  | LoopCheck
  | TryLock
  | Contended
  | LastCheck
  | Recheck
  | Spawning
  | Waiting "string option"
  | Ready
  | NotStarted string

text \<open>What the client sees at a step: whether the daemon is ready (its socket and its metadata exist
  and it answers), whether the state directory could be made, the attempt to lock, whether its
  deadline has passed, the attempt to spawn the child and the child's exit status.\<close>

record startup_view =
  sv_ready :: bool
  sv_directory :: "string + unit"
  sv_lock :: "string + bool"
  sv_late :: bool
  sv_spawn :: "string + unit"
  sv_exited :: "string + string option"

text \<open>What a step does to the world.\<close>

datatype startup_action = NoAction | TakeLock | FreeLock | SpawnChild | KillChild

definition startup_step :: "string \<Rightarrow> startup_view \<Rightarrow> startup_pc \<Rightarrow> startup_pc \<times> startup_action" where
  "startup_step socket_name v pc = (case pc of
      FirstCheck \<Rightarrow> (if sv_ready v then Ready else Prepare, NoAction)
    | Prepare \<Rightarrow> (case sv_directory v of Inl e \<Rightarrow> (NotStarted e, NoAction) | Inr _ \<Rightarrow> (LoopCheck, NoAction))
    | LoopCheck \<Rightarrow> (if sv_ready v then Ready else TryLock, NoAction)
    | TryLock \<Rightarrow> (case sv_lock v of
          Inl e \<Rightarrow> (NotStarted e, NoAction)
        | Inr True \<Rightarrow> (Recheck, TakeLock)
        | Inr False \<Rightarrow> (Contended, NoAction))
    | Contended \<Rightarrow> (if sv_late v then LastCheck else LoopCheck, NoAction)
    | LastCheck \<Rightarrow> (if sv_ready v then Ready
        else NotStarted ''timed out waiting for another client to start the daemon'', NoAction)
    | Recheck \<Rightarrow> if sv_ready v then (Ready, FreeLock) else (Spawning, NoAction)
    | Spawning \<Rightarrow> (case sv_spawn v of Inl e \<Rightarrow> (NotStarted e, FreeLock) | Inr _ \<Rightarrow> (Waiting None, SpawnChild))
    | Waiting exited \<Rightarrow>
        if sv_late v then (case exited of
            Some s \<Rightarrow> (NotStarted (''daemon exited during startup with '' @ s), FreeLock)
          | None \<Rightarrow> (NotStarted (''daemon did not create '' @ socket_name), KillChild))
        else if sv_ready v then (Ready, FreeLock)
        else (case exited of
            Some s \<Rightarrow> (Waiting (Some s), NoAction)
          | None \<Rightarrow> (case sv_exited v of Inl e \<Rightarrow> (NotStarted e, FreeLock) | Inr x \<Rightarrow> (Waiting x, NoAction)))
    | Ready \<Rightarrow> (Ready, NoAction)
    | NotStarted e \<Rightarrow> (NotStarted e, NoAction))"

partial_function (option) ensure_daemon ::
  "string \<Rightarrow> (nat \<Rightarrow> startup_view) \<Rightarrow> nat \<Rightarrow> startup_pc \<Rightarrow> (string + unit) option" where
  "ensure_daemon socket_name views k pc = (case pc of
      Ready \<Rightarrow> Some (Inr ())
    | NotStarted e \<Rightarrow> Some (Inl e)
    | _ \<Rightarrow> ensure_daemon socket_name views (k + 1) (fst (startup_step socket_name (views k) pc)))"

text \<open>Waiting for the end of a stopped daemon: at each poll the deadline, the socket and the metadata.\<close>

partial_function (option) wait_for_daemon_shutdown :: "(nat \<Rightarrow> bool \<times> bool \<times> bool) \<Rightarrow> nat \<Rightarrow> (string + unit) option" where
  "wait_for_daemon_shutdown polls k = (case polls k of (late, socket_exists, metadata_exists) \<Rightarrow>
      if late then Some (Inl ''daemon acknowledged stop but did not remove its endpoint within 3 seconds'')
      else if \<not> socket_exists \<and> \<not> metadata_exists then Some (Inr ())
      else wait_for_daemon_shutdown polls (k + 1))"

section \<open>Output\<close>

definition effective_format :: "bool \<Rightarrow> output_format \<Rightarrow> bool \<Rightarrow> output_format" where
  "effective_format terminal requested watching = (case requested of
      AutoFormat \<Rightarrow> if watching then NdjsonFormat else if terminal then HumanFormat else JsonFormat
    | explicit \<Rightarrow> explicit)"

section \<open>The client\<close>

record cli_world =
  cw_layout :: "string + workspace_layout"
  cw_interactive :: bool
  cw_file :: "string \<Rightarrow> string + nat \<times> (string + string)"
  cw_manifest :: "string \<Rightarrow> string + overlay_manifest"
  cw_overlay_error :: "overlay_error \<Rightarrow> string"
  cw_overlay_json :: "overlay_request \<Rightarrow> string + json"
  cw_views :: "nat \<Rightarrow> startup_view"
  cw_encode :: "json \<Rightarrow> string"
  cw_decode :: "string \<Rightarrow> string + envelope"
  cw_request_id :: "nat \<Rightarrow> string"
  cw_answer :: "nat \<Rightarrow> rpc_request \<Rightarrow> string + rpc_response"
  cw_terminal :: bool
  cw_human :: human_env
  cw_json :: "envelope \<Rightarrow> string + string"
  cw_polls :: "nat \<Rightarrow> bool \<times> bool \<times> bool"
  cw_draw :: "frame_view \<Rightarrow> string list"
  cw_terminal_ok :: bool
  cw_events :: "nat \<Rightarrow> loop_event"
  cw_now :: nat
  cw_serve :: "string + unit"

text \<open>\<open>None\<close> is the panic of \<^verbatim>\<open>unreachable!()\<close> in \<^verbatim>\<open>render\<close>.\<close>

definition render_output :: "cli_world \<Rightarrow> envelope \<Rightarrow> output_format \<Rightarrow> string \<Rightarrow> (string + string) option" where
  "render_output w e f cmd = (case f of
      HumanFormat \<Rightarrow> Some (Inr (human_render (cw_human w) cmd e))
    | AutoFormat \<Rightarrow> None
    | _ \<Rightarrow> Some (map_sum id writeln (cw_json w e)))"

text \<open>A client writes to its two output streams and ends with an exit code or an error.\<close>

record cli_outcome =
  out_stdout :: string
  out_stderr :: string
  out_result :: "string + int"

definition quiet :: "string + int \<Rightarrow> cli_outcome" where
  "quiet r = \<lparr>out_stdout = [], out_stderr = [], out_result = r\<rparr>"

definition usage :: "string \<Rightarrow> cli_outcome" where
  "usage text = \<lparr>out_stdout = [], out_stderr = writeln text, out_result = Inr 2\<rparr>"

text \<open>One request: the answer, decoded and rendered.\<close>

definition exchange ::
  "cli_world \<Rightarrow> cli \<Rightarrow> string \<Rightarrow> nat \<Rightarrow> string \<Rightarrow> json \<Rightarrow> bool \<Rightarrow> (string \<times> (string + int)) option" where
  "exchange w c r k cmd p watching =
     (case cw_answer w k (cli_request (cw_encode w) (cw_request_id w k) c r cmd p) of
        Inl e \<Rightarrow> Some ([], Inl e)
      | Inr resp \<Rightarrow> (case cw_decode w (envelope_json resp) of
          Inl e \<Rightarrow> Some ([], Inl e)
        | Inr e \<Rightarrow> (case render_output w e (effective_format (cw_terminal w) (cli_format c) watching) cmd of
            None \<Rightarrow> None
          | Some (Inl err) \<Rightarrow> Some ([], Inl err)
          | Some (Inr text) \<Rightarrow> Some (text, Inr (exit_code resp)))))"

partial_function (option) watch_loop :: "cli_world \<Rightarrow> cli \<Rightarrow> string \<Rightarrow> bool \<Rightarrow> nat \<Rightarrow> string \<Rightarrow> cli_outcome option" where
  "watch_loop w c r once k printed =
     (case exchange w c r k ''status'' (json_object [(''watch'', JBool True)]) True of
        None \<Rightarrow> None
      | Some (_, Inl e) \<Rightarrow> Some \<lparr>out_stdout = printed, out_stderr = [], out_result = Inl e\<rparr>
      | Some (text, Inr ec) \<Rightarrow>
          if once \<or> ec \<noteq> 0 then Some \<lparr>out_stdout = printed @ text, out_stderr = [], out_result = Inr ec\<rparr>
          else watch_loop w c r once (k + 1) (printed @ text))"

definition tui_world_of :: "cli_world \<Rightarrow> tui_world" where
  "tui_world_of w = \<lparr>tw_encode = cw_encode w, tw_decode = cw_decode w, tw_request_id = cw_request_id w, tw_answer = cw_answer w\<rparr>"

definition overlay_argument :: "cli_world \<Rightarrow> public_command \<Rightarrow> string + overlay_request option" where
  "overlay_argument w c = (case c of
      VerifyCommand v \<Rightarrow> (case va_overlay_manifest v of
          None \<Rightarrow> Inr None
        | Some path \<Rightarrow> map_sum id Some (read_overlay_manifest (cw_file w) (cw_manifest w) (cw_overlay_error w) path))
    | _ \<Rightarrow> Inr None)"

definition with_overlay :: "cli_world \<Rightarrow> overlay_request option \<Rightarrow> json \<Rightarrow> string + json" where
  "with_overlay w ov p = (case ov of
      None \<Rightarrow> Inr p
    | Some o' \<Rightarrow> rbind (cw_overlay_json w o') (\<lambda>j. Inr (case p of JObject m \<Rightarrow> JObject (bt_insert ''overlay'' j m) | _ \<Rightarrow> p)))"

definition single_command :: "cli_world \<Rightarrow> cli \<Rightarrow> workspace_layout \<Rightarrow> overlay_request option \<Rightarrow> cli_outcome option" where
  "single_command w c layout ov = (case command_payload (cli_command c) of
      None \<Rightarrow> None
    | Some (cmd, p0) \<Rightarrow> (case with_overlay w ov p0 of
        Inl e \<Rightarrow> Some (quiet (Inl e))
      | Inr p \<Rightarrow> (case exchange w c (root layout) 0 cmd p False of
          None \<Rightarrow> None
        | Some (text, Inl e) \<Rightarrow> Some \<lparr>out_stdout = text, out_stderr = [], out_result = Inl e\<rparr>
        | Some (text, Inr ec) \<Rightarrow>
            if cmd = ''stop'' \<and> ec = 0
            then map_option (\<lambda>waited. \<lparr>out_stdout = text, out_stderr = [],
                out_result = (case waited of Inl e \<Rightarrow> Inl e | Inr _ \<Rightarrow> Inr ec)\<rparr>) (wait_for_daemon_shutdown (cw_polls w) 0)
            else Some \<lparr>out_stdout = text, out_stderr = [], out_result = Inr ec\<rparr>)))"

definition run_client :: "cli_world \<Rightarrow> cli \<Rightarrow> cli_outcome option" where
  "run_client w c = (case cw_layout w of
      Inl e \<Rightarrow> Some (quiet (Inl e))
    | Inr layout \<Rightarrow>
        (if (case cli_command c of TuiCommand a \<Rightarrow> \<not> tui_once a \<and> \<not> cw_interactive w | _ \<Rightarrow> False)
         then Some (usage ''error: interactive TUI requires a TTY; use `walaru tui --once` for automation'')
         else (case overlay_argument w (cli_command c) of
            Inl e \<Rightarrow> Some (usage (''error: invalid overlay manifest: '' @ e))
          | Inr ov \<Rightarrow> (case ensure_daemon (socket layout) (cw_views w) 0 FirstCheck of
              None \<Rightarrow> None
            | Some (Inl e) \<Rightarrow> Some (quiet (Inl e))
            | Some (Inr _) \<Rightarrow> (case cli_command c of
                WatchCommand a \<Rightarrow> watch_loop w c (root layout) (watch_once a) 0 []
              | TuiCommand a \<Rightarrow> map_option (\<lambda>r. case r of
                    Inl e \<Rightarrow> quiet (Inl e)
                  | Inr (text, ec) \<Rightarrow> \<lparr>out_stdout = text, out_stderr = [], out_result = Inr ec\<rparr>)
                  (tui_run (tui_world_of w) (config_of (root layout) (cli_limit c) (cli_max_bytes c) (cli_at c))
                    (tui_interval_ms a) (tui_once a) (cw_draw w) (he_pretty (cw_human w)) (cw_terminal_ok w) (cw_events w) (cw_now w))
              | _ \<Rightarrow> single_command w c layout ov)))))"

text \<open>The process: what it prints and its exit code; the hidden command serves until the daemon ends.\<close>

definition cli_main :: "cli_world \<Rightarrow> cli \<Rightarrow> (string \<times> string \<times> int) option" where
  "cli_main w c =
     (if cli_command c = InternalDaemon
      then Some (case cw_serve w of Inr _ \<Rightarrow> ([], [], 0) | Inl e \<Rightarrow> ([], writeln (''walaru daemon: '' @ e), 3))
      else if (case cli_command c of ReplayCommand _ \<Rightarrow> cli_at c = None | _ \<Rightarrow> False)
      then Some ([], writeln ''error: replay requires --at <event-id>'', 2)
      else if (case cli_command c of ReverseCommand r \<Rightarrow> ra_watch r \<noteq> None \<and> ra_step r \<noteq> Some WriteStep | _ \<Rightarrow> False)
      then Some ([], writeln ''error: --watch requires --step write'', 2)
      else map_option (\<lambda>x. case out_result x of
          Inr ec \<Rightarrow> (out_stdout x, out_stderr x, ec)
        | Inl e \<Rightarrow> (out_stdout x, out_stderr x @ writeln (''walaru: '' @ e), 3)) (run_client w c))"

end
