(* ===== verification/Cli_Startup.thy ===== *)
theory Cli_Startup
  imports Cli
begin

text \<open>
  Many clients at once: at most one daemon is started for a worktree, and every client comes to an
  end.  The lock file, the child processes and the endpoint are shared; clients run interleaved.
\<close>

section \<open>The shared world\<close>

text \<open>\<open>lock_of\<close> is the client that holds the startup lock; \<open>starting\<close> are the clients whose daemon child
  runs without answering yet, \<open>serving\<close> those whose child answers at the endpoint.\<close>

record startup =
  lock_of :: "nat option"
  starting :: "nat list"
  serving :: "nat list"
  pcs :: "nat \<Rightarrow> startup_pc"

definition startup_new :: startup where
  "startup_new = \<lparr>lock_of = None, starting = [], serving = [], pcs = (\<lambda>_. FirstCheck)\<rparr>"

definition act_on :: "nat \<Rightarrow> startup_action \<Rightarrow> startup \<Rightarrow> startup" where
  "act_on c x s = (case x of
      NoAction \<Rightarrow> s
    | TakeLock \<Rightarrow> s\<lparr>lock_of := Some c\<rparr>
    | FreeLock \<Rightarrow> s\<lparr>lock_of := None\<rparr>
    | SpawnChild \<Rightarrow> s\<lparr>starting := c # starting s\<rparr>
    | KillChild \<Rightarrow> s\<lparr>starting := removeAll c (starting s), serving := removeAll c (serving s), lock_of := None\<rparr>)"

text \<open>What a client sees agrees with the shared world: a daemon is ready exactly when one serves, the
  lock is free exactly when nobody holds it, and a child that still runs has no exit status.\<close>

definition sees :: "startup \<Rightarrow> nat \<Rightarrow> startup_view \<Rightarrow> bool" where
  "sees s c v = (sv_ready v = (serving s \<noteq> []) \<and> (\<forall>free. sv_lock v = Inr free \<longrightarrow> free = (lock_of s = None))
     \<and> (\<exists>x. sv_exited v = Inr x \<and> (x \<noteq> None \<longrightarrow> c \<notin> set (starting s) \<and> c \<notin> set (serving s))))"

inductive startup_transition :: "startup \<Rightarrow> startup \<Rightarrow> bool" where
  client_moves: "sees s c v \<Longrightarrow> startup_step socket_name v (pcs s c) = (pc, x) \<Longrightarrow>
    startup_transition s ((act_on c x s)\<lparr>pcs := (pcs s)(c := pc)\<rparr>)"
| child_serves: "c \<in> set (starting s) \<Longrightarrow>
    startup_transition s (s\<lparr>starting := remove1 c (starting s), serving := c # serving s\<rparr>)"
| child_dies: "startup_transition s (s\<lparr>starting := remove1 c (starting s)\<rparr>)"
| daemon_ends: "startup_transition s (s\<lparr>serving := remove1 c (serving s)\<rparr>)"
| client_arrives: "pcs s c \<in> range NotStarted \<union> {Ready} \<Longrightarrow> startup_transition s (s\<lparr>pcs := (pcs s)(c := FirstCheck)\<rparr>)"

inductive startup_reachable :: "startup \<Rightarrow> bool" where
  startup_first: "startup_reachable startup_new"
| startup_next: "startup_reachable s \<Longrightarrow> startup_transition s s' \<Longrightarrow> startup_reachable s'"

section \<open>The invariant\<close>

definition holds_lock :: "startup_pc \<Rightarrow> bool" where
  "holds_lock pc = (case pc of Recheck \<Rightarrow> True | Spawning \<Rightarrow> True | Waiting _ \<Rightarrow> True | _ \<Rightarrow> False)"

definition startup_ok :: "startup \<Rightarrow> bool" where
  "startup_ok s = ((\<forall>c. holds_lock (pcs s c) \<longleftrightarrow> lock_of s = Some c)
     \<and> length (starting s) + length (serving s) \<le> 1
     \<and> (\<forall>c \<in> set (starting s). pcs s c = Waiting None)
     \<and> (\<forall>c. pcs s c = Spawning \<longrightarrow> starting s = [] \<and> serving s = []))"

lemma one_or_none: "length xs + length ys \<le> 1 \<Longrightarrow> xs = [] \<and> ys = [] \<or> (\<exists>x. xs = [x] \<and> ys = []) \<or> (\<exists>y. xs = [] \<and> ys = [y])"
  by (cases xs; cases ys) auto

lemma startup_okD:
  assumes "startup_ok s"
  shows "holds_lock (pcs s c) = (lock_of s = Some c)" "length (starting s) + length (serving s) \<le> 1"
    "c \<in> set (starting s) \<Longrightarrow> pcs s c = Waiting None" "pcs s c = Spawning \<Longrightarrow> starting s = [] \<and> serving s = []"
  using assms unfolding startup_ok_def by blast+

lemma holds_lock_simps [simp]:
  "\<not> holds_lock FirstCheck" "\<not> holds_lock Prepare" "\<not> holds_lock LoopCheck" "\<not> holds_lock TryLock" "\<not> holds_lock Contended"
  "\<not> holds_lock LastCheck" "\<not> holds_lock Ready" "\<not> holds_lock (NotStarted e)"
  "holds_lock Recheck" "holds_lock Spawning" "holds_lock (Waiting y)"
  by (simp_all add: holds_lock_def)

text \<open>One client moves on; the others stand where they stood.\<close>

lemma startup_ok_move:
  assumes ok: "startup_ok s"
    and "holds_lock pc = (lock = Some c)" "\<And>d. d \<noteq> c \<Longrightarrow> (lock_of s = Some d) = (lock = Some d)"
    and "length st + length sv \<le> 1" "c \<in> set st \<Longrightarrow> pc = Waiting None" "\<And>d. d \<in> set st \<Longrightarrow> d \<noteq> c \<Longrightarrow> d \<in> set (starting s)"
    and "pc = Spawning \<Longrightarrow> st = [] \<and> sv = []"
    and "\<And>d. d \<noteq> c \<Longrightarrow> pcs s d = Spawning \<Longrightarrow> st = [] \<and> sv = []"
  shows "startup_ok \<lparr>lock_of = lock, starting = st, serving = sv, pcs = (pcs s)(c := pc)\<rparr>"
  unfolding startup_ok_def
proof (intro conjI allI ballI)
  fix d
  show "holds_lock (pcs \<lparr>lock_of = lock, starting = st, serving = sv, pcs = (pcs s)(c := pc)\<rparr> d)
      = (lock_of \<lparr>lock_of = lock, starting = st, serving = sv, pcs = (pcs s)(c := pc)\<rparr> = Some d)"
    using assms(2, 3) startup_okD(1) [OF ok] by (cases "d = c") simp_all
  show "length (starting \<lparr>lock_of = lock, starting = st, serving = sv, pcs = (pcs s)(c := pc)\<rparr>)
      + length (serving \<lparr>lock_of = lock, starting = st, serving = sv, pcs = (pcs s)(c := pc)\<rparr>) \<le> 1"
    using assms(4) by simp
  show "pcs \<lparr>lock_of = lock, starting = st, serving = sv, pcs = (pcs s)(c := pc)\<rparr> d = Waiting None"
    if "d \<in> set (starting \<lparr>lock_of = lock, starting = st, serving = sv, pcs = (pcs s)(c := pc)\<rparr>)"
    using that assms(5, 6) startup_okD(3) [OF ok] by (cases "d = c") simp_all
  show "pcs \<lparr>lock_of = lock, starting = st, serving = sv, pcs = (pcs s)(c := pc)\<rparr> d = Spawning \<longrightarrow>
      starting \<lparr>lock_of = lock, starting = st, serving = sv, pcs = (pcs s)(c := pc)\<rparr> = []
      \<and> serving \<lparr>lock_of = lock, starting = st, serving = sv, pcs = (pcs s)(c := pc)\<rparr> = []"
    using assms(7, 8) by (cases "d = c") simp_all
qed

lemma startup_eta: "s\<lparr>pcs := p\<rparr> = \<lparr>lock_of = lock_of s, starting = starting s, serving = serving s, pcs = p\<rparr>"
  by (cases s) simp

lemma startup_ok_stay:
  assumes "startup_ok s" "holds_lock (pcs s c) = holds_lock pc" "c \<in> set (starting s) \<Longrightarrow> pc = Waiting None"
    and "pc = Spawning \<Longrightarrow> starting s = [] \<and> serving s = []"
  shows "startup_ok (s\<lparr>pcs := (pcs s)(c := pc)\<rparr>)"
  unfolding startup_eta
proof (rule startup_ok_move [OF assms(1)])
  show "holds_lock pc = (lock_of s = Some c)" using assms(2) startup_okD(1) [OF assms(1)] by simp
  show "length (starting s) + length (serving s) \<le> 1" by (rule startup_okD(2) [OF assms(1)])
  show "starting s = [] \<and> serving s = []" if "pcs s d = Spawning" for d by (rule startup_okD(4) [OF assms(1) that])
qed (use assms in blast)+

lemma holder_alone: "startup_ok s \<Longrightarrow> holds_lock (pcs s c) \<Longrightarrow> d \<noteq> c \<Longrightarrow> \<not> holds_lock (pcs s d)"
  using startup_okD(1) by fastforce

lemma startup_ok_free:
  assumes "startup_ok s" "holds_lock (pcs s c)" "\<not> holds_lock pc" "c \<notin> set st"
    and "set st \<subseteq> set (starting s)" "length st + length sv \<le> 1"
  shows "startup_ok \<lparr>lock_of = None, starting = st, serving = sv, pcs = (pcs s)(c := pc)\<rparr>"
proof (rule startup_ok_move [OF assms(1)])
  fix d
  assume d: "d \<noteq> c"
  then have n: "\<not> holds_lock (pcs s d)" using holder_alone [OF assms(1, 2)] by blast
  then show "(lock_of s = Some d) = (None = Some d)" using startup_okD(1) [OF assms(1), of d] by simp
  show "st = [] \<and> sv = []" if "pcs s d = Spawning" using n that by (simp add: holds_lock_def)
qed (use assms in auto)

lemma startup_ok_step:
  assumes ok: "startup_ok s" and v: "sees s c v" and m: "startup_step socket_name v (pcs s c) = (pc, x)"
  shows "startup_ok ((act_on c x s)\<lparr>pcs := (pcs s)(c := pc)\<rparr>)"
proof -
  have starting_None: "c \<in> set (starting s) \<Longrightarrow> pcs s c = Waiting None" using ok by (auto simp: startup_ok_def)
  have same: "\<not> holds_lock (pcs s c) \<Longrightarrow> \<not> holds_lock pc \<Longrightarrow> x = NoAction \<Longrightarrow> ?thesis"
    using startup_ok_stay [OF ok, of c pc] starting_None by (cases "c \<in> set (starting s)"; cases "pc = Spawning") (auto simp: act_on_def)
  have free: "holds_lock (pcs s c) \<Longrightarrow> \<not> holds_lock pc \<Longrightarrow> x = FreeLock \<Longrightarrow> c \<notin> set (starting s) \<Longrightarrow> ?thesis"
    using startup_ok_free [OF ok, of c pc "starting s" "serving s"] startup_okD(2) [OF ok]
    by (cases s) (simp add: act_on_def)
  show ?thesis
  proof (cases "pcs s c")
    case FirstCheck
    then show ?thesis using m same by (auto simp: startup_step_def split: if_splits)
  next
    case Prepare
    then show ?thesis using m same by (auto simp: startup_step_def split: sum.splits)
  next
    case LoopCheck
    then show ?thesis using m same by (auto simp: startup_step_def split: if_splits)
  next
    case TryLock
    show ?thesis
    proof (cases "sv_lock v = Inr True")
      case True
      then have "lock_of s = None" "pc = Recheck" "x = TakeLock"
        using m v TryLock by (auto simp: startup_step_def sees_def)
      moreover have "startup_ok \<lparr>lock_of = Some c, starting = starting s, serving = serving s, pcs = (pcs s)(c := Recheck)\<rparr>"
        by (rule startup_ok_move [OF ok])
          (use \<open>lock_of s = None\<close> TryLock startup_okD [OF ok] in \<open>auto simp: holds_lock_def\<close>)
      ultimately show ?thesis by (cases s) (simp add: act_on_def)
    next
      case False
      then show ?thesis using m same TryLock
        by (auto simp: startup_step_def split: sum.splits bool.splits)
    qed
  next
    case Contended
    then show ?thesis using m same by (auto simp: startup_step_def split: if_splits)
  next
    case LastCheck
    then show ?thesis using m same by (auto simp: startup_step_def split: if_splits)
  next
    case Recheck
    show ?thesis
    proof (cases "sv_ready v")
      case True
      then show ?thesis using m free Recheck starting_None by (auto simp: startup_step_def)
    next
      case False
      have "starting s = []"
      proof (rule ccontr)
        assume "starting s \<noteq> []"
        then obtain d where d: "d \<in> set (starting s)" by (cases "starting s") auto
        then have "pcs s d = Waiting None" using ok by (simp add: startup_ok_def)
        then have "lock_of s = Some d" "lock_of s = Some c" using ok Recheck by (auto simp: startup_ok_def holds_lock_def)
        then show False using \<open>pcs s d = Waiting None\<close> Recheck by simp
      qed
      moreover have "serving s = []" "pc = Spawning" "x = NoAction"
        using m v False Recheck by (auto simp: startup_step_def sees_def)
      ultimately show ?thesis
        using startup_ok_stay [OF ok, of c Spawning] Recheck by (simp add: act_on_def)
    qed
  next
    case Spawning
    then have none: "starting s = []" "serving s = []" using ok by (auto simp: startup_ok_def)
    show ?thesis
    proof (cases "sv_spawn v")
      case (Inl e)
      then show ?thesis using m free Spawning none by (auto simp: startup_step_def)
    next
      case (Inr u)
      then have "pc = Waiting None" "x = SpawnChild" using m Spawning by (auto simp: startup_step_def)
      moreover have "startup_ok \<lparr>lock_of = lock_of s, starting = [c], serving = [], pcs = (pcs s)(c := Waiting None)\<rparr>"
      proof (rule startup_ok_move [OF ok])
        show "[c] = [] \<and> [] = []" if "d \<noteq> c" "pcs s d = Spawning" for d
          using holder_alone [OF ok, of c d] Spawning that by (simp add: holds_lock_def)
      qed (use Spawning none startup_okD(1) [OF ok, of c] in \<open>auto simp: holds_lock_def\<close>)
      ultimately show ?thesis using none by (cases s) (simp add: act_on_def)
    qed
  next
    case (Waiting exited)
    have held: "holds_lock (pcs s c)" using Waiting by (simp add: holds_lock_def)
    have stay: "x = NoAction \<Longrightarrow> pc = Waiting y \<Longrightarrow> (c \<in> set (starting s) \<Longrightarrow> y = None) \<Longrightarrow> ?thesis" for y
      using startup_ok_stay [OF ok, of c pc] held by (simp add: act_on_def)
    show ?thesis
    proof (cases "sv_late v")
      case True
      show ?thesis
      proof (cases exited)
        case None
        then have k: "x = KillChild" "\<not> holds_lock pc" using m Waiting True by (auto simp: startup_step_def)
        have "length (removeAll c (starting s)) + length (removeAll c (serving s)) \<le> 1"
          using startup_okD(2) [OF ok] length_removeAll_less_eq [of c "starting s"] length_removeAll_less_eq [of c "serving s"] by linarith
        then show ?thesis
          using startup_ok_free [OF ok held k(2), of "removeAll c (starting s)" "removeAll c (serving s)"] k(1)
          by (cases s) (auto simp: act_on_def)
      next
        case (Some e)
        then have "c \<notin> set (starting s)" using starting_None Waiting by auto
        then show ?thesis using m Waiting True Some free held by (auto simp: startup_step_def)
      qed
    next
      case late: False
      show ?thesis
      proof (cases "sv_ready v")
        case True
        have "c \<notin> set (starting s)"
          using v True startup_okD(2) [OF ok] by (cases "starting s"; cases "serving s") (auto simp: sees_def)
        then show ?thesis using m Waiting late True free held by (auto simp: startup_step_def)
      next
        case False
        show ?thesis
        proof (cases exited)
          case (Some e)
          then have "c \<notin> set (starting s)" using starting_None Waiting by auto
          moreover have x: "x = NoAction" and pc: "pc = Waiting (Some e)" using m Waiting late False Some by (auto simp: startup_step_def)
          ultimately show ?thesis by (intro stay [OF x pc]) auto
        next
          case None
          obtain y where y: "sv_exited v = Inr y" "y \<noteq> None \<longrightarrow> c \<notin> set (starting s)" using v by (auto simp: sees_def)
          moreover have x: "x = NoAction" and pc: "pc = Waiting y" using m Waiting late False None y by (auto simp: startup_step_def)
          ultimately show ?thesis by (intro stay [OF x pc]) auto
        qed
      qed
    qed
  next
    case Ready
    then show ?thesis using m same by (auto simp: startup_step_def)
  next
    case (NotStarted e)
    then have "x = NoAction" "pc = NotStarted e" using m by (auto simp: startup_step_def)
    then show ?thesis using same NotStarted by simp
  qed
qed


lemma startup_ok_children:
  assumes "startup_ok s" "set st \<subseteq> set (starting s)" "length st + length sv \<le> 1"
    and "starting s = [] \<Longrightarrow> serving s = [] \<Longrightarrow> st = [] \<and> sv = []"
  shows "startup_ok (s\<lparr>starting := st, serving := sv\<rparr>)"
  using assms unfolding startup_ok_def by auto

lemma startup_ok_transition: "startup_transition s s' \<Longrightarrow> startup_ok s \<Longrightarrow> startup_ok s'"
proof (induction rule: startup_transition.induct)
  case (client_moves s c v socket_name pc x)
  show ?case by (rule startup_ok_step [OF client_moves(3, 1, 2)])
next
  case (child_serves c s)
  have "starting s = [c]" "serving s = []"
    using one_or_none [OF startup_okD(2) [OF child_serves(2)]] child_serves(1) by auto
  then show ?case by (intro startup_ok_children child_serves(2)) auto
next
  case (child_dies s c)
  have "startup_ok (s\<lparr>starting := remove1 c (starting s), serving := serving s\<rparr>)"
    using startup_okD(2) [OF child_dies] length_remove1 [of c "starting s"] set_remove1_subset [of c "starting s"]
    by (intro startup_ok_children child_dies) (auto split: if_splits)
  then show ?case by simp
next
  case (daemon_ends s c)
  have "startup_ok (s\<lparr>starting := starting s, serving := remove1 c (serving s)\<rparr>)"
    using startup_okD(2) [OF daemon_ends] length_remove1 [of c "serving s"]
    by (intro startup_ok_children daemon_ends) (auto split: if_splits)
  then show ?case by simp
next
  case (client_arrives s c)
  then have n: "\<not> holds_lock (pcs s c)" by auto
  show ?case
  proof (rule startup_ok_stay [OF client_arrives(2)])
    show "FirstCheck = Waiting None" if "c \<in> set (starting s)"
      using n startup_okD(3) [OF client_arrives(2) that] by simp
  qed (use n in auto)
qed

lemma startup_reachable_ok: "startup_reachable s \<Longrightarrow> startup_ok s"
proof (induction rule: startup_reachable.induct)
  case startup_first
  show ?case by (simp add: startup_ok_def startup_new_def)
next
  case (startup_next s s')
  then show ?case using startup_ok_transition by blast
qed

section \<open>A client ends\<close>

definition ended :: "startup_pc \<Rightarrow> bool" where
  "ended pc = (case pc of Ready \<Rightarrow> True | NotStarted _ \<Rightarrow> True | _ \<Rightarrow> False)"

fun startup_rank :: "startup_pc \<Rightarrow> nat" where
  "startup_rank FirstCheck = 6"
| "startup_rank Prepare = 5"
| "startup_rank LoopCheck = 4"
| "startup_rank TryLock = 3"
| "startup_rank Recheck = 2"
| "startup_rank Contended = 2"
| "startup_rank Spawning = 1"
| "startup_rank LastCheck = 1"
| "startup_rank (Waiting _) = 0"
| "startup_rank Ready = 0"
| "startup_rank (NotStarted _) = 0"

text \<open>Once the deadline has passed, every step comes closer to the end.\<close>

lemma startup_late_step:
  assumes "sv_late v" "\<not> ended pc"
  shows "ended (fst (startup_step n v pc)) \<or> startup_rank (fst (startup_step n v pc)) < startup_rank pc"
  using assms by (cases pc) (auto simp: startup_step_def ended_def split: sum.splits bool.splits option.splits)

lemma ensure_daemon_ended: "ended pc \<Longrightarrow> ensure_daemon n views k pc \<noteq> None"
  by (subst ensure_daemon.simps) (auto simp: ended_def split: startup_pc.splits)

lemma ensure_daemon_step:
  "\<not> ended pc \<Longrightarrow> ensure_daemon n views k pc = ensure_daemon n views (k + 1) (fst (startup_step n (views k) pc))"
  by (subst ensure_daemon.simps) (auto simp: ended_def split: startup_pc.splits)

lemma ensure_daemon_late:
  "\<forall>j \<ge> k. sv_late (views j) \<Longrightarrow> ensure_daemon n views k pc \<noteq> None"
proof (induction "startup_rank pc" arbitrary: k pc rule: less_induct)
  case less
  show ?case
  proof (cases "ended pc")
    case False
    then have "ended (fst (startup_step n (views k) pc)) \<or> startup_rank (fst (startup_step n (views k) pc)) < startup_rank pc"
      using startup_late_step less.prems by blast
    then have "ensure_daemon n views (k + 1) (fst (startup_step n (views k) pc)) \<noteq> None"
      using less.hyps less.prems ensure_daemon_ended by (metis add_leD1)
    then show ?thesis using ensure_daemon_step [OF False] by simp
  qed (rule ensure_daemon_ended)
qed

lemma ensure_daemon_until_late:
  "\<forall>j \<ge> k + n'. sv_late (views j) \<Longrightarrow> ensure_daemon n views k pc \<noteq> None"
proof (induction n' arbitrary: k pc)
  case 0
  then show ?case using ensure_daemon_late by simp
next
  case (Suc n')
  show ?case
  proof (cases "ended pc")
    case False
    then show ?thesis using ensure_daemon_step [OF False] Suc by simp
  qed (rule ensure_daemon_ended)
qed

text \<open>A client that succeeds has seen the daemon ready.\<close>

lemma startup_step_Ready: "fst (startup_step n v pc) = Ready \<Longrightarrow> pc \<noteq> Ready \<Longrightarrow> sv_ready v"
  by (cases pc) (auto simp: startup_step_def split: if_splits sum.splits bool.splits option.splits)

lemma ensure_daemon_sound:
  assumes "ensure_daemon n views k pc = Some r"
  shows "r = Inr () \<longrightarrow> pc = Ready \<or> (\<exists>j \<ge> k. sv_ready (views j))"
proof (rule ensure_daemon.raw_induct [OF _ assms])
  fix ensure n views r pc and k :: nat
  assume IH: "\<And>n views (k :: nat) pc r. ensure n views k pc = Some r \<Longrightarrow> r = Inr () \<longrightarrow> pc = Ready \<or> (\<exists>j \<ge> k. sv_ready (views j))"
    and e: "(case pc of Ready \<Rightarrow> Some (Inr ()) | NotStarted e \<Rightarrow> Some (Inl e)
      | _ \<Rightarrow> ensure n views (k + 1) (fst (startup_step n (views k) pc))) = Some r"
  show "r = Inr () \<longrightarrow> pc = Ready \<or> (\<exists>j \<ge> k. sv_ready (views j))"
  proof (cases "ended pc")
    case True
    then show ?thesis using e by (auto simp: ended_def split: startup_pc.splits)
  next
    case False
    then have "ensure n views (k + 1) (fst (startup_step n (views k) pc)) = Some r"
      using e by (auto simp: ended_def split: startup_pc.splits)
    note next_step = IH [OF this]
    have pc: "pc \<noteq> Ready" using False by (auto simp: ended_def)
    show ?thesis
    proof
      assume "r = Inr ()"
      with next_step have "fst (startup_step n (views k) pc) = Ready \<or> (\<exists>j \<ge> k + 1. sv_ready (views j))" by (rule mp)
      then show "pc = Ready \<or> (\<exists>j \<ge> k. sv_ready (views j))"
      proof
        assume "fst (startup_step n (views k) pc) = Ready"
        then have "sv_ready (views k)" using pc by (rule startup_step_Ready)
        then show ?thesis by (intro disjI2 exI [of _ k] conjI order_refl)
      next
        assume "\<exists>j \<ge> k + 1. sv_ready (views j)"
        then obtain j where "k + 1 \<le> j" "sv_ready (views j)" by (elim exE conjE)
        then show ?thesis by (intro disjI2 exI [of _ j] conjI add_leD1 [of k 1 j])
      qed
    qed
  qed
qed

section \<open>Properties\<close>

text \<open>However many clients run at once, and whenever daemons come up, die or are stopped: at most
  one daemon process of the clients is starting or serving, the startup lock has at most one holder,
  and a client whose child is still starting holds it.\<close>

theorem at_most_one_daemon:
  assumes "startup_reachable s"
  shows "length (starting s) + length (serving s) \<le> 1
    \<and> (\<forall>c d. holds_lock (pcs s c) \<longrightarrow> holds_lock (pcs s d) \<longrightarrow> c = d)
    \<and> (\<forall>c \<in> set (starting s). lock_of s = Some c)"
proof (intro conjI allI impI ballI)
  have ok: "startup_ok s" by (rule startup_reachable_ok [OF assms])
  show "length (starting s) + length (serving s) \<le> 1" by (rule startup_okD(2) [OF ok])
  show "c = d" if "holds_lock (pcs s c)" "holds_lock (pcs s d)" for c d
    using that startup_okD(1) [OF ok] by (metis option.inject)
  show "lock_of s = Some c" if "c \<in> set (starting s)" for c
    using startup_okD(1, 3) [OF ok] that by (metis holds_lock_simps(11))
qed

theorem at_most_one_daemon_witness:
  "\<exists>s. startup_reachable s \<and> starting s = [0] \<and> lock_of s = Some 0 \<and> length (starting s) + length (serving s) \<le> 1"
proof -
  let ?v = "\<lambda>free. \<lparr>sv_ready = False, sv_directory = Inr (), sv_lock = Inr free, sv_late = False, sv_spawn = Inr (), sv_exited = Inr None\<rparr>"
  let ?s = "\<lambda>lock st pc. \<lparr>lock_of = lock, starting = st, serving = [], pcs = (\<lambda>_. FirstCheck)(0 := pc)\<rparr>"
  have move: "startup_reachable (?s lock' st' pc')"
    if "startup_reachable (?s lock st pc)" "startup_step ''s'' (?v (lock = None)) pc = (pc', x)"
      "act_on 0 x (?s lock st pc) = ?s lock' st' pc" for lock st pc lock' st' pc' x
  proof -
    have "sees (?s lock st pc) 0 (?v (lock = None))" by (simp add: sees_def)
    from client_moves [OF this, of "''s''" pc' x] that(2)
    have "startup_transition (?s lock st pc) ((act_on 0 x (?s lock st pc))\<lparr>pcs := (pcs (?s lock st pc))(0 := pc')\<rparr>)" by simp
    then show ?thesis using startup_next [OF that(1)] that(3) by simp
  qed
  have "startup_reachable (?s None [] FirstCheck)" using startup_first by (simp add: startup_new_def fun_upd_idem)
  then have "startup_reachable (?s None [] Prepare)" by (rule move [where x = NoAction]) (simp_all add: startup_step_def act_on_def)
  then have "startup_reachable (?s None [] LoopCheck)" by (rule move [where x = NoAction]) (simp_all add: startup_step_def act_on_def)
  then have "startup_reachable (?s None [] TryLock)" by (rule move [where x = NoAction]) (simp_all add: startup_step_def act_on_def)
  then have "startup_reachable (?s (Some 0) [] Recheck)" by (rule move [where x = TakeLock]) (simp_all add: startup_step_def act_on_def)
  then have "startup_reachable (?s (Some 0) [] Spawning)" by (rule move [where x = NoAction]) (simp_all add: startup_step_def act_on_def)
  then have r: "startup_reachable (?s (Some 0) [0] (Waiting None))" by (rule move [where x = SpawnChild]) (simp_all add: startup_step_def act_on_def)
  from at_most_one_daemon [OF r] r show ?thesis by (intro exI [of _ "?s (Some 0) [0] (Waiting None)"]) simp
qed

text \<open>\<^bold>\<open>C19\<close> A client never waits for a daemon forever: once its deadline has passed it ends, and it
  reports success only if it has seen the daemon ready.\<close>

theorem startup_ends:
  assumes "\<forall>j \<ge> due_at. sv_late (views j)"
  shows "\<exists>r. ensure_daemon n views 0 FirstCheck = Some r \<and> (r = Inr () \<longrightarrow> (\<exists>j. sv_ready (views j)))"
proof -
  obtain r where r: "ensure_daemon n views 0 FirstCheck = Some r"
    using ensure_daemon_until_late [of 0 due_at views n FirstCheck] assms by auto
  then show ?thesis using ensure_daemon_sound [OF r] by auto
qed

theorem startup_ends_witness:
  "\<exists>r. ensure_daemon ''s'' (\<lambda>k. \<lparr>sv_ready = False, sv_directory = Inr (), sv_lock = Inr False, sv_late = 9 \<le> k,
      sv_spawn = Inr (), sv_exited = Inr None\<rparr>) 0 FirstCheck = Some (Inl r)"
proof -
  let ?views = "\<lambda>k. \<lparr>sv_ready = False, sv_directory = Inr (), sv_lock = Inr False, sv_late = 9 \<le> k,
      sv_spawn = Inr (), sv_exited = Inr None\<rparr>"
  obtain r where r: "ensure_daemon ''s'' ?views 0 FirstCheck = Some r" "r \<noteq> Inr ()"
    using startup_ends [of 9 ?views "''s''"] by auto
  from r(2) obtain e where "r = Inl e" by (cases r) simp_all
  with r(1) show ?thesis by blast
qed

end
