(* ===== verification/Cli_Facts.thy ===== *)
theory Cli_Facts
  imports Cli_Startup Daemon_Samples
begin

text \<open>
  The client and the daemon together: the arguments typed are the request the daemon runs, and the
  exit code of the process tells the result of that request.
\<close>

section \<open>The request of the arguments\<close>

lemma json_get_object [simp]: "json_get (json_object es) k = map_of (rev es) k"
  by (simp add: json_get_def json_object_def bt_get_collect)

lemma with_overlay_get:
  assumes "with_overlay w ov (json_object es) = Inr p"
  shows "k \<noteq> ''overlay'' \<Longrightarrow> json_get p k = map_of (rev es) k"
    and "ov = None \<Longrightarrow> json_get p ''overlay'' = map_of (rev es) ''overlay''"
    and "ov = Some r \<Longrightarrow> \<exists>j. cw_overlay_json w r = Inr j \<and> json_get p ''overlay'' = Some j"
proof -
  have m: "bt_wf (bt_collect es)" "bt_get (bt_collect es) = map_of (rev es)" by (rule bt_wf_collect, rule bt_get_collect)
  obtain j where p: "p = (case ov of None \<Rightarrow> json_object es | Some _ \<Rightarrow> JObject (bt_insert ''overlay'' j (bt_collect es)))"
    and j: "\<And>r. ov = Some r \<Longrightarrow> cw_overlay_json w r = Inr j"
    using assms by (cases ov) (auto simp: with_overlay_def json_object_def rbind_def split: sum.splits)
  show "k \<noteq> ''overlay'' \<Longrightarrow> json_get p k = map_of (rev es) k" "ov = None \<Longrightarrow> json_get p ''overlay'' = map_of (rev es) ''overlay''"
    "ov = Some r \<Longrightarrow> \<exists>j. cw_overlay_json w r = Inr j \<and> json_get p ''overlay'' = Some j"
    using j by (simp_all add: p json_get_def bt_get_insert m json_object_def split: option.split)
qed

lemma selected_strings: "list_all (\<lambda>t. as_str t \<noteq> None) (map JString ts)" "List.map_filter as_str (map JString ts) = ts"
  by (induction ts) (simp_all add: as_str_def List.map_filter_simps)

lemma selected_strings_simp: "list_all (\<lambda>t. \<exists>y. as_str t = Some y) (map JString ts)"
  using selected_strings(1) by simp

text \<open>The payload of a verification, field by field.\<close>

lemma verify_payload_fields:
  assumes "command_payload (VerifyCommand v) = Some (cmd, p0)" "with_overlay w ov p0 = Inr p"
  shows "cmd = ''verify''" "optional_bool p ''full'' = Some (va_full v)" "optional_bool p ''supersede'' = Some (va_supersede v)"
    and "since_of p = (case va_since v of None \<Rightarrow> Some None | Some s \<Rightarrow> if bounded_text s then Some (Some s) else None)"
    and "selected_of p = Some (va_selected_tests v)"
    and "ov = None \<Longrightarrow> json_get p ''overlay'' = None"
    and "ov = Some r \<Longrightarrow> \<exists>j. cw_overlay_json w r = Inr j \<and> json_get p ''overlay'' = Some j"
proof -
  have p0: "cmd = ''verify''" "p0 = json_object [(''full'', JBool (va_full v)), (''since'', json_option (va_since v)),
        (''selectedTests'', JArray (map JString (va_selected_tests v))), (''supersede'', JBool (va_supersede v))]"
    using assms(1) by (simp_all add: command_payload_def)
  note get = with_overlay_get [OF assms(2) [unfolded p0(2)]]
  show "cmd = ''verify''" by (rule p0(1))
  show "optional_bool p ''full'' = Some (va_full v)" "optional_bool p ''supersede'' = Some (va_supersede v)"
    "selected_of p = Some (va_selected_tests v)"
    "since_of p = (case va_since v of None \<Rightarrow> Some None | Some s \<Rightarrow> if bounded_text s then Some (Some s) else None)"
    by (simp_all add: optional_bool_def selected_of_def since_of_def get(1) selected_strings(2) selected_strings_simp json_option_def split: option.split)
  show "ov = None \<Longrightarrow> json_get p ''overlay'' = None" using get(2) by simp
  show "ov = Some r \<Longrightarrow> \<exists>j. cw_overlay_json w r = Inr j \<and> json_get p ''overlay'' = Some j" by (rule get(3))
qed

text \<open>The request the arguments stand for: every selected test once, in the order typed first.\<close>

definition typed_request :: "verify_args \<Rightarrow> overlay_request option \<Rightarrow> verification_request" where
  "typed_request v ov = \<lparr>mode = Fast, selected_tests = rev (remdups (rev (va_selected_tests v))), full = va_full v,
     since = va_since v, capture_file_io = False, overlay = ov\<rparr>"

lemma remdups_last: "remdups (xs @ [t]) = remdups (filter (\<lambda>x. x \<noteq> t) xs) @ [t]"
  by (induction xs) auto

lemma retain_unique_remdups: "retain_unique seen ts = rev (remdups (rev (filter (\<lambda>t. t \<notin> set seen) ts)))"
  by (induction ts arbitrary: seen) (auto simp: remdups_last rev_filter intro!: arg_cong [of _ _ remdups] filter_cong)

lemma retain_unique_eq: "retain_unique [] ts = rev (remdups (rev ts))"
  by (simp add: retain_unique_remdups)

lemma valid_selection_typed:
  "valid_selection (retain_unique [] ts) \<longleftrightarrow> card (set ts) \<le> 256 \<and> (\<forall>t \<in> set ts. t \<noteq> [] \<and> CHR '','' \<notin> set t \<and> bounded_text t)"
  by (simp add: valid_selection_def retain_unique_eq list_all_iff length_remdups_card_conv)

text \<open>The overlay crosses the connection unchanged.\<close>

definition overlay_crosses :: "cli_world \<Rightarrow> (json \<Rightarrow> string + overlay_request) \<Rightarrow> bool" where
  "overlay_crosses w decode = (\<forall>r j. cw_overlay_json w r = Inr j \<longrightarrow> j \<noteq> JNull \<and> decode j = Inr r)"

lemma overlay_arrives:
  assumes "command_payload (VerifyCommand v) = Some (cmd, p0)" "with_overlay w ov p0 = Inr p" "overlay_crosses w decode"
  shows "(case json_get p ''overlay'' of None \<Rightarrow> Inr None | Some JNull \<Rightarrow> Inr None | Some x \<Rightarrow> map_sum id Some (decode x)) = Inr ov"
proof (cases ov)
  case None
  then show ?thesis using verify_payload_fields(6) [OF assms(1, 2)] by simp
next
  case (Some r)
  then obtain j where "cw_overlay_json w r = Inr j" "json_get p ''overlay'' = Some j"
    using verify_payload_fields(7) [OF assms(1, 2)] by blast
  moreover from this(1) have "j \<noteq> JNull" "decode j = Inr r" using assms(3) unfolding overlay_crosses_def by blast+
  ultimately show ?thesis using Some by (cases j) simp_all
qed

lemma verify_request_iff:
  assumes "command_payload (VerifyCommand v) = Some (cmd, p0)" "with_overlay w ov p0 = Inr p" "overlay_crosses w decode"
  shows "verification_request_of decode show_error p = Inr (q, newer) \<longleftrightarrow>
    \<not> (va_full v \<and> va_since v \<noteq> None) \<and> (\<forall>s. va_since v = Some s \<longrightarrow> bounded_text s)
    \<and> valid_selection (retain_unique [] (va_selected_tests v)) \<and> (\<forall>r. ov = Some r \<longrightarrow> validate r = Inr ())
    \<and> q = typed_request v ov \<and> newer = va_supersede v" (is "_ \<longleftrightarrow> ?rhs")
proof -
  note fields = verify_payload_fields(2-5) [OF assms(1, 2)]
  have "verification_request_of decode show_error p = Inr (q, newer) \<longleftrightarrow>
      (\<exists>sn. since_of p = Some sn \<and> \<not> (va_full v \<and> sn \<noteq> None) \<and> valid_selection (retain_unique [] (va_selected_tests v))
       \<and> (case ov of None \<Rightarrow> Inr () | Some r \<Rightarrow> validate r) = Inr ()
       \<and> q = (typed_request v ov)\<lparr>since := sn\<rparr> \<and> newer = va_supersede v)"
    unfolding verification_request_of_def fields overlay_arrives [OF assms]
    by (auto simp: typed_request_def retain_unique_eq Let_def split: option.splits sum.splits)
  also have "\<dots> \<longleftrightarrow> ?rhs"
    by (cases "va_since v"; cases ov) (auto simp: fields(3) typed_request_def)
  finally show ?thesis .
qed

section \<open>From the exit code back to the verification\<close>

lemma handle_zero:
  assumes "exit_code (snd (handle w d req)) = 0"
  obtains d' e where "dispatch w d req = (d', Inr (0, e))"
  using assms that by (auto simp: handle_def Let_def split: prod.splits sum.splits)

lemma reply_response_zero:
  assumes "reply_response w d reply = Inr (0, e)"
  obtains result requeued where "reply = Verified result requeued" "vo_exit_code result = 0"
  using assms that by (auto simp: reply_response_def superseded_verification_def Let_def split: verify_reply.splits option.splits)

lemma verify_response_zero:
  assumes "verify_response w d v = (d', Inr (0, e))"
  obtains q newer result requeued where "verification_request_of (w_overlay w) (w_overlay_text w) v = Inr (q, newer)"
    "verify_alone (fst (w_first w)) (snd (w_first w)) (fst (w_second w)) (snd (w_second w)) q newer d = (d', Verified result requeued)"
    "vo_status result = Passed"
proof -
  obtain q newer reply where q: "verification_request_of (w_overlay w) (w_overlay_text w) v = Inr (q, newer)"
    and v: "verify_alone (fst (w_first w)) (snd (w_first w)) (fst (w_second w)) (snd (w_second w)) q newer d = (d', reply)"
    and r: "reply_response w d' reply = Inr (0, e)"
    using assms by (auto simp: verify_response_def verification_usage_def split: sum.splits prod.splits)
  obtain result requeued where "reply = Verified result requeued" "vo_exit_code result = 0"
    using r by (rule reply_response_zero)
  moreover from this v have "vo_exit_code result = exit_code_of (vo_status result)" using verify_alone_exit_code by blast
  ultimately show thesis using that q v by (cases "vo_status result") (auto simp: exit_code_of_def)
qed

lemma dispatch_verify_zero:
  assumes "dispatch w d req = (d', Inr (0, e))" "command req = ''verify''"
  obtains payload :: request_payload and e0 where "w_payload w (payload_json req) = Some payload"
    "verify_response w d (command_value payload) = (d', Inr (0, e0))"
proof (cases rule: dispatch_cases [of w d req])
  case (handled payload d1 r)
  then obtain e0 where "command_response w d (command req) (command_value payload) (bounded (query payload)) = (d', Inr (0, e0))"
    using assms(1) present_zero by (cases r) (auto, metis present_zero)
  then show thesis using that handled(1) assms(2) by (simp add: command_response_def)
next
  case (revision payload r)
  then show thesis using assms by (auto simp: revision_check_def split: option.splits sum.splits if_splits)
qed (use assms in auto)

lemma exchange_code:
  assumes "exchange w c r k cmd p watching = Some (shown, Inr ec)"
  obtains resp where "cw_answer w k (cli_request (cw_encode w) (cw_request_id w k) c r cmd p) = Inr resp" "exit_code resp = ec"
  using assms that by (auto simp: exchange_def split: sum.splits option.splits)

text \<open>What a process that ends with zero after a single command has done.\<close>

lemma cli_main_verify:
  assumes "cli_main w c = Some (out, err, 0)" "cli_command c = VerifyCommand v"
  obtains layout :: workspace_layout and ov p0 p shown where "overlay_argument w (VerifyCommand v) = Inr ov"
    "command_payload (VerifyCommand v) = Some (''verify'', p0)" "with_overlay w ov p0 = Inr p"
    "exchange w c (root layout) 0 ''verify'' p False = Some (shown, Inr 0)"
proof -
  obtain x where x: "run_client w c = Some x" "out_result x = Inr 0"
  proof -
    obtain z where z: "run_client w c = Some z"
      using assms by (cases "run_client w c") (simp_all add: cli_main_def)
    moreover from this assms have "out_result z = Inr 0" by (cases "out_result z") (simp_all add: cli_main_def)
    ultimately show thesis using that by blast
  qed
  obtain layout ov where l: "overlay_argument w (VerifyCommand v) = Inr ov" "single_command w c layout ov = Some x"
    using x assms(2) by (auto simp: run_client_def quiet_def usage_def split: sum.splits option.splits)
  obtain p0 where p0: "command_payload (VerifyCommand v) = Some (''verify'', p0)" by (simp add: command_payload_def)
  obtain p where p: "with_overlay w ov p0 = Inr p"
    using l(2) x(2) p0 by (cases "with_overlay w ov p0") (auto simp: single_command_def assms(2) quiet_def)
  obtain shown r where e: "exchange w c (root layout) 0 ''verify'' p False = Some (shown, r)"
    using l(2) p0 p by (cases "exchange w c (root layout) 0 ''verify'' p False") (auto simp: single_command_def assms(2))
  have "r = Inr 0" using l(2) x(2) p0 p e by (cases r) (auto simp: single_command_def assms(2))
  with e have "exchange w c (root layout) 0 ''verify'' p False = Some (shown, Inr 0)" by simp
  with l(1) p0 p show thesis by (rule that)
qed

text \<open>The connection answers with the daemon's handler, and the daemon decodes the command's value the
  client has encoded.\<close>

definition connected :: "cli_world \<Rightarrow> cli \<Rightarrow> world \<Rightarrow> daemon \<Rightarrow> bool" where
  "connected w c dw d = ((\<forall>k req. cw_answer w k req = Inr (snd (handle dw d req)))
     \<and> (\<forall>cmd p0 ov p. command_payload (cli_command c) = Some (cmd, p0) \<longrightarrow> overlay_argument w (cli_command c) = Inr ov
          \<longrightarrow> with_overlay w ov p0 = Inr p
          \<longrightarrow> (\<exists>q. w_payload dw (cw_encode w (cli_payload c p)) = Some \<lparr>query = q, command_value = p\<rparr>)))"

lemma connected_verify:
  assumes "connected w c dw d" "exchange w c r k ''verify'' p watching = Some (shown, Inr 0)"
    and "command_payload (cli_command c) = Some (cmd, p0)" "overlay_argument w (cli_command c) = Inr ov" "with_overlay w ov p0 = Inr p"
  obtains d' e where "verify_response dw d p = (d', Inr (0, e))"
proof -
  let ?req = "cli_request (cw_encode w) (cw_request_id w k) c r ''verify'' p"
  from assms(1, 2) have "exit_code (snd (handle dw d ?req)) = 0" by (auto simp: connected_def elim: exchange_code)
  then obtain d' e where "dispatch dw d ?req = (d', Inr (0, e))" by (rule handle_zero)
  then obtain payload :: request_payload and e0 where "w_payload dw (payload_json ?req) = Some payload"
    "verify_response dw d (command_value payload) = (d', Inr (0, e0))"
    by (rule dispatch_verify_zero) (simp add: cli_request_def)
  moreover obtain q where "w_payload dw (payload_json ?req) = Some \<lparr>query = q, command_value = p\<rparr>"
    using assms(1, 3-5) by (auto simp: connected_def cli_request_def)
  ultimately show thesis using that by auto
qed

section \<open>Properties\<close>

text \<open>\<^bold>\<open>C17\<close> The daemon runs exactly the verification that was typed, every selected test once in
  the order typed first, and it accepts the typed arguments exactly when they are meaningful: full and
  since are not combined; the reference has at most 1024 bytes and no control character; at most 256
  different tests are selected, none of them empty, longer than 1024 bytes or with a comma or a control
  character in it; and the overlay, if any, meets the overlay policy.\<close>

theorem typed_verification_arrives:
  assumes "command_payload (VerifyCommand v) = Some (cmd, p0)" "with_overlay w ov p0 = Inr p" "overlay_crosses w decode"
  shows "verification_request_of decode show_error p = Inr (q, newer) \<longleftrightarrow>
    \<not> (va_full v \<and> va_since v \<noteq> None)
    \<and> (\<forall>s. va_since v = Some s \<longrightarrow> length s \<le> 1024 \<and> (\<forall>g \<in> set (utf8_chars s). \<not> is_control g))
    \<and> card (set (va_selected_tests v)) \<le> 256
    \<and> (\<forall>t \<in> set (va_selected_tests v). t \<noteq> [] \<and> length t \<le> 1024 \<and> CHR '','' \<notin> set t
         \<and> (\<forall>g \<in> set (utf8_chars t). \<not> is_control g))
    \<and> (\<forall>r. ov = Some r \<longrightarrow> overlay_policy r)
    \<and> q = \<lparr>mode = Fast, selected_tests = rev (remdups (rev (va_selected_tests v))), full = va_full v,
         since = va_since v, capture_file_io = False, overlay = ov\<rparr>
    \<and> newer = va_supersede v"
  unfolding verify_request_iff [OF assms] valid_selection_typed validate_policy bounded_text_def typed_request_def
  by (simp add: list_ex_iff conj_ac)

text \<open>\<^bold>\<open>C16\<close> The process ends with exit code zero for a verify command only if the daemon ran the
  verification that was typed, the one of the arguments and of the overlay manifest they name, to
  its end and it passed.\<close>

theorem exit_zero_means_passed:
  assumes "cli_main w c = Some (out, err, 0)" "cli_command c = VerifyCommand v"
    and "connected w c dw d" "overlay_crosses w (w_overlay dw)"
  shows "\<exists>ov d' result requeued. overlay_argument w (VerifyCommand v) = Inr ov
    \<and> verify_alone (fst (w_first dw)) (snd (w_first dw)) (fst (w_second dw)) (snd (w_second dw))
        (typed_request v ov) (va_supersede v) d = (d', Verified result requeued)
    \<and> vo_status result = Passed"
proof -
  obtain layout :: workspace_layout and ov p0 p shown where ov: "overlay_argument w (VerifyCommand v) = Inr ov"
    and p: "command_payload (VerifyCommand v) = Some (''verify'', p0)" "with_overlay w ov p0 = Inr p"
    and x: "exchange w c (root layout) 0 ''verify'' p False = Some (shown, Inr 0)"
    using assms(1, 2) by (rule cli_main_verify)
  obtain d' e where "verify_response dw d p = (d', Inr (0, e))" using connected_verify [OF assms(3) x, unfolded assms(2), OF p(1) ov p(2)] by blast
  then obtain q newer result requeued where q: "verification_request_of (w_overlay dw) (w_overlay_text dw) p = Inr (q, newer)"
    and v: "verify_alone (fst (w_first dw)) (snd (w_first dw)) (fst (w_second dw)) (snd (w_second dw)) q newer d = (d', Verified result requeued)"
    "vo_status result = Passed"
    by (rule verify_response_zero)
  from q have "q = typed_request v ov" "newer = va_supersede v" using verify_request_iff [OF p assms(4)] by simp_all
  with ov v show ?thesis by blast
qed

section \<open>A client and its daemon\<close>

text \<open>A client connected to the sample daemon: it verifies one test, typed twice.\<close>

definition overlay_to_json :: "overlay_request \<Rightarrow> json" where
  "overlay_to_json r = JArray [JString (overlay_session_id r), JArray (map (\<lambda>d. JArray [JString (doc_path d),
     JInt (doc_version d), JString (doc_content d)]) (documents r))]"

definition document_from_json :: "json \<Rightarrow> overlay_document" where
  "document_from_json v = (case v of JArray [JString p, JInt n, JString x] \<Rightarrow> \<lparr>doc_path = p, doc_version = n, doc_content = x\<rparr>
     | _ \<Rightarrow> \<lparr>doc_path = [], doc_version = 0, doc_content = []\<rparr>)"

definition overlay_from_json :: "json \<Rightarrow> string + overlay_request" where
  "overlay_from_json v = (case v of JArray [JString s, JArray ds] \<Rightarrow>
       Inr \<lparr>overlay_session_id = s, documents = map document_from_json ds\<rparr> | _ \<Rightarrow> Inl ''invalid overlay'')"

lemma overlay_json_roundtrip: "overlay_from_json (overlay_to_json r) = Inr r"
proof -
  have "document_from_json (JArray [JString (doc_path d), JInt (doc_version d), JString (doc_content d)]) = d" for d
    by (simp add: document_from_json_def)
  then show ?thesis by (simp add: overlay_from_json_def overlay_to_json_def comp_def)
qed

definition sample_verify :: verify_args where
  "sample_verify = \<lparr>va_full = False, va_since = None, va_selected_tests = [''A#b'', ''A#b''], va_overlay_manifest = None,
     va_supersede = True\<rparr>"

definition sample_cli :: cli where
  "sample_cli = \<lparr>cli_workspace = ''/w'', cli_format = JsonFormat, cli_fields = [], cli_limit = 100, cli_cursor = None,
     cli_max_bytes = 65536, cli_at = None, cli_command = VerifyCommand sample_verify\<rparr>"

definition sample_verify_payload :: json where
  "sample_verify_payload = snd (the (command_payload (VerifyCommand sample_verify)))"

definition sample_verify_world :: world where
  "sample_verify_world = (sample_world replay_env)
     \<lparr>w_payload := \<lambda>_. Some \<lparr>query = default_query, command_value = sample_verify_payload\<rparr>,
      w_overlay := overlay_from_json\<rparr>"

definition sample_client :: "daemon \<Rightarrow> cli_world" where
  "sample_client d = \<lparr>cw_layout = Inr (layout_new \<lparr>sha256 = rev, hex = id\<rparr> ''/w''), cw_interactive = False,
     cw_file = (\<lambda>_. Inl []), cw_manifest = (\<lambda>_. Inl []), cw_overlay_error = (\<lambda>_. []),
     cw_overlay_json = (\<lambda>r. Inr (overlay_to_json r)),
     cw_views = (\<lambda>_. \<lparr>sv_ready = True, sv_directory = Inr (), sv_lock = Inr True, sv_late = False, sv_spawn = Inr (), sv_exited = Inr None\<rparr>),
     cw_encode = (\<lambda>_. []), cw_decode = (\<lambda>_. Inr (make_envelope sample_verify_world d Ok None JNull [])), cw_request_id = (\<lambda>_. ''1''),
     cw_answer = (\<lambda>_ req. Inr (snd (handle sample_verify_world d req))), cw_terminal = False,
     cw_human = \<lparr>he_version = [], he_json = (\<lambda>_. []), he_pretty = (\<lambda>_. []), he_upper = id\<rparr>, cw_json = (\<lambda>_. Inr ''{}''), cw_polls = (\<lambda>_. (False, False, False)), cw_draw = (\<lambda>_. []),
     cw_terminal_ok = True, cw_events = (\<lambda>_. ThreadFinished), cw_now = 0, cw_serve = Inr ()\<rparr>"

lemma sample_payload_typed: "command_payload (VerifyCommand sample_verify) = Some (''verify'', sample_verify_payload)"
  by (simp add: sample_verify_payload_def command_payload_def)

lemma sample_crosses: "overlay_crosses (sample_client d) (w_overlay sample_verify_world)"
  by (simp add: overlay_crosses_def sample_client_def sample_verify_world_def overlay_json_roundtrip)
     (simp add: overlay_to_json_def)

lemma sample_without_overlay: "overlay_argument (sample_client d) (VerifyCommand sample_verify) = Inr None"
  "with_overlay (sample_client d) None sample_verify_payload = Inr sample_verify_payload"
  by (simp_all add: overlay_argument_def sample_verify_def with_overlay_def)

lemma sample_connected: "connected (sample_client d) sample_cli sample_verify_world d"
  by (simp add: connected_def sample_cli_def sample_without_overlay sample_payload_typed)
     (simp add: sample_client_def sample_verify_world_def)

lemma sample_typed: "typed_request sample_verify None = fast_request\<lparr>selected_tests := [''A#b'']\<rparr>"
  by (simp add: typed_request_def sample_verify_def fast_request_def)

lemma sample_selected: "\<forall>t \<in> set (va_selected_tests sample_verify). t \<noteq> [] \<and> length t \<le> 1024 \<and> CHR '','' \<notin> set t
    \<and> (\<forall>g \<in> set (utf8_chars t). \<not> is_control g)" "card (set (va_selected_tests sample_verify)) \<le> 256"
proof -
  have "list_all (\<lambda>g. \<not> is_control g) (utf8_chars ''A#b'')" by code_simp
  then show "\<forall>t \<in> set (va_selected_tests sample_verify). t \<noteq> [] \<and> length t \<le> 1024 \<and> CHR '','' \<notin> set t
    \<and> (\<forall>g \<in> set (utf8_chars t). \<not> is_control g)" "card (set (va_selected_tests sample_verify)) \<le> 256"
    by (simp_all add: sample_verify_def list_all_iff)
qed

lemma sample_selection: "valid_selection (retain_unique [] (va_selected_tests sample_verify))"
proof -
  have "bounded_text ''A#b''" by code_simp
  then show ?thesis by (simp add: valid_selection_def sample_verify_def)
qed

theorem typed_verification_arrives_witness:
  "verification_request_of overlay_from_json (\<lambda>_. []) sample_verify_payload
     = Inr (fast_request\<lparr>selected_tests := [''A#b'']\<rparr>, True)"
proof -
  have "w_overlay (sample_verify_world) = overlay_from_json" by (simp add: sample_verify_world_def)
  then show ?thesis
    using typed_verification_arrives [OF sample_payload_typed sample_without_overlay(2) sample_crosses,
        of "\<lambda>_. []" "typed_request sample_verify None" True] sample_selected
    by (simp add: sample_typed [unfolded typed_request_def] typed_request_def) (simp add: sample_verify_def)
qed

text \<open>The verification runs and passes.\<close>

lemma sample_run:
  "\<exists>d' result. verify_alone sample_host replay_env sample_host replay_env (typed_request sample_verify None) True
      (sample_daemon (replay_store [] [] [])) = (d', Verified result False) \<and> vo_status result = Passed
      \<and> utf8_valid (vo_log_file result)"
proof -
  obtain a where a: "discover sample_host = Inr a" by (simp add: discover_def sample_host_def artifact_path_def Let_def)
  have "write_tapes (verifier_env a replay_env) None = Inr False" by (simp add: write_tapes_def)
  then obtain result where "verify (replay_env\<lparr>ve_artifacts := a\<rparr>) (typed_request sample_verify None) (replay_store [] [] [])
       = (replay_store [replay_run Passed (Some [])] [replay_row] [replay_test], Inr result)" "vo_status result = Passed"
    "utf8_valid (vo_log_file result)"
    using sample_execution [of "typed_request sample_verify None" a None] by (auto simp: verify_def sample_typed fast_request_def verifier_env_def)
  then show ?thesis
    by (simp add: verify_alone_def announce_def start_verification_def run_once_def a stale_outcome_def conclude_verification_def
        sample_daemon_def daemon_new_def cancel_active_verification_def)
qed

lemma sample_response:
  "\<exists>d' e. verify_response sample_verify_world (sample_daemon (replay_store [] [] [])) sample_verify_payload = (d', Inr (0, e))"
proof -
  let ?d = "sample_daemon (replay_store [] [] [])"
  obtain d' result where v: "verify_alone sample_host replay_env sample_host replay_env (typed_request sample_verify None) True ?d
      = (d', Verified result False)" "vo_status result = Passed" "utf8_valid (vo_log_file result)" using sample_run by blast
  have "verification_request_of (w_overlay sample_verify_world) (w_overlay_text sample_verify_world) sample_verify_payload
      = Inr (typed_request sample_verify None, True)"
    using sample_selection
    by (subst verify_request_iff [OF sample_payload_typed sample_without_overlay(2) sample_crosses [of ?d]]) (simp add: sample_verify_def)
  moreover have "vo_exit_code result = 0" using verify_alone_exit_code [OF v(1)] v(2) by (simp add: exit_code_of_def)
  ultimately show ?thesis
    using v by (simp add: verify_response_def reply_response_def outcome_json_def Let_def)
      (simp add: sample_verify_world_def sample_world_def outcome_json_def Let_def)
qed

lemma sample_handled:
  assumes "command req = ''verify''" "req_schema_version req = 1" "workspace_root req = ''/w''"
  shows "exit_code (snd (handle sample_verify_world (sample_daemon (replay_store [] [] [])) req)) = 0"
proof -
  let ?w = sample_verify_world and ?d = "sample_daemon (replay_store [] [] [])"
  obtain d' e where v: "verify_response ?w ?d sample_verify_payload = (d', Inr (0, e))" using sample_response by blast
  have "present ?w (bounded default_query) (0, e) = (0, e)"
    by (simp add: present_def enforce_response_limit_def sample_verify_world_def sample_world_def apply_field_mask_def
        bounded_def default_query_def)
  moreover have "w_canonicalize ?w = Some" "w_payload ?w (payload_json req) = Some \<lparr>query = default_query, command_value = sample_verify_payload\<rparr>"
    by (simp_all add: sample_verify_world_def sample_world_def)
  moreover have "revision_check ?w ?d c (bounded default_query) = Inr None" for c
    by (simp add: revision_check_def bounded_def default_query_def)
  ultimately show ?thesis
    using v assms by (simp add: handle_def dispatch_def command_response_def)
qed

lemma sample_main: "\<exists>out. cli_main (sample_client (sample_daemon (replay_store [] [] []))) sample_cli = Some (out, [], 0)"
proof -
  let ?d = "sample_daemon (replay_store [] [] [])"
  let ?w = "sample_client ?d"
  have c: "cli_command sample_cli = VerifyCommand sample_verify" by (simp add: sample_cli_def)
  have "root (layout_new \<lparr>sha256 = rev, hex = id\<rparr> ''/w'') = ''/w''" by (simp add: layout_new_def Let_def)
  then have "exchange ?w sample_cli (root (layout_new \<lparr>sha256 = rev, hex = id\<rparr> ''/w'')) 0 ''verify'' sample_verify_payload False
      = Some (writeln ''{}'', Inr 0)"
    using sample_handled [of "cli_request (cw_encode ?w) (cw_request_id ?w 0) sample_cli ''/w'' ''verify'' sample_verify_payload"]
    by (simp add: cli_request_def exchange_def)
      (simp add: sample_client_def sample_cli_def effective_format_def render_output_def)
  moreover have "ensure_daemon s (cw_views ?w) 0 FirstCheck = Some (Inr ())" for s
    by (simp add: ensure_daemon.simps [of s _ 0 FirstCheck] ensure_daemon.simps [of s _ _ Ready] startup_step_def sample_client_def)
  moreover have "cw_layout ?w = Inr (layout_new \<lparr>sha256 = rev, hex = id\<rparr> ''/w'')" by (simp add: sample_client_def)
  ultimately show ?thesis
    by (simp add: cli_main_def c run_client_def sample_without_overlay single_command_def sample_payload_typed)
qed

theorem exit_zero_means_passed_witness:
  "\<exists>d' result requeued. verify_alone sample_host replay_env sample_host replay_env (fast_request\<lparr>selected_tests := [''A#b'']\<rparr>) True
      (sample_daemon (replay_store [] [] [])) = (d', Verified result requeued) \<and> vo_status result = Passed"
proof -
  let ?d = "sample_daemon (replay_store [] [] [])"
  obtain out where out: "cli_main (sample_client ?d) sample_cli = Some (out, [], 0)" using sample_main by blast
  have c: "cli_command sample_cli = VerifyCommand sample_verify" by (simp add: sample_cli_def)
  have w: "w_first sample_verify_world = (sample_host, replay_env)" "w_second sample_verify_world = (sample_host, replay_env)"
    by (simp_all add: sample_verify_world_def sample_world_def)
  have s: "va_supersede sample_verify = True" by (simp add: sample_verify_def)
  from exit_zero_means_passed [OF out c sample_connected sample_crosses, unfolded w s sample_without_overlay]
  show ?thesis by (auto simp: sample_typed)
qed

end
