(* ===== verification/Cli_Endpoint.thy ===== *)
theory Cli_Endpoint
  imports Cli_Startup Daemon_Endpoint
begin

text \<open>
  Clients and daemon processes together: \<^verbatim>\<open>ensure_daemon\<close> and \<^verbatim>\<open>start_daemon\<close> of
  \<^verbatim>\<open>crates/walaru-cli/src/main.rs\<close> run against the steps of \<^verbatim>\<open>DaemonServer::serve\<close>.  The startup lock of the
  clients is what lets daemons start one after another, which \<open>Daemon_Endpoint\<close> takes for granted.
\<close>

section \<open>The system\<close>

text \<open>The holder of the startup lock, the files and processes of the worktree, the clients and the
  process each has spawned last.\<close>

record system =
  sys_lock :: "nat option"
  sys_host :: host_state
  clients :: "nat \<Rightarrow> startup_pc"
  child_of :: "nat \<Rightarrow> nat option"

abbreviation sys_daemons :: "system \<Rightarrow> nat \<Rightarrow> daemon_pc" where
  "sys_daemons s \<equiv> daemons (sys_host s)"

definition sys_ready :: "system \<Rightarrow> bool" where
  "sys_ready s = daemon_ready (sys_daemons s) (endpoint_files (sys_host s))"

definition gone :: "daemon_pc \<Rightarrow> bool" where
  "gone pc = (case pc of Exited _ \<Rightarrow> True | Killed \<Rightarrow> True | _ \<Rightarrow> False)"

text \<open>What a client sees: it takes no dead daemon for ready, and the look under the lock is exact; the
  lock is free when nobody holds it; an exit status is that of a child that is gone.\<close>

definition client_sees :: "system \<Rightarrow> nat \<Rightarrow> startup_view \<Rightarrow> bool" where
  "client_sees s c v = ((sv_ready v \<longrightarrow> sys_ready s) \<and> (clients s c = Recheck \<longrightarrow> sv_ready v = sys_ready s)
     \<and> (\<forall>free. sv_lock v = Inr free \<longrightarrow> free = (sys_lock s = None))
     \<and> (\<exists>x. sv_exited v = Inr x \<and> (x \<noteq> None \<longrightarrow> (\<exists>p. child_of s c = Some p \<and> gone (sys_daemons s p)))))"

definition set_daemon :: "nat \<Rightarrow> daemon_pc \<Rightarrow> host_state \<Rightarrow> host_state" where
  "set_daemon p pc h = h\<lparr>daemons := (daemons h)(p := pc)\<rparr>"

definition system_act :: "nat \<Rightarrow> nat \<Rightarrow> startup_action \<Rightarrow> system \<Rightarrow> system" where
  "system_act c p x s = (case x of
      NoAction \<Rightarrow> s
    | TakeLock \<Rightarrow> s\<lparr>sys_lock := Some c\<rparr>
    | FreeLock \<Rightarrow> s\<lparr>sys_lock := None\<rparr>
    | SpawnChild \<Rightarrow> s\<lparr>sys_host := set_daemon p EnsureState (sys_host s), child_of := (child_of s)(c := Some p)\<rparr>
    | KillChild \<Rightarrow> s\<lparr>sys_lock := None, sys_host := (case child_of s c of None \<Rightarrow> sys_host s | Some q \<Rightarrow> set_daemon q Killed (sys_host s))\<rparr>)"

inductive system_step :: "system \<Rightarrow> system \<Rightarrow> bool" where
  client_acts: "\<lbrakk>client_sees s c v; startup_step socket_name v (clients s c) = (pc, x); x = SpawnChild \<Longrightarrow> sys_daemons s p = Absent\<rbrakk> \<Longrightarrow>
    system_step s ((system_act c p x s)\<lparr>clients := (clients s)(c := pc)\<rparr>)"
| client_returns: "clients s c \<in> range NotStarted \<union> {Ready} \<Longrightarrow> system_step s (s\<lparr>clients := (clients s)(c := FirstCheck)\<rparr>)"
| process_acts: "serve_step path v (daemon_is_running (sys_daemons s) (endpoint_files (sys_host s))) p (endpoint_files (sys_host s))
      (sys_daemons s p) = (e, pc) \<Longrightarrow>
    system_step s (s\<lparr>sys_host := \<lparr>endpoint_files = e, daemons = (sys_daemons s)(p := pc)\<rparr>\<rparr>)"
| process_killed: "system_step s (s\<lparr>sys_host := set_daemon p Killed (sys_host s)\<rparr>)"

inductive system_reachable :: "system \<Rightarrow> bool" where
  system_first: "system_reachable \<lparr>sys_lock = None, sys_host = \<lparr>endpoint_files = e, daemons = (\<lambda>_. Absent)\<rparr>,
    clients = (\<lambda>_. FirstCheck), child_of = (\<lambda>_. None)\<rparr>"
| system_next: "system_reachable s \<Longrightarrow> system_step s s' \<Longrightarrow> system_reachable s'"

section \<open>The invariant\<close>

text \<open>A young process has not yet published its metadata; its parent still waits for it, so that no
  daemon is ready, and from its last look at the metadata on there is none.\<close>

definition young :: "daemon_pc \<Rightarrow> bool" where
  "young pc = (starting_up pc \<or> pc \<in> {SetPermissions, OpenDaemon, WriteMetadata})"

definition unpublished :: "daemon_pc \<Rightarrow> bool" where
  "unpublished pc = (pc \<in> {BindSocket, SetPermissions, OpenDaemon, WriteMetadata})"

definition locked_ok :: "nat option \<Rightarrow> (nat \<Rightarrow> startup_pc) \<Rightarrow> bool" where
  "locked_ok lock cs = (\<forall>c. holds_lock (cs c) \<longleftrightarrow> lock = Some c)"

definition young_ok :: "endpoint \<Rightarrow> (nat \<Rightarrow> daemon_pc) \<Rightarrow> (nat \<Rightarrow> startup_pc) \<Rightarrow> (nat \<Rightarrow> nat option) \<Rightarrow> bool" where
  "young_ok e ds cs ch = ((\<forall>p. young (ds p) \<longrightarrow> (\<exists>c. cs c = Waiting None \<and> ch c = Some p) \<and> \<not> daemon_ready ds e)
     \<and> (\<forall>c. cs c = Spawning \<longrightarrow> \<not> daemon_ready ds e)
     \<and> (\<forall>p. unpublished (ds p) \<longrightarrow> metadata_file e = None))"

definition system_ok :: "system \<Rightarrow> bool" where
  "system_ok s = (locked_ok (sys_lock s) (clients s)
     \<and> young_ok (endpoint_files (sys_host s)) (sys_daemons s) (clients s) (child_of s))"

lemma unpublished_young: "unpublished pc \<Longrightarrow> young pc"
  by (auto simp: unpublished_def young_def starting_up_def)

lemma locked_okD: "locked_ok lock cs \<Longrightarrow> holds_lock (cs c) = (lock = Some c)"
  unfolding locked_ok_def by (erule allE)

lemma locked_unique:
  assumes "locked_ok lock cs" "holds_lock (cs c)" "holds_lock (cs d)"
  shows "c = d"
proof -
  have "lock = Some c" "lock = Some d" using assms(2, 3) unfolding locked_okD [OF assms(1)] .
  then show ?thesis by simp
qed

lemma young_okD:
  assumes "young_ok e ds cs ch"
  shows "young (ds p) \<Longrightarrow> \<exists>c. cs c = Waiting None \<and> ch c = Some p" "young (ds p) \<Longrightarrow> \<not> daemon_ready ds e"
    "cs c = Spawning \<Longrightarrow> \<not> daemon_ready ds e" "unpublished (ds p) \<Longrightarrow> metadata_file e = None"
  using assms unfolding young_ok_def by iprover+

lemma young_unique:
  assumes "locked_ok lock cs" "young_ok e ds cs ch" "young (ds p)" "young (ds q)"
  shows "p = q"
proof -
  obtain c where c: "cs c = Waiting None" "ch c = Some p" using young_okD(1) [OF assms(2, 3)] by (elim exE conjE)
  obtain d where d: "cs d = Waiting None" "ch d = Some q" using young_okD(1) [OF assms(2, 4)] by (elim exE conjE)
  have "c = d" by (rule locked_unique [OF assms(1)]) (simp_all add: c d)
  with c d show ?thesis by simp
qed

text \<open>No process is young while another client than a waiting one holds the lock.\<close>

lemma none_young:
  assumes "locked_ok lock cs" "young_ok e ds cs ch" "holds_lock (cs c)" "cs c \<noteq> Waiting None"
  shows "\<not> young (ds p)"
proof
  assume "young (ds p)"
  then obtain d where d: "cs d = Waiting None" using young_okD(1) [OF assms(2)] by blast
  have "d = c" by (rule locked_unique [OF assms(1)]) (simp_all add: d assms(3))
  with d show False using assms(4) by simp
qed

section \<open>Processes\<close>

lemma serve_step_metadata:
  assumes "serve_step path v connects me e pc = (e', pc')"
  shows "young pc' \<Longrightarrow> young pc" "metadata_file e' \<noteq> None \<Longrightarrow> metadata_file e \<noteq> None \<or> pc = WriteMetadata"
    "unpublished pc' \<Longrightarrow> metadata_file e' = None \<or> unpublished pc \<and> metadata_file e' = metadata_file e"
    "pc = WriteMetadata \<Longrightarrow> \<not> young pc'"
  using assms
  by (cases pc; auto simp: serve_steps young_def starting_up_def unpublished_def split: if_splits sum.splits option.splits)+

lemma process_keeps_unready:
  assumes m: "serve_step path v connects p e (ds p) = (e', pc)" and unready: "\<not> daemon_ready ds e"
    and "ds p \<noteq> WriteMetadata" "ds p = BindSocket \<Longrightarrow> metadata_file e = None"
  shows "\<not> daemon_ready (ds(p := pc)) e'"
proof
  assume ready: "daemon_ready (ds(p := pc)) e'"
  have meta: "metadata_file e \<noteq> None" using serve_step_metadata(2) [OF m] ready assms(3) by (auto simp: daemon_ready_def)
  from m show False
  proof (cases rule: serve_step_cases)
    case kept
    then have "daemon_ready ds e" using ready meta by (auto simp: daemon_ready_def daemon_is_running_def split: option.splits if_splits)
    with unready show False by simp
  next
    case bound
    then show False using assms(4) meta by simp
  qed (use ready in \<open>simp_all add: daemon_ready_def\<close>)
qed

lemma young_ok_process:
  assumes lock: "locked_ok lock cs" and ok: "young_ok e ds cs ch" and m: "serve_step path v connects p e (ds p) = (e', pc)"
  shows "young_ok e' (ds(p := pc)) cs ch"
proof -
  have bind: "metadata_file e = None" if "ds p = BindSocket"
    using young_okD(4) [OF ok, of p] that by (simp add: unpublished_def)
  have unready: "\<not> daemon_ready (ds(p := pc)) e'" if "\<not> daemon_ready ds e" "ds p \<noteq> WriteMetadata"
    using process_keeps_unready [OF m that] bind by blast
  have published: "\<not> young ((ds(p := pc)) q)" if "ds p = WriteMetadata" for q
    using young_unique [OF lock ok, of p q] that serve_step_metadata(4) [OF m that] by (auto simp: young_def)
  have waits: "cs c \<noteq> Spawning" if "ds p = WriteMetadata" for c
    using none_young [OF lock ok, of c p] that by (auto simp: young_def)
  show ?thesis
    unfolding young_ok_def
  proof (intro conjI allI impI)
    fix q assume y: "young ((ds(p := pc)) q)"
    then have w: "ds p \<noteq> WriteMetadata" using published by blast
    from y have "young (ds q)" using serve_step_metadata(1) [OF m] by (auto split: if_splits)
    then show "\<exists>c. cs c = Waiting None \<and> ch c = Some q" by (rule young_okD(1) [OF ok])
    show "\<not> daemon_ready (ds(p := pc)) e'" using \<open>young (ds q)\<close> by (intro unready w young_okD(2) [OF ok])
  next
    fix c assume c: "cs c = Spawning"
    then have "\<not> daemon_ready ds e" by (rule young_okD(3) [OF ok])
    then show "\<not> daemon_ready (ds(p := pc)) e'" using unready waits c by blast
  next
    fix q assume u: "unpublished ((ds(p := pc)) q)"
    then have w: "ds p \<noteq> WriteMetadata" using published unpublished_young by blast
    have kept: "metadata_file e' = None" if "metadata_file e = None" using serve_step_metadata(2) [OF m] w that by blast
    show "metadata_file e' = None"
    proof (cases "q = p")
      case True
      then show ?thesis using serve_step_metadata(3) [OF m] u young_okD(4) [OF ok, of p] by auto
    next
      case False
      then show ?thesis using u young_okD(4) [OF ok, of q] kept by simp
    qed
  qed
qed

lemma young_ok_killed: "young_ok e ds cs ch \<Longrightarrow> young_ok e (ds(p := Killed)) cs ch"
proof -
  assume ok: "young_ok e ds cs ch"
  have "\<not> daemon_ready (ds(p := Killed)) e" if "\<not> daemon_ready ds e"
    using that by (auto simp: daemon_ready_def daemon_is_running_def listening_def split: option.splits)
  with ok show ?thesis by (auto simp: young_ok_def young_def unpublished_def starting_up_def split: if_splits)
qed

section \<open>Clients\<close>

lemma locked_ok_move:
  assumes ok: "locked_ok lock cs" and "holds_lock pc = (lock' = Some c)" "\<And>d. d \<noteq> c \<Longrightarrow> (lock = Some d) = (lock' = Some d)"
  shows "locked_ok lock' (cs(c := pc))"
  unfolding locked_ok_def
proof
  fix d
  show "holds_lock ((cs(c := pc)) d) = (lock' = Some d)"
    using assms(2, 3) locked_okD [OF ok, of d] by (cases "d = c") simp_all
qed

lemma locked_ok_take: "locked_ok None cs \<Longrightarrow> holds_lock pc \<Longrightarrow> locked_ok (Some c) (cs(c := pc))"
  by (erule locked_ok_move) simp_all

lemma locked_ok_free:
  assumes "locked_ok lock cs" "holds_lock (cs c)" "\<not> holds_lock pc"
  shows "locked_ok None (cs(c := pc))"
  using assms(1)
proof (rule locked_ok_move)
  show "(lock = Some d) = (None = Some d)" if "d \<noteq> c" for d
    using that assms(2) locked_okD [OF assms(1), of c] by simp
qed (use assms(3) in simp)

lemma locked_ok_stay:
  assumes "locked_ok lock cs" "holds_lock pc = holds_lock (cs c)"
  shows "locked_ok lock (cs(c := pc))"
  by (rule locked_ok_move [OF assms(1)]) (use assms(2) locked_okD [OF assms(1), of c] in simp_all)

lemma young_ok_move:
  assumes ok: "young_ok e ds cs ch"
    and "\<And>p. cs c = Waiting None \<Longrightarrow> pc \<noteq> Waiting None \<Longrightarrow> ch c = Some p \<Longrightarrow> \<not> young (ds p)"
    and "pc = Spawning \<Longrightarrow> \<not> daemon_ready ds e"
  shows "young_ok e ds (cs(c := pc)) ch"
  unfolding young_ok_def
proof (intro conjI allI impI)
  fix p assume y: "young (ds p)"
  then obtain d where d: "cs d = Waiting None" "ch d = Some p" using young_okD(1) [OF ok] by blast
  then have "(cs(c := pc)) d = Waiting None" using assms(2) y by auto
  with d show "\<exists>d. (cs(c := pc)) d = Waiting None \<and> ch d = Some p" by blast
  show "\<not> daemon_ready ds e" by (rule young_okD(2) [OF ok y])
next
  fix d assume "(cs(c := pc)) d = Spawning"
  then show "\<not> daemon_ready ds e" using assms(3) young_okD(3) [OF ok, of d] by (cases "d = c") simp_all
next
  fix p assume "unpublished (ds p)"
  then show "metadata_file e = None" by (rule young_okD(4) [OF ok])
qed

text \<open>The child of the client that holds the lock.\<close>

lemma young_ok_spawn:
  assumes lock: "locked_ok lock cs" and ok: "young_ok e ds cs ch" and c: "cs c = Spawning" and p: "ds p = Absent"
  shows "young_ok e (ds(p := EnsureState)) (cs(c := Waiting None)) (ch(c := Some p))"
proof -
  have old: "\<not> young (ds q)" for q by (rule none_young [OF lock ok, of c]) (simp_all add: c)
  have "\<not> daemon_ready (ds(p := EnsureState)) e"
    using young_okD(3) [OF ok c] by (auto simp: daemon_ready_def daemon_is_running_def listening_def split: option.splits)
  moreover have "(cs(c := Waiting None)) d \<noteq> Spawning" for d
    using locked_unique [OF lock, of d c] c by auto
  moreover have "\<not> unpublished ((ds(p := EnsureState)) q)" for q
    using old unpublished_young by (auto simp: unpublished_def)
  moreover have "q = p" if "young ((ds(p := EnsureState)) q)" for q
    using that old by (auto split: if_splits)
  ultimately show ?thesis
    unfolding young_ok_def by (intro conjI allI impI) (metis fun_upd_same, blast+)
qed

lemma gone_old: "gone pc \<Longrightarrow> \<not> young pc"
  by (cases pc) (simp_all add: gone_def young_def starting_up_def)

lemma system_okI:
  "\<lbrakk>locked_ok lock cs; young_ok (endpoint_files h) (daemons h) cs ch\<rbrakk> \<Longrightarrow>
    system_ok \<lparr>sys_lock = lock, sys_host = h, clients = cs, child_of = ch\<rparr>"
  by (simp add: system_ok_def)

lemma system_eta: "\<lparr>sys_lock = sys_lock s, sys_host = sys_host s, clients = cs, child_of = child_of s\<rparr> = s\<lparr>clients := cs\<rparr>"
  by (cases s) simp

lemma set_daemon_simps [simp]:
  "endpoint_files (set_daemon p pc h) = endpoint_files h" "daemons (set_daemon p pc h) = (daemons h)(p := pc)"
  by (simp_all add: set_daemon_def)

lemma startup_step_outside:
  assumes "startup_step n v c = (pc, x)" "\<not> holds_lock c" "c \<noteq> TryLock"
  shows "x = NoAction" "\<not> holds_lock pc"
  using assms by (cases c; auto simp: startup_step_def split: if_splits sum.splits)+

lemma system_okD:
  assumes "system_ok s"
  shows "locked_ok (sys_lock s) (clients s)"
    "young_ok (endpoint_files (sys_host s)) (sys_daemons s) (clients s) (child_of s)"
  using assms by (simp_all add: system_ok_def)

lemma system_ok_client:
  assumes ok: "system_ok s" and v: "client_sees s c v" and m: "startup_step n v (clients s c) = (pc, x)"
    and fresh: "x = SpawnChild \<Longrightarrow> sys_daemons s p = Absent"
  shows "system_ok ((system_act c p x s)\<lparr>clients := (clients s)(c := pc)\<rparr>)"
proof -
  let ?e = "endpoint_files (sys_host s)" and ?ds = "sys_daemons s"
  have lock: "locked_ok (sys_lock s) (clients s)" and young: "young_ok ?e ?ds (clients s) (child_of s)"
    by (rule system_okD [OF ok])+
  have stay: ?thesis if "x = NoAction" "holds_lock pc = holds_lock (clients s c)" "pc \<noteq> Spawning" "clients s c \<noteq> Waiting None"
  proof -
    have "young_ok ?e ?ds ((clients s)(c := pc)) (child_of s)" by (rule young_ok_move [OF young]) (use that in simp_all)
    then show ?thesis using locked_ok_stay [OF lock, of pc c] that by (simp add: system_act_def system_ok_def)
  qed
  have outside: ?thesis if "\<not> holds_lock (clients s c)" "clients s c \<noteq> TryLock"
  proof -
    have "x = NoAction" "\<not> holds_lock pc" by (rule startup_step_outside [OF m that])+
    moreover from this have "pc \<noteq> Spawning" by auto
    ultimately show ?thesis using that by (intro stay) auto
  qed
  have free: ?thesis if "x = FreeLock" "holds_lock (clients s c)" "\<not> holds_lock pc"
    "\<And>q. clients s c = Waiting None \<Longrightarrow> child_of s c = Some q \<Longrightarrow> \<not> young (?ds q)"
  proof -
    have "pc \<noteq> Spawning" using that(3) by auto
    then have "young_ok ?e ?ds ((clients s)(c := pc)) (child_of s)" using that by (intro young_ok_move [OF young]) simp_all
    then show ?thesis using locked_ok_free [OF lock that(2, 3)] that(1) by (simp add: system_act_def system_ok_def)
  qed
  obtain ex where ex: "sv_exited v = Inr ex" "ex \<noteq> None \<Longrightarrow> \<exists>q. child_of s c = Some q \<and> gone (?ds q)"
    using v unfolding client_sees_def by blast
  have ready: "sv_ready v \<Longrightarrow> daemon_ready ?ds ?e" using v by (simp add: client_sees_def sys_ready_def)
  show ?thesis
  proof (cases "clients s c")
    case TryLock
    show ?thesis
    proof (cases "sv_lock v")
      case (Inr f)
      then have f: "f = (sys_lock s = None)" using v by (simp add: client_sees_def)
      show ?thesis
      proof (cases f)
        case True
        then have x: "pc = Recheck" "x = TakeLock" using m by (simp_all add: TryLock startup_step_def Inr)
        have "young_ok ?e ?ds ((clients s)(c := pc)) (child_of s)" by (rule young_ok_move [OF young]) (simp_all add: TryLock x)
        moreover have "locked_ok (Some c) ((clients s)(c := pc))" using lock True f x by (intro locked_ok_take) simp_all
        ultimately show ?thesis by (simp add: system_act_def system_ok_def x)
      next
        case False
        then show ?thesis using m by (intro stay) (auto simp: TryLock startup_step_def Inr)
      qed
    next
      case (Inl err)
      then show ?thesis using m by (intro stay) (auto simp: TryLock startup_step_def)
    qed
  next
    case Recheck
    show ?thesis
    proof (cases "sv_ready v")
      case True
      then show ?thesis using m by (intro free) (auto simp: Recheck startup_step_def)
    next
      case False
      then have x: "pc = Spawning" "x = NoAction" using m by (simp_all add: Recheck startup_step_def)
      have "\<not> daemon_ready ?ds ?e" using v False Recheck by (simp add: client_sees_def sys_ready_def)
      then have "young_ok ?e ?ds ((clients s)(c := pc)) (child_of s)" by (intro young_ok_move [OF young]) (simp_all add: Recheck)
      then show ?thesis using locked_ok_stay [OF lock, of pc c] by (simp add: system_act_def system_ok_def x Recheck)
    qed
  next
    case Spawning
    show ?thesis
    proof (cases "sv_spawn v")
      case (Inl err)
      then show ?thesis using m by (intro free) (auto simp: Spawning startup_step_def)
    next
      case (Inr u)
      then have x: "pc = Waiting None" "x = SpawnChild" using m by (simp_all add: Spawning startup_step_def)
      show ?thesis
        using young_ok_spawn [OF lock young Spawning fresh [OF x(2)]] locked_ok_stay [OF lock, of pc c]
        by (simp add: system_act_def system_ok_def x Spawning)
    qed
  next
    case (Waiting y)
    show ?thesis
    proof (cases "x = KillChild")
      case True
      then have pc: "\<not> holds_lock pc" "pc \<noteq> Spawning" "y = None"
        using m by (auto simp: Waiting startup_step_def split: if_splits option.splits sum.splits)
      let ?h = "case child_of s c of None \<Rightarrow> sys_host s | Some q \<Rightarrow> set_daemon q Killed (sys_host s)"
      have "young_ok (endpoint_files ?h) (daemons ?h) ((clients s)(c := pc)) (child_of s)"
      proof (cases "child_of s c")
        case None
        then show ?thesis using pc by (auto intro: young_ok_move [OF young])
      next
        case (Some q)
        have "young_ok ?e (?ds(q := Killed)) ((clients s)(c := pc)) (child_of s)"
          by (rule young_ok_move [OF young_ok_killed [OF young]])
            (use pc Some in \<open>auto simp: young_def starting_up_def\<close>)
        then show ?thesis by (simp add: Some)
      qed
      moreover have "locked_ok None ((clients s)(c := pc))" by (rule locked_ok_free [OF lock]) (simp_all add: Waiting pc)
      ultimately show ?thesis by (simp add: system_act_def system_ok_def True)
    next
      case alive: False
      show ?thesis
      proof (cases "x = FreeLock")
        case True
        have "\<not> young (?ds q)" if "y = None" "child_of s c = Some q" for q
        proof -
          have "sv_ready v" using m True that(1) ex(1)
            by (auto simp: Waiting startup_step_def split: if_splits option.splits sum.splits)
          then show ?thesis using ready young_okD(2) [OF young] by blast
        qed
        moreover have "\<not> holds_lock pc" using m True by (auto simp: Waiting startup_step_def split: if_splits option.splits sum.splits)
        ultimately show ?thesis by (intro free [OF True]) (simp_all add: Waiting)
      next
        case False
        then have x: "x = NoAction" "pc = Waiting (if y = None then ex else y)"
          using m alive ex(1) by (auto simp: Waiting startup_step_def split: if_splits option.splits sum.splits)
        have "young_ok ?e ?ds ((clients s)(c := pc)) (child_of s)"
          by (rule young_ok_move [OF young]) (use x ex(2) gone_old Waiting in \<open>auto split: if_splits\<close>)
        then show ?thesis using locked_ok_stay [OF lock, of pc c] by (simp add: system_act_def system_ok_def x Waiting)
      qed
    qed
  qed (use outside in simp_all)
qed

lemma system_ok_step: "system_step s s' \<Longrightarrow> system_ok s \<Longrightarrow> system_ok s'"
proof (induction rule: system_step.induct)
  case (client_acts s c v socket_name pc x p)
  then show ?case by (intro system_ok_client)
next
  case (client_returns s c)
  have lock: "locked_ok (sys_lock s) (clients s)" and young: "young_ok (endpoint_files (sys_host s)) (sys_daemons s) (clients s) (child_of s)"
    by (rule system_okD [OF client_returns.prems])+
  have c: "\<not> holds_lock (clients s c)" "clients s c \<noteq> Waiting None" using client_returns.hyps by auto
  have "young_ok (endpoint_files (sys_host s)) (sys_daemons s) ((clients s)(c := FirstCheck)) (child_of s)"
    by (rule young_ok_move [OF young]) (use c in simp_all)
  then show ?case using locked_ok_stay [OF lock, of FirstCheck c] c by (simp add: system_ok_def)
next
  case (process_acts path v s p e pc)
  note ok = system_okD [OF process_acts.prems]
  show ?case using ok(1) young_ok_process [OF ok process_acts.hyps] by (simp add: system_ok_def)
next
  case (process_killed s p)
  then show ?case using young_ok_killed by (simp add: system_ok_def)
qed

lemma system_reachable_ok: "system_reachable s \<Longrightarrow> system_ok s"
proof (induction rule: system_reachable.induct)
  case (system_first e)
  show ?case by (simp add: system_ok_def locked_ok_def young_ok_def young_def starting_up_def unpublished_def)
qed (rule system_ok_step)

section \<open>Daemons start one after another\<close>

text \<open>A step of the system is a step of the daemon processes of \<open>Daemon_Endpoint\<close>, or leaves them alone.\<close>

lemma client_simulated:
  assumes ok: "system_ok s" and m: "startup_step n v (clients s c) = (pc, x)" and fresh: "x = SpawnChild \<Longrightarrow> sys_daemons s p = Absent"
  shows "sys_host (system_act c p x s) = sys_host s \<or> endpoint_step (sys_host s) (sys_host (system_act c p x s))"
proof (cases x)
  case SpawnChild
  then have "clients s c = Spawning"
    using m by (cases "clients s c") (auto simp: startup_step_def split: if_splits option.splits sum.splits bool.splits)
  then have "\<not> young (sys_daemons s q)" for q by (intro none_young [OF system_okD [OF ok], of c]) simp_all
  then have "\<not> starting_up (sys_daemons s q)" for q by (simp add: young_def)
  then show ?thesis using daemon_starts [OF fresh [OF SpawnChild]] by (simp add: system_act_def SpawnChild set_daemon_def)
next
  case KillChild
  then show ?thesis using daemon_killed [of "sys_host s"] by (cases "child_of s c") (simp_all add: system_act_def set_daemon_def)
qed (simp_all add: system_act_def)

lemma system_simulated:
  assumes "system_step s s'" "system_ok s"
  shows "sys_host s' = sys_host s \<or> endpoint_step (sys_host s) (sys_host s')"
  using assms
proof (induction rule: system_step.induct)
  case (client_acts s c v n pc x p)
  then show ?case using client_simulated [OF client_acts.prems client_acts.hyps(2, 3)] by simp
next
  case (process_acts path v s p e pc)
  then show ?case using daemon_moves by simp
next
  case (process_killed s p)
  then show ?case using daemon_killed by (simp add: set_daemon_def)
qed simp

lemma system_refines: "system_reachable s \<Longrightarrow> endpoint_reachable (sys_host s)"
proof (induction rule: system_reachable.induct)
  case (system_first e)
  show ?case using endpoint_first by simp
next
  case (system_next s s')
  then show ?case using system_simulated [OF system_next.hyps(2) system_reachable_ok [OF system_next.hyps(1)]] endpoint_next by auto
qed


section \<open>Properties\<close>

text \<open>\<^bold>\<open>C18\<close> However many clients start daemons at once, and whenever clients give up and daemons stop, fail
  or are killed: a process that has not yet published its metadata is the child of the client that
  holds the startup lock, so that there is one such process at most; hence daemons start one after
  another, as \<open>Daemon_Endpoint\<close> demands, and one process at most owns the endpoint.\<close>

theorem startup_lock_serializes_daemons:
  assumes "system_reachable s"
  shows "endpoint_reachable (sys_host s)
    \<and> (\<forall>p. young (sys_daemons s p) \<longrightarrow> (\<exists>c. sys_lock s = Some c \<and> child_of s c = Some p) \<and> \<not> sys_ready s)
    \<and> (\<forall>p q. young (sys_daemons s p) \<longrightarrow> young (sys_daemons s q) \<longrightarrow> p = q)
    \<and> (\<forall>p q. owns (sys_daemons s p) \<longrightarrow> owns (sys_daemons s q) \<longrightarrow> p = q)"
proof (intro conjI allI impI)
  note ok = system_okD [OF system_reachable_ok [OF assms]]
  show host: "endpoint_reachable (sys_host s)" by (rule system_refines [OF assms])
  show "\<exists>c. sys_lock s = Some c \<and> child_of s c = Some p" if y: "young (sys_daemons s p)" for p
  proof -
    obtain c where c: "clients s c = Waiting None" "child_of s c = Some p" using young_okD(1) [OF ok(2) y] by (elim exE conjE)
    then show ?thesis using locked_okD [OF ok(1), of c] by simp
  qed
  show "\<not> sys_ready s" if "young (sys_daemons s p)" for p unfolding sys_ready_def by (rule young_okD(2) [OF ok(2) that])
  show "p = q" if "young (sys_daemons s p)" "young (sys_daemons s q)" for p q by (rule young_unique [OF ok that])
  have e: "endpoint_ok (endpoint_files (sys_host s)) (sys_daemons s)" by (rule endpoint_reachable_ok [OF host])
  show "p = q" if "owns (sys_daemons s p)" "owns (sys_daemons s q)" for p q
    using endpoint_okD(1) [OF e that(1)] endpoint_okD(1) [OF e that(2)] by simp
qed

text \<open>A client that finds no daemon and starts one.\<close>

definition one_client :: "nat option \<Rightarrow> startup_pc \<Rightarrow> daemon_pc \<Rightarrow> nat option \<Rightarrow> system" where
  "one_client lock pc d child = \<lparr>sys_lock = lock,
     sys_host = \<lparr>endpoint_files = \<lparr>socket_file = None, metadata_file = None\<rparr>, daemons = (\<lambda>_. Absent)(0 := d)\<rparr>,
     clients = (\<lambda>_. FirstCheck)(0 := pc), child_of = (\<lambda>_. None)(0 := child)\<rparr>"

definition looking :: "bool \<Rightarrow> startup_view" where
  "looking free = \<lparr>sv_ready = False, sv_directory = Inr (), sv_lock = Inr free, sv_late = False, sv_spawn = Inr (), sv_exited = Inr None\<rparr>"

lemma one_client_moves:
  assumes r: "system_reachable (one_client lock pc d child)"
    and m: "startup_step ''s'' (looking (lock = None)) pc = (pc', x)" "x = SpawnChild \<Longrightarrow> d = Absent"
    and after: "(system_act 0 0 x (one_client lock pc d child))\<lparr>clients := (\<lambda>_. FirstCheck)(0 := pc')\<rparr> = s"
  shows "system_reachable s"
proof -
  let ?s = "one_client lock pc d child"
  have "\<not> sys_ready ?s" by (simp add: sys_ready_def one_client_def daemon_ready_def)
  then have "client_sees ?s 0 (looking (lock = None))" by (simp add: client_sees_def looking_def) (simp add: one_client_def)
  then have "system_step ?s ((system_act 0 0 x ?s)\<lparr>clients := (clients ?s)(0 := pc')\<rparr>)"
    by (rule client_acts) (use m in \<open>simp_all add: one_client_def\<close>)
  then show ?thesis using system_next [OF r] after by (simp add: one_client_def)
qed

lemma one_client_starts: "system_reachable (one_client (Some 0) (Waiting None) EnsureState (Some 0))"
proof -
  note steps = startup_step_def looking_def system_act_def one_client_def set_daemon_def
  have "system_reachable (one_client None FirstCheck Absent None)"
    using system_first by (simp add: one_client_def fun_upd_idem)
  then have "system_reachable (one_client None Prepare Absent None)"
    by (rule one_client_moves [where x = NoAction]) (simp_all add: steps)
  then have "system_reachable (one_client None LoopCheck Absent None)"
    by (rule one_client_moves [where x = NoAction]) (simp_all add: steps)
  then have "system_reachable (one_client None TryLock Absent None)"
    by (rule one_client_moves [where x = NoAction]) (simp_all add: steps)
  then have "system_reachable (one_client (Some 0) Recheck Absent None)"
    by (rule one_client_moves [where x = TakeLock]) (simp_all add: steps)
  then have "system_reachable (one_client (Some 0) Spawning Absent None)"
    by (rule one_client_moves [where x = NoAction]) (simp_all add: steps)
  then show ?thesis by (rule one_client_moves [where x = SpawnChild]) (simp_all add: steps)
qed

theorem startup_lock_serializes_daemons_witness:
  "endpoint_reachable (sys_host (one_client (Some 0) (Waiting None) EnsureState (Some 0)))
   \<and> \<not> sys_ready (one_client (Some 0) (Waiting None) EnsureState (Some 0))
   \<and> sys_daemons (one_client (Some 0) (Waiting None) EnsureState (Some 0)) 0 = EnsureState"
proof -
  let ?s = "one_client (Some 0) (Waiting None) EnsureState (Some 0)"
  have d: "sys_daemons ?s 0 = EnsureState" by (simp add: one_client_def)
  then have y: "young (sys_daemons ?s 0)" by (simp add: young_def starting_up_def)
  from startup_lock_serializes_daemons [OF one_client_starts] y d show ?thesis by blast
qed

end
