(* ===== verification/Daemon_Main.thy ===== *)
theory Daemon_Main
  imports Cli_Endpoint
begin

text \<open>
  What surrounds the server and the client: \<^verbatim>\<open>crates/walaru-daemon/src/main.rs\<close>, the entry point of a
  daemon process, and the names made from the process and the clock, \<^verbatim>\<open>session_id\<close> of
  \<^verbatim>\<open>crates/walaru-daemon/src/server.rs\<close> and \<^verbatim>\<open>request_id\<close> of \<^verbatim>\<open>crates/walaru-cli/src/main.rs\<close>.
\<close>

section \<open>Names from the process and the clock\<close>

text \<open>\<^verbatim>\<open>duration_since(UNIX_EPOCH).unwrap_or_default().as_nanos()\<close>: a clock before the epoch counts as the
  epoch.\<close>

definition epoch_nanos :: "int \<Rightarrow> nat" where
  "epoch_nanos now = (if now < 0 then 0 else nat now)"

definition daemon_session_id :: "nat \<Rightarrow> int \<Rightarrow> string" where
  "daemon_session_id pid now = ''session-'' @ show_nat pid @ ''-'' @ show_nat (epoch_nanos now)"

definition client_request_id :: "nat \<Rightarrow> int \<Rightarrow> string" where
  "client_request_id pid now = ''request-'' @ show_nat pid @ ''-'' @ show_nat (epoch_nanos now)"

lemma digits_before_dash:
  assumes "s @ ''-'' @ x = t @ ''-'' @ y" "CHR ''-'' \<notin> set s" "CHR ''-'' \<notin> set t"
  shows "s = t \<and> x = y"
  using assms
proof (induction s arbitrary: t)
  case Nil
  then show ?case by (cases t) auto
next
  case (Cons c s)
  then show ?case by (cases t) auto
qed

lemma show_nat_without_dash: "CHR ''-'' \<notin> set (show_nat n)"
proof
  assume "CHR ''-'' \<in> set (show_nat n)"
  then have "is_ascii_digit (CHR ''-'')" by (rule show_nat_digits)
  then show False by (simp add: is_ascii_digit_def byte_of_def)
qed

lemma stamped_eq:
  "show_nat p @ ''-'' @ show_nat a = show_nat q @ ''-'' @ show_nat b \<longleftrightarrow> p = q \<and> a = b"
  using digits_before_dash [OF _ show_nat_without_dash show_nat_without_dash] show_nat_inj by blast

text \<open>Two names agree only if the process and the clock did: sessions of different processes differ,
  and so do requests of one process at different times after the epoch.\<close>

lemma names_distinct:
  "daemon_session_id p a = daemon_session_id q b \<longleftrightarrow> p = q \<and> epoch_nanos a = epoch_nanos b"
  "client_request_id p a = client_request_id q b \<longleftrightarrow> p = q \<and> epoch_nanos a = epoch_nanos b"
  unfolding daemon_session_id_def client_request_id_def same_append_eq stamped_eq by simp_all

section \<open>The entry point of a daemon\<close>

text \<open>The arguments without the name of the program.  \<open>show\<close> is \<^verbatim>\<open>Display\<close> of the error; \<open>serve\<close> is \<open>None\<close> while the
  server runs.  The result is the text on the error stream and the exit code; further arguments are
  ignored.\<close>

definition daemon_main ::
  "(daemon_error \<Rightarrow> string) \<Rightarrow> string list \<Rightarrow> (string \<Rightarrow> (daemon_error + unit) option) \<Rightarrow> (string \<times> int) option" where
  "daemon_main show args serve =
     (let usage = Some (''usage: walaru-daemon --workspace <path>'' @ [LF], 2)
      in case args of
          x # workspace # _ \<Rightarrow>
            if x = ''--workspace''
            then (case serve workspace of
                None \<Rightarrow> None
              | Some (Inl e) \<Rightarrow> Some (''walaru-daemon: '' @ show e @ [LF], 3)
              | Some (Inr _) \<Rightarrow> Some ([], 0))
            else usage
        | _ \<Rightarrow> usage)"

text \<open>The result of a process that has left \<^verbatim>\<open>serve\<close>.\<close>

definition serve_result :: "daemon_pc \<Rightarrow> (daemon_error + unit) option" where
  "serve_result pc = (case pc of Exited r \<Rightarrow> Some r | _ \<Rightarrow> None)"

text \<open>A daemon ends with zero exactly when it was given a worktree and was stopped.\<close>

lemma daemon_main_zero:
  "daemon_main show args serve = Some (out, 0) \<longleftrightarrow>
     out = [] \<and> (\<exists>workspace rest. args = ''--workspace'' # workspace # rest \<and> serve workspace = Some (Inr ()))"
  by (auto simp: daemon_main_def Let_def split: list.splits option.splits sum.splits)

text \<open>A daemon started while another one answers ends after three accesses, touches no file and says
  why with exit code three.\<close>

lemma second_daemon_refused:
  assumes running: "daemon_is_running (daemons s) (endpoint_files s)" and new: "daemons s p = EnsureState"
  shows "endpoint_files (fair_run False p 3 s) = endpoint_files s"
    and "daemon_main show (''--workspace'' # w # rest) (\<lambda>_. serve_result (daemons (fair_run False p 3 s) p))
      = Some (''walaru-daemon: '' @ show (AlreadyRunning ''s'') @ [LF], 3)"
proof -
  obtain q where q: "socket_file (endpoint_files s) = Some q" "listening (daemons s q)"
    using running by (auto simp: daemon_is_running_def split: option.splits)
  with new have "q \<noteq> p" by (auto simp: listening_def)
  then have "fair_run False p 3 s = s\<lparr>daemons := (daemons s)(p := Exited (Inl (AlreadyRunning ''s'')))\<rparr>"
    using q new by (simp add: eval_nat_numeral serve_steps fair_view_def daemon_is_running_def)
  then show "endpoint_files (fair_run False p 3 s) = endpoint_files s"
    and "daemon_main show (''--workspace'' # w # rest) (\<lambda>_. serve_result (daemons (fair_run False p 3 s) p))
      = Some (''walaru-daemon: '' @ show (AlreadyRunning ''s'') @ [LF], 3)"
    by (simp_all add: daemon_main_def serve_result_def)
qed

end
