(* ===== verification/Spec2Isabelle.thy ===== *)
theory Spec2Isabelle
  imports Java_Surface Store_Paging Store_Retention Mirror_Sessions Verifier_Redaction Daemon_Types Daemon_Endpoint Tui_Invariant Cli_Facts Cli_Endpoint Daemon_Main
begin

text \<open>
  A verification development of Walaru, a local daemon that verifies the working tree of a JVM
  project, records executions of its tests and navigates them backwards.

  \<^bold>\<open>The program.\<close>  A command line client sends one framed request to a daemon that owns one
  worktree (\<^verbatim>\<open>crates/walaru-daemon/src/server.rs\<close>).  The daemon runs verifications through the build
  tool of the project (\<^verbatim>\<open>verifier.rs\<close>), on the worktree or on a private mirror of it that holds the
  unsaved documents of an editor (\<^verbatim>\<open>overlay.rs\<close>).  The worker writes a stream of records that the
  verifier turns into events, tests, failures, coverage and dependencies in a database
  (\<^verbatim>\<open>crates/walaru-core/src/store.rs\<close>).  Revisions of the worktree are digests of its files
  (\<^verbatim>\<open>workspace.rs\<close>, \<^verbatim>\<open>event.rs\<close>); failures are explained from the events (\<^verbatim>\<open>analysis.rs\<close>); recordings are
  navigated and their fresh executions compared by \<^verbatim>\<open>replay.rs\<close>; every response is the envelope of
  \<^verbatim>\<open>protocol.rs\<close>.  The client (\<^verbatim>\<open>crates/walaru-cli/src/main.rs\<close>) starts the daemon when none answers, turns
  arguments into a request and prints the answer as JSON or as the text of \<^verbatim>\<open>human.rs\<close>; \<^verbatim>\<open>tui.rs\<close> is a
  dashboard over the same requests.

  \<^bold>\<open>The theories.\<close>
  \<^item> \<open>Rust_Prelude\<close>, \<open>Rust_Decimal\<close>, \<open>Rust_Collections\<close>, \<open>Json\<close>, \<open>Rust_Path\<close>: what the source uses of the
    language and its library.  Strings are their UTF-8 bytes, ordered maps and sets are strictly
    sorted lists with the map laws as a locale, fallible code is a sum with the error on the left.
  \<^item> \<open>Protocol\<close>, \<open>Identity\<close>: the envelope and the messages; canonical paths and digests of identities.
  \<^item> \<open>Workspace\<close>: the walk over a file tree, the captured revision, the digest of a source's surface;
    \<open>Java_Surface\<close> has exactly which part of a Java source that digest sees.
  \<^item> \<open>Replay\<close>: recordings, their validation, backward steps, the comparison of a fresh execution.
  \<^item> \<open>Store\<close>: every table as a list of rows and every operation with the meaning of its statements;
    \<open>Store_Invariant\<close> has the well-formedness of a database (keys, references, ranges, readable
    payloads) kept by every history, \<open>Store_Paging\<close> the completeness of its pages, \<open>Store_Retention\<close>
    what pruning removes and keeps.
  \<^item> \<open>Analysis\<close>: the explanation of a failure.
  \<^item> \<open>Overlay\<close>: the validation of overlay requests.  \<open>Mirror\<close>: the private mirror of the worktree, a map from
    paths to entries, with every operation of its preparation; \<open>Mirror_Exact\<close> has what one operation
    leaves where, \<open>Mirror_Trust\<close> which metadata is trusted and what a preparation reaches, \<open>Mirror_Sessions\<close>
    the guarantees over whole sessions, interrupted ones included, with samples.
  \<^item> \<open>Verifier_Data\<close>, \<open>Verifier_Ingest\<close>, \<open>Verifier_Problems\<close>, \<open>Verifier_Run\<close>, \<open>Verifier_Redaction\<close>,
    \<open>Verifier_Recording\<close>: the verifier.  Its data and artifacts; the stream of records; compiler messages;
    command lines, supervision, impact, cache and verdict; what an ingestion stores of private values;
    recordings and replays.
  \<^item> \<open>Wire\<close>: the JSON value of every record that a response quotes, field by field.
  \<^item> \<open>Transport\<close>: frames, connection threads, query options, field masks and response limits.
  \<^item> \<open>Daemon_Endpoint\<close>: the life of a daemon process at its socket and metadata file, as interleaving steps.
  \<^item> \<open>Daemon_Verify\<close>: the validation of a verification request and the protocol of generation, gate and
    cancellation token as a step relation over interleaving threads, with the sequential handler.
  \<^item> \<open>Daemon\<close>: the handler of every command, the dispatcher and the total \<^verbatim>\<open>handle\<close>; \<open>Daemon_Responses\<close>
    and \<open>Daemon_Samples\<close> prove what responses guarantee and give concrete requests; \<open>Daemon_Types\<close> proves the
    type of their data.
  \<^item> \<open>Human\<close>: the text of every command and its columns.
  \<^item> \<open>Tui\<close>: the dashboard, its keys, its background operation, its event loop and the contents of its
    frames; \<open>Tui_Invariant\<close> has its invariant.
  \<^item> \<open>Cli\<close>: arguments, requests, the steps of a client that starts a daemon, and the run from the
    arguments to the exit code; \<open>Cli_Startup\<close> lets clients interleave; \<open>Cli_Facts\<close> connects client and daemon.
  \<^item> \<open>Cli_Endpoint\<close>: the clients of \<open>Cli_Startup\<close> and the daemon processes of \<open>Daemon_Endpoint\<close> in one system,
    with the startup lock between them; every run of it is a run in which daemons start one after another.
  \<^item> \<open>Daemon_Main\<close>: the entry point of a daemon process and the names made from the process and the clock.

  \<^bold>\<open>What is shown.\<close>  A passed verification has fresh passed evidence for every selected test at an
  unchanged revision, and the store names a latest passed revision only for such a run.  A
  verification that was superseded or cancelled is never reported, at most one runs at a time, and
  an undisturbed one always replies.  A replay is confirmed only by a fresh run that matches the recording it
  names up to the event it asks for.  The
  store stays well formed through every sequence of operations, verifications and requests; its
  pages are complete and pruning respects its bounds.  A prepared mirror holds the documents and the
  other source files and nothing an earlier preparation left, and nothing is trusted after a
  preparation that failed once it had changed anything.  The startup lock lets one daemon start at a time, one daemon owns the endpoint, and
  both hold of the system of all clients and daemons together; clients end by their deadline; the request that runs is the one typed, and exit code zero means it passed.
  The data of every response, internal errors included, is an ordered JSON object, and its status agrees
  with its exit code.
  The dashboard keeps its selections inside its lists.  Validation of recordings and overlays and the
  surface of a Java source are characterised exactly; tapes, frames and lines of the stream round trip;
  of a value that the worker marks private an ingestion stores only a fixed mark; impact
  selection narrows only for changes that leave the surface digest; supervision decides at the first poll that
  ends it, and the loops end.  Some theorems state behaviour that looks unintended:
  static initializers lost from a surface, two spellings of one overlay path, recordings of tests
  that did not run, a requeued verification that stays registered, a failure shown under another
  test, and the metadata of a new daemon removed by the old one.

  \<^bold>\<open>Interfaces.\<close>  The laws of ordered maps, of pages and of the invariants that ingestion,
  verification, the daemon and the preparation of a mirror keep are locales (\<open>evidence_invariant\<close>,
  \<open>verification_invariant\<close>, \<open>mirror_change\<close> and the ones of \<open>Rust_Collections\<close> and the store theories), interpreted on the model's own store; the lemmas
  that a property is kept by a handler are proved once for any invariant.

  \<^bold>\<open>Parameters.\<close>  SHA-256, hexadecimal text, compression, the text of JSON values and of protobuf messages, timestamps as
  text, the build tool and its output, git, files, the clocks and other programs are arguments of
  the definitions (\<open>hashes\<close>, \<open>codec\<close>, \<open>host\<close>, \<open>verify_env\<close>, \<open>world\<close>).  What the code relies on is a named
  hypothesis where a theorem needs it, such as \<open>codec_ok\<close> (what is written within the
  recursion limit reads back, up to the last digits of floating point numbers), \<open>parser_ok\<close> (a parsed line has ordered
  objects, integers of 64 bits and at most 127 levels, for the recursion limit of the parser is 128) and
  \<open>json_library\<close> (what is read is ordered).  Each has an instance in a witness.

  \<^bold>\<open>Bounds.\<close>  Integers that may wrap or be rejected are kept at their range: row numbers and
  sequences against the signed 64-bit range, frame lengths against 16 MiB, the generation and the
  verification ids as words of 64 bits (a generation is confused with an older one only after
  two to the 64 newer requests, which the theorem's bound states).  Times are natural numbers.
  No definition of the program uses fuel: loops end by a measure, and the three that wait for others
  (starting, stopping and watching a daemon, and the dashboard) are partial functions; that starting
  ends is a theorem.

  \<^bold>\<open>Granularity.\<close>  In the step relation every access of a thread to a shared atomic or mutex is one
  step; an attempt of the verifier is one step, whose environment may answer differently at every
  check, so that a cancellation in its middle is covered; other requests do not write to the store
  during that step.

  \<^bold>\<open>Idealisations.\<close>  In the mirror, links are not followed and the only disk errors are structural ones
  (a missing parent, a directory in the way).  A client sees readiness at one moment, as one reading of
  socket, metadata and connection.  That daemons of one worktree start one after another follows from
  the startup lock as long as clients start them: a daemon started by hand, a client that dies while
  its child starts, and a child whose state cannot be asked for are left out.

  \<^bold>\<open>Not modelled.\<close>  The argument parser, the drawing of frames into terminal cells, terminal modes and
  process groups are third-party or system code.  Code for Windows behind conditional compilation is
  left out.  Panics, poisoned locks and exhausted memory are not represented, except the unreachable
  branches of the client, which are the value \<open>None\<close>.  Client and daemon take the names of
  \<open>Daemon_Main\<close> as parameters.  The JVM agent, the build adapters and the editor clients are other
  languages and are met only through the files and processes above.
\<close>

end
